(* ===== verification/Wire_Prelude.thy ===== *)
theory Wire_Prelude
  imports Main "HOL-Library.Word" "HOL-Library.Sublist"
begin

text \<open>
  Shared vocabulary of the development: bytes and instants, the kinds of I/O error the
  transport distinguishes, the clock every deadline is measured on, and the generic facts on
  lists and transition systems that the component theories use.

  The clock is the environment's: each reading moves time on by the next entry of an arbitrary
  list of increments, so a theorem that quantifies over clocks quantifies over every schedule of
  the other threads and every speed of the machine.
\<close>

named_theorems wire_defs \<open>definitions of the model that proofs unfold\<close>

type_synonym byte = "8 word"
type_synonym bytes = "byte list"
type_synonym instant = nat
type_synonym duration = nat


section \<open>Results\<close>

text \<open>The error kinds of \<^verbatim>\<open>std::io::ErrorKind\<close> the transport looks at; every other kind
  is carried as a number.\<close>

datatype io_kind = TimedOut | Interrupted | WriteZero | NotConnected | BrokenPipe | OtherKind nat

text \<open>\<open>std::result::Result\<close> with the error on the left.\<close>

type_synonym ('e, 'a) result = "'e + 'a"

abbreviation Ok :: "'a \<Rightarrow> ('e, 'a) result" where
  "Ok \<equiv> Inr"

abbreviation Err :: "'e \<Rightarrow> ('e, 'a) result" where
  "Err \<equiv> Inl"


text \<open>
  Fallible code that changes a state, and that may block for ever. \<open>None\<close> is a run that never
  returns. \<open>bindr\<close> is Rust's \<^verbatim>\<open>?\<close> operator: it goes on after success and returns the error
  otherwise; \<open>attempt\<close> is a \<^verbatim>\<open>match\<close> on the result.
\<close>

type_synonym ('s, 'e, 'a) run = "'s \<Rightarrow> (('e, 'a) result \<times> 's) option"

definition ret :: "'a \<Rightarrow> ('s, 'e, 'a) run" where
  "ret x s = Some (Ok x, s)"

definition fail :: "'e \<Rightarrow> ('s, 'e, 'a) run" where
  "fail k s = Some (Err k, s)"

definition bindr :: "('s, 'e, 'a) run \<Rightarrow> ('a \<Rightarrow> ('s, 'e, 'b) run) \<Rightarrow> ('s, 'e, 'b) run" where
  "bindr m f s = (case m s of
      None \<Rightarrow> None
    | Some (Err k, s') \<Rightarrow> Some (Err k, s')
    | Some (Ok x, s') \<Rightarrow> f x s')"

definition attempt ::
  "('s, 'e, 'a) run \<Rightarrow> (('e, 'a) result \<Rightarrow> ('s, 'f, 'b) run) \<Rightarrow> ('s, 'f, 'b) run" where
  "attempt m f s = (case m s of None \<Rightarrow> None | Some (r, s') \<Rightarrow> f r s')"

text \<open>A pure change of the state with a result.\<close>

definition act :: "('s \<Rightarrow> 'a \<times> 's) \<Rightarrow> ('s, 'e, 'a) run" where
  "act f s = (let (x, s') = f s in Some (Ok x, s'))"

lemma ret_Some_iff [simp]: "ret x s = Some (r, s') \<longleftrightarrow> r = Ok x \<and> s' = s"
  by (auto simp: ret_def)

lemma fail_Some_iff [simp]: "fail k s = Some (r, s') \<longleftrightarrow> r = Err k \<and> s' = s"
  by (auto simp: fail_def)

lemma ret_fail_not_None [simp]: "ret x s \<noteq> None" "fail k s \<noteq> None"
  by (simp_all add: ret_def fail_def)

lemma act_not_None [simp]: "act f s \<noteq> None"
  by (simp add: act_def case_prod_beta)

lemma act_Some_iff [simp]: "act f s = Some (r, s') \<longleftrightarrow> (\<exists>x. f s = (x, s') \<and> r = Ok x)"
  by (auto simp: act_def split: prod.splits)

lemma bindr_Some_iff:
  "bindr m f s = Some (r, s') \<longleftrightarrow>
     (\<exists>k. m s = Some (Err k, s') \<and> r = Err k) \<or>
     (\<exists>x s1. m s = Some (Ok x, s1) \<and> f x s1 = Some (r, s'))"
  by (auto simp: bindr_def split: option.splits sum.splits)

lemma attempt_Some_iff:
  "attempt m f s = Some (r, s') \<longleftrightarrow> (\<exists>q s1. m s = Some (q, s1) \<and> f q s1 = Some (r, s'))"
  by (auto simp: attempt_def split: option.splits)

lemma bindr_SomeE:
  assumes "bindr m f s = Some (r, s')"
  obtains (err) k where "m s = Some (Err k, s')" "r = Err k"
  | (ok) x s1 where "m s = Some (Ok x, s1)" "f x s1 = Some (r, s')"
  using assms by (auto simp: bindr_Some_iff)

lemma attempt_SomeE:
  assumes "attempt m f s = Some (r, s')"
  obtains q s1 where "m s = Some (q, s1)" "f q s1 = Some (r, s')"
  using assms by (auto simp: attempt_Some_iff)

lemma bindr_assoc: "bindr (bindr m f) g = bindr m (\<lambda>x. bindr (f x) g)"
  by (auto simp: bindr_def fun_eq_iff split: option.splits sum.splits)

lemma bindr_cong [fundef_cong]:
  assumes "m s = m' s'" and "\<And>x t. m' s' = Some (Ok x, t) \<Longrightarrow> f x t = f' x t" and "s = s'"
  shows "bindr m f s = bindr m' f' s'"
  using assms by (auto simp: bindr_def split: option.splits sum.splits)

lemma attempt_cong [fundef_cong]:
  assumes "m s = m' s'" and "\<And>q t. m' s' = Some (q, t) \<Longrightarrow> f q t = f' q t" and "s = s'"
  shows "attempt m f s = attempt m' f' s'"
  using assms by (auto simp: attempt_def split: option.splits)

text \<open>Evaluation of a run, step by step.\<close>

lemmas run_eval = bindr_def attempt_def ret_def fail_def act_def

text \<open>
  \<open>keeps R m\<close>: every run of \<open>m\<close> relates its start to its end state by \<open>R\<close>. For a reflexive
  and transitive \<open>R\<close> it composes, which carries the frame proofs of the transport.
\<close>

definition keeps :: "('s \<Rightarrow> 's \<Rightarrow> bool) \<Rightarrow> ('s, 'e, 'a) run \<Rightarrow> bool" where
  "keeps R m \<longleftrightarrow> (\<forall>s r s'. m s = Some (r, s') \<longrightarrow> R s s')"

lemma keepsD: "keeps R m \<Longrightarrow> m s = Some (r, s') \<Longrightarrow> R s s'"
  by (auto simp: keeps_def)

locale frame_relation =
  fixes R :: "'s \<Rightarrow> 's \<Rightarrow> bool"
  assumes R_refl: "R s s"
    and R_trans: "R s t \<Longrightarrow> R t u \<Longrightarrow> R s u"
begin

lemma keeps_ret: "keeps R (ret x)"
  by (simp add: keeps_def R_refl)

lemma keeps_fail: "keeps R (fail k)"
  by (simp add: keeps_def R_refl)

lemma keeps_bindr: "keeps R m \<Longrightarrow> (\<And>x. keeps R (f x)) \<Longrightarrow> keeps R (bindr m f)"
  unfolding keeps_def bindr_Some_iff by (blast intro: R_trans)

lemma keeps_attempt: "keeps R m \<Longrightarrow> (\<And>q. keeps R (f q)) \<Longrightarrow> keeps R (attempt m f)"
  unfolding keeps_def attempt_Some_iff by (blast intro: R_trans)

end


section \<open>Clock and deadlines\<close>

text \<open>A clock shows \<open>now_at\<close>; each reading first lets the next increment of \<open>ticks\<close> pass.\<close>

record clock =
  now_at :: instant
  ticks :: "nat list"

definition clock_now :: "clock \<Rightarrow> instant \<times> clock" where
  "clock_now c = (case ticks c of
      [] \<Rightarrow> (now_at c, c)
    | d # ds \<Rightarrow> (now_at c + d, \<lparr>now_at = now_at c + d, ticks = ds\<rparr>))"

text \<open>
  \<^verbatim>\<open>Instant::checked_add\<close>: instants are counted in nanoseconds, and the seconds of the
  underlying time value are a signed 64-bit number.
\<close>

definition instant_limit :: nat where
  "instant_limit = 2 ^ 63 * 1000000000"

definition instant_checked_add :: "instant \<Rightarrow> duration \<Rightarrow> instant option" where
  "instant_checked_add t d = (if t + d < instant_limit then Some (t + d) else None)"

definition deadline_after :: "clock \<Rightarrow> duration \<Rightarrow> instant \<times> clock" where
  "deadline_after c timeout =
     (let (now, c') = clock_now c
      in (case instant_checked_add now timeout of Some t \<Rightarrow> t | None \<Rightarrow> now, c'))"

definition check_deadline :: "clock \<Rightarrow> instant \<Rightarrow> (io_kind, unit) result \<times> clock" where
  "check_deadline c deadline =
     (let (now, c') = clock_now c
      in (if now \<ge> deadline then Err TimedOut else Ok (), c'))"

lemmas clock_defs = clock_now_def deadline_after_def check_deadline_def instant_checked_add_def

lemma clock_now_mono: "clock_now c = (t, c') \<Longrightarrow> now_at c \<le> t \<and> now_at c' = t"
  by (auto simp: clock_now_def split: list.splits)

lemma deadline_after_zero: "fst (deadline_after c 0) = fst (clock_now c)"
  by (simp add: clock_defs split: prod.splits)

lemma deadline_after_cases:
  assumes "deadline_after c d = (t, c')"
  obtains "t = now_at c' + d" "now_at c' + d < instant_limit"
  | "t = now_at c'" "instant_limit \<le> now_at c' + d"
  using assms
  by (auto simp: deadline_after_def instant_checked_add_def clock_now_def Let_def
      split: list.splits if_splits)

lemma check_deadline_Err:
  "check_deadline c d = (Err k, c') \<Longrightarrow> k = TimedOut \<and> d \<le> now_at c'"
  by (auto simp: check_deadline_def clock_now_def Let_def split: list.splits if_splits)

lemma check_deadline_Ok:
  "check_deadline c d = (Ok u, c') \<Longrightarrow> now_at c' < d"
  by (auto simp: check_deadline_def clock_now_def Let_def split: list.splits if_splits)

lemma check_deadline_mono:
  "check_deadline c d = (r, c') \<Longrightarrow> now_at c \<le> now_at c'"
  by (auto simp: check_deadline_def clock_now_def Let_def split: list.splits if_splits)


section \<open>Lists\<close>

text \<open>\<open>splice_at xs i ys\<close> overwrites \<open>xs\<close> with \<open>ys\<close> from index \<open>i\<close> on, the way a read or a copy
  into a slice of a vector does; the vector keeps its length while \<open>ys\<close> fits.\<close>

definition splice_at :: "'a list \<Rightarrow> nat \<Rightarrow> 'a list \<Rightarrow> 'a list" where
  "splice_at xs i ys = take i xs @ ys @ drop (i + length ys) xs"

text \<open>The slice \<^verbatim>\<open>xs[i..j]\<close>.\<close>

definition subvec :: "'a list \<Rightarrow> nat \<Rightarrow> nat \<Rightarrow> 'a list" where
  "subvec xs i j = drop i (take j xs)"

text \<open>\<^verbatim>\<open>memchr\<close>: the index of the first occurrence.\<close>

fun memchr :: "'a \<Rightarrow> 'a list \<Rightarrow> nat option" where
  "memchr x [] = None"
| "memchr x (y # ys) = (if y = x then Some 0 else map_option Suc (memchr x ys))"

lemma length_splice_at [simp]:
  "i + length ys \<le> length xs \<Longrightarrow> length (splice_at xs i ys) = length xs"
  by (simp add: splice_at_def)

lemma length_subvec [simp]: "j \<le> length xs \<Longrightarrow> length (subvec xs i j) = j - i"
  by (simp add: subvec_def)

lemma subvec_same [simp]: "subvec xs i i = []"
  by (simp add: subvec_def)

lemma subvec_append_subvec:
  assumes "i \<le> j" "j \<le> k"
  shows "subvec xs i j @ subvec xs j k = subvec xs i k"
proof -
  have split: "take k xs = take j xs @ drop j (take k xs)"
    using assms(2) by (metis append_take_drop_id min.absorb1 take_take)
  show ?thesis
  proof (cases "i \<le> length xs")
    case True
    with assms(1) have "drop i (take j xs @ drop j (take k xs)) = drop i (take j xs) @ drop j (take k xs)"
      by simp
    with split show ?thesis by (simp add: subvec_def)
  next
    case False
    with assms(1) show ?thesis by (simp add: subvec_def)
  qed
qed

lemma subvec_splice_at:
  "i \<le> length xs \<Longrightarrow> j \<le> i \<Longrightarrow> subvec (splice_at xs i ys) j (i + length ys) = subvec xs j i @ ys"
  by (simp add: subvec_def splice_at_def)

lemma memchr_None_iff: "memchr x xs = None \<longleftrightarrow> x \<notin> set xs"
  by (induction xs) auto

lemma memchr_Some_iff:
  "memchr x xs = Some i \<longleftrightarrow> i < length xs \<and> xs ! i = x \<and> x \<notin> set (take i xs)"
proof (induction xs arbitrary: i)
  case Nil
  then show ?case by simp
next
  case (Cons y ys)
  show ?case by (cases i) (auto simp: Cons)
qed

lemma memchr_takeWhile:
  "memchr x xs = Some i \<Longrightarrow> take i xs = takeWhile (\<lambda>y. y \<noteq> x) xs \<and> i = length (takeWhile (\<lambda>y. y \<noteq> x) xs)"
  by (induction xs arbitrary: i) (auto split: if_splits)

lemma takeWhile_neq_notin: "x \<notin> set xs \<Longrightarrow> takeWhile (\<lambda>y. y \<noteq> x) (xs @ ys) = xs @ takeWhile (\<lambda>y. y \<noteq> x) ys"
  by (induction xs) auto


section \<open>Transition systems\<close>

text \<open>
  A component that other threads drive is a step relation; its invariants are proved once per
  step and lifted to every run here.
\<close>

locale transition_system =
  fixes init :: "'s \<Rightarrow> bool"
    and step :: "'s \<Rightarrow> 's \<Rightarrow> bool"
    and inv :: "'s \<Rightarrow> bool"
  assumes inv_init: "init s \<Longrightarrow> inv s"
    and inv_step: "step s t \<Longrightarrow> inv s \<Longrightarrow> inv t"
begin

lemma inv_run: "step\<^sup>*\<^sup>* s t \<Longrightarrow> inv s \<Longrightarrow> inv t"
  by (induction rule: rtranclp_induct) (auto intro: inv_step)

lemma inv_reachable: "init s \<Longrightarrow> step\<^sup>*\<^sup>* s t \<Longrightarrow> inv t"
  by (blast intro: inv_init inv_run)

end

end
