(* ===== verification/Transport_Base.thy ===== *)
theory Transport_Base
  imports Wire_Prelude
begin

text \<open>
  The vocabulary of \<^verbatim>\<open>src/src/transport/mod.rs\<close> (its error type and its size limits) and the
  byte stream below it, \<^verbatim>\<open>src/src/transport/stream.rs\<close>: the reading half and the writing half
  that retry, bound and admit every call to the caller's adapters.

  An adapter is the caller's code. Its behaviour over one run is a script: each deadline setter,
  read, write or flush takes the next entry. A script that has run out is a call that never
  returns, and the result of the calling function is then \<open>None\<close>. The number of admissions left
  before another thread closes the stream is part of the environment too, so admission is refused
  from some call on and never granted again.
\<close>


section \<open>Errors and limits\<close>

datatype transport_error =
    PacketTooLarge nat
  | FrameTooLarge nat
  | FrameDecodingFailed nat
  | SendFailed io_kind
  | RecvFailed io_kind
  | Terminated
  | SessionReset
  | InvalidAttestation
  | HandshakeFailed string
  | EncryptionFailed string

definition MAX_FRAME_SIZE :: nat where
  "MAX_FRAME_SIZE = 2 * 1024 * 1024"

text \<open>Bytes the session's AEAD adds to a message (\<^verbatim>\<open>sealing::OVERHEAD\<close>).\<close>

definition OVERHEAD :: nat where
  "OVERHEAD = 16"

text \<open>
  The constant \<^verbatim>\<open>MAX_MESSAGE_SIZE\<close> is computed by a loop over the COBS crate's
  \<^verbatim>\<open>encode_buffer\<close>, the first argument here. Running below zero is a compile-time panic of the
  constant, \<open>None\<close>.
\<close>

fun message_limit_from :: "(nat \<Rightarrow> nat) \<Rightarrow> nat \<Rightarrow> nat option" where
  "message_limit_from encode_buffer 0 =
     (if encode_buffer (0 + OVERHEAD) > MAX_FRAME_SIZE then None else Some 0)"
| "message_limit_from encode_buffer (Suc n) =
     (if encode_buffer (Suc n + OVERHEAD) > MAX_FRAME_SIZE
      then message_limit_from encode_buffer n else Some (Suc n))"

definition MAX_MESSAGE_SIZE :: "(nat \<Rightarrow> nat) \<Rightarrow> nat option" where
  "MAX_MESSAGE_SIZE encode_buffer = message_limit_from encode_buffer MAX_FRAME_SIZE"

lemma message_limit_from_Some:
  "message_limit_from b n = Some m \<Longrightarrow>
     m \<le> n \<and> b (m + OVERHEAD) \<le> MAX_FRAME_SIZE \<and>
     (\<forall>k. m < k \<longrightarrow> k \<le> n \<longrightarrow> b (k + OVERHEAD) > MAX_FRAME_SIZE)"
proof (induction n)
  case 0
  then show ?case by (auto split: if_splits)
next
  case (Suc n)
  show ?case
  proof (cases "b (Suc n + OVERHEAD) > MAX_FRAME_SIZE")
    case True
    with Suc show ?thesis by (auto simp: le_Suc_eq)
  next
    case False
    with Suc.prems show ?thesis by auto
  qed
qed

lemma message_limit_from_defined:
  "b OVERHEAD \<le> MAX_FRAME_SIZE \<Longrightarrow> \<exists>m. message_limit_from b n = Some m"
  by (induction n) auto


section \<open>The environment of a byte stream\<close>

datatype rd_turn = RdOk nat | RdErr io_kind
datatype wr_turn = WrOk nat | WrErr io_kind

text \<open>
  \<open>e_input\<close> holds the bytes the peer's side still has to deliver, \<open>e_output\<close> the bytes the writing
  adapter has accepted; \<open>e_close\<close> is the number of adapter calls the shutdown coordinator still
  admits, \<open>None\<close> when nobody closes the stream.
\<close>

record env =
  e_clock :: clock
  e_close :: "nat option"
  e_input :: bytes
  e_reads :: "rd_turn list"
  e_output :: bytes
  e_writes :: "wr_turn list"

definition env_now :: "(env, 'e, instant) run" where
  "env_now = act (\<lambda>e. let (t, c) = clock_now (e_clock e) in (t, e\<lparr>e_clock := c\<rparr>))"

definition env_deadline_after :: "duration \<Rightarrow> (env, 'e, instant) run" where
  "env_deadline_after timeout =
     act (\<lambda>e. let (t, c) = deadline_after (e_clock e) timeout in (t, e\<lparr>e_clock := c\<rparr>))"

definition env_check_deadline :: "instant \<Rightarrow> (env, io_kind, unit) run" where
  "env_check_deadline deadline e =
     (let (r, c) = check_deadline (e_clock e) deadline in Some (r, e\<lparr>e_clock := c\<rparr>))"

text \<open>\<^verbatim>\<open>Closer::enter\<close>, seen from the I/O path: whether this adapter call is admitted.\<close>

definition enter :: "(env, io_kind, bool) run" where
  "enter = act (\<lambda>e. case e_close e of
      None \<Rightarrow> (True, e)
    | Some 0 \<Rightarrow> (False, e)
    | Some (Suc n) \<Rightarrow> (True, e\<lparr>e_close := Some n\<rparr>))"

text \<open>One call of the reading adapter (setter or read) and one of the writing adapter (setter,
  write or flush).\<close>

definition rd_call :: "(env, io_kind, nat) run" where
  "rd_call e = (case e_reads e of
      [] \<Rightarrow> None
    | RdOk n # ts \<Rightarrow> Some (Ok n, e\<lparr>e_reads := ts\<rparr>)
    | RdErr k # ts \<Rightarrow> Some (Err k, e\<lparr>e_reads := ts\<rparr>))"

definition wr_call :: "(env, io_kind, nat) run" where
  "wr_call e = (case e_writes e of
      [] \<Rightarrow> None
    | WrOk n # ts \<Rightarrow> Some (Ok n, e\<lparr>e_writes := ts\<rparr>)
    | WrErr k # ts \<Rightarrow> Some (Err k, e\<lparr>e_writes := ts\<rparr>))"

text \<open>A successful read takes the bytes it returns from the input; a successful write appends
  the bytes it accepts to the output.\<close>

definition take_input :: "nat \<Rightarrow> (env, 'e, bytes) run" where
  "take_input n = act (\<lambda>e. (take n (e_input e), e\<lparr>e_input := drop n (e_input e)\<rparr>))"

definition put_output :: "bytes \<Rightarrow> (env, 'e, unit) run" where
  "put_output bs = act (\<lambda>e. ((), e\<lparr>e_output := e_output e @ bs\<rparr>))"

lemmas env_defs = env_now_def env_deadline_after_def env_check_deadline_def enter_def rd_call_def
  wr_call_def take_input_def put_output_def

lemma env_deadline_after_Some [simp]:
  "env_deadline_after d e = Some (r, e') \<longleftrightarrow>
     (\<exists>t c. deadline_after (e_clock e) d = (t, c) \<and> r = Ok t \<and> e' = e\<lparr>e_clock := c\<rparr>)"
  by (auto simp: env_deadline_after_def split: prod.splits)

lemma env_check_deadline_Some [simp]:
  "env_check_deadline d e = Some (r, e') \<longleftrightarrow>
     (\<exists>c. check_deadline (e_clock e) d = (r, c) \<and> e' = e\<lparr>e_clock := c\<rparr>)"
  by (auto simp: env_check_deadline_def split: prod.splits)

lemma enter_Some:
  "enter e = Some (r, e') \<longleftrightarrow>
     (r = Ok True \<and> e_close e = None \<and> e' = e) \<or>
     (r = Ok False \<and> e_close e = Some 0 \<and> e' = e) \<or>
     (\<exists>n. r = Ok True \<and> e_close e = Some (Suc n) \<and> e' = e\<lparr>e_close := Some n\<rparr>)"
  by (auto simp: enter_def split: option.splits nat.splits)

lemma rd_call_Some:
  "rd_call e = Some (r, e') \<longleftrightarrow>
     (\<exists>t ts. e_reads e = t # ts \<and> e' = e\<lparr>e_reads := ts\<rparr> \<and>
        r = (case t of RdOk n \<Rightarrow> Ok n | RdErr k \<Rightarrow> Err k))"
  by (auto simp: rd_call_def split: list.splits rd_turn.splits)

lemma wr_call_Some:
  "wr_call e = Some (r, e') \<longleftrightarrow>
     (\<exists>t ts. e_writes e = t # ts \<and> e' = e\<lparr>e_writes := ts\<rparr> \<and>
        r = (case t of WrOk n \<Rightarrow> Ok n | WrErr k \<Rightarrow> Err k))"
  by (auto simp: wr_call_def split: list.splits wr_turn.splits)

lemma take_input_Some [simp]:
  "take_input n e = Some (r, e') \<longleftrightarrow>
     r = Ok (take n (e_input e)) \<and> e' = e\<lparr>e_input := drop n (e_input e)\<rparr>"
  by (auto simp: take_input_def)

lemma put_output_Some [simp]:
  "put_output bs e = Some (r, e') \<longleftrightarrow> r = Ok () \<and> e' = e\<lparr>e_output := e_output e @ bs\<rparr>"
  by (auto simp: put_output_def)

lemmas env_steps = enter_Some rd_call_Some wr_call_Some

text \<open>What the primitive calls leave alone.\<close>

lemma enter_frame:
  "enter e = Some (r, e') \<Longrightarrow>
     e_clock e' = e_clock e \<and> e_input e' = e_input e \<and> e_reads e' = e_reads e \<and>
     e_output e' = e_output e \<and> e_writes e' = e_writes e"
  by (auto simp: enter_Some)

lemma rd_call_frame:
  "rd_call e = Some (r, e') \<Longrightarrow>
     e_clock e' = e_clock e \<and> e_input e' = e_input e \<and> e_output e' = e_output e \<and>
     e_writes e' = e_writes e \<and> length (e_reads e) = Suc (length (e_reads e'))"
  by (auto simp: rd_call_Some)

lemma wr_call_frame:
  "wr_call e = Some (r, e') \<Longrightarrow>
     e_clock e' = e_clock e \<and> e_input e' = e_input e \<and> e_output e' = e_output e \<and>
     e_reads e' = e_reads e \<and> length (e_writes e) = Suc (length (e_writes e'))"
  by (auto simp: wr_call_Some)


section \<open>The reading half\<close>

definition opt_check_deadline :: "instant option \<Rightarrow> (env, io_kind, unit) run" where
  "opt_check_deadline deadline = (case deadline of
      None \<Rightarrow> ret ()
    | Some d \<Rightarrow> env_check_deadline d)"

lemma opt_check_deadline_frame:
  "opt_check_deadline d e = Some (r, e') \<Longrightarrow>
     e_close e' = e_close e \<and> e_input e' = e_input e \<and> e_reads e' = e_reads e \<and>
     e_output e' = e_output e \<and> e_writes e' = e_writes e"
  by (auto simp: opt_check_deadline_def split: option.splits)

lemmas io_frames = enter_frame rd_call_frame wr_call_frame opt_check_deadline_frame

text \<open>\<^verbatim>\<open>ReadHalf::read\<close> into a slice of \<open>cap\<close> bytes.\<close>

function read_half :: "nat \<Rightarrow> instant option \<Rightarrow> (env, io_kind, bytes) run" where
  "read_half cap deadline e =
     bindr (opt_check_deadline deadline) (\<lambda>_.
     bindr enter (\<lambda>admitted e1.
       if \<not> admitted then ret [] e1
       else
         bindr rd_call (\<lambda>_.
         attempt rd_call (\<lambda>result e2. case result of
             Err k \<Rightarrow> if k = TimedOut \<or> k = Interrupted then read_half cap deadline e2 else fail k e2
           | Ok n \<Rightarrow> take_input (min n cap) e2)) e1)) e"
  by pat_completeness auto
termination
  by (relation "measure (\<lambda>(cap, deadline, e). length (e_reads e))")
    (auto dest!: io_frames)

declare read_half.simps [simp del]


section \<open>The writing half\<close>

text \<open>One admitted call of the writing adapter, refused once the stream closes.\<close>

definition wr_admit :: "(env, io_kind, unit) run" where
  "wr_admit = bindr enter (\<lambda>admitted. if admitted then ret () else fail NotConnected)"

text \<open>The loop of \<^verbatim>\<open>WriteHalf::write\<close> over the bytes that remain.\<close>

function write_all :: "bytes \<Rightarrow> instant \<Rightarrow> (env, io_kind, unit) run" where
  "write_all bs deadline e =
     (if bs = [] then ret () e
      else
        bindr (env_check_deadline deadline) (\<lambda>_.
        bindr wr_admit (\<lambda>_.
        attempt wr_call (\<lambda>result e'. case result of
            Ok n \<Rightarrow>
              (let m = min n (length bs) in
               if m = 0 then fail WriteZero e'
               else bindr (put_output (take m bs)) (\<lambda>_. write_all (drop m bs) deadline) e')
          | Err k \<Rightarrow> if k = Interrupted then write_all bs deadline e' else fail k e'))) e)"
  by pat_completeness auto
termination
  by (relation "measure (\<lambda>(bs, deadline, e). length (e_writes e))")
    (auto simp: env_steps wr_admit_def bindr_Some_iff split: if_splits)

declare write_all.simps [simp del]

text \<open>\<^verbatim>\<open>WriteHalf::write\<close>: check, install the deadline, write everything, check, flush.\<close>

definition write_half :: "bytes \<Rightarrow> instant \<Rightarrow> (env, io_kind, unit) run" where
  "write_half bs deadline =
     bindr (env_check_deadline deadline) (\<lambda>_.
     bindr wr_admit (\<lambda>_.
     bindr wr_call (\<lambda>_.
     bindr (write_all bs deadline) (\<lambda>_.
     bindr (env_check_deadline deadline) (\<lambda>_.
     bindr wr_admit (\<lambda>_.
     bindr wr_call (\<lambda>_. ret ())))))))"


section \<open>What the halves guarantee\<close>

text \<open>One pass of the read loop ends without data, delivers data, or goes round again.\<close>

lemma read_half_cases:
  assumes "read_half cap deadline e = Some (r, e')"
  obtains
    (stop) "r = Ok [] \<or> (\<exists>k. r = Err k)" "e_input e' = e_input e" "e_output e' = e_output e"
      "e_writes e' = e_writes e" "length (e_reads e') \<le> length (e_reads e)"
  | (data) n where "r = Ok (take (min n cap) (e_input e))" "e_input e' = drop (min n cap) (e_input e)"
      "e_output e' = e_output e" "e_writes e' = e_writes e" "length (e_reads e') < length (e_reads e)"
  | (retry) e1 where "read_half cap deadline e1 = Some (r, e')" "e_input e1 = e_input e"
      "e_output e1 = e_output e" "e_writes e1 = e_writes e" "length (e_reads e1) < length (e_reads e)"
proof -
  note step = assms [unfolded read_half.simps [of cap deadline e]]
  from step show thesis
  proof (elim bindr_SomeE)
    fix u e1 adm e2
    assume c: "opt_check_deadline deadline e = Some (Ok u, e1)" "enter e1 = Some (Ok adm, e2)"
      and rest: "(if \<not> adm then ret [] e2
        else bindr rd_call (\<lambda>_. attempt rd_call (\<lambda>result e2. case result of
             Err k \<Rightarrow> if k = TimedOut \<or> k = Interrupted then read_half cap deadline e2 else fail k e2
           | Ok n \<Rightarrow> take_input (min n cap) e2)) e2) = Some (r, e')"
    show thesis
    proof (cases adm)
      case False
      with c rest show thesis by (intro stop) (auto dest!: io_frames)
    next
      case True
      with rest show thesis
      proof (simp, elim bindr_SomeE attempt_SomeE)
        fix k assume "rd_call e2 = Some (Err k, e')" "r = Err k"
        with c show thesis by (intro stop) (auto dest!: io_frames)
      next
        fix v e3 q e4
        assume d: "rd_call e2 = Some (Ok v, e3)" "rd_call e3 = Some (q, e4)"
          and q: "(case q of Err k \<Rightarrow> if k = TimedOut \<or> k = Interrupted
                then read_half cap deadline e4 else fail k e4
              | Ok n \<Rightarrow> take_input (min n cap) e4) = Some (r, e')"
        show thesis
        proof (cases q)
          case (Inr n)
          with c d q show thesis by (intro data [of n]) (auto dest!: io_frames)
        next
          case (Inl k)
          show thesis
          proof (cases "k = TimedOut \<or> k = Interrupted")
            case True
            with c d q Inl show thesis by (intro retry [of e4]) (auto dest!: io_frames)
          next
            case False
            with c d q Inl show thesis by (intro stop) (auto dest!: io_frames)
          qed
        qed
      qed
    qed
  qed (use stop in \<open>auto dest!: io_frames\<close>)
qed

text \<open>A read takes exactly the bytes it returns from the input, at most \<open>cap\<close> of them, and an
  error takes none; it never touches the output.\<close>

lemma read_half_effect:
  assumes "read_half cap deadline e = Some (r, e')"
  shows "e_output e' = e_output e \<and> e_writes e' = e_writes e \<and>
    length (e_reads e') \<le> length (e_reads e) \<and>
    (case r of
       Err k \<Rightarrow> e_input e' = e_input e
     | Ok bs \<Rightarrow> e_input e = bs @ e_input e' \<and> length bs \<le> cap \<and>
         (bs \<noteq> [] \<longrightarrow> length (e_reads e') < length (e_reads e)))"
  using assms
proof (induction "length (e_reads e)" arbitrary: e rule: less_induct)
  case less
  from less.prems show ?case
  proof (cases rule: read_half_cases)
    case (retry e1)
    then show ?thesis using less.hyps [OF retry(5) retry(1)] by (auto split: sum.splits)
  qed auto
qed

lemma read_half_Ok:
  assumes "read_half cap deadline e = Some (Ok bs, e')"
  shows "e_input e = bs @ e_input e'" "length bs \<le> cap"
    "bs \<noteq> [] \<Longrightarrow> length (e_reads e') < length (e_reads e)"
    "e_output e' = e_output e" "e_writes e' = e_writes e"
  using read_half_effect [OF assms] by auto

lemma read_half_Err:
  assumes "read_half cap deadline e = Some (Err k, e')"
  shows "e_input e' = e_input e" "e_output e' = e_output e" "e_writes e' = e_writes e"
  using read_half_effect [OF assms] by auto

text \<open>
  The read loop stops: every pass but the last uses up one timeout or interruption of the
  adapter, so a script with two more entries than twice those is enough.
\<close>

fun rd_retry :: "rd_turn \<Rightarrow> bool" where
  "rd_retry (RdErr k) \<longleftrightarrow> k = TimedOut \<or> k = Interrupted"
| "rd_retry (RdOk n) \<longleftrightarrow> False"

lemma read_half_returns:
  assumes "2 * length (filter rd_retry (e_reads e)) + 2 \<le> length (e_reads e)"
  shows "\<exists>r e'. read_half cap deadline e = Some (r, e')"
  using assms
proof (induction "length (e_reads e)" arbitrary: e rule: less_induct)
  case less
  then obtain t1 t2 ts where turns: "e_reads e = t1 # t2 # ts"
    by (cases "e_reads e"; cases "tl (e_reads e)") auto
  have IH: "\<exists>r e'. read_half cap deadline e1 = Some (r, e')"
    if "e_reads e1 = ts" "rd_retry t2" for e1
    using less.hyps [of e1] less.prems that turns by (auto split: if_splits)
  obtain r1 e1 where c: "opt_check_deadline deadline e = Some (r1, e1)"
    by (cases deadline)
      (simp_all add: opt_check_deadline_def env_check_deadline_def ret_def case_prod_beta)
  obtain r2 e2 where n: "enter e1 = Some (r2, e2)"
    by (cases "enter e1") (auto simp: enter_def)
  have e2: "e_reads e2 = t1 # t2 # ts"
    using c n turns by (auto dest!: io_frames)
  show ?case
    using c n e2 IH
    by (cases t1; cases t2; cases r1; cases r2)
      (auto simp: read_half.simps [of cap deadline e] bindr_def attempt_def rd_call_def
        ret_def fail_def take_input_def act_def)
qed

text \<open>One pass of the write loop: it is finished, it fails, or it goes on with fewer bytes or
  after an interruption.\<close>

lemma wr_admit_Some:
  "wr_admit e = Some (r, e') \<longleftrightarrow>
     (\<exists>b. enter e = Some (Ok b, e') \<and> r = (if b then Ok () else Err NotConnected))"
  by (auto simp: wr_admit_def bindr_Some_iff enter_Some)

lemma wr_admit_frame:
  "wr_admit e = Some (r, e') \<Longrightarrow>
     e_clock e' = e_clock e \<and> e_input e' = e_input e \<and> e_reads e' = e_reads e \<and>
     e_output e' = e_output e \<and> e_writes e' = e_writes e"
  by (auto simp: wr_admit_Some dest!: enter_frame)

lemmas wr_frames = io_frames wr_admit_frame

lemma write_all_cases:
  assumes "write_all bs deadline e = Some (r, e')"
  obtains
    (finish) "bs = []" "r = Ok ()" "e' = e"
  | (stop) k where "bs \<noteq> []" "r = Err k" "e_output e' = e_output e" "e_input e' = e_input e"
      "e_reads e' = e_reads e"
  | (more) m e1 where "bs \<noteq> []" "write_all (drop m bs) deadline e1 = Some (r, e')"
      "e_output e1 = e_output e @ take m bs" "e_input e1 = e_input e" "e_reads e1 = e_reads e"
      "length (e_writes e1) < length (e_writes e)"
proof (cases "bs = []")
  case True
  with assms show thesis by (intro finish) (simp_all add: write_all.simps)
next
  case False
  note step = assms [unfolded write_all.simps [of bs deadline e]]
  from step False show thesis
  proof (simp, elim bindr_SomeE attempt_SomeE)
    fix u e1 v e2 q e3
    assume c: "env_check_deadline deadline e = Some (Ok u, e1)" "wr_admit e1 = Some (Ok v, e2)"
        "wr_call e2 = Some (q, e3)"
      and q: "(case q of
            Err k \<Rightarrow> if k = Interrupted then write_all bs deadline e3 else fail k e3
          | Ok n \<Rightarrow> let m = min n (length bs) in
               if m = 0 then fail WriteZero e3
               else bindr (put_output (take m bs)) (\<lambda>_. write_all (drop m bs) deadline) e3)
          = Some (r, e')"
    show thesis
    proof (cases q)
      case (Inl k)
      show thesis
      proof (cases "k = Interrupted")
        case True
        with False c q Inl show thesis by (intro more [of 0 e3]) (auto dest!: wr_frames)
      next
        case other: False
        with False c q Inl show thesis by (intro stop [of k]) (auto dest!: wr_frames)
      qed
    next
      case (Inr n)
      show thesis
      proof (cases "n = 0")
        case True
        with False c q Inr show thesis
          by (intro stop [of WriteZero]) (auto dest!: wr_frames split: if_splits)
      next
        case nz: False
        define e4 where "e4 = e3\<lparr>e_output := e_output e3 @ take (min n (length bs)) bs\<rparr>"
        have "min n (length bs) \<noteq> 0" using False nz by (simp add: min_def)
        with q Inr have "write_all (drop (min n (length bs)) bs) deadline e4 = Some (r, e')"
          by (auto simp: bindr_Some_iff Let_def e4_def split: if_splits)
        then show thesis
          using False c
          by (intro more [of "min n (length bs)" e4])
            (auto dest!: wr_frames simp: e4_def)
      qed
    qed
  qed (use False stop in \<open>auto dest!: wr_frames split: if_splits\<close>)
qed

lemma write_all_effect:
  assumes "write_all bs deadline e = Some (r, e')"
  shows "e_input e' = e_input e \<and> e_reads e' = e_reads e \<and>
    (\<exists>p. prefix p bs \<and> e_output e' = e_output e @ p \<and> (r = Ok () \<longrightarrow> p = bs))"
  using assms
proof (induction "length (e_writes e)" arbitrary: bs e rule: less_induct)
  case less
  from less.prems show ?case
  proof (cases rule: write_all_cases)
    case (more m e1)
    with less.hyps [OF more(6) more(2)] obtain p where p: "prefix p (drop m bs)"
      "e_output e' = e_output e @ take m bs @ p" "r = Ok () \<longrightarrow> p = drop m bs"
      "e_input e' = e_input e" "e_reads e' = e_reads e" by auto
    then have "prefix (take m bs @ p) bs" by (metis append_take_drop_id same_prefix_prefix)
    with p show ?thesis by auto
  qed auto
qed

text \<open>
  The complete write: the adapter accepts a prefix of the bytes, all of them when the write
  succeeds. The input direction is untouched.
\<close>

lemma write_half_effect:
  assumes "write_half bs deadline e = Some (r, e')"
  shows "e_input e' = e_input e \<and> e_reads e' = e_reads e \<and>
    (\<exists>p. prefix p bs \<and> e_output e' = e_output e @ p \<and> (r = Ok () \<longrightarrow> p = bs))"
  using assms unfolding write_half_def
  apply (elim bindr_SomeE)
           apply (auto dest!: wr_frames write_all_effect)
  done

text \<open>The write stops too: after its setter, each byte and the flush need at most one call that is
  not interrupted.\<close>

definition wr_done :: "wr_turn \<Rightarrow> bool" where
  "wr_done t \<longleftrightarrow> t \<noteq> WrErr Interrupted"

abbreviation wr_budget :: "env \<Rightarrow> nat" where
  "wr_budget e \<equiv> length (filter wr_done (e_writes e))"

lemma enter_Ex: "\<exists>b e'. enter e = Some (Ok b, e') \<and> e_writes e' = e_writes e"
  by (cases "enter e") (auto simp: enter_def split: option.splits nat.splits)

lemma wr_admit_Ex: "\<exists>r e'. wr_admit e = Some (r, e') \<and> e_writes e' = e_writes e"
  using enter_Ex [of e] by (auto simp: wr_admit_def bindr_def ret_def fail_def)

lemma env_check_deadline_Ex:
  "\<exists>r e'. env_check_deadline d e = Some (r, e') \<and> e_writes e' = e_writes e"
  by (simp add: env_check_deadline_def case_prod_beta)

lemma write_all_returns:
  assumes "length bs \<le> wr_budget e"
  shows "\<exists>r e'. write_all bs deadline e = Some (r, e') \<and>
    (r = Ok () \<longrightarrow> wr_budget e \<le> wr_budget e' + length bs)"
  using assms
proof (induction "length (e_writes e)" arbitrary: bs e rule: less_induct)
  case less
  show ?case
  proof (cases "bs = []")
    case True
    then show ?thesis by (simp add: write_all.simps ret_def)
  next
    case False
    obtain r1 e1 where c: "env_check_deadline deadline e = Some (r1, e1)" "e_writes e1 = e_writes e"
      using env_check_deadline_Ex by blast
    obtain r2 e2 where n: "wr_admit e1 = Some (r2, e2)" "e_writes e2 = e_writes e"
      using wr_admit_Ex [of e1] c(2) by auto
    obtain t ts where turns: "e_writes e = t # ts"
      using less.prems False by (cases "e_writes e") auto
    show ?thesis
    proof (cases "(\<exists>k. r1 = Err k) \<or> (\<exists>k. r2 = Err k)")
      case True
      then show ?thesis
        using False c n
        by (cases r1; cases r2)
          (auto simp: write_all.simps [of bs deadline e] bindr_def simp del: env_check_deadline_Some)
    next
      case ok: False
      let ?e3 = "e2\<lparr>e_writes := ts\<rparr>"
      have unfold: "write_all bs deadline e =
        (case (case t of WrOk n \<Rightarrow> Ok n | WrErr k \<Rightarrow> Err k) of
            Ok n \<Rightarrow>
              (let m = min n (length bs) in
               if m = 0 then fail WriteZero ?e3
               else bindr (put_output (take m bs)) (\<lambda>_. write_all (drop m bs) deadline) ?e3)
          | Err k \<Rightarrow> if k = Interrupted then write_all bs deadline ?e3 else fail k ?e3)"
        using False ok c n turns
        by (cases r1; cases r2; cases t)
          (auto simp: write_all.simps [of bs deadline e] bindr_def attempt_def wr_call_def
            simp del: env_check_deadline_Some)
      show ?thesis
      proof (cases t)
        case (WrErr k)
        show ?thesis
        proof (cases "k = Interrupted")
          case True
          with less.hyps [of ?e3 bs] less.prems turns WrErr unfold show ?thesis
            by (auto simp: wr_done_def)
        next
          case False
          with unfold WrErr show ?thesis by (simp add: fail_def)
        qed
      next
        case (WrOk n)
        show ?thesis
        proof (cases "n = 0")
          case True
          with unfold WrOk show ?thesis by (simp add: fail_def)
        next
          case nz: False
          define m where "m = min n (length bs)"
          have m: "m \<noteq> 0" "m \<le> length bs" using nz False by (auto simp: m_def min_def)
          let ?e4 = "?e3\<lparr>e_output := e_output ?e3 @ take m bs\<rparr>"
          have "write_all bs deadline e = write_all (drop m bs) deadline ?e4"
            using unfold WrOk m(1) by (simp add: m_def [symmetric] bindr_def put_output_def act_def)
          moreover have "length (drop m bs) \<le> wr_budget ?e4"
            using less.prems turns WrOk m by (simp add: wr_done_def)
          ultimately show ?thesis
            using less.hyps [of ?e4 "drop m bs"] turns WrOk m by (auto simp: wr_done_def)
        qed
      qed
    qed
  qed
qed

lemma bindr_returns:
  assumes "\<exists>r s'. m s = Some (r, s')" and "\<And>x s'. m s = Some (Ok x, s') \<Longrightarrow> \<exists>r t. f x s' = Some (r, t)"
  shows "\<exists>r t. bindr m f s = Some (r, t)"
proof -
  from assms(1) obtain r s' where m: "m s = Some (r, s')" by blast
  with assms(2) show ?thesis by (cases r) (auto simp: bindr_def)
qed

lemma wr_call_returns:
  assumes "0 < wr_budget e"
  shows "\<exists>r e'. wr_call e = Some (r, e') \<and> wr_budget e \<le> Suc (wr_budget e')"
  using assms by (cases "e_writes e") (auto simp: wr_call_def split: wr_turn.splits)

lemma write_half_returns:
  assumes "length bs + 2 \<le> wr_budget e"
  shows "\<exists>r e'. write_half bs deadline e = Some (r, e')"
proof -
  have call: "\<exists>r e'. wr_call e1 = Some (r, e')" if "0 < wr_budget e1" for e1
    using wr_call_returns [OF that] by blast
  have setter: "length bs + 1 \<le> wr_budget e2"
    if "wr_call e1 = Some (Ok x, e2)" "e_writes e1 = e_writes e" for e1 e2 x
    using wr_call_returns [of e1] that assms by (cases "filter wr_done (e_writes e)") auto
  have all: "\<exists>r e'. write_all bs deadline e1 = Some (r, e')" if "length bs + 1 \<le> wr_budget e1" for e1
    using write_all_returns [of bs e1 deadline] that by auto
  have left: "0 < wr_budget e2"
    if "write_all bs deadline e1 = Some (Ok u, e2)" "length bs + 1 \<le> wr_budget e1" for e1 e2 u
    using write_all_returns [of bs e1 deadline] that by fastforce
  show ?thesis
    unfolding write_half_def
  proof (intro bindr_returns, goal_cases)
    case 1
    then show ?case using env_check_deadline_Ex by blast
  next
    case 2
    then show ?case using wr_admit_Ex by blast
  next
    case (3 u e1 v e2)
    then show ?case using assms by (intro call) (auto dest!: wr_frames)
  next
    case (4 u e1 v e2 n e3)
    have "length bs + 1 \<le> wr_budget e3"
      using 4 by (intro setter [of e2]) (auto dest!: wr_frames)
    then show ?case by (rule all)
  next
    case (5 u e1 v e2 n e3 w e4)
    then show ?case using env_check_deadline_Ex by blast
  next
    case 6
    then show ?case using wr_admit_Ex by blast
  next
    case (7 u e1 v e2 n e3 w e4 x e5 y e6)
    have "length bs + 1 \<le> wr_budget e3"
      using 7 by (intro setter [of e2]) (auto dest!: wr_frames)
    with 7 have "0 < wr_budget e4" by (intro left)
    with 7 show ?case by (intro call) (auto dest!: wr_frames)
  qed (simp add: ret_def)
qed

end
