(* ===== verification/Frame_Reader.thy ===== *)
theory Frame_Reader
  imports Transport_Base
begin

text \<open>
  The reading half of the framing layer, \<^verbatim>\<open>FrameReader\<close> of \<^verbatim>\<open>src/src/transport/framing.rs\<close>: a
  vector of \<open>MAX_FRAME_SIZE + 1\<close> bytes with the indices \<open>filled\<close>, \<open>offset\<close> and \<open>search\<close>, refilled
  from the byte stream and split at zero bytes.

  The specification is a splitter over the whole remaining byte stream that knows neither the
  vector nor the sizes of the reads. The refinement lemmas below show that the reader returns
  exactly the frames of that splitter, whatever chunks the adapter delivers, and that an attempt
  that fails loses nothing.
\<close>


section \<open>The reader\<close>

record frame_reader =
  fr_buffer :: bytes
  fr_filled :: nat
  fr_offset :: nat
  fr_search :: nat
  fr_discard :: bool

definition frame_reader_new :: frame_reader where
  "frame_reader_new = \<lparr>fr_buffer = replicate (MAX_FRAME_SIZE + 1) 0, fr_filled = 0, fr_offset = 0,
     fr_search = 0, fr_discard = False\<rparr>"

text \<open>No delimiter in the buffer: remember how far it was searched, then move the partial frame to
  the front, or drop this portion of an oversized frame.\<close>

definition fr_compact :: "frame_reader \<Rightarrow> frame_reader" where
  "fr_compact fr =
     (let fr1 = fr\<lparr>fr_search := fr_filled fr\<rparr> in
      if \<not> fr_discard fr1 then
        if fr_offset fr1 > 0 then
          (let used = fr_filled fr1 - fr_offset fr1 in
           fr1\<lparr>fr_buffer := splice_at (fr_buffer fr1) 0
                 (subvec (fr_buffer fr1) (fr_offset fr1) (fr_filled fr1)),
               fr_filled := used, fr_offset := 0, fr_search := used\<rparr>)
        else fr1
      else fr1\<lparr>fr_filled := 0, fr_offset := 0, fr_search := 0\<rparr>)"

text \<open>\<^verbatim>\<open>FrameReader::next_frame\<close>: the range of the next frame in the buffer.\<close>

function next_frame ::
  "instant option \<Rightarrow> (frame_reader \<times> env, transport_error, nat \<times> nat) run" where
  "next_frame deadline (fr, e) =
     (case opt_check_deadline deadline e of
        None \<Rightarrow> None
      | Some (Err k, e1) \<Rightarrow> fail (RecvFailed k) (fr, e1)
      | Some (Ok _, e1) \<Rightarrow>
         (case memchr 0 (subvec (fr_buffer fr) (fr_search fr) (fr_filled fr)) of
            Some found \<Rightarrow>
              (let start = fr_offset fr;
                   stop = fr_search fr + found;
                   fr1 = fr\<lparr>fr_offset := stop + 1, fr_search := stop + 1\<rparr>
               in if fr_discard fr then next_frame deadline (fr1\<lparr>fr_discard := False\<rparr>, e1)
                  else ret (start, stop) (fr1, e1))
          | None \<Rightarrow>
              (let fr1 = fr_compact fr in
               if fr_filled fr1 = MAX_FRAME_SIZE + 1 then
                 fail (FrameTooLarge (MAX_FRAME_SIZE + 1))
                   (fr1\<lparr>fr_discard := True, fr_filled := 0, fr_offset := 0, fr_search := 0\<rparr>, e1)
               else (case read_half (length (fr_buffer fr1) - fr_filled fr1) deadline e1 of
                   None \<Rightarrow> None
                 | Some (Err k, e2) \<Rightarrow> fail (RecvFailed k) (fr1, e2)
                 | Some (Ok bs, e2) \<Rightarrow>
                     if bs = [] then fail Terminated (fr1, e2)
                     else next_frame deadline
                       (fr1\<lparr>fr_buffer := splice_at (fr_buffer fr1) (fr_filled fr1) bs,
                            fr_filled := fr_filled fr1 + length bs\<rparr>, e2)))))"
  by pat_completeness auto
termination
  by (relation "measures [\<lambda>(deadline, fr, e). length (e_reads e),
      \<lambda>(deadline, fr, e). if fr_discard fr then 1 else 0]")
    (auto dest!: io_frames read_half_Ok(3))

declare next_frame.simps [simp del]

text \<open>\<^verbatim>\<open>FrameReader::next_packet\<close>: an empty frame is the session signal \<open>None\<close>, any other frame is
  decoded by the COBS crate (\<open>decode\<close>, which fails with the crate's error code).\<close>

definition next_packet ::
  "(bytes \<Rightarrow> (nat, bytes) result) \<Rightarrow> instant option \<Rightarrow>
    (frame_reader \<times> env, transport_error, bytes option) run" where
  "next_packet decode deadline =
     bindr (next_frame deadline) (\<lambda>(start, stop) (fr, e).
       if start = stop then ret None (fr, e)
       else (case decode (subvec (fr_buffer fr) start stop) of
           Err c \<Rightarrow> fail (FrameDecodingFailed c) (fr, e)
         | Ok packet \<Rightarrow> ret (Some packet) (fr, e)))"


section \<open>The specification\<close>

datatype frame_event = FrameEv bytes | OversizeEv

text \<open>The next event of a byte stream outside an oversized frame: more than \<open>MAX_FRAME_SIZE\<close> bytes
  before a delimiter are an oversized frame, known as soon as one byte too many is there.\<close>

definition split_plain :: "bytes \<Rightarrow> (frame_event \<times> bool \<times> bytes) option" where
  "split_plain xs =
     (let f = takeWhile (\<lambda>b. b \<noteq> 0) xs in
      if length f > MAX_FRAME_SIZE then Some (OversizeEv, True, drop (MAX_FRAME_SIZE + 1) xs)
      else if length f < length xs then Some (FrameEv f, False, drop (length f + 1) xs)
      else None)"

text \<open>Inside one, everything up to its delimiter is skipped first.\<close>

definition split_next :: "bool \<Rightarrow> bytes \<Rightarrow> (frame_event \<times> bool \<times> bytes) option" where
  "split_next discard xs =
     (if discard then (case memchr 0 xs of None \<Rightarrow> None | Some i \<Rightarrow> split_plain (drop (i + 1) xs))
      else split_plain xs)"

definition fr_pending :: "frame_reader \<Rightarrow> bytes" where
  "fr_pending fr = subvec (fr_buffer fr) (fr_offset fr) (fr_filled fr)"

definition fr_stream :: "frame_reader \<times> env \<Rightarrow> bytes" where
  "fr_stream s = fr_pending (fst s) @ e_input (snd s)"

definition fr_inv :: "frame_reader \<Rightarrow> bool" where
  "fr_inv fr \<longleftrightarrow> length (fr_buffer fr) = MAX_FRAME_SIZE + 1 \<and> fr_offset fr \<le> fr_search fr \<and>
     fr_search fr \<le> fr_filled fr \<and> fr_filled fr \<le> MAX_FRAME_SIZE + 1 \<and>
     0 \<notin> set (subvec (fr_buffer fr) (fr_offset fr) (fr_search fr))"

lemma fr_inv_new: "fr_inv frame_reader_new"
  by (simp add: fr_inv_def frame_reader_new_def)

lemma fr_pending_new [simp]: "fr_pending frame_reader_new = []"
  by (simp add: fr_pending_def frame_reader_new_def)


section \<open>One pass of the loop\<close>

lemma fr_pending_split:
  "fr_inv fr \<Longrightarrow> fr_pending fr = subvec (fr_buffer fr) (fr_offset fr) (fr_search fr) @
     subvec (fr_buffer fr) (fr_search fr) (fr_filled fr)"
  by (simp add: fr_inv_def fr_pending_def subvec_append_subvec)

lemma fr_no_delimiter:
  assumes "fr_inv fr" and "memchr 0 (subvec (fr_buffer fr) (fr_search fr) (fr_filled fr)) = None"
  shows "0 \<notin> set (fr_pending fr)"
  using assms by (simp add: fr_pending_split memchr_None_iff) (simp add: fr_inv_def)

lemma fr_delimiter:
  assumes inv: "fr_inv fr"
    and found: "memchr 0 (subvec (fr_buffer fr) (fr_search fr) (fr_filled fr)) = Some i"
  defines "stop \<equiv> fr_search fr + i"
  shows "stop < fr_filled fr" "fr_offset fr \<le> stop"
    and "fr_pending fr = subvec (fr_buffer fr) (fr_offset fr) stop @ 0 #
           subvec (fr_buffer fr) (Suc stop) (fr_filled fr)"
    and "0 \<notin> set (subvec (fr_buffer fr) (fr_offset fr) stop)"
proof -
  let ?b = "fr_buffer fr" and ?o = "fr_offset fr" and ?s = "fr_search fr" and ?f = "fr_filled fr"
  let ?tail = "subvec ?b ?s ?f"
  have len: "?f \<le> length ?b" "?o \<le> ?s" "?s \<le> ?f" using inv by (auto simp: fr_inv_def)
  from found have i: "i < length ?tail" "?tail ! i = 0" "0 \<notin> set (take i ?tail)"
    by (auto simp: memchr_Some_iff)
  show stop: "stop < ?f" using i(1) len by (simp add: stop_def)
  show "?o \<le> stop" using len by (simp add: stop_def)
  have front: "take i ?tail = subvec ?b ?s stop"
    using stop by (simp add: subvec_def stop_def take_drop add.commute)
  have "?tail = take i ?tail @ ?tail ! i # drop (Suc i) ?tail"
    using i(1) by (rule id_take_nth_drop)
  moreover have "drop (Suc i) ?tail = subvec ?b (Suc stop) ?f"
    by (simp add: subvec_def stop_def add.commute)
  ultimately have tail: "?tail = subvec ?b ?s stop @ 0 # subvec ?b (Suc stop) ?f"
    using i(2) front by simp
  have join: "subvec ?b ?o ?s @ subvec ?b ?s stop = subvec ?b ?o stop"
    using len by (intro subvec_append_subvec) (auto simp: stop_def)
  show "fr_pending fr = subvec ?b ?o stop @ 0 # subvec ?b (Suc stop) ?f"
    using inv tail join by (metis append.assoc fr_pending_split)
  show "0 \<notin> set (subvec ?b ?o stop)"
    using inv i(3) front join by (metis Un_iff fr_inv_def set_append)
qed

lemma fr_compact_pending:
  assumes "fr_inv fr"
  shows "fr_pending (fr_compact fr) = (if fr_discard fr then [] else fr_pending fr)"
    and "fr_discard (fr_compact fr) = fr_discard fr"
    and "fr_offset (fr_compact fr) = 0" and "fr_search (fr_compact fr) = fr_filled (fr_compact fr)"
    and "fr_filled (fr_compact fr) = (if fr_discard fr then 0 else length (fr_pending fr))"
    and "length (fr_buffer (fr_compact fr)) = MAX_FRAME_SIZE + 1"
  using assms
  by (auto simp: fr_compact_def Let_def fr_inv_def fr_pending_def subvec_def splice_at_def)

lemma fr_compact_inv:
  assumes "fr_inv fr" and "0 \<notin> set (fr_pending fr)"
  shows "fr_inv (fr_compact fr)"
proof -
  note c = fr_compact_pending [OF assms(1)]
  have "subvec (fr_buffer (fr_compact fr)) 0 (fr_filled (fr_compact fr)) = fr_pending (fr_compact fr)"
    using c(3) by (simp add: fr_pending_def)
  moreover have "length (fr_pending fr) \<le> MAX_FRAME_SIZE + 1"
    using assms(1) by (auto simp: fr_inv_def fr_pending_def)
  ultimately show ?thesis
    using assms(2) c by (auto simp: fr_inv_def)
qed


section \<open>Refinement\<close>

lemma split_next_skip: "0 \<notin> set xs \<Longrightarrow> split_next True (xs @ ys) = split_next True ys"
proof -
  assume nz: "0 \<notin> set xs"
  have "memchr 0 (xs @ ys) = map_option (\<lambda>i. length xs + i) (memchr 0 ys)"
    using nz by (induction xs) (cases "memchr 0 ys"; simp add: option.map_comp o_def)+
  then show ?thesis
    by (cases "memchr 0 ys") (simp_all add: split_next_def)
qed

lemma split_next_found:
  assumes "0 \<notin> set xs" "length xs \<le> MAX_FRAME_SIZE"
  shows "split_next False (xs @ 0 # ys) = Some (FrameEv xs, False, ys)"
    and "split_next True (xs @ 0 # ys) = split_next False ys"
proof -
  have tw: "takeWhile (\<lambda>b. b \<noteq> 0) (xs @ 0 # ys) = xs"
    using assms(1) by (simp add: takeWhile_neq_notin)
  show "split_next False (xs @ 0 # ys) = Some (FrameEv xs, False, ys)"
    using assms(2) by (simp add: split_next_def split_plain_def tw Let_def)
  show "split_next True (xs @ 0 # ys) = split_next False ys"
    using assms(1) split_next_skip [of xs "0 # ys"] by (simp add: split_next_def)
qed

lemma split_next_oversize:
  assumes "0 \<notin> set xs" "length xs = MAX_FRAME_SIZE + 1"
  shows "split_next False (xs @ ys) = Some (OversizeEv, True, ys)"
  using assms by (simp add: split_next_def split_plain_def Let_def takeWhile_neq_notin)

text \<open>What a return of the reader means for the byte stream it was given.\<close>

definition frame_result ::
  "bool \<Rightarrow> bytes \<Rightarrow> (transport_error, nat \<times> nat) result \<Rightarrow> frame_reader \<times> env \<Rightarrow> bool" where
  "frame_result discard stream r s' \<longleftrightarrow>
     (case r of
        Ok (start, stop) \<Rightarrow>
          start \<le> stop \<and> stop \<le> MAX_FRAME_SIZE \<and>
          split_next discard stream =
            Some (FrameEv (subvec (fr_buffer (fst s')) start stop), fr_discard (fst s'), fr_stream s')
      | Err (FrameTooLarge n) \<Rightarrow>
          n = MAX_FRAME_SIZE + 1 \<and>
          split_next discard stream = Some (OversizeEv, fr_discard (fst s'), fr_stream s')
      | Err err \<Rightarrow>
          (err = Terminated \<or> (\<exists>k. err = RecvFailed k)) \<and>
          split_next discard stream = split_next (fr_discard (fst s')) (fr_stream s'))"

definition reader_ok :: "frame_reader \<Rightarrow> env \<Rightarrow> (transport_error, nat \<times> nat) result \<Rightarrow>
    frame_reader \<times> env \<Rightarrow> bool" where
  "reader_ok fr e r s' \<longleftrightarrow>
     fr_inv (fst s') \<and> frame_result (fr_discard fr) (fr_stream (fr, e)) r s' \<and>
     e_output (snd s') = e_output e \<and> e_writes (snd s') = e_writes e"

text \<open>A pass that goes round again has not changed what the stream means.\<close>

definition reader_again :: "frame_reader \<Rightarrow> env \<Rightarrow> frame_reader \<Rightarrow> env \<Rightarrow> bool" where
  "reader_again fr e fr1 e1 \<longleftrightarrow>
     fr_inv fr1 \<and>
     split_next (fr_discard fr1) (fr_stream (fr1, e1)) = split_next (fr_discard fr) (fr_stream (fr, e)) \<and>
     e_output e1 = e_output e \<and> e_writes e1 = e_writes e \<and>
     (length (e_reads e1) < length (e_reads e) \<or>
      e_reads e1 = e_reads e \<and> fr_discard fr \<and> \<not> fr_discard fr1)"

lemma reader_again_ok:
  "reader_again fr e fr1 e1 \<Longrightarrow> reader_ok fr1 e1 r s' \<Longrightarrow> reader_ok fr e r s'"
  by (auto simp: reader_again_def reader_ok_def frame_result_def split: sum.splits transport_error.splits)

lemma reader_again_clock:
  "reader_again fr (e\<lparr>e_clock := c\<rparr>) fr1 e1 \<Longrightarrow> reader_again fr e fr1 e1"
  "reader_ok fr (e\<lparr>e_clock := c\<rparr>) r s' \<Longrightarrow> reader_ok fr e r s'"
  by (simp_all add: reader_again_def reader_ok_def fr_stream_def)

text \<open>A delimiter is in the buffer.\<close>

lemma next_frame_found:
  assumes inv: "fr_inv fr" and found: "memchr 0 (subvec (fr_buffer fr) (fr_search fr) (fr_filled fr)) = Some i"
  defines "stop \<equiv> fr_search fr + i"
  defines "fr1 \<equiv> fr\<lparr>fr_offset := stop + 1, fr_search := stop + 1\<rparr>"
  shows "fr_discard fr \<Longrightarrow> reader_again fr e (fr1\<lparr>fr_discard := False\<rparr>) e"
    and "\<not> fr_discard fr \<Longrightarrow> reader_ok fr e (Ok (fr_offset fr, stop)) (fr1, e)"
proof -
  note d = fr_delimiter [OF inv found, folded stop_def]
  have inv1: "fr_inv fr1" "fr_inv (fr1\<lparr>fr_discard := False\<rparr>)"
    using inv d(1) by (auto simp: fr_inv_def fr1_def)
  have len: "stop \<le> MAX_FRAME_SIZE"
    using inv d(1) by (auto simp: fr_inv_def)
  then have flen: "length (subvec (fr_buffer fr) (fr_offset fr) stop) \<le> MAX_FRAME_SIZE"
    using inv by (auto simp: fr_inv_def)
  have stream: "fr_stream (fr, e) = subvec (fr_buffer fr) (fr_offset fr) stop @ 0 # fr_stream (fr1, e)"
    "fr_stream (fr1\<lparr>fr_discard := False\<rparr>, e) = fr_stream (fr1, e)"
    using d(3) by (simp_all add: fr_stream_def fr_pending_def fr1_def)
  note sp = split_next_found [OF d(4) flen, of "fr_stream (fr1, e)"]
  show "reader_again fr e (fr1\<lparr>fr_discard := False\<rparr>) e" if "fr_discard fr"
    using that stream sp(2) inv1(2) by (simp add: reader_again_def)
  show "reader_ok fr e (Ok (fr_offset fr, stop)) (fr1, e)" if "\<not> fr_discard fr"
    using that stream sp(1) inv1(1) d(2) len by (simp add: reader_ok_def frame_result_def fr1_def)
qed

text \<open>There is none: the buffer overflowed, or it is refilled.\<close>

lemma fr_append:
  assumes inv: "fr_inv fr" and "fr_filled fr + length bs \<le> MAX_FRAME_SIZE + 1"
  defines "fr' \<equiv> fr\<lparr>fr_buffer := splice_at (fr_buffer fr) (fr_filled fr) bs,
      fr_filled := fr_filled fr + length bs\<rparr>"
  shows "fr_pending fr' = fr_pending fr @ bs" and "fr_inv fr'"
proof -
  let ?b = "fr_buffer fr"
  have len: "length ?b = MAX_FRAME_SIZE + 1" "fr_offset fr \<le> fr_search fr"
    "fr_search fr \<le> fr_filled fr" "fr_filled fr \<le> length ?b"
    using inv by (auto simp: fr_inv_def)
  show "fr_pending fr' = fr_pending fr @ bs"
    using len by (simp add: fr_pending_def fr'_def subvec_splice_at)
  have "subvec (splice_at ?b (fr_filled fr) bs) (fr_offset fr) (fr_search fr) =
      subvec ?b (fr_offset fr) (fr_search fr)"
    using len by (simp add: subvec_def splice_at_def)
  then show "fr_inv fr'"
    using inv assms(2) len by (simp add: fr_inv_def fr'_def)
qed

lemma next_frame_refill:
  assumes inv: "fr_inv fr"
    and none: "memchr 0 (subvec (fr_buffer fr) (fr_search fr) (fr_filled fr)) = None"
  defines "fr1 \<equiv> fr_compact fr"
  shows "fr_filled fr1 = MAX_FRAME_SIZE + 1 \<Longrightarrow>
      reader_ok fr e (Err (FrameTooLarge (MAX_FRAME_SIZE + 1)))
        (fr1\<lparr>fr_discard := True, fr_filled := 0, fr_offset := 0, fr_search := 0\<rparr>, e)"
    and "fr_filled fr1 \<noteq> MAX_FRAME_SIZE + 1 \<Longrightarrow>
      read_half (length (fr_buffer fr1) - fr_filled fr1) deadline e = Some (Err k, e2) \<Longrightarrow>
      reader_ok fr e (Err (RecvFailed k)) (fr1, e2)"
    and "fr_filled fr1 \<noteq> MAX_FRAME_SIZE + 1 \<Longrightarrow>
      read_half (length (fr_buffer fr1) - fr_filled fr1) deadline e = Some (Ok [], e2) \<Longrightarrow>
      reader_ok fr e (Err Terminated) (fr1, e2)"
    and "fr_filled fr1 \<noteq> MAX_FRAME_SIZE + 1 \<Longrightarrow>
      read_half (length (fr_buffer fr1) - fr_filled fr1) deadline e = Some (Ok bs, e2) \<Longrightarrow> bs \<noteq> [] \<Longrightarrow>
      reader_again fr e (fr1\<lparr>fr_buffer := splice_at (fr_buffer fr1) (fr_filled fr1) bs,
          fr_filled := fr_filled fr1 + length bs\<rparr>) e2"
proof -
  note nz = fr_no_delimiter [OF inv none]
  note cp = fr_compact_pending [OF inv, folded fr1_def]
    and inv1 = fr_compact_inv [OF inv nz, folded fr1_def]
  have skip: "split_next (fr_discard fr) (fr_pending fr @ ys) =
      split_next (fr_discard fr1) (fr_pending fr1 @ ys)" for ys
    using nz cp(1,2) split_next_skip [of "fr_pending fr" ys] by simp
  show "reader_ok fr e (Err (FrameTooLarge (MAX_FRAME_SIZE + 1)))
      (fr1\<lparr>fr_discard := True, fr_filled := 0, fr_offset := 0, fr_search := 0\<rparr>, e)"
    if "fr_filled fr1 = MAX_FRAME_SIZE + 1"
    using that cp(5,6) split_next_oversize [OF nz, of "e_input e"]
    by (auto simp: reader_ok_def frame_result_def fr_inv_def fr_stream_def fr_pending_def split: if_splits)
  show "reader_ok fr e (Err (RecvFailed k)) (fr1, e2)"
    if "read_half (length (fr_buffer fr1) - fr_filled fr1) deadline e = Some (Err k, e2)"
    using read_half_Err [OF that] skip inv1 by (simp add: reader_ok_def frame_result_def fr_stream_def)
  show "reader_ok fr e (Err Terminated) (fr1, e2)"
    if "read_half (length (fr_buffer fr1) - fr_filled fr1) deadline e = Some (Ok [], e2)"
    using read_half_Ok [OF that] skip inv1 by (simp add: reader_ok_def frame_result_def fr_stream_def)
  show "reader_again fr e (fr1\<lparr>fr_buffer := splice_at (fr_buffer fr1) (fr_filled fr1) bs,
        fr_filled := fr_filled fr1 + length bs\<rparr>) e2"
    if nf: "fr_filled fr1 \<noteq> MAX_FRAME_SIZE + 1"
      and rd: "read_half (length (fr_buffer fr1) - fr_filled fr1) deadline e = Some (Ok bs, e2)"
      and ne: "bs \<noteq> []"
  proof -
    have fits: "fr_filled fr1 + length bs \<le> MAX_FRAME_SIZE + 1"
      using read_half_Ok(2) [OF rd] cp(6) inv1 by (auto simp: fr_inv_def)
    show ?thesis
      using fr_append [OF inv1 fits] read_half_Ok [OF rd] ne skip [of "e_input e"]
      by (simp add: reader_again_def fr_stream_def)
  qed
qed

lemma next_frame_cases:
  assumes run: "next_frame deadline (fr, e) = Some (r, s')" and inv: "fr_inv fr"
  obtains (stop) "reader_ok fr e r s'"
  | (again) fr1 e1 where "next_frame deadline (fr1, e1) = Some (r, s')" "reader_again fr e fr1 e1"
proof -
  let ?search = "memchr 0 (subvec (fr_buffer fr) (fr_search fr) (fr_filled fr))"
  from run obtain rc e1 where c: "opt_check_deadline deadline e = Some (rc, e1)"
    by (auto simp: next_frame.simps split: option.splits)
  then obtain cl where e1: "e1 = e\<lparr>e_clock := cl\<rparr>"
    by (auto simp: opt_check_deadline_def split: option.splits) (metis env.surjective env.update_convs(1))
  show thesis
  proof (cases rc)
    case (Inl k)
    with run c inv e1 show thesis
      by (intro stop) (auto simp: next_frame.simps reader_ok_def frame_result_def fr_stream_def)
  next
    case ok: (Inr u)
    note unfold = run [unfolded next_frame.simps [of deadline fr e] c ok, simplified]
    show thesis
    proof (cases ?search)
      case (Some i)
      show thesis
        using unfold Some next_frame_found [OF inv Some, of e1] reader_again_clock e1
        by (auto simp: Let_def split: if_splits intro: stop again)
    next
      case None
      note refill = next_frame_refill [OF inv None]
        and clock = reader_again_clock [of fr cl e, folded e1]
      let ?fr1 = "fr_compact fr"
      let ?read = "read_half (length (fr_buffer ?fr1) - fr_filled ?fr1) deadline e1"
      show thesis
      proof (cases "fr_filled ?fr1 = MAX_FRAME_SIZE + 1")
        case True
        with unfold None show thesis
          using clock(2) [OF refill(1) [OF True]] by (auto intro!: stop)
      next
        case False
        with unfold None obtain q e2 where q: "?read = Some (q, e2)"
          by (auto simp: Let_def split: option.splits)
        with unfold None False clock(2) [OF refill(2)] clock(2) [OF refill(3)] clock(1) [OF refill(4)]
        show thesis
          by (cases q) (auto simp: Let_def split: if_splits intro: stop again)
      qed
    qed
  qed
qed

lemma next_frame_refines:
  assumes "next_frame deadline (fr, e) = Some (r, s')" and "fr_inv fr"
  shows "reader_ok fr e r s'"
  using assms
proof (induction "(length (e_reads e), if fr_discard fr then 1 else 0 :: nat)" arbitrary: fr e
    rule: wf_induct_rule [OF wf_lex_prod [OF wf_less wf_less]])
  case 1
  from "1.prems" show ?case
  proof (cases rule: next_frame_cases)
    case stop
    then show ?thesis .
  next
    case (again fr1 e1)
    from again(2) have "reader_ok fr1 e1 r s'"
      by (intro "1.hyps" [OF _ again(1)]) (auto simp: reader_again_def)
    with again(2) show ?thesis by (rule reader_again_ok)
  qed
qed


section \<open>Progress\<close>

text \<open>A buffered frame is returned without any call of the adapter or the coordinator.\<close>

lemma next_frame_buffered_step:
  assumes inv: "fr_inv fr" and zero: "0 \<in> set (fr_pending fr)"
  obtains i where "memchr 0 (subvec (fr_buffer fr) (fr_search fr) (fr_filled fr)) = Some i"
  using fr_no_delimiter [OF inv] zero by (cases "memchr 0 (subvec (fr_buffer fr) (fr_search fr) (fr_filled fr))") auto

text \<open>An adapter that always delivers: no closure, no failing call, at least one byte per read, and
  as many calls as the input can need.\<close>

definition delivers :: "env \<Rightarrow> bool" where
  "delivers e \<longleftrightarrow> e_close e = None \<and> (\<forall>t \<in> set (e_reads e). \<exists>n. t = RdOk (Suc n)) \<and>
     2 * length (e_input e) \<le> length (e_reads e)"

lemma read_half_delivers:
  assumes "delivers e" and "e_input e \<noteq> []" and "0 < cap"
  obtains n where "read_half cap None e = Some (Ok (take (Suc n) (e_input e)),
      e\<lparr>e_reads := drop 2 (e_reads e), e_input := drop (Suc n) (e_input e)\<rparr>)"
    and "delivers (e\<lparr>e_reads := drop 2 (e_reads e), e_input := drop (Suc n) (e_input e)\<rparr>)"
proof -
  from assms(1,2) obtain a b ts where turns: "e_reads e = RdOk (Suc a) # RdOk (Suc b) # ts"
    unfolding delivers_def by (cases "e_reads e"; cases "tl (e_reads e)"; cases "e_input e") auto
  from assms(3) obtain n where n: "min (Suc b) cap = Suc n"
    by (cases "min (Suc b) cap") (auto simp: min_def split: if_splits)
  have "read_half cap None e = Some (Ok (take (Suc n) (e_input e)),
      e\<lparr>e_reads := drop 2 (e_reads e), e_input := drop (Suc n) (e_input e)\<rparr>)"
    using assms(1) turns n unfolding delivers_def
    by (simp add: read_half.simps run_eval opt_check_deadline_def enter_def rd_call_def take_input_def)
  moreover have "delivers (e\<lparr>e_reads := drop 2 (e_reads e), e_input := drop (Suc n) (e_input e)\<rparr>)"
    using assms(1,2) turns by (auto simp: delivers_def)
  ultimately show thesis by (rule that)
qed

lemma split_next_None: "0 \<notin> set xs \<Longrightarrow> length xs \<le> MAX_FRAME_SIZE \<Longrightarrow> split_next False xs = None"
proof -
  assume "0 \<notin> set xs" and len: "length xs \<le> MAX_FRAME_SIZE"
  then have tw: "takeWhile (\<lambda>b. b \<noteq> 0) xs = xs" by (auto simp: takeWhile_eq_all_conv)
  show ?thesis using len by (simp add: split_next_def split_plain_def Let_def tw del: takeWhile_eq_all_conv)
qed

lemma split_next_True_None: "0 \<notin> set xs \<Longrightarrow> split_next True xs = None"
  by (simp add: split_next_def memchr_None_iff [symmetric])

lemma next_frame_again_delivers:
  assumes inv: "fr_inv fr" and del: "delivers e" and ev: "split_next (fr_discard fr) (fr_stream (fr, e)) \<noteq> None"
  obtains (stop) r fr' where "next_frame None (fr, e) = Some (r, fr', e)"
      "(\<exists>p. r = Ok p) \<or> (\<exists>n. r = Err (FrameTooLarge n))"
  | (again) fr1 e1 where "next_frame None (fr, e) = next_frame None (fr1, e1)"
      "reader_again fr e fr1 e1" "delivers e1"
proof -
  note unfold = next_frame.simps [of None fr e, unfolded opt_check_deadline_def ret_def, simplified]
  show thesis
  proof (cases "memchr 0 (subvec (fr_buffer fr) (fr_search fr) (fr_filled fr))")
    case (Some i)
    with unfold next_frame_found(1) [OF inv Some, of e] del show thesis
      by (cases "fr_discard fr") (auto simp: Let_def ret_def intro: stop again)
  next
    case None
    let ?fr1 = "fr_compact fr"
    note cp = fr_compact_pending [OF inv] and nz = fr_no_delimiter [OF inv None]
    show thesis
    proof (cases "fr_filled ?fr1 = MAX_FRAME_SIZE + 1")
      case True
      with unfold None show thesis by (intro stop) (auto simp: fail_def)
    next
      case False
      have len: "fr_filled ?fr1 \<le> MAX_FRAME_SIZE" "0 < length (fr_buffer ?fr1) - fr_filled ?fr1"
        using fr_compact_inv [OF inv nz] False by (auto simp: fr_inv_def)
      have "e_input e \<noteq> []"
      proof
        assume "e_input e = []"
        with ev nz cp(5) len show False
          by (cases "fr_discard fr") (simp_all add: fr_stream_def split_next_None split_next_True_None)
      qed
      from read_half_delivers [OF del this len(2)] obtain n where
        rd: "read_half (length (fr_buffer ?fr1) - fr_filled ?fr1) None e = Some (Ok (take (Suc n) (e_input e)),
          e\<lparr>e_reads := drop 2 (e_reads e), e_input := drop (Suc n) (e_input e)\<rparr>)"
        and del': "delivers (e\<lparr>e_reads := drop 2 (e_reads e), e_input := drop (Suc n) (e_input e)\<rparr>)" .
      with unfold None False next_frame_refill(4) [OF inv None False rd] \<open>e_input e \<noteq> []\<close> show thesis
        by (auto simp: Let_def intro: again)
    qed
  qed
qed

lemma next_frame_delivers:
  assumes "fr_inv fr" and "delivers e" and "split_next (fr_discard fr) (fr_stream (fr, e)) \<noteq> None"
  shows "\<exists>r fr' e'. next_frame None (fr, e) = Some (r, fr', e') \<and> delivers e' \<and>
    ((\<exists>p. r = Ok p) \<or> (\<exists>n. r = Err (FrameTooLarge n)))"
  using assms
proof (induction "(length (e_reads e), if fr_discard fr then 1 else 0 :: nat)" arbitrary: fr e
    rule: wf_induct_rule [OF wf_lex_prod [OF wf_less wf_less]])
  case 1
  from "1.prems" show ?case
  proof (cases rule: next_frame_again_delivers)
    case (stop r fr')
    with "1.prems"(2) show ?thesis by blast
  next
    case (again fr1 e1)
    have "\<exists>r fr' e'. next_frame None (fr1, e1) = Some (r, fr', e') \<and> delivers e' \<and>
        ((\<exists>p. r = Ok p) \<or> (\<exists>n. r = Err (FrameTooLarge n)))"
      using again(2,3) "1.prems"(3) by (intro "1.hyps") (auto simp: reader_again_def)
    with again(1) show ?thesis by simp
  qed
qed



section \<open>Whole streams\<close>

text \<open>The frames of a byte stream, read off its zero bytes: the complete segments, then an
  oversized rest if the last segment has already grown past the limit.\<close>

fun zero_segments :: "bytes \<Rightarrow> bytes list \<times> bytes" where
  "zero_segments [] = ([], [])"
| "zero_segments (b # bs) =
     (case zero_segments bs of
        (segs, rest) \<Rightarrow>
          if b = 0 then ([] # segs, rest)
          else (case segs of [] \<Rightarrow> ([], b # rest) | s # ss \<Rightarrow> ((b # s) # ss, rest)))"

definition segment_event :: "bytes \<Rightarrow> frame_event" where
  "segment_event f = (if length f > MAX_FRAME_SIZE then OversizeEv else FrameEv f)"

definition frame_events :: "bytes \<Rightarrow> frame_event list" where
  "frame_events xs =
     (case zero_segments xs of
        (segs, rest) \<Rightarrow> map segment_event segs @ (if length rest > MAX_FRAME_SIZE then [OversizeEv] else []))"

text \<open>What is still to come when the reader is inside an oversized frame: that frame itself has
  been reported.\<close>

definition events_after :: "bool \<Rightarrow> bytes \<Rightarrow> frame_event list" where
  "events_after discard xs =
     (if discard then (case memchr 0 xs of None \<Rightarrow> [] | Some i \<Rightarrow> frame_events (drop (i + 1) xs))
      else frame_events xs)"

text \<open>A sequence of calls, each with its own deadline, and the frames they return.\<close>

definition event_of :: "(transport_error, nat \<times> nat) result \<Rightarrow> frame_reader \<Rightarrow> frame_event list" where
  "event_of r fr = (case r of
      Ok (start, stop) \<Rightarrow> [FrameEv (subvec (fr_buffer fr) start stop)]
    | Err (FrameTooLarge _) \<Rightarrow> [OversizeEv]
    | Err _ \<Rightarrow> [])"

fun read_frames :: "instant option list \<Rightarrow> frame_reader \<times> env \<Rightarrow> (frame_event list \<times> frame_reader \<times> env) option" where
  "read_frames [] s = Some ([], s)"
| "read_frames (d # ds) s =
     (case next_frame d s of
        None \<Rightarrow> None
      | Some (r, s') \<Rightarrow> map_option (\<lambda>(evs, s''). (event_of r (fst s') @ evs, s'')) (read_frames ds s'))"

lemma zero_segments_found:
  "0 \<notin> set f \<Longrightarrow> zero_segments (f @ 0 # xs) = (f # fst (zero_segments xs), snd (zero_segments xs))"
  by (induction f) (auto split: prod.splits)

lemma zero_segments_none: "0 \<notin> set f \<Longrightarrow> zero_segments f = ([], f)"
  by (induction f) auto

lemma frame_events_found: "0 \<notin> set f \<Longrightarrow> frame_events (f @ 0 # xs) = segment_event f # frame_events xs"
  by (simp add: frame_events_def zero_segments_found split: prod.splits)

lemma frame_events_none:
  "0 \<notin> set f \<Longrightarrow> frame_events f = (if length f > MAX_FRAME_SIZE then [OversizeEv] else [])"
  by (simp add: frame_events_def zero_segments_none)

lemma split_at_zero:
  obtains (none) "0 \<notin> set xs" | (found) f ys where "xs = f @ 0 # ys" "0 \<notin> set (f :: bytes)"
  by (meson split_list_first)

lemma memchr_found: "0 \<notin> set f \<Longrightarrow> memchr 0 (f @ 0 # ys) = Some (length f)"
  by (induction f) auto

lemma frame_events_oversize:
  assumes "0 \<notin> set f" and "length f = MAX_FRAME_SIZE + 1"
  shows "frame_events (f @ ys) = OversizeEv # events_after True ys"
proof (cases ys rule: split_at_zero)
  case none
  with assms have none: "memchr 0 ys = None" "0 \<notin> set (f @ ys)" by (auto simp: memchr_None_iff)
  show ?thesis using assms(2) none(1) frame_events_none [OF none(2)] by (simp add: events_after_def)
next
  case (found g zs)
  with assms have "0 \<notin> set (f @ g)" by auto
  from frame_events_found [OF this, of zs] found assms show ?thesis
    by (simp add: segment_event_def events_after_def memchr_found)
qed

text \<open>The two descriptions of a stream agree.\<close>

lemma events_after_split_False:
  "frame_events xs = (case split_next False xs of None \<Rightarrow> [] | Some (ev, d, ys) \<Rightarrow> ev # events_after d ys)"
proof (cases xs rule: split_at_zero)
  case none
  show ?thesis
  proof (cases "length xs \<le> MAX_FRAME_SIZE")
    case True
    with none show ?thesis by (simp add: split_next_None frame_events_none)
  next
    case False
    define f where "f = take (MAX_FRAME_SIZE + 1) xs"
    have f: "xs = f @ drop (MAX_FRAME_SIZE + 1) xs" "length f = MAX_FRAME_SIZE + 1" "0 \<notin> set f"
      using False none by (auto simp: f_def dest: in_set_takeD)
    from split_next_oversize [OF f(3,2), of "drop (MAX_FRAME_SIZE + 1) xs"]
      frame_events_oversize [OF f(3,2), of "drop (MAX_FRAME_SIZE + 1) xs"]
    show ?thesis unfolding f(1) [symmetric] by simp
  qed
next
  case (found f ys)
  show ?thesis
  proof (cases "length f \<le> MAX_FRAME_SIZE")
    case True
    with found show ?thesis
      by (simp add: split_next_found frame_events_found segment_event_def events_after_def)
  next
    case False
    define g where "g = take (MAX_FRAME_SIZE + 1) f"
    have g: "xs = g @ drop (MAX_FRAME_SIZE + 1) f @ 0 # ys" "length g = MAX_FRAME_SIZE + 1" "0 \<notin> set g"
      using False found by (auto simp: g_def dest: in_set_takeD)
    from split_next_oversize [OF g(3,2)] frame_events_oversize [OF g(3,2)] show ?thesis
      unfolding g(1) by simp
  qed
qed

lemma events_after_split:
  "events_after d0 xs = (case split_next d0 xs of None \<Rightarrow> [] | Some (ev, d, ys) \<Rightarrow> ev # events_after d ys)"
proof (cases d0)
  case False
  then show ?thesis using events_after_split_False by (simp add: events_after_def)
next
  case True
  then show ?thesis
    by (cases "memchr 0 xs")
      (simp_all add: events_after_def [of True] split_next_def events_after_split_False [unfolded split_next_def])
qed

lemma read_frames_events:
  assumes "read_frames ds (fr, e) = Some (evs, fr', e')" and "fr_inv fr"
  shows "fr_inv fr' \<and> events_after (fr_discard fr) (fr_stream (fr, e)) =
           evs @ events_after (fr_discard fr') (fr_stream (fr', e'))"
  using assms
proof (induction ds arbitrary: fr e evs)
  case (Cons d ds)
  from Cons.prems(1) obtain r fr1 e1 evs1 where
    run: "next_frame d (fr, e) = Some (r, fr1, e1)"
    and rest: "read_frames ds (fr1, e1) = Some (evs1, fr', e')" and evs: "evs = event_of r fr1 @ evs1"
    by (auto split: option.splits)
  note ok = next_frame_refines [OF run Cons.prems(2), unfolded reader_ok_def frame_result_def]
  have "events_after (fr_discard fr) (fr_stream (fr, e)) =
      event_of r fr1 @ events_after (fr_discard fr1) (fr_stream (fr1, e1))"
    using ok events_after_split [of "fr_discard fr" "fr_stream (fr, e)"]
      events_after_split [of "fr_discard fr1" "fr_stream (fr1, e1)"]
    by (auto simp: event_of_def split: sum.splits transport_error.splits)
  with Cons.IH [OF rest] ok evs show ?case by simp
qed simp



text \<open>On an adapter that delivers, as many calls as there are frames return these frames.\<close>

lemma read_frames_delivers:
  assumes "fr_inv fr" and "delivers e" and "n \<le> length (events_after (fr_discard fr) (fr_stream (fr, e)))"
  shows "\<exists>fr' e'. read_frames (replicate n None) (fr, e) =
    Some (take n (events_after (fr_discard fr) (fr_stream (fr, e))), fr', e')"
  using assms
proof (induction n arbitrary: fr e)
  case (Suc n)
  let ?evs = "\<lambda>fr e. events_after (fr_discard fr) (fr_stream (fr, e))"
  have "split_next (fr_discard fr) (fr_stream (fr, e)) \<noteq> None"
    using Suc.prems(3) events_after_split [of "fr_discard fr" "fr_stream (fr, e)"] by (auto split: option.splits)
  from next_frame_delivers [OF Suc.prems(1,2) this] obtain r fr1 e1 where
    run: "next_frame None (fr, e) = Some (r, fr1, e1)" "delivers e1"
    and r: "(\<exists>p. r = Ok p) \<or> (\<exists>n. r = Err (FrameTooLarge n))" by blast
  have "read_frames [None] (fr, e) = Some (event_of r fr1, fr1, e1)"
    by (simp add: run)
  note evs = read_frames_events [OF this Suc.prems(1)]
  have one: "length (event_of r fr1) = 1" using r by (auto simp: event_of_def)
  have "\<exists>fr' e'. read_frames (replicate n None) (fr1, e1) = Some (take n (?evs fr1 e1), fr', e')"
    using Suc.prems(3) evs run(2) one by (intro Suc.IH) auto
  with run(1) evs one show ?case by (auto simp: take_Cons')
qed simp


section \<open>Properties of the reader\<close>

text \<open>C10: whatever chunks the adapter delivers and however many calls fail or expire in between, the
  frames and oversize reports the reader has returned, followed by those its buffer and the rest
  of the input still hold, are exactly the frames of the input: none lost, invented, repeated or
  reordered, and an oversized frame is reported once.\<close>

theorem frame_reader_stream:
  assumes "read_frames deadlines (frame_reader_new, e) = Some (evs, fr', e')"
  shows "frame_events (e_input e) = evs @ events_after (fr_discard fr') (fr_stream (fr', e'))"
  using read_frames_events [OF assms fr_inv_new]
  by (simp add: fr_stream_def frame_reader_new_def [THEN arg_cong, of fr_discard] events_after_def)

text \<open>A call on a well-formed reader leaves it well-formed (indices in order and inside the
  buffer, searched bytes free of delimiters); a frame lies inside the limit and is the next one of
  the stream; only a closed stream and a failed read are reported otherwise, and these lose no
  byte of the next frame. Nothing is ever written.\<close>

theorem next_frame_contract:
  assumes "next_frame deadline (fr, e) = Some (r, s')" and "fr_inv fr"
  shows "fr_inv (fst s') \<and> frame_result (fr_discard fr) (fr_stream (fr, e)) r s' \<and>
    e_output (snd s') = e_output e \<and> e_writes (snd s') = e_writes e"
  using next_frame_refines [OF assms] by (simp add: reader_ok_def)

text \<open>C33: without a deadline the reader returns once the stream holds a frame or too many bytes
  without one, provided the adapter keeps delivering at least a byte per read.\<close>

theorem next_frame_live:
  assumes "fr_inv fr" and "delivers e" and "split_next (fr_discard fr) (fr_stream (fr, e)) \<noteq> None"
  shows "\<exists>r s'. next_frame None (fr, e) = Some (r, s') \<and> event_of r (fst s') \<noteq> []"
  using next_frame_delivers [OF assms] by (fastforce simp: event_of_def)

text \<open>A frame that is already buffered stays readable after the stream closed: it is returned
  without any call of the adapter or the shutdown coordinator, the environment is untouched.\<close>

theorem next_frame_buffered:
  assumes "fr_inv fr" and "\<not> fr_discard fr" and "0 \<in> set (fr_pending fr)"
  shows "\<exists>start stop fr'. next_frame None (fr, e) = Some (Ok (start, stop), fr', e) \<and>
    subvec (fr_buffer fr') start stop = takeWhile (\<lambda>b. b \<noteq> 0) (fr_pending fr)"
proof -
  obtain i where i: "memchr 0 (subvec (fr_buffer fr) (fr_search fr) (fr_filled fr)) = Some i"
    using next_frame_buffered_step [OF assms(1,3)] .
  note d = fr_delimiter [OF assms(1) i]
  show ?thesis
    using i assms(2) takeWhile_neq_notin [OF d(4)] d(3)
    by (simp add: next_frame.simps opt_check_deadline_def ret_def Let_def)
qed

text \<open>A stream of two frames that arrives in two reads with a timeout between them.\<close>

definition sample_env :: env where
  "sample_env = \<lparr>e_clock = \<lparr>now_at = 5, ticks = [1]\<rparr>, e_close = None, e_input = [7, 8, 0, 9],
     e_reads = [RdOk 1, RdOk 2, RdOk 1, RdOk 2, RdOk 1, RdOk 1, RdOk 1, RdOk 1], e_output = [],
     e_writes = []\<rparr>"

lemma sample_env_frame:
  "next_frame None (frame_reader_new, sample_env) = Some (Ok (0, 2), 
     \<lparr>fr_buffer = [7, 8, 0, 9] @ replicate (MAX_FRAME_SIZE - 3) 0, fr_filled = 4, fr_offset = 3,
      fr_search = 3, fr_discard = False\<rparr>,
     sample_env\<lparr>e_input := [], e_reads := drop 4 (e_reads sample_env)\<rparr>)"
  by (simp add: next_frame.simps frame_reader_new_def sample_env_def opt_check_deadline_def ret_def
      read_half.simps bindr_def attempt_def enter_def act_def rd_call_def take_input_def Let_def
      fr_compact_def subvec_def splice_at_def MAX_FRAME_SIZE_def del: replicate_Suc)


definition sample_reader :: frame_reader where
  "sample_reader = \<lparr>fr_buffer = [7, 8, 0, 9] @ replicate (MAX_FRAME_SIZE - 3) 0, fr_filled = 4,
     fr_offset = 3, fr_search = 3, fr_discard = False\<rparr>"

lemma sample_reader_pending: "fr_pending sample_reader = [9]"
  by (simp add: fr_pending_def sample_reader_def subvec_def)

theorem frame_reader_stream_witness:
  "frame_events [7, 8, 0, 9] = [FrameEv [7, 8]] @ events_after False [9]"
proof -
  have "read_frames [None] (frame_reader_new, sample_env) = Some ([FrameEv [7, 8]], sample_reader,
      sample_env\<lparr>e_input := [], e_reads := drop 4 (e_reads sample_env)\<rparr>)"
    by (simp add: sample_env_frame event_of_def subvec_def sample_reader_def)
  from frame_reader_stream [OF this] show ?thesis
    by (simp add: fr_stream_def sample_reader_pending) (simp add: sample_env_def sample_reader_def)
qed

theorem next_frame_contract_witness:
  "fr_inv sample_reader \<and> split_next False [7, 8, 0, 9] = Some (FrameEv [7, 8], False, [9])"
  using next_frame_contract [OF sample_env_frame fr_inv_new]
  by (simp add: frame_result_def fr_stream_def fr_pending_def subvec_def sample_reader_def [symmetric])
    (simp add: sample_env_def sample_reader_def frame_reader_new_def subvec_def)

theorem next_frame_live_witness:
  "\<exists>r s'. next_frame None (frame_reader_new, sample_env) = Some (r, s') \<and> event_of r (fst s') \<noteq> []"
proof (rule next_frame_live [OF fr_inv_new])
  show "delivers sample_env" by (simp add: delivers_def sample_env_def)
  have "fr_stream (frame_reader_new, sample_env) = [7, 8] @ 0 # [9]" "fr_discard frame_reader_new = False"
    by (simp_all add: fr_stream_def sample_env_def frame_reader_new_def fr_pending_def)
  then show "split_next (fr_discard frame_reader_new) (fr_stream (frame_reader_new, sample_env)) \<noteq> None"
    using split_next_found(1) [of "[7, 8]" "[9]"] by (simp add: MAX_FRAME_SIZE_def)
qed

theorem next_frame_buffered_witness:
  "\<exists>start stop fr'. next_frame None (sample_reader\<lparr>fr_offset := 0, fr_search := 0\<rparr>, sample_env\<lparr>e_close := Some 0\<rparr>) =
     Some (Ok (start, stop), fr', sample_env\<lparr>e_close := Some 0\<rparr>) \<and>
     subvec (fr_buffer fr') start stop = [7, 8]"
proof -
  let ?fr = "sample_reader\<lparr>fr_offset := 0, fr_search := 0\<rparr>"
  have pend: "fr_pending ?fr = [7, 8, 0, 9]"
    by (simp add: sample_reader_def fr_pending_def subvec_def)
  have "fr_inv ?fr" "\<not> fr_discard ?fr"
    by (simp_all add: sample_reader_def fr_inv_def MAX_FRAME_SIZE_def)
  from next_frame_buffered [OF this, of "sample_env\<lparr>e_close := Some 0\<rparr>"] show ?thesis
    unfolding pend by simp
qed

end
