(* ===== verification/Frame_Writer.thy ===== *)
theory Frame_Writer
  imports Transport_Base
begin

text \<open>
  The writing half of the framing layer, \<^verbatim>\<open>FrameWriter\<close> of \<^verbatim>\<open>src/src/transport/framing.rs\<close>: a
  vector of \<open>MAX_FRAME_SIZE + 2\<close> bytes whose first byte is reserved for the recovery delimiter,
  and the flag that asks for it after a failed send.

  The COBS crate is not part of the repository. Its three functions are a parameter, the record
  \<open>cobs\<close>, and what the framing layer relies on is the locale \<open>cobs_codec\<close>. A run that panics does
  not return, so its result is \<open>None\<close>; under the laws of the locale no send panics.
\<close>


section \<open>The COBS interface\<close>

text \<open>\<^verbatim>\<open>encode_buffer\<close>, the worst case of an encoding; \<^verbatim>\<open>encode\<close> into a slice of the given size,
  \<open>None\<close> when it does not fit; and \<^verbatim>\<open>decode_nonzero\<close>, which fails with an error code.\<close>

record cobs =
  cobs_encode_buffer :: "nat \<Rightarrow> nat"
  cobs_encode :: "bytes \<Rightarrow> nat \<Rightarrow> bytes option"
  cobs_decode :: "bytes \<Rightarrow> (nat, bytes) result"

locale cobs_codec =
  fixes c :: cobs
  assumes encode_fits: "cobs_encode_buffer c (length p) \<le> cap \<Longrightarrow> \<exists>f. cobs_encode c p cap = Some f"
    and encode_frame: "cobs_encode c p cap = Some f \<Longrightarrow>
      f \<noteq> [] \<and> 0 \<notin> set f \<and> length f \<le> cobs_encode_buffer c (length p) \<and> length f \<le> cap"
    and decode_encode: "cobs_encode c p cap = Some f \<Longrightarrow> cobs_decode c f = Ok p"
    and encode_buffer_mono: "m \<le> n \<Longrightarrow> cobs_encode_buffer c m \<le> cobs_encode_buffer c n"
begin

lemma encode_packet:
  assumes "cobs_encode_buffer c (length p) \<le> cap"
  obtains f where "cobs_encode c p cap = Some f" "f \<noteq> []" "0 \<notin> set f"
    "length f \<le> cobs_encode_buffer c (length p)" "cobs_decode c f = Ok p"
  using encode_fits [OF assms] encode_frame decode_encode by blast

lemma encode_inj: "cobs_encode c p cap = Some f \<Longrightarrow> cobs_encode c q cap' = Some f \<Longrightarrow> p = q"
  by (metis decode_encode sum.inject(2))

end


section \<open>The writer\<close>

record frame_writer =
  fw_resync :: bool
  fw_frame :: bytes

definition frame_writer_new :: frame_writer where
  "frame_writer_new = \<lparr>fw_resync = False, fw_frame = replicate (MAX_FRAME_SIZE + 2) 0\<rparr>"

text \<open>\<^verbatim>\<open>FrameWriter::send_frame\<close>. The deadline is checked once more after the write, and its error
  comes first.\<close>

definition send_frame :: "nat \<Rightarrow> instant \<Rightarrow> (frame_writer \<times> env, transport_error, unit) run" where
  "send_frame len deadline = (\<lambda>(fw, e).
     if len + 1 \<ge> length (fw_frame fw) then None
     else
       let frame1 = (fw_frame fw)[len + 1 := 0];
           start = (if fw_resync fw then 0 else 1)
       in case write_half (subvec frame1 start (len + 2)) deadline e of
            None \<Rightarrow> None
          | Some (result, e1) \<Rightarrow>
              (case env_check_deadline deadline e1 of
                 None \<Rightarrow> None
               | Some (late, e2) \<Rightarrow>
                   (case (case late of Err k \<Rightarrow> Err k | Ok _ \<Rightarrow> result) of
                      Err k \<Rightarrow> fail (SendFailed k) (fw\<lparr>fw_frame := frame1, fw_resync := True\<rparr>, e2)
                    | Ok _ \<Rightarrow> ret () (fw\<lparr>fw_frame := frame1, fw_resync := False\<rparr>, e2))))"

definition fw_send_reset :: "instant \<Rightarrow> (frame_writer \<times> env, transport_error, unit) run" where
  "fw_send_reset deadline = (\<lambda>(fw, e).
     send_frame 1 deadline (fw\<lparr>fw_resync := False, fw_frame := (fw_frame fw)[1 := 0]\<rparr>, e))"

definition fw_send_dropped :: "instant \<Rightarrow> (frame_writer \<times> env, transport_error, unit) run" where
  "fw_send_dropped deadline = send_frame 0 deadline"

definition fw_send_packet :: "cobs \<Rightarrow> bytes \<Rightarrow> instant \<Rightarrow> (frame_writer \<times> env, transport_error, unit) run" where
  "fw_send_packet c packet deadline = (\<lambda>(fw, e).
     let len = cobs_encode_buffer c (length packet) in
     if len > MAX_FRAME_SIZE then fail (FrameTooLarge len) (fw, e)
     else (case cobs_encode c packet MAX_FRAME_SIZE of
         None \<Rightarrow> None
       | Some f \<Rightarrow> send_frame (length f) deadline (fw\<lparr>fw_frame := splice_at (fw_frame fw) 1 f\<rparr>, e)))"

definition fw_send_frame_blob :: "bytes \<Rightarrow> instant \<Rightarrow> (frame_writer \<times> env, transport_error, unit) run" where
  "fw_send_frame_blob bs deadline = (\<lambda>(fw, e).
     if length bs > MAX_FRAME_SIZE then None
     else send_frame (length bs) deadline (fw\<lparr>fw_frame := splice_at (fw_frame fw) 1 bs\<rparr>, e))"


section \<open>What a send puts on the wire\<close>

definition fw_inv :: "frame_writer \<Rightarrow> bool" where
  "fw_inv fw \<longleftrightarrow> length (fw_frame fw) = MAX_FRAME_SIZE + 2 \<and> fw_frame fw ! 0 = 0"

lemma fw_inv_new: "fw_inv frame_writer_new"
  by (simp add: fw_inv_def frame_writer_new_def)

text \<open>The outcome of one send of \<open>payload\<close>: an accepted prefix, everything on success; the recovery
  flag is raised exactly after a failure; the input side is left alone.\<close>

definition sent :: "bytes \<Rightarrow> env \<Rightarrow> (transport_error, unit) result \<Rightarrow> frame_writer \<times> env \<Rightarrow> bool" where
  "sent payload e r s' \<longleftrightarrow>
     fw_inv (fst s') \<and> e_input (snd s') = e_input e \<and> e_reads (snd s') = e_reads e \<and>
     (\<exists>p. prefix p payload \<and> e_output (snd s') = e_output e @ p \<and>
        (case r of
           Ok _ \<Rightarrow> p = payload \<and> \<not> fw_resync (fst s')
         | Err err \<Rightarrow> fw_resync (fst s') \<and> (\<exists>k. err = SendFailed k)))"

abbreviation recovery :: "frame_writer \<Rightarrow> bytes" where
  "recovery fw \<equiv> (if fw_resync fw then [0] else [])"

lemma subvec_frame:
  assumes "length xs = Suc (Suc n)" "xs ! 0 = 0" "k \<le> n"
  shows "subvec (xs[Suc k := 0]) (if resync then 0 else 1) (k + 2) =
    (if resync then [0] else []) @ subvec xs 1 (Suc k) @ [0 :: byte]"
proof -
  from assms obtain ys where xs: "xs = 0 # ys" "length ys = Suc n"
    by (cases xs) auto
  have "take (Suc k) (ys[k := 0]) = take k ys @ [0]"
    using assms(3) xs(2) by (simp add: take_Suc_conv_app_nth)
  then show ?thesis using xs(1) by (simp add: subvec_def)
qed

lemma send_frame_sent:
  assumes "send_frame len deadline (fw, e) = Some (r, s')" and inv: "fw_inv fw" and "len \<le> MAX_FRAME_SIZE"
  shows "sent (recovery fw @ subvec (fw_frame fw) 1 (len + 1) @ [0]) e r s'"
proof -
  let ?frame = "(fw_frame fw)[len + 1 := 0]"
  let ?payload = "recovery fw @ subvec (fw_frame fw) 1 (len + 1) @ [0]"
  have payload: "subvec ?frame (if fw_resync fw then 0 else 1) (len + 2) = ?payload"
    using inv assms(3) subvec_frame [of "fw_frame fw" MAX_FRAME_SIZE len "fw_resync fw"]
    by (simp add: fw_inv_def)
  from assms(1,3) inv obtain w e1 late e2 where
    w: "write_half ?payload deadline e = Some (w, e1)"
    and late: "env_check_deadline deadline e1 = Some (late, e2)"
    and res: "(case (case late of Err k \<Rightarrow> Err k | Ok _ \<Rightarrow> w) of
        Err k \<Rightarrow> fail (SendFailed k) (fw\<lparr>fw_frame := ?frame, fw_resync := True\<rparr>, e2)
      | Ok _ \<Rightarrow> ret () (fw\<lparr>fw_frame := ?frame, fw_resync := False\<rparr>, e2)) = Some (r, s')"
    unfolding send_frame_def Let_def prod.case payload by (auto split: option.splits if_splits)
  have frame: "length ?frame = MAX_FRAME_SIZE + 2" "?frame ! 0 = 0"
    using inv by (auto simp: fw_inv_def)
  show ?thesis
    using res late write_half_effect [OF w] frame
    by (cases late; cases w) (auto simp: sent_def fw_inv_def)
qed

lemma send_frame_returns:
  assumes "fw_inv fw" and "len \<le> MAX_FRAME_SIZE" and "len + 4 \<le> wr_budget e"
  shows "\<exists>r s'. send_frame len deadline (fw, e) = Some (r, s')"
proof -
  let ?bs = "subvec ((fw_frame fw)[len + 1 := 0]) (if fw_resync fw then 0 else 1) (len + 2)"
  have "length ?bs + 2 \<le> wr_budget e"
    using assms by (simp add: fw_inv_def)
  from write_half_returns [OF this, of deadline] obtain w e1 where
    w: "write_half ?bs deadline e = Some (w, e1)" by blast
  obtain late e2 where "env_check_deadline deadline e1 = Some (late, e2)"
    using env_check_deadline_Ex by blast
  with w assms(1,2) show ?thesis
    unfolding send_frame_def Let_def
    by (cases late; cases w) (auto simp: fw_inv_def ret_def fail_def simp del: env_check_deadline_Some)
qed

lemma fw_send_reset_sent:
  assumes "fw_send_reset deadline (fw, e) = Some (r, s')" and "fw_inv fw"
  shows "sent [0, 0] e r s'"
proof -
  let ?fw = "fw\<lparr>fw_resync := False, fw_frame := (fw_frame fw)[1 := 0]\<rparr>"
  have inv: "fw_inv ?fw" using assms(2) by (simp add: fw_inv_def)
  have "subvec ((fw_frame fw)[1 := 0]) 1 2 = [0]"
    using assms(2) by (cases "fw_frame fw"; cases "tl (fw_frame fw)") (auto simp: fw_inv_def subvec_def)
  with send_frame_sent [of 1 deadline ?fw e r s'] assms(1) inv show ?thesis
    by (simp add: fw_send_reset_def MAX_FRAME_SIZE_def numeral_2_eq_2)
qed

lemma fw_send_dropped_sent:
  assumes "fw_send_dropped deadline (fw, e) = Some (r, s')" and "fw_inv fw"
  shows "sent (recovery fw @ [0]) e r s'"
  using send_frame_sent [of 0 deadline fw e r s'] assms by (simp add: fw_send_dropped_def)

lemma fw_inv_splice:
  assumes "fw_inv fw" and "length f \<le> MAX_FRAME_SIZE"
  shows "fw_inv (fw\<lparr>fw_frame := splice_at (fw_frame fw) 1 f\<rparr>)"
    and "subvec (splice_at (fw_frame fw) 1 f) 1 (length f + 1) = f"
  using assms subvec_splice_at [of 1 "fw_frame fw" 1 f]
  by (auto simp: fw_inv_def splice_at_def nth_append)

lemma fw_send_packet_sent:
  assumes "cobs_codec c" and "fw_send_packet c packet deadline (fw, e) = Some (r, s')" and inv: "fw_inv fw"
  obtains (large) "r = Err (FrameTooLarge (cobs_encode_buffer c (length packet)))" "s' = (fw, e)"
      "cobs_encode_buffer c (length packet) > MAX_FRAME_SIZE"
  | (packet) f where "cobs_encode c packet MAX_FRAME_SIZE = Some f" "sent (recovery fw @ f @ [0]) e r s'"
proof (cases "cobs_encode_buffer c (length packet) > MAX_FRAME_SIZE")
  case True
  with assms(2) large show thesis by (simp add: fw_send_packet_def)
next
  case False
  then have fits: "cobs_encode_buffer c (length packet) \<le> MAX_FRAME_SIZE" by simp
  from cobs_codec.encode_fits [OF assms(1) fits] obtain f where
    f1: "cobs_encode c packet MAX_FRAME_SIZE = Some f" by blast
  with cobs_codec.encode_frame [OF assms(1) f1] fits have
    f: "cobs_encode c packet MAX_FRAME_SIZE = Some f" "length f \<le> MAX_FRAME_SIZE" by auto
  let ?fw = "fw\<lparr>fw_frame := splice_at (fw_frame fw) 1 f\<rparr>"
  have "send_frame (length f) deadline (?fw, e) = Some (r, s')"
    using assms(2) False f by (simp add: fw_send_packet_def)
  from send_frame_sent [OF this fw_inv_splice(1) [OF inv f(2)] f(2)] fw_inv_splice(2) [OF inv f(2)] f(1)
  show thesis by (intro packet) simp_all
qed


text \<open>The result of sending a packet, computed from the result of the write.\<close>

lemma fw_send_packet_run:
  assumes "fw_inv fw" and "cobs_encode_buffer c (length p) \<le> MAX_FRAME_SIZE"
    and f: "cobs_encode c p MAX_FRAME_SIZE = Some f" "length f \<le> MAX_FRAME_SIZE"
    and w: "write_half (recovery fw @ f @ [0]) deadline e = Some (w, e1)"
    and late: "env_check_deadline deadline e1 = Some (Ok (), e2)"
  shows "\<exists>fw'. fw_inv fw' \<and> (fw_resync fw' \<longleftrightarrow> w \<noteq> Ok ()) \<and>
    fw_send_packet c p deadline (fw, e) =
      Some (case w of Err k \<Rightarrow> Err (SendFailed k) | Ok _ \<Rightarrow> Ok (), fw', e2)"
proof -
  let ?fw = "fw\<lparr>fw_frame := splice_at (fw_frame fw) 1 f\<rparr>"
  note sp = fw_inv_splice [OF assms(1) f(2)]
  let ?frame = "(fw_frame ?fw)[length f + 1 := 0]"
  have "subvec ?frame (if fw_resync ?fw then 0 else 1) (length f + 2) = recovery fw @ f @ [0]"
    using subvec_frame [of "fw_frame ?fw" MAX_FRAME_SIZE "length f" "fw_resync fw"] sp f(2)
    by (simp add: fw_inv_def)
  moreover have "fw_inv (?fw\<lparr>fw_frame := ?frame, fw_resync := b\<rparr>)" for b
    using sp(1) by (simp add: fw_inv_def)
  ultimately show ?thesis
    using sp(1) assms(2) f w late
    by (cases w) (auto simp: fw_send_packet_def send_frame_def Let_def fw_inv_def ret_def fail_def
        simp del: env_check_deadline_Some)
qed


lemma fw_send_reset_run:
  assumes "fw_inv fw" and w: "write_half [0, 0] deadline e = Some (w, e1)"
    and late: "env_check_deadline deadline e1 = Some (Ok (), e2)"
  shows "\<exists>fw'. fw_inv fw' \<and> (fw_resync fw' \<longleftrightarrow> w \<noteq> Ok ()) \<and>
    fw_send_reset deadline (fw, e) = Some (case w of Err k \<Rightarrow> Err (SendFailed k) | Ok _ \<Rightarrow> Ok (), fw', e2)"
proof -
  let ?fw = "fw\<lparr>fw_resync := False, fw_frame := (fw_frame fw)[1 := 0]\<rparr>"
  let ?frame = "(fw_frame ?fw)[1 + 1 := 0]"
  have inv: "fw_inv ?fw" using assms(1) by (simp add: fw_inv_def)
  have "subvec ((fw_frame fw)[1 := 0]) 1 2 = [0]"
    using assms(1) by (cases "fw_frame fw"; cases "tl (fw_frame fw)") (auto simp: fw_inv_def subvec_def)
  then have "subvec ?frame (if fw_resync ?fw then 0 else 1) (1 + 2) = [0, 0]"
    using subvec_frame [of "fw_frame ?fw" MAX_FRAME_SIZE 1 False] inv
    by (simp add: fw_inv_def numeral_2_eq_2 MAX_FRAME_SIZE_def)
  moreover have "fw_inv (?fw\<lparr>fw_frame := ?frame, fw_resync := b\<rparr>)" for b
    using inv by (simp add: fw_inv_def)
  ultimately show ?thesis
    using inv w late
    by (cases w) (auto simp: fw_send_reset_def send_frame_def Let_def fw_inv_def ret_def fail_def MAX_FRAME_SIZE_def
        simp del: env_check_deadline_Some)
qed

end
