(* ===== verification/Cobs_Reference.thy ===== *)
theory Cobs_Reference
  imports Frame_Writer
begin

text \<open>
  Consistent overhead byte stuffing in full, as an instance of the interface the framing layer
  assumes of its COBS crate: a code byte counts the nonzero bytes up to the next zero, and a full
  block of 254 nonzero bytes has no zero after it. The laws of \<open>cobs_codec\<close> are proved for it, so
  the theorems that assume them have a model.
\<close>


section \<open>Encoder and decoder\<close>

definition stuff_run :: "bytes \<Rightarrow> bytes" where
  "stuff_run xs = take 254 (takeWhile (\<lambda>b. b \<noteq> 0) xs)"

lemma length_stuff_run: "length (stuff_run xs) \<le> 254" "length (stuff_run xs) \<le> length xs"
  using length_takeWhile_le [of "\<lambda>b. b \<noteq> 0" xs] by (auto simp: stuff_run_def min_le_iff_disj)

function stuff :: "bytes \<Rightarrow> bytes" where
  "stuff xs =
     (let r = stuff_run xs; rest = drop (length r) xs in
      if length r = 254 then 255 # r @ (if rest = [] then [] else stuff rest)
      else word_of_nat (length r + 1) # r @ (if rest = [] then [] else stuff (tl rest)))"
  by pat_completeness auto
termination
  by (relation "measure length") auto

declare stuff.simps [simp del]

function unstuff :: "bytes \<Rightarrow> (nat, bytes) result" where
  "unstuff [] = Ok []"
| "unstuff (code # xs) =
     (if code = 0 then Err 1
      else if length xs < unat code - 1 then Err 2
      else
        let r = take (unat code - 1) xs; rest = drop (unat code - 1) xs in
        if rest = [] then Ok r
        else (case unstuff rest of
            Err k \<Rightarrow> Err k
          | Ok q \<Rightarrow> Ok (r @ (if code = 255 then [] else [0]) @ q)))"
  by pat_completeness auto
termination
  by (relation "measure length") auto

declare unstuff.simps [simp del]


section \<open>Laws\<close>

lemma stuff_run_nonzero: "0 \<notin> set (stuff_run xs)"
  by (auto simp: stuff_run_def dest!: in_set_takeD set_takeWhileD)

lemma stuff_run_split:
  "xs = stuff_run xs @ drop (length (stuff_run xs)) xs"
proof -
  have "prefix (stuff_run xs) xs"
    unfolding stuff_run_def by (rule prefix_order.trans [OF take_is_prefix takeWhile_is_prefix])
  then show ?thesis by (metis append_eq_conv_conj prefix_def)
qed

lemma stuff_run_zero:
  assumes "length (stuff_run xs) < 254" and "drop (length (stuff_run xs)) xs \<noteq> []"
  shows "hd (drop (length (stuff_run xs)) xs) = 0"
proof -
  have run: "stuff_run xs = takeWhile (\<lambda>b. b \<noteq> 0) xs"
    using assms(1) by (simp add: stuff_run_def min_def split: if_splits)
  then have "drop (length (stuff_run xs)) xs = dropWhile (\<lambda>b. b \<noteq> 0) xs"
    by (simp add: dropWhile_eq_drop)
  with assms(2) show ?thesis using hd_dropWhile [of "\<lambda>b. b \<noteq> 0" xs] by auto
qed

lemma unat_code: "n < 254 \<Longrightarrow> unat (word_of_nat (n + 1) :: byte) = n + 1"
  
  using unat_of_nat [of "n + 1", where 'a = 8] by simp

lemma code_neq:
  assumes "n < 254"
  shows "(word_of_nat (n + 1) :: byte) \<noteq> 0" "(word_of_nat (n + 1) :: byte) \<noteq> 255"
  using unat_code [OF assms] assms by (metis add_is_0 one_neq_zero unat_0, auto simp: unat_numeral)

lemma stuff_not_Nil: "stuff xs \<noteq> []"
  by (simp add: stuff.simps [of xs] Let_def)

lemma stuff_nonzero: "0 \<notin> set (stuff xs)"
proof (induction xs rule: stuff.induct)
  case (1 xs)
  have "length (stuff_run xs) < 254 \<or> length (stuff_run xs) = 254"
    using length_stuff_run(1) [of xs] by linarith
  with 1 code_neq(1) [of "length (stuff_run xs)"] show ?case
    by (auto simp: stuff.simps [of xs] Let_def stuff_run_nonzero)
qed

lemma unstuff_block:
  assumes "unat code = length r + 1" and "code \<noteq> 0" and "ys \<noteq> [] \<Longrightarrow> unstuff ys = Ok q" and "ys = [] \<Longrightarrow> q = []"
  shows "unstuff (code # r @ ys) = Ok (r @ (if ys = [] \<or> code = 255 then [] else [0]) @ q)"
  using assms by (auto simp: unstuff.simps Let_def)

lemma unstuff_stuff: "unstuff (stuff xs) = Ok xs"
proof (induction xs rule: stuff.induct)
  case (1 xs)
  let ?r = "stuff_run xs" and ?rest = "drop (length (stuff_run xs)) xs"
  show ?case
  proof (cases "length ?r = 254")
    case True
    have "unstuff (255 # ?r @ (if ?rest = [] then [] else stuff ?rest)) = Ok (?r @ ?rest)"
      using unstuff_block [of 255 ?r "if ?rest = [] then [] else stuff ?rest" ?rest] True "1.IH"(1) [OF refl refl]
      by (auto simp: stuff_not_Nil split: if_splits)
    with True stuff_run_split [of xs] show ?thesis by (simp add: stuff.simps [of xs] Let_def)
  next
    case False
    with length_stuff_run(1) [of xs] have lt: "length ?r < 254" by linarith
    show ?thesis
    proof (cases "?rest = []")
      case True
      with False lt unstuff_block [of "word_of_nat (length ?r + 1)" ?r "[]" "[]"] unat_code [OF lt] code_neq [OF lt]
        stuff_run_split [of xs]
      show ?thesis by (simp add: stuff.simps [of xs] Let_def)
    next
      case more: False
      then have "?rest = 0 # tl ?rest"
        using stuff_run_zero [OF lt] by (metis hd_Cons_tl)
      with False lt more unstuff_block [of "word_of_nat (length ?r + 1)" ?r "stuff (tl ?rest)" "tl ?rest"]
        unat_code [OF lt] code_neq [OF lt] "1.IH"(2) [OF refl refl] stuff_run_split [of xs] stuff_not_Nil [of "tl ?rest"]
      show ?thesis by (simp add: stuff.simps [of xs] Let_def) 
    qed
  qed
qed

lemma length_stuff: "length (stuff xs) \<le> length xs + length xs div 254 + 1"
proof (induction xs rule: stuff.induct)
  case (1 xs)
  let ?r = "stuff_run xs" and ?rest = "drop (length (stuff_run xs)) xs"
  have len: "length ?r \<le> length xs" using length_stuff_run(2) .
  show ?case
  proof (cases "length ?r = 254")
    case True
    then have d: "length xs div 254 = Suc ((length xs - 254) div 254)"
      using len by (simp add: le_div_geq)
    with True len "1.IH"(1) [OF refl refl] show ?thesis
      by (cases "?rest = []") (simp_all add: stuff.simps [of xs] Let_def)
  next
    case False
    show ?thesis
    proof (cases "?rest = []")
      case True
      with False len show ?thesis by (simp add: stuff.simps [of xs] Let_def)
    next
      case more: False
      have "(length xs - length ?r - 1) div 254 \<le> length xs div 254" by (intro div_le_mono) simp
      with False more "1.IH"(2) [OF refl refl] len show ?thesis by (simp add: stuff.simps [of xs] Let_def)
    qed
  qed
qed


section \<open>The instance\<close>

definition cobs_reference :: cobs where
  "cobs_reference = \<lparr>cobs_encode_buffer = (\<lambda>n. n + n div 254 + 1),
     cobs_encode = (\<lambda>p cap. if length (stuff p) \<le> cap then Some (stuff p) else None),
     cobs_decode = unstuff\<rparr>"

interpretation stuffing: cobs_codec cobs_reference
proof
  fix p :: bytes and cap :: nat
  assume "cobs_encode_buffer cobs_reference (length p) \<le> cap"
  then show "\<exists>f. cobs_encode cobs_reference p cap = Some f"
    using length_stuff [of p] by (simp add: cobs_reference_def)
next
  fix p f :: bytes and cap :: nat
  assume "cobs_encode cobs_reference p cap = Some f"
  then have f: "f = stuff p" "length f \<le> cap" by (simp_all add: cobs_reference_def split: if_splits)
  then show "f \<noteq> [] \<and> 0 \<notin> set f \<and> length f \<le> cobs_encode_buffer cobs_reference (length p) \<and>
      length f \<le> cap"
    using length_stuff [of p] by (simp add: cobs_reference_def stuff_not_Nil stuff_nonzero)
  from f(1) show "cobs_decode cobs_reference f = Ok p" by (simp add: cobs_reference_def unstuff_stuff)
next
  fix m n :: nat
  assume "m \<le> n"
  then show "cobs_encode_buffer cobs_reference m \<le> cobs_encode_buffer cobs_reference n"
    by (simp add: cobs_reference_def add_mono div_le_mono)
qed

end
