(* ===== verification/Frame_Link.thy ===== *)
theory Frame_Link
  imports Frame_Reader Cobs_Reference
begin

text \<open>
  The two halves of the framing layer joined by a byte stream: what a \<open>frame_writer\<close> puts on the
  wire over any sequence of sends, some of them failing in the middle of a frame, and what a
  \<open>frame_reader\<close> at the other end makes of it.
\<close>


section \<open>Sequences of sends\<close>

datatype frame_op = OpPacket bytes | OpReset | OpDropped

fun run_op :: "cobs \<Rightarrow> frame_op \<Rightarrow> instant \<Rightarrow> (frame_writer \<times> env, transport_error, unit) run" where
  "run_op c (OpPacket p) deadline = fw_send_packet c p deadline"
| "run_op c OpReset deadline = fw_send_reset deadline"
| "run_op c OpDropped deadline = fw_send_dropped deadline"

text \<open>The sends of a whole history with their results.\<close>

fun run_ops :: "cobs \<Rightarrow> (frame_op \<times> instant) list \<Rightarrow> frame_writer \<times> env \<Rightarrow>
    ((transport_error, unit) result list \<times> frame_writer \<times> env) option" where
  "run_ops c [] s = Some ([], s)"
| "run_ops c ((op, deadline) # ops) s =
     (case run_op c op deadline s of
        None \<Rightarrow> None
      | Some (r, s') \<Rightarrow> map_option (\<lambda>(rs, s''). (r # rs, s'')) (run_ops c ops s'))"

text \<open>The bytes of an operation's frame, and those of the operations that succeeded.\<close>

fun op_frame :: "cobs \<Rightarrow> frame_op \<Rightarrow> bytes" where
  "op_frame c (OpPacket p) = (case cobs_encode c p MAX_FRAME_SIZE of Some f \<Rightarrow> f | None \<Rightarrow> [])"
| "op_frame c _ = []"

definition succeeded :: "cobs \<Rightarrow> (frame_op \<times> instant) list \<Rightarrow> (transport_error, unit) result list \<Rightarrow> bytes list" where
  "succeeded c ops rs = map (\<lambda>((op, _), _). op_frame c op) (filter (\<lambda>(_, r). r = Ok ()) (zip ops rs))"

lemma succeeded_simps [simp]:
  "succeeded c [] rs = []"
  "succeeded c ((op, d) # ops) (r # rs) = (if r = Ok () then [op_frame c op] else []) @ succeeded c ops rs"
  by (simp_all add: succeeded_def)


section \<open>Segments of what was sent\<close>

abbreviation segments :: "bytes \<Rightarrow> bytes list" where
  "segments xs \<equiv> fst (zero_segments xs)"

abbreviation unfinished :: "bytes \<Rightarrow> bytes" where
  "unfinished xs \<equiv> snd (zero_segments xs)"

lemma zero_segments_zero [simp]:
  "zero_segments (xs @ 0 # ys) = (segments xs @ unfinished xs # segments ys, unfinished ys)"
  by (induction xs) (auto split: prod.splits list.splits)

lemma zero_segments_nonzero [simp]:
  assumes "0 \<notin> set g"
  shows "zero_segments (xs @ g) = (segments xs, unfinished xs @ g)"
  by (induction xs) (auto simp: zero_segments_none [OF assms] split: prod.splits list.splits)

text \<open>What a send in progress adds. The lead is the recovery delimiter; without it the stream has to
  end at a frame boundary. The last line is the state a failed send leaves: an unfinished part of
  its frame, or of the one before.\<close>

lemma prefix_payload:
  assumes "prefix p (lead @ f @ [0])" and "lead = [] \<or> lead = [0]"
  obtains (all) "p = lead @ f @ [0]" | (part) g where "p = lead @ g" "prefix g f" | (none) "p = []"
proof -
  have "prefix p ((lead @ f) @ [0])" using assms(1) by simp
  then consider "p = lead @ f @ [0]" | "prefix p (lead @ f)" by (auto simp: prefix_snoc simp del: append_assoc)
  then show thesis
    using assms(2) all part none by cases (auto simp: prefix_Cons)
qed

lemma sent_segments:
  assumes p: "prefix p (lead @ f @ [0])" and lead: "lead = [] \<or> lead = [0]" and "0 \<notin> set f"
    and clean: "lead = [] \<Longrightarrow> unfinished xs = []"
  shows "(p = lead @ f @ [0] \<longrightarrow>
       segments (xs @ p) = segments xs @ (if lead = [] then [] else [unfinished xs]) @ [f] \<and>
       unfinished (xs @ p) = []) \<and>
     (\<exists>ys. segments (xs @ p) = segments xs @ ys \<and> set ys \<subseteq> {unfinished xs, f}) \<and>
     (unfinished (xs @ p) = unfinished xs \<or> prefix (unfinished (xs @ p)) f)"
  using p lead
proof (cases rule: prefix_payload)
  case all
  have "segments (xs @ p) = segments xs @ (if lead = [] then [] else [unfinished xs]) @ [f]"
    "unfinished (xs @ p) = []"
    using all lead clean zero_segments_zero [of "xs @ lead @ f" "[]"] assms(3) zero_segments_none [OF assms(3)]
    by auto
  then show ?thesis by auto
next
  case (part g)
  then have g: "0 \<notin> set g" "p \<noteq> lead @ f @ [0]"
    using assms(3) by (auto dest: set_mono_prefix)
  show ?thesis
    using lead
  proof
    assume "lead = []"
    with part g clean show ?thesis by simp
  next
    assume "lead = [0]"
    with part g zero_segments_none [OF g(1)] show ?thesis by simp
  qed
next
  case none
  with lead show ?thesis by auto
qed


section \<open>The state of the link\<close>

definition link_ok :: "bytes set \<Rightarrow> frame_writer \<times> env \<Rightarrow> bool" where
  "link_ok A s \<longleftrightarrow> fw_inv (fst s) \<and>
     (unfinished (e_output (snd s)) \<noteq> [] \<longrightarrow> fw_resync (fst s)) \<and>
     (\<forall>x \<in> insert (unfinished (e_output (snd s))) (set (segments (e_output (snd s)))).
        \<exists>f \<in> A. prefix x f)"

lemma link_ok_mono: "link_ok A s \<Longrightarrow> A \<subseteq> B \<Longrightarrow> link_ok B s"
  unfolding link_ok_def by blast

lemma link_ok_sent:
  assumes ok: "link_ok A (fw, e)" and s: "sent (lead @ f @ [0]) e r s'"
    and lead: "lead = [0] \<or> lead = recovery fw" and f: "0 \<notin> set f" "f \<in> A"
  shows "link_ok A s' \<and> (\<exists>ys. segments (e_output (snd s')) = segments (e_output e) @ ys \<and>
      subseq (if r = Ok () then [f] else []) ys)"
proof -
  from s obtain p where p: "prefix p (lead @ f @ [0])" "e_output (snd s') = e_output e @ p"
    and r: "case r of Ok _ \<Rightarrow> p = lead @ f @ [0] \<and> \<not> fw_resync (fst s')
      | Err err \<Rightarrow> fw_resync (fst s') \<and> (\<exists>k. err = SendFailed k)"
    and inv: "fw_inv (fst s')" by (auto simp: sent_def)
  have lead': "lead = [] \<or> lead = [0]" "lead = [] \<Longrightarrow> unfinished (e_output e) = []"
    using lead ok by (auto simp: link_ok_def split: if_splits)
  note seg = sent_segments [OF p(1) lead'(1) f(1), of "e_output e", OF lead'(2)]
  from seg obtain ys where ys: "segments (e_output e @ p) = segments (e_output e) @ ys"
    "set ys \<subseteq> {unfinished (e_output e), f}" by blast
  have "\<forall>x \<in> insert (unfinished (e_output e @ p)) (set (segments (e_output e @ p))). \<exists>g \<in> A. prefix x g"
  proof
    fix x assume "x \<in> insert (unfinished (e_output e @ p)) (set (segments (e_output e @ p)))"
    with ys seg have "x \<in> set (segments (e_output e)) \<or> x = unfinished (e_output e) \<or> prefix x f" by auto
    with ok f(2) show "\<exists>g \<in> A. prefix x g" by (auto simp: link_ok_def)
  qed
  moreover have "unfinished (e_output e @ p) \<noteq> [] \<longrightarrow> fw_resync (fst s')"
    using r seg by (cases r) auto
  moreover have "subseq (if r = Ok () then [f] else []) ys"
    using r seg ys(1) by (cases r) (auto split: if_splits)
  ultimately show ?thesis
    using inv p(2) ys(1) by (auto simp: link_ok_def)
qed

lemma run_op_link:
  assumes c: "cobs_codec c" and run: "run_op c op deadline (fw, e) = Some (r, s')"
    and ok: "link_ok A (fw, e)" and A: "op_frame c op \<in> A"
  shows "link_ok A s' \<and> (\<exists>ys. segments (e_output (snd s')) = segments (e_output e) @ ys \<and>
      subseq (if r = Ok () then [op_frame c op] else []) ys)"
proof (cases op)
  case (OpPacket p)
  have inv: "fw_inv fw" using ok by (simp add: link_ok_def)
  from run OpPacket have "fw_send_packet c p deadline (fw, e) = Some (r, s')" by simp
  from c this inv show ?thesis
  proof (cases rule: fw_send_packet_sent)
    case large
    with ok show ?thesis by simp
  next
    case (packet f)
    moreover have "0 \<notin> set f" using cobs_codec.encode_frame [OF c packet(1)] by simp
    ultimately show ?thesis
      using link_ok_sent [OF ok packet(2)] A OpPacket by auto
  qed
next
  case OpReset
  with run ok have "sent ([0] @ [] @ [0]) e r s'"
    by (auto simp: link_ok_def dest: fw_send_reset_sent)
  from link_ok_sent [OF ok this] A OpReset show ?thesis by auto
next
  case OpDropped
  with run ok have "sent (recovery fw @ [] @ [0]) e r s'"
    by (auto simp: link_ok_def dest: fw_send_dropped_sent)
  from link_ok_sent [OF ok this] A OpDropped show ?thesis by auto
qed

lemma run_ops_link:
  assumes c: "cobs_codec c" and "run_ops c ops (fw, e) = Some (rs, s')"
    and "link_ok A (fw, e)" and "op_frame c ` fst ` set ops \<subseteq> A"
  shows "link_ok A s' \<and> (\<exists>ys. segments (e_output (snd s')) = segments (e_output e) @ ys \<and>
      subseq (succeeded c ops rs) ys)"
  using assms(2-)
proof (induction ops arbitrary: fw e rs)
  case (Cons od ops)
  obtain op d where od: "od = (op, d)" by fastforce
  from Cons.prems(1) od obtain r fw1 e1 rs1 where
    step: "run_op c op d (fw, e) = Some (r, fw1, e1)" and rest: "run_ops c ops (fw1, e1) = Some (rs1, s')"
    and rs: "rs = r # rs1" by (auto split: option.splits)
  from run_op_link [OF c step Cons.prems(2)] Cons.prems(3) od obtain ys where
    ok1: "link_ok A (fw1, e1)" and ys: "segments (e_output e1) = segments (e_output e) @ ys"
    "subseq (if r = Ok () then [op_frame c op] else []) ys" by auto
  from Cons.IH [OF rest ok1] Cons.prems(3) obtain zs where "link_ok A s'"
    "segments (e_output (snd s')) = segments (e_output e1) @ zs" "subseq (succeeded c ops rs1) zs" by auto
  with ys(1) rs od list_emb_append_mono [OF ys(2)] show ?case by auto
qed auto



section \<open>The other end\<close>

text \<open>What a frame means to \<^verbatim>\<open>next_packet\<close>.\<close>

definition packet_of :: "cobs \<Rightarrow> bytes \<Rightarrow> (transport_error, bytes option) result" where
  "packet_of c f = (if f = [] then Ok None
     else (case cobs_decode c f of Err k \<Rightarrow> Err (FrameDecodingFailed k) | Ok p \<Rightarrow> Ok (Some p)))"

fun read_packets :: "cobs \<Rightarrow> instant option list \<Rightarrow> frame_reader \<times> env \<Rightarrow>
    ((transport_error, bytes option) result list \<times> frame_reader \<times> env) option" where
  "read_packets c [] s = Some ([], s)"
| "read_packets c (d # ds) s =
     (case next_packet (cobs_decode c) d s of
        None \<Rightarrow> None
      | Some (r, s') \<Rightarrow> map_option (\<lambda>(rs, s''). (r # rs, s'')) (read_packets c ds s'))"

lemma length_event_of: "length (event_of r fr) \<le> 1"
  by (auto simp: event_of_def split: sum.splits transport_error.splits)

lemma read_frames_length: "read_frames ds s = Some (evs, s') \<Longrightarrow> length evs \<le> length ds"
proof (induction ds arbitrary: s evs)
  case (Cons d ds)
  from Cons.prems obtain r s1 evs1 where "read_frames ds s1 = Some (evs1, s')" "evs = event_of r (fst s1) @ evs1"
    by (auto split: option.splits)
  with Cons.IH [of s1 evs1] length_event_of [of r "fst s1"] show ?case by simp
qed simp

lemma next_packet_frame:
  assumes "next_frame d s = Some (r, s1)" and "event_of r (fst s1) = [FrameEv f]"
    and "fr_inv (fst s)"
  shows "next_packet (cobs_decode c) d s = Some (packet_of c f, s1)"
proof -
  obtain fr e fr1 e1 where s: "s = (fr, e)" "s1 = (fr1, e1)" by fastforce
  from assms(2) s obtain a b where r: "r = Ok (a, b)" "f = subvec (fr_buffer fr1) a b"
    by (auto simp: event_of_def split: sum.splits transport_error.splits)
  have "reader_ok fr e r s1" using assms(1,3) s(1) by (intro next_frame_refines) auto
  then have "length f = b - a" "a \<le> b"
    using r s by (auto simp: reader_ok_def frame_result_def fr_inv_def)
  then have "f = [] \<longleftrightarrow> a = b" by auto
  with assms(1) s r show ?thesis
    by (auto simp: next_packet_def bindr_def packet_of_def ret_def fail_def split: sum.splits)
qed

lemma read_packets_frames:
  assumes "read_frames ds s = Some (map FrameEv fs, s')" and "length fs = length ds" and "fr_inv (fst s)"
  shows "read_packets c ds s = Some (map (packet_of c) fs, s')"
  using assms
proof (induction ds arbitrary: s fs)
  case (Cons d ds)
  from Cons.prems(1) obtain r s1 evs1 where run: "next_frame d s = Some (r, s1)"
    and rest: "read_frames ds s1 = Some (evs1, s')" and evs: "map FrameEv fs = event_of r (fst s1) @ evs1"
    by (auto split: option.splits)
  from evs have "length (event_of r (fst s1)) + length evs1 = length fs" by (metis length_append length_map)
  with Cons.prems(2) read_frames_length [OF rest] length_event_of [of r "fst s1"]
  have len: "length (event_of r (fst s1)) = 1" "length evs1 = length ds" by auto
  then obtain f fs1 where f: "event_of r (fst s1) = [FrameEv f]" "evs1 = map FrameEv fs1" "fs = f # fs1"
    using evs by (cases fs; cases "event_of r (fst s1)") auto
  have "fr_inv (fst s1)"
    using next_frame_refines [of d "fst s" "snd s" r s1] run Cons.prems(3) by (simp add: reader_ok_def)
  from Cons.IH [OF rest [unfolded f(2)] _ this] len(2) f next_packet_frame [OF run f(1) Cons.prems(3)]
  show ?case by simp
qed simp

lemma frame_events_short:
  assumes "\<And>x. x \<in> insert (unfinished xs) (set (segments xs)) \<Longrightarrow> length x \<le> MAX_FRAME_SIZE"
  shows "frame_events xs = map FrameEv (segments xs)"
proof -
  have "length (unfinished xs) \<le> MAX_FRAME_SIZE" "\<forall>x \<in> set (segments xs). length x \<le> MAX_FRAME_SIZE"
    using assms by auto
  then show ?thesis
    by (simp add: frame_events_def segment_event_def case_prod_beta not_less)
qed


section \<open>Properties of the link\<close>

lemma op_frame_length: "cobs_codec c \<Longrightarrow> length (op_frame c op) \<le> MAX_FRAME_SIZE"
  by (cases op) (auto split: option.splits dest: cobs_codec.encode_frame)

lemma frame_events_zero: "frame_events (xs @ 0 # ys) = frame_events (xs @ [0]) @ frame_events ys"
  by (simp add: frame_events_def case_prod_beta)

lemma link_events:
  assumes c: "cobs_codec c" and ok: "link_ok (insert [] (op_frame c ` ops)) s"
  shows "frame_events (e_output (snd s)) = map FrameEv (segments (e_output (snd s)))"
proof (rule frame_events_short)
  fix x assume "x \<in> insert (unfinished (e_output (snd s))) (set (segments (e_output (snd s))))"
  with ok obtain f where "f \<in> insert [] (op_frame c ` ops)" "prefix x f"
    unfolding link_ok_def by blast
  then show "length x \<le> MAX_FRAME_SIZE"
    using op_frame_length [OF c] by (auto dest!: prefix_length_le intro: order.trans)
qed

text \<open>Packets that all go through, one after the other.\<close>

lemma run_ops_exact:
  assumes c: "cobs_codec c" and "run_ops c (zip (map OpPacket ps) ds) (fw, e) = Some (rs, fw', e')"
    and "length ds = length ps" and "set rs \<subseteq> {Ok ()}"
    and "fw_inv fw" and "\<not> fw_resync fw" and "unfinished (e_output e) = []"
  shows "segments (e_output e') = segments (e_output e) @ map (\<lambda>p. op_frame c (OpPacket p)) ps \<and>
    unfinished (e_output e') = [] \<and> (\<forall>p \<in> set ps. packet_of c (op_frame c (OpPacket p)) = Ok (Some p))"
  using assms(2-)
proof (induction ps arbitrary: ds fw e rs)
  case (Cons p ps)
  from Cons.prems(2) obtain d ds1 where ds: "ds = d # ds1" by (cases ds) auto
  with Cons.prems(1) obtain r fw1 e1 rs1 where
    step: "fw_send_packet c p d (fw, e) = Some (r, fw1, e1)"
    and rest: "run_ops c (zip (map OpPacket ps) ds1) (fw1, e1) = Some (rs1, fw', e')"
    and rs: "rs = r # rs1" by (auto split: option.splits)
  from rs Cons.prems(3) have r: "r = Ok ()" by simp
  from c step Cons.prems(4) obtain f where f: "cobs_encode c p MAX_FRAME_SIZE = Some f"
    "sent (recovery fw @ f @ [0]) e r (fw1, e1)"
    by (cases rule: fw_send_packet_sent) (use r in auto)
  note frame = cobs_codec.encode_frame [OF c f(1)] cobs_codec.decode_encode [OF c f(1)]
  have out: "e_output e1 = e_output e @ f @ [0]" and fw1: "fw_inv fw1" "\<not> fw_resync fw1"
    using f(2) r Cons.prems(5) by (auto simp: sent_def)
  have seg: "segments (e_output e1) = segments (e_output e) @ [f]" "unfinished (e_output e1) = []"
    using sent_segments [of "f @ [0]" "[]" f "e_output e"] frame(1) Cons.prems(6) out by auto
  have "packet_of c f = Ok (Some p)" using frame by (simp add: packet_of_def)
  with Cons.IH [OF rest _ _ fw1 seg(2)] Cons.prems ds rs seg f(1) show ?case by simp
qed simp

text \<open>C9: over any history of packets, resets and dropped-session signals, some failing part-way
  through a frame, the frames of the sends that succeeded appear on the wire unbroken and in
  order; whatever else the reader sees is a prefix of a frame that was sent, never one of two
  frames run together and never an oversized one.\<close>

theorem link_recovery:
  assumes "cobs_codec c" and "run_ops c ops (frame_writer_new, e) = Some (rs, fw', e')"
    and "e_output e = []"
  shows "subseq (map FrameEv (succeeded c ops rs)) (frame_events (e_output e')) \<and>
    (\<forall>ev \<in> set (frame_events (e_output e')). \<exists>x. ev = FrameEv x \<and>
       (x = [] \<or> (\<exists>(op, _) \<in> set ops. prefix x (op_frame c op))))"
proof -
  let ?A = "insert [] (op_frame c ` fst ` set ops)"
  have "link_ok ?A (frame_writer_new, e)"
    using assms(3) fw_inv_new by (auto simp: link_ok_def)
  from run_ops_link [OF assms(1,2) this] assms(3) have
    ok: "link_ok ?A (fw', e')" and sub: "subseq (succeeded c ops rs) (segments (e_output e'))" by auto
  have "\<exists>x. ev = FrameEv x \<and> (x = [] \<or> (\<exists>(op, _) \<in> set ops. prefix x (op_frame c op)))"
    if "ev \<in> set (map FrameEv (segments (e_output e')))" for ev
    using that ok by (fastforce simp: link_ok_def)
  with sub link_events [OF assms(1) ok] show ?thesis by (auto intro: subseq_map)
qed

text \<open>C16: packets sent without a failure through a fresh writer are received by a fresh reader at the
  other end, one per call, unchanged and in order, whatever the sizes of the writes and reads.\<close>

theorem link_roundtrip:
  assumes "cobs_codec c" and "run_ops c (zip (map OpPacket ps) ds) (frame_writer_new, e) = Some (rs, fw', e')"
    and "length ds = length ps" and "set rs \<subseteq> {Ok ()}" and "e_output e = []"
    and "delivers e2" and "e_input e2 = e_output e'"
  shows "\<exists>fr e3. read_packets c (replicate (length ps) None) (frame_reader_new, e2) =
    Some (map (\<lambda>p. Ok (Some p)) ps, fr, e3)"
proof -
  let ?fs = "map (\<lambda>p. op_frame c (OpPacket p)) ps"
  have "segments (e_output e') = ?fs \<and> unfinished (e_output e') = [] \<and>
      (\<forall>p \<in> set ps. packet_of c (op_frame c (OpPacket p)) = Ok (Some p))"
    using run_ops_exact [OF assms(1-4)] fw_inv_new assms(5) by (simp add: frame_writer_new_def)
  then have seg: "segments (e_output e') = ?fs" "unfinished (e_output e') = []"
    and dec: "map (packet_of c) ?fs = map (\<lambda>p. Ok (Some p)) ps" by auto
  have "frame_events (e_output e') = map FrameEv ?fs"
    by (rule trans [OF frame_events_short]) (use seg op_frame_length [OF assms(1)] in \<open>auto simp del: op_frame.simps\<close>)
  moreover have "events_after (fr_discard frame_reader_new) (fr_stream (frame_reader_new, e2)) =
      frame_events (e_input e2)"
    by (simp add: events_after_def fr_stream_def frame_reader_new_def [THEN arg_cong, of fr_discard])
  ultimately obtain fr e3 where
    "read_frames (replicate (length ps) None) (frame_reader_new, e2) = Some (map FrameEv ?fs, fr, e3)"
    using read_frames_delivers [OF fr_inv_new assms(6), of "length ps"] assms(7) by auto
  from read_packets_frames [OF this, of c] dec fr_inv_new show ?thesis by (auto simp del: map_map)
qed

text \<open>A reset that succeeds restores framing from any state of the wire, also after bytes of
  another writer: it ends the unfinished frame, adds the empty reset frame, and the frames after
  it are exactly those of the bytes that follow.\<close>

theorem reset_resynchronises:
  assumes "fw_inv fw" and "fw_send_reset deadline (fw, e) = Some (Ok (), fw', e')"
  shows "frame_events (e_output e' @ ys) = frame_events (e_output e @ [0]) @ FrameEv [] # frame_events ys \<and>
    \<not> fw_resync fw'"
proof -
  have "sent [0, 0] e (Ok ()) (fw', e')" using fw_send_reset_sent [OF assms(2,1)] .
  then have "e_output e' = e_output e @ [0] @ [0]" "\<not> fw_resync fw'" by (auto simp: sent_def)
  moreover have "frame_events (0 # ys) = FrameEv [] # frame_events ys"
    using frame_events_found [of "[]" ys] by (simp add: segment_event_def)
  ultimately show ?thesis
    using frame_events_zero [of "e_output e" "0 # ys"] by simp
qed


text \<open>A writer whose adapter breaks in the middle of the first packet and accepts the second.\<close>

definition broken_env :: env where
  "broken_env = \<lparr>e_clock = \<lparr>now_at = 0, ticks = [1, 1]\<rparr>, e_close = None, e_input = [], e_reads = [],
     e_output = [], e_writes = [WrOk 0, WrOk 2, WrErr BrokenPipe, WrOk 0, WrOk 3, WrErr Interrupted, WrOk 9, WrOk 0]\<rparr>"

definition plain_env :: env where
  "plain_env = broken_env\<lparr>e_writes := [WrOk 0, WrOk 9, WrOk 0, WrOk 0, WrOk 1, WrOk 9, WrOk 0]\<rparr>"

lemmas write_eval = write_half_def write_all.simps run_eval wr_admit_def enter_def wr_call_def put_output_def
  env_check_deadline_def check_deadline_def clock_now_def

lemma stuff_samples: "stuff [1, 0, 2] = [2, 1, 2, 2]" "stuff [5] = [2, 5]"
  by (simp_all add: stuff.simps stuff_run_def)

lemma reference_encode: "cobs_encode cobs_reference p MAX_FRAME_SIZE = Some (stuff p) \<and>
    cobs_encode_buffer cobs_reference (length p) \<le> MAX_FRAME_SIZE \<and> length (stuff p) \<le> MAX_FRAME_SIZE"
  if "length p \<le> 1000"
  using length_stuff [of p] that by (auto simp: cobs_reference_def MAX_FRAME_SIZE_def)

lemma broken_run:
  "\<exists>fw' e'. run_ops cobs_reference [(OpPacket [1, 0, 2], 9), (OpPacket [5], 9)] (frame_writer_new, broken_env) =
     Some ([Err (SendFailed BrokenPipe), Ok ()], fw', e') \<and> e_output e' = [2, 1, 0, 2, 5, 0]"
proof -
  let ?e1 = "broken_env\<lparr>e_clock := \<lparr>now_at = 2, ticks = []\<rparr>, e_output := [2, 1],
      e_writes := drop 3 (e_writes broken_env)\<rparr>"
  have "write_half (recovery frame_writer_new @ [2, 1, 2, 2] @ [0]) 9 broken_env = Some (Err BrokenPipe, ?e1)"
    by (simp add: write_eval broken_env_def frame_writer_new_def)
  from fw_send_packet_run [OF fw_inv_new, of cobs_reference "[1, 0, 2]" _ 9, OF _ _ _ this] obtain fw1 where
    1: "fw_inv fw1" "fw_resync fw1"
      "fw_send_packet cobs_reference [1, 0, 2] 9 (frame_writer_new, broken_env) =
         Some (Err (SendFailed BrokenPipe), fw1, ?e1)"
    using reference_encode [of "[1, 0, 2]"] by (auto simp: stuff_samples env_check_deadline_def check_deadline_def clock_now_def)
  let ?e2 = "?e1\<lparr>e_output := [2, 1, 0, 2, 5, 0], e_writes := []\<rparr>"
  have "write_half (recovery fw1 @ [2, 5] @ [0]) 9 ?e1 = Some (Ok (), ?e2)"
    using 1(2) by (simp add: write_eval broken_env_def)
  from fw_send_packet_run [OF 1(1), of cobs_reference "[5]" _ 9, OF _ _ _ this] obtain fw2 where
    "fw_send_packet cobs_reference [5] 9 (fw1, ?e1) = Some (Ok (), fw2, ?e2)"
    using reference_encode [of "[5]"] by (auto simp: stuff_samples env_check_deadline_def check_deadline_def clock_now_def)
  with 1(3) show ?thesis by simp
qed

theorem link_recovery_witness:
  "subseq [FrameEv [2, 5]] (frame_events [2, 1, 0, 2, 5, 0])"
proof -
  obtain fw' e' where run: "run_ops cobs_reference [(OpPacket [1, 0, 2], 9), (OpPacket [5], 9)]
      (frame_writer_new, broken_env) = Some ([Err (SendFailed BrokenPipe), Ok ()], fw', e')"
    and out: "e_output e' = [2, 1, 0, 2, 5, 0]" using broken_run by blast
  have "e_output broken_env = []" by (simp add: broken_env_def)
  from link_recovery [OF stuffing.cobs_codec_axioms run this] out show ?thesis
    using reference_encode [of "[5]"] by (simp add: stuff_samples)
qed


lemma plain_run:
  "\<exists>fw' e'. run_ops cobs_reference (zip (map OpPacket [[1, 0, 2], [5]]) [9, 9]) (frame_writer_new, plain_env) =
     Some ([Ok (), Ok ()], fw', e') \<and> e_output e' = [2, 1, 2, 2, 0, 2, 5, 0]"
proof -
  let ?e1 = "plain_env\<lparr>e_clock := \<lparr>now_at = 2, ticks = []\<rparr>, e_output := [2, 1, 2, 2, 0],
      e_writes := drop 3 (e_writes plain_env)\<rparr>"
  have "write_half (recovery frame_writer_new @ [2, 1, 2, 2] @ [0]) 9 plain_env = Some (Ok (), ?e1)"
    by (simp add: write_eval plain_env_def broken_env_def frame_writer_new_def)
  from fw_send_packet_run [OF fw_inv_new, of cobs_reference "[1, 0, 2]" _ 9, OF _ _ _ this] obtain fw1 where
    1: "fw_inv fw1" "\<not> fw_resync fw1"
      "fw_send_packet cobs_reference [1, 0, 2] 9 (frame_writer_new, plain_env) = Some (Ok (), fw1, ?e1)"
    using reference_encode [of "[1, 0, 2]"] by (auto simp: stuff_samples env_check_deadline_def check_deadline_def clock_now_def)
  let ?e2 = "?e1\<lparr>e_output := [2, 1, 2, 2, 0, 2, 5, 0], e_writes := []\<rparr>"
  have "write_half (recovery fw1 @ [2, 5] @ [0]) 9 ?e1 = Some (Ok (), ?e2)"
    using 1(2) by (simp add: write_eval plain_env_def broken_env_def)
  from fw_send_packet_run [OF 1(1), of cobs_reference "[5]" _ 9, OF _ _ _ this] obtain fw2 where
    "fw_send_packet cobs_reference [5] 9 (fw1, ?e1) = Some (Ok (), fw2, ?e2)"
    using reference_encode [of "[5]"] by (auto simp: stuff_samples env_check_deadline_def check_deadline_def clock_now_def)
  with 1(3) show ?thesis by simp
qed

theorem link_roundtrip_witness:
  "\<exists>fr e3. read_packets cobs_reference [None, None] (frame_reader_new,
       plain_env\<lparr>e_input := [2, 1, 2, 2, 0, 2, 5, 0], e_reads := replicate 16 (RdOk 3)\<rparr>) =
     Some ([Ok (Some [1, 0, 2]), Ok (Some [5])], fr, e3)"
proof -
  let ?e2 = "plain_env\<lparr>e_input := [2, 1, 2, 2, 0, 2, 5, 0], e_reads := replicate 16 (RdOk 3)\<rparr>"
  obtain fw' e' where run: "run_ops cobs_reference (zip (map OpPacket [[1, 0, 2], [5]]) [9, 9])
      (frame_writer_new, plain_env) = Some ([Ok (), Ok ()], fw', e')"
    and out: "e_output e' = [2, 1, 2, 2, 0, 2, 5, 0]" using plain_run by blast
  have "delivers ?e2" "e_output plain_env = []" "e_input ?e2 = e_output e'"
    using out by (auto simp: delivers_def plain_env_def broken_env_def)
  with link_roundtrip [OF stuffing.cobs_codec_axioms run, of ?e2] show ?thesis
    by (simp add: numeral_2_eq_2)
qed

theorem reset_resynchronises_witness:
  "frame_events ([7, 0, 0] @ [2, 5, 0]) = frame_events ([7] @ [0]) @ FrameEv [] # frame_events [2, 5, 0]"
proof -
  let ?e = "plain_env\<lparr>e_output := [7], e_writes := [WrOk 0, WrOk 2, WrOk 0]\<rparr>"
  let ?fw = "frame_writer_new\<lparr>fw_resync := True\<rparr>"
  have inv: "fw_inv ?fw" using fw_inv_new by (simp add: fw_inv_def)
  have w: "write_half [0, 0] 9 ?e = Some (Ok (), ?e\<lparr>e_clock := \<lparr>now_at = 2, ticks = []\<rparr>,
      e_output := [7, 0, 0], e_writes := []\<rparr>)"
    by (simp add: write_eval plain_env_def broken_env_def)
  have run: "\<exists>fw' e'. fw_send_reset 9 (?fw, ?e) = Some (Ok (), fw', e') \<and> e_output e' = [7, 0, 0]"
    using fw_send_reset_run [OF inv w]
    by (auto simp: env_check_deadline_def check_deadline_def clock_now_def)
  then obtain fw' e' where "fw_send_reset 9 (?fw, ?e) = Some (Ok (), fw', e')" "e_output e' = [7, 0, 0]" by blast
  with reset_resynchronises [OF inv, of 9 ?e fw' e' "[2, 5, 0]"] show ?thesis by simp
qed

end
