(* ===== verification/Stream_Shutdown.thy ===== *)
theory Stream_Shutdown
  imports Wire_Prelude
begin

text \<open>
  The shutdown coordinator of a byte stream, \<^verbatim>\<open>Closer\<close> and \<^verbatim>\<open>Activity\<close> of
  \<^verbatim>\<open>src/src/transport/stream.rs\<close>. Each critical section under the state lock is one function on
  the shared state; threads that admit adapter calls and threads that close the stream interleave
  these sections in any order, sleep on the condition variable and are woken by notifications or
  for no reason.
\<close>


section \<open>Shared state and critical sections\<close>

datatype phase = PhaseOpen | PhaseClosing | PhaseClosed

record shutdown =
  sd_phase :: phase
  sd_active :: nat
  sd_action :: bool

definition closer_new :: shutdown where
  "closer_new = \<lparr>sd_phase = PhaseOpen, sd_active = 0, sd_action = True\<rparr>"

text \<open>The first section of \<^verbatim>\<open>Closer::close\<close>: one pass of its loop. \<open>None\<close> is the panic of a missing
  callback.\<close>

datatype close_turn = CloseReturn | CloseSleep | CloseRun

definition closer_begin :: "shutdown \<Rightarrow> (close_turn \<times> shutdown) option" where
  "closer_begin s = (case sd_phase s of
      PhaseClosed \<Rightarrow> Some (CloseReturn, s)
    | PhaseClosing \<Rightarrow> Some (CloseSleep, s)
    | PhaseOpen \<Rightarrow>
        if sd_action s then Some (CloseRun, s\<lparr>sd_phase := PhaseClosing, sd_action := False\<rparr>) else None)"

text \<open>The section after the callback: sleep while calls are active, else finish and notify.\<close>

definition closer_drain :: "shutdown \<Rightarrow> close_turn \<times> shutdown" where
  "closer_drain s = (if sd_active s \<noteq> 0 then (CloseSleep, s)
     else (CloseReturn, s\<lparr>sd_phase := PhaseClosed\<rparr>))"

definition closer_enter :: "shutdown \<Rightarrow> bool \<times> shutdown" where
  "closer_enter s = (if sd_phase s \<noteq> PhaseOpen then (False, s)
     else (True, s\<lparr>sd_active := sd_active s + 1\<rparr>))"

text \<open>The end of an \<^verbatim>\<open>Activity\<close>, and whether it notifies; \<open>None\<close> is the underflow of the count.\<close>

definition activity_drop :: "shutdown \<Rightarrow> (bool \<times> shutdown) option" where
  "activity_drop s = (if sd_active s = 0 then None
     else Some (sd_active s - 1 = 0, s\<lparr>sd_active := sd_active s - 1\<rparr>))"

lemmas shutdown_defs = closer_begin_def closer_drain_def closer_enter_def activity_drop_def


section \<open>Threads\<close>

text \<open>
  Where a thread is: outside, inside an admitted adapter call, about to look at the phase,
  asleep in either loop of \<^verbatim>\<open>close\<close>, running the callback, about to look at the count, or back
  from \<^verbatim>\<open>close\<close>.
\<close>

datatype pc = Outside | InCall | AtClose | SleepClose | Running | Draining | SleepDrain | Returned

record machine =
  m_shared :: shutdown
  m_pcs :: "pc list"
  m_runs :: nat
  m_panic :: bool

definition machine_new :: "nat \<Rightarrow> machine" where
  "machine_new n = \<lparr>m_shared = closer_new, m_pcs = replicate n Outside, m_runs = 0, m_panic = False\<rparr>"

fun wake :: "pc \<Rightarrow> pc" where
  "wake SleepClose = AtClose"
| "wake SleepDrain = Draining"
| "wake p = p"

text \<open>One critical section of thread \<open>i\<close>. \<open>progress\<close> are the steps of a thread that is already at
  work; a thread that starts something, or wakes for no reason, is a \<open>machine_step\<close> only.\<close>

definition after_begin :: "close_turn \<Rightarrow> pc" where
  "after_begin t = (case t of CloseReturn \<Rightarrow> Returned | CloseSleep \<Rightarrow> SleepClose | CloseRun \<Rightarrow> Running)"

inductive progress :: "machine \<Rightarrow> machine \<Rightarrow> bool" where
  drop: "i < length (m_pcs m) \<Longrightarrow> m_pcs m ! i = InCall \<Longrightarrow>
    activity_drop (m_shared m) = Some (notify, s') \<Longrightarrow>
    progress m (m\<lparr>m_shared := s', m_pcs := map (if notify then wake else id) ((m_pcs m)[i := Outside])\<rparr>)"
| drop_panic: "i < length (m_pcs m) \<Longrightarrow> m_pcs m ! i = InCall \<Longrightarrow> activity_drop (m_shared m) = None \<Longrightarrow>
    progress m (m\<lparr>m_panic := True, m_pcs := (m_pcs m)[i := Outside]\<rparr>)"
| begin_close: "i < length (m_pcs m) \<Longrightarrow> m_pcs m ! i = AtClose \<Longrightarrow>
    closer_begin (m_shared m) = Some (t, s') \<Longrightarrow>
    progress m (m\<lparr>m_shared := s', m_pcs := (m_pcs m)[i := after_begin t]\<rparr>)"
| begin_panic: "i < length (m_pcs m) \<Longrightarrow> m_pcs m ! i = AtClose \<Longrightarrow> closer_begin (m_shared m) = None \<Longrightarrow>
    progress m (m\<lparr>m_panic := True, m_pcs := (m_pcs m)[i := Returned]\<rparr>)"
| callback: "i < length (m_pcs m) \<Longrightarrow> m_pcs m ! i = Running \<Longrightarrow>
    progress m (m\<lparr>m_runs := m_runs m + 1, m_pcs := (m_pcs m)[i := Draining]\<rparr>)"
| drain_wait: "i < length (m_pcs m) \<Longrightarrow> m_pcs m ! i = Draining \<Longrightarrow>
    closer_drain (m_shared m) = (CloseSleep, s') \<Longrightarrow>
    progress m (m\<lparr>m_shared := s', m_pcs := (m_pcs m)[i := SleepDrain]\<rparr>)"
| drain_done: "i < length (m_pcs m) \<Longrightarrow> m_pcs m ! i = Draining \<Longrightarrow>
    closer_drain (m_shared m) = (CloseReturn, s') \<Longrightarrow>
    progress m (m\<lparr>m_shared := s', m_pcs := map wake ((m_pcs m)[i := Returned])\<rparr>)"

inductive machine_step :: "machine \<Rightarrow> machine \<Rightarrow> bool" where
  work: "progress m m' \<Longrightarrow> machine_step m m'"
| enter_call: "i < length (m_pcs m) \<Longrightarrow> m_pcs m ! i = Outside \<Longrightarrow> closer_enter (m_shared m) = (True, s') \<Longrightarrow>
    machine_step m (m\<lparr>m_shared := s', m_pcs := (m_pcs m)[i := InCall]\<rparr>)"
| call_close: "i < length (m_pcs m) \<Longrightarrow> m_pcs m ! i = Outside \<or> m_pcs m ! i = Returned \<Longrightarrow>
    machine_step m (m\<lparr>m_pcs := (m_pcs m)[i := AtClose]\<rparr>)"
| spurious: "i < length (m_pcs m) \<Longrightarrow> machine_step m (m\<lparr>m_pcs := (m_pcs m)[i := wake (m_pcs m ! i)]\<rparr>)"

inductive_cases progressE: "progress m m'"
inductive_cases machine_stepE: "machine_step m m'"


section \<open>Counting threads\<close>

abbreviation at :: "pc \<Rightarrow> machine \<Rightarrow> nat" where
  "at p m \<equiv> count_list (m_pcs m) p"

definition owners :: "pc list \<Rightarrow> nat" where
  "owners ps = count_list ps Running + count_list ps Draining + count_list ps SleepDrain"

lemma count_list_update:
  "i < length xs \<Longrightarrow> count_list (xs[i := y]) z + of_bool (xs ! i = z) = count_list xs z + of_bool (y = z)"
proof (induction xs arbitrary: i)
  case (Cons x xs)
  show ?case by (cases i) (use Cons in auto)
qed simp

lemma count_list_wake:
  "count_list (map wake ps) p = (case p of
      AtClose \<Rightarrow> count_list ps AtClose + count_list ps SleepClose
    | Draining \<Rightarrow> count_list ps Draining + count_list ps SleepDrain
    | SleepClose \<Rightarrow> 0 | SleepDrain \<Rightarrow> 0 | _ \<Rightarrow> count_list ps p)"
proof (induction ps)
  case (Cons q ps)
  then show ?case by (cases q; cases p) auto
qed (simp split: pc.splits)

lemma count_list_pos: "i < length ps \<Longrightarrow> ps ! i = p \<Longrightarrow> 0 < count_list ps p"
  by (metis count_list_0_iff gr0I nth_mem)

text \<open>The invariant of the coordinator.\<close>

definition shutdown_inv :: "machine \<Rightarrow> bool" where
  "shutdown_inv m \<longleftrightarrow>
     sd_active (m_shared m) = at InCall m \<and> \<not> m_panic m \<and>
     (at SleepDrain m > 0 \<longrightarrow> sd_active (m_shared m) \<noteq> 0) \<and>
     (case sd_phase (m_shared m) of
        PhaseOpen \<Rightarrow> sd_action (m_shared m) \<and> owners (m_pcs m) = 0 \<and> at SleepClose m = 0 \<and>
          at Returned m = 0 \<and> m_runs m = 0
      | PhaseClosing \<Rightarrow> owners (m_pcs m) = 1 \<and> at Returned m = 0 \<and> m_runs m = 1 - at Running m
      | PhaseClosed \<Rightarrow> owners (m_pcs m) = 0 \<and> at SleepClose m = 0 \<and> sd_active (m_shared m) = 0 \<and>
          m_runs m = 1)"

lemma shutdown_inv_new: "shutdown_inv (machine_new n)"
  by (simp add: shutdown_inv_def machine_new_def closer_new_def owners_def)


lemma count_move:
  assumes "i < length ps" and "ps ! i = a" and "a \<noteq> b"
  shows "count_list (ps[i := b]) p = (if p = a then count_list ps a - 1
    else if p = b then count_list ps b + 1 else count_list ps p)"
  using count_list_update [OF assms(1), of b p] assms(2,3) by (auto split: if_splits)

lemmas shutdown_simps = shutdown_inv_def owners_def count_move count_list_wake after_begin_def

lemma progress_inv:
  assumes "progress m m'" and inv: "shutdown_inv m"
  shows "shutdown_inv m'"
  using assms(1)
proof cases
  case (drop i notify s')
  with inv count_list_pos [OF drop(2,3)] show ?thesis
    by (cases "sd_phase (m_shared m)")
      (auto simp: shutdown_simps activity_drop_def split: if_splits)
next
  case (drop_panic i)
  with inv count_list_pos [OF drop_panic(2,3)] show ?thesis
    by (auto simp: shutdown_inv_def activity_drop_def split: if_splits)
next
  case (begin_close i t s')
  with inv count_list_pos [OF begin_close(2,3)] show ?thesis
    by (auto simp: shutdown_simps closer_begin_def split: phase.splits if_splits)
next
  case (begin_panic i)
  with inv show ?thesis by (auto simp: shutdown_inv_def closer_begin_def split: phase.splits if_splits)
next
  case (callback i)
  with inv count_list_pos [OF callback(2,3)] show ?thesis
    by (auto simp: shutdown_simps split: phase.splits)
next
  case (drain_wait i s')
  with inv count_list_pos [OF drain_wait(2,3)] show ?thesis
    by (auto simp: shutdown_simps closer_drain_def split: phase.splits if_splits)
next
  case (drain_done i s')
  with inv count_list_pos [OF drain_done(2,3)] show ?thesis
    by (auto simp: shutdown_simps closer_drain_def split: phase.splits if_splits)
qed

lemma machine_step_inv:
  assumes "machine_step m m'" and inv: "shutdown_inv m"
  shows "shutdown_inv m'"
  using assms(1)
proof cases
  case work
  then show ?thesis using inv by (rule progress_inv)
next
  case (enter_call i s')
  with inv show ?thesis
    by (auto simp: shutdown_simps closer_enter_def split: phase.splits if_splits)
next
  case (call_close i)
  with inv count_list_pos [OF call_close(2), of Returned] show ?thesis
    by (auto simp: shutdown_simps split: phase.splits if_splits)
next
  case (spurious i)
  consider "wake (m_pcs m ! i) = m_pcs m ! i" | "m_pcs m ! i = SleepClose" | "m_pcs m ! i = SleepDrain"
    by (cases "m_pcs m ! i") auto
  then show ?thesis
  proof cases
    case 1
    with spurious inv show ?thesis by simp
  next
    case 2
    with inv count_list_pos [OF spurious(2) 2] spurious show ?thesis
      by (auto simp: shutdown_simps split: phase.splits)
  next
    case 3
    with inv count_list_pos [OF spurious(2) 3] spurious show ?thesis
      by (auto simp: shutdown_simps split: phase.splits)
  qed
qed

interpretation shutdown: transition_system "\<lambda>m. \<exists>n. m = machine_new n" machine_step shutdown_inv
  by unfold_locales (auto intro: shutdown_inv_new machine_step_inv)



section \<open>Progress and termination\<close>

fun pc_rank :: "pc \<Rightarrow> nat" where
  "pc_rank Outside = 0"
| "pc_rank Returned = 0"
| "pc_rank SleepClose = 1"
| "pc_rank SleepDrain = 1"
| "pc_rank AtClose = 2"
| "pc_rank Draining = 2"
| "pc_rank Running = 3"
| "pc_rank InCall = 1"

fun phase_rank :: "phase \<Rightarrow> nat" where
  "phase_rank PhaseOpen = 2"
| "phase_rank PhaseClosing = 1"
| "phase_rank PhaseClosed = 0"

definition work_left :: "machine \<Rightarrow> nat \<times> nat \<times> nat" where
  "work_left m = (at InCall m, phase_rank (sd_phase (m_shared m)), sum_list (map pc_rank (m_pcs m)))"

abbreviation work_less :: "(machine \<times> machine) set" where
  "work_less \<equiv> inv_image (less_than <*lex*> less_than <*lex*> less_than) work_left"

lemma sum_list_update_less:
  assumes "i < length ps" and "pc_rank b < pc_rank (ps ! i)"
  shows "sum_list (map pc_rank (ps[i := b])) < sum_list (map pc_rank ps)"
proof -
  have "sum_list (map pc_rank (ps[i := b])) + pc_rank (ps ! i) = sum_list (map pc_rank ps) + pc_rank b"
    using assms(1)
  proof (induction ps arbitrary: i)
    case (Cons p ps)
    show ?case
    proof (cases i)
      case (Suc j)
      with Cons.IH [of j] Cons.prems show ?thesis by simp
    qed simp
  qed simp
  with assms(2) show ?thesis by linarith
qed

lemma progress_work_less:
  assumes "progress m m'" and inv: "shutdown_inv m"
  shows "(m', m) \<in> work_less"
  using assms(1)
proof cases
  case (drop i notify s')
  with count_list_pos [OF drop(2,3)] show ?thesis
    by (cases notify) (auto simp: work_left_def count_move count_list_wake)
next
  case (drop_panic i)
  with count_list_pos [OF drop_panic(2,3)] show ?thesis by (auto simp: work_left_def count_move)
next
  case (begin_close i t s')
  with sum_list_update_less [OF begin_close(2), of "after_begin t"] show ?thesis
    by (auto simp: work_left_def count_move after_begin_def closer_begin_def split: phase.splits if_splits)
next
  case (begin_panic i)
  with sum_list_update_less [OF begin_panic(2), of Returned] show ?thesis
    by (auto simp: work_left_def count_move)
next
  case (callback i)
  with sum_list_update_less [OF callback(2), of Draining] show ?thesis
    by (auto simp: work_left_def count_move)
next
  case (drain_wait i s')
  with sum_list_update_less [OF drain_wait(2), of SleepDrain] show ?thesis
    by (auto simp: work_left_def count_move closer_drain_def split: if_splits)
next
  case (drain_done i s')
  have "0 < owners (m_pcs m)" using count_list_pos [OF drain_done(2,3)] by (simp add: owners_def)
  with inv have "sd_phase (m_shared m) = PhaseClosing" by (auto simp: shutdown_inv_def split: phase.splits)
  with drain_done show ?thesis
    by (auto simp: work_left_def count_move count_list_wake closer_drain_def split: if_splits)
qed

lemma pc_found: "0 < count_list ps p \<Longrightarrow> \<exists>i < length ps. ps ! i = p"
  by (metis count_notin gr_implies_not0 in_set_conv_nth)

lemma work_progress:
  assumes inv: "shutdown_inv m" and "p \<in> set (m_pcs m)" and "p \<noteq> Outside" and "p \<noteq> Returned"
  shows "\<exists>m'. progress m m'"
proof -
  have begin_ok: "\<exists>t s'. closer_begin (m_shared m) = Some (t, s')"
    using inv by (auto simp: closer_begin_def shutdown_inv_def split: phase.splits)
  have step: "\<exists>m'. progress m m'" if "i < length (m_pcs m)"
      "m_pcs m ! i \<in> {InCall, AtClose, Running, Draining}" for i
  proof -
    have drain: "\<exists>s'. closer_drain (m_shared m) = (CloseSleep, s') \<or> closer_drain (m_shared m) = (CloseReturn, s')"
      by (auto simp: closer_drain_def)
    from that begin_ok drain show ?thesis
      by (cases "activity_drop (m_shared m)") (auto intro: progress.intros)
  qed
  have sleep: "at SleepDrain m > 0 \<Longrightarrow> at InCall m > 0" using inv by (auto simp: shutdown_inv_def)
  have own: "at SleepClose m > 0 \<Longrightarrow> 0 < at Running m + at Draining m + at SleepDrain m"
    using inv by (auto simp: shutdown_inv_def owners_def split: phase.splits)
  have "0 < at p m" using assms(2) by (meson count_list_0_iff gr0I)
  then have "0 < at InCall m \<or> 0 < at AtClose m \<or> 0 < at Running m \<or> 0 < at Draining m"
    using assms(3,4) sleep own by (cases p) auto
  then show ?thesis using pc_found step by (metis insertCI)
qed



section \<open>The stream that owns the adapters\<close>

text \<open>
  \<^verbatim>\<open>Stream\<close>: the adapters, named by their clocks and their identity, until the transport takes them,
  and the write budget. \<open>stream_drop\<close> says whether dropping the stream calls \<^verbatim>\<open>close\<close>.
\<close>

definition DEFAULT_WRITE_TIMEOUT :: duration where
  "DEFAULT_WRITE_TIMEOUT = 5 * 1000000000"

record 'a stream =
  stm_clock :: nat
  stm_io :: "('a \<times> 'a) option"
  stm_timeout :: duration

text \<open>Different clocks panic.\<close>

definition stream_new :: "('a \<Rightarrow> nat) \<Rightarrow> 'a \<Rightarrow> 'a \<Rightarrow> 'a stream option" where
  "stream_new clock_of reader writer =
     (if clock_of reader \<noteq> clock_of writer then None
      else Some \<lparr>stm_clock = clock_of reader, stm_io = Some (reader, writer), stm_timeout = DEFAULT_WRITE_TIMEOUT\<rparr>)"

definition set_write_timeout :: "duration \<Rightarrow> 'a stream \<Rightarrow> 'a stream" where
  "set_write_timeout timeout s = s\<lparr>stm_timeout := timeout\<rparr>"

definition stream_drop :: "'a stream \<Rightarrow> bool" where
  "stream_drop s \<longleftrightarrow> stm_io s \<noteq> None"

text \<open>The parts, with the stream as it is dropped afterwards.\<close>

definition into_parts :: "'a stream \<Rightarrow> (('a \<times> 'a \<times> duration) \<times> 'a stream) option" where
  "into_parts s = map_option (\<lambda>(reader, writer). ((reader, writer, stm_timeout s), s\<lparr>stm_io := None\<rparr>)) (stm_io s)"

lemma into_parts_owner:
  "stream_new clock_of r w = Some s \<Longrightarrow>
     stream_drop s \<and> (\<exists>s'. into_parts (set_write_timeout t s) = Some ((r, w, t), s') \<and> \<not> stream_drop s')"
  by (auto simp: stream_new_def into_parts_def stream_drop_def set_write_timeout_def split: if_splits)


section \<open>Properties of the coordinator\<close>

text \<open>C17: in every interleaving, the count is the number of admitted adapter calls in progress, the
  callback has run at most once, nothing panics, and when the stream is closed, or any closer has
  returned, no adapter call is in progress and the callback has run exactly once.\<close>

theorem shutdown_safe:
  assumes "machine_step\<^sup>*\<^sup>* (machine_new n) m"
  shows "sd_active (m_shared m) = at InCall m \<and> m_runs m \<le> 1 \<and> \<not> m_panic m \<and>
    (sd_phase (m_shared m) = PhaseClosed \<or> Returned \<in> set (m_pcs m) \<longrightarrow>
       sd_phase (m_shared m) = PhaseClosed \<and> InCall \<notin> set (m_pcs m) \<and> m_runs m = 1)"
proof -
  have inv: "shutdown_inv m" using shutdown.inv_reachable [OF _ assms] by blast
  have "0 < at p m" if "p \<in> set (m_pcs m)" for p
    using that by (meson count_list_0_iff gr0I)
  note this [of Returned] this [of InCall]
  with inv show ?thesis
    by (auto simp: shutdown_inv_def split: phase.splits)
qed

text \<open>Closing is final: once it has begun, no later state admits an adapter call, and the calls
  in progress only go away.\<close>

theorem closing_final:
  assumes "machine_step\<^sup>*\<^sup>* m m'" and "sd_phase (m_shared m) \<noteq> PhaseOpen"
  shows "sd_phase (m_shared m') \<noteq> PhaseOpen \<and> \<not> fst (closer_enter (m_shared m')) \<and> at InCall m' \<le> at InCall m"
  using assms
proof (induction rule: rtranclp_induct)
  case (step x y)
  from step.hyps(2) step.IH [OF step.prems] show ?case
  proof (cases rule: machine_step.cases)
    case work
    then show ?thesis
      using step.IH [OF step.prems]
      by (cases rule: progress.cases)
        (auto simp: shutdown_defs count_move count_list_wake after_begin_def split: phase.splits if_splits)
  next
    case (spurious i)
    then show ?thesis
      using step.IH [OF step.prems] count_list_update [OF spurious(2), of "wake (m_pcs x ! i)" InCall]
      by (cases "m_pcs x ! i") (auto simp: closer_enter_def)
  qed (auto simp: closer_enter_def count_move split: if_splits)
qed (simp add: closer_enter_def)

text \<open>C27: every close returns, provided adapter calls and the callback return: from any reachable
  state the threads already at work can take only finitely many steps, and when none is left, no
  thread is still inside an adapter call or inside \<^verbatim>\<open>close\<close>. No wake-up is lost.\<close>

theorem shutdown_terminates:
  assumes "machine_step\<^sup>*\<^sup>* (machine_new n) m"
  shows "\<not> (\<exists>f. f 0 = m \<and> (\<forall>k. progress (f k) (f (Suc k)))) \<and>
    ((\<forall>m'. \<not> progress m m') \<longrightarrow> set (m_pcs m) \<subseteq> {Outside, Returned})"
proof
  have inv: "shutdown_inv m" using shutdown.inv_reachable [OF _ assms] by blast
  show "(\<forall>m'. \<not> progress m m') \<longrightarrow> set (m_pcs m) \<subseteq> {Outside, Returned}"
    using work_progress [OF inv] by blast
  show "\<not> (\<exists>f. f 0 = m \<and> (\<forall>k. progress (f k) (f (Suc k))))"
  proof
    assume "\<exists>f. f 0 = m \<and> (\<forall>k. progress (f k) (f (Suc k)))"
    then obtain f where f: "f 0 = m" "\<And>k. progress (f k) (f (Suc k))" by blast
    have "shutdown_inv (f k)" for k
      by (induction k) (use f inv progress_inv in auto)
    then have "\<forall>k. (f (Suc k), f k) \<in> work_less" using f(2) progress_work_less by blast
    moreover have "wf work_less" by auto
    ultimately show False by (meson wf_iff_no_infinite_down_chain)
  qed
qed

text \<open>Two threads: the first is inside a call when the second closes the stream.\<close>

definition busy_machine :: machine where
  "busy_machine = \<lparr>m_shared = \<lparr>sd_phase = PhaseClosing, sd_active = 1, sd_action = False\<rparr>,
     m_pcs = [InCall, Running], m_runs = 0, m_panic = False\<rparr>"

definition closed_machine :: machine where
  "closed_machine = \<lparr>m_shared = \<lparr>sd_phase = PhaseClosed, sd_active = 0, sd_action = False\<rparr>,
     m_pcs = [Outside, Returned], m_runs = 1, m_panic = False\<rparr>"

lemma busy_reachable: "machine_step\<^sup>*\<^sup>* (machine_new 2) busy_machine"
proof -
  let ?m1 = "(machine_new 2)\<lparr>m_shared := closer_new\<lparr>sd_active := 1\<rparr>, m_pcs := [InCall, Outside]\<rparr>"
  let ?m2 = "?m1\<lparr>m_pcs := [InCall, AtClose]\<rparr>"
  have "machine_step (machine_new 2) ?m1"
    using machine_step.enter_call [of 0 "machine_new 2"]
    by (simp add: machine_new_def closer_new_def closer_enter_def numeral_2_eq_2)
  moreover have "machine_step ?m1 ?m2"
    using machine_step.call_close [of 1 ?m1] by (simp add: machine_new_def)
  moreover have "machine_step ?m2 busy_machine"
    using machine_step.work [OF progress.begin_close [of 1 ?m2]]
    by (simp add: machine_new_def closer_new_def closer_begin_def busy_machine_def after_begin_def)
  ultimately show ?thesis by (meson converse_rtranclp_into_rtranclp rtranclp.rtrancl_refl)
qed

lemma busy_closes: "machine_step\<^sup>*\<^sup>* busy_machine closed_machine"
proof -
  let ?m1 = "busy_machine\<lparr>m_pcs := [InCall, Draining], m_runs := 1\<rparr>"
  let ?m2 = "?m1\<lparr>m_pcs := [InCall, SleepDrain]\<rparr>"
  let ?m3 = "?m1\<lparr>m_shared := \<lparr>sd_phase = PhaseClosing, sd_active = 0, sd_action = False\<rparr>, m_pcs := [Outside, Draining]\<rparr>"
  have "machine_step busy_machine ?m1"
    using machine_step.work [OF progress.callback [of 1 busy_machine]] by (simp add: busy_machine_def)
  moreover have "machine_step ?m1 ?m2"
    using machine_step.work [OF progress.drain_wait [of 1 ?m1]] by (simp add: busy_machine_def closer_drain_def)
  moreover have "machine_step ?m2 ?m3"
    using machine_step.work [OF progress.drop [of 0 ?m2 True]] by (simp add: busy_machine_def activity_drop_def)
  moreover have "machine_step ?m3 closed_machine"
    using machine_step.work [OF progress.drain_done [of 1 ?m3]]
    by (simp add: busy_machine_def closer_drain_def closed_machine_def)
  ultimately show ?thesis by (meson converse_rtranclp_into_rtranclp rtranclp.rtrancl_refl)
qed

theorem shutdown_safe_witness: "InCall \<notin> set (m_pcs closed_machine) \<and> m_runs closed_machine = 1"
  using shutdown_safe [OF rtranclp_trans [OF busy_reachable busy_closes]]
  by (simp add: closed_machine_def)

theorem closing_final_witness: "\<not> fst (closer_enter (m_shared closed_machine)) \<and> at InCall closed_machine \<le> 1"
  using closing_final [OF busy_closes] by (simp add: busy_machine_def)

theorem shutdown_terminates_witness:
  "\<not> (\<exists>f. f 0 = busy_machine \<and> (\<forall>k. progress (f k) (f (Suc k))))"
  using shutdown_terminates [OF busy_reachable] by blast

end
