(* ===== verification/Memory_Pipe.thy ===== *)
theory Memory_Pipe
  imports Wire_Prelude
begin

text \<open>
  The in-memory stream of \<^verbatim>\<open>src/src/memory/mod.rs\<close>: a bounded buffer per direction with an open
  flag for each end. \<^verbatim>\<open>Reader::read\<close> and \<^verbatim>\<open>Writer::write\<close> are loops that hold the lock for one pass
  and release it while they wait; one pass is one function here, which either returns or waits.
  A pass that changed the pipe and a closure release the lock first and notify afterwards, so the
  change and the notification are two steps. The reading and the writing thread of a pipe, and
  whoever closes an end, interleave these steps freely; waiters are woken by notifications, by their
  deadline or for no reason.
\<close>


section \<open>One direction\<close>

record pipe =
  p_capacity :: nat
  p_bytes :: bytes
  p_reader_open :: bool
  p_writer_open :: bool
  p_lost :: bool

definition pipe_new :: "nat \<Rightarrow> pipe" where
  "pipe_new capacity = \<lparr>p_capacity = capacity, p_bytes = [], p_reader_open = True, p_writer_open = True,
     p_lost = False\<rparr>"

definition pipe_check_deadline :: "instant \<Rightarrow> instant option \<Rightarrow> (io_kind, unit) result" where
  "pipe_check_deadline now deadline = (case deadline of
      None \<Rightarrow> Ok ()
    | Some d \<Rightarrow> if now \<ge> d then Err TimedOut else Ok ())"

text \<open>The outcome of one pass: a return value, or a wait for the next change.\<close>

datatype 'a turn = Return 'a | Wait

text \<open>One pass of \<^verbatim>\<open>Reader::read\<close> into \<open>n\<close> bytes, and whether it notifies.\<close>

definition read_pass :: "nat \<Rightarrow> instant option \<Rightarrow> instant \<Rightarrow> pipe \<Rightarrow> (io_kind, bytes) result turn \<times> bool \<times> pipe" where
  "read_pass n deadline now p =
     (if n = 0 \<or> \<not> p_reader_open p then (Return (Ok []), False, p)
      else if p_bytes p \<noteq> [] then
        let count = min n (length (p_bytes p)) in
        (Return (Ok (take count (p_bytes p))), True, p\<lparr>p_bytes := drop count (p_bytes p)\<rparr>)
      else if \<not> p_writer_open p then (Return (Ok []), False, p)
      else (case pipe_check_deadline now deadline of
          Err k \<Rightarrow> (Return (Err k), False, p)
        | Ok _ \<Rightarrow> (Wait, False, p)))"

text \<open>One pass of \<^verbatim>\<open>Writer::write\<close>, returning the number of bytes accepted.\<close>

definition write_pass :: "bytes \<Rightarrow> instant option \<Rightarrow> instant \<Rightarrow> pipe \<Rightarrow> (io_kind, nat) result turn \<times> bool \<times> pipe" where
  "write_pass buf deadline now p =
     (case pipe_check_deadline now deadline of
        Err k \<Rightarrow> (Return (Err k), False, p)
      | Ok _ \<Rightarrow>
          if buf = [] then (Return (Ok 0), False, p)
          else if \<not> p_reader_open p \<or> \<not> p_writer_open p then (Return (Err BrokenPipe), False, p)
          else
            let count = min (length buf) (p_capacity p - length (p_bytes p)) in
            if count > 0 then (Return (Ok count), True, p\<lparr>p_bytes := p_bytes p @ take count buf\<rparr>)
            else (Wait, False, p))"

definition pipe_flush :: "instant option \<Rightarrow> instant \<Rightarrow> pipe \<Rightarrow> (io_kind, unit) result" where
  "pipe_flush deadline now p =
     (case pipe_check_deadline now deadline of
        Err k \<Rightarrow> Err k
      | Ok _ \<Rightarrow> if \<not> p_writer_open p \<or> p_lost p then Err BrokenPipe else Ok ())"

definition close_reader :: "pipe \<Rightarrow> pipe" where
  "close_reader p = p\<lparr>p_reader_open := False, p_lost := (p_lost p \<or> p_bytes p \<noteq> []), p_bytes := []\<rparr>"

definition close_writer :: "pipe \<Rightarrow> pipe" where
  "close_writer p = p\<lparr>p_writer_open := False\<rparr>"

lemmas pipe_defs = read_pass_def write_pass_def pipe_flush_def close_reader_def close_writer_def
  pipe_check_deadline_def


section \<open>The two threads of a pipe\<close>

text \<open>The reading half and the writing half are each owned by one thread. A thread is \<open>RNotify\<close> or
  \<open>WNotify\<close> when it has changed the pipe and released the lock but not yet called \<^verbatim>\<open>notify_all\<close>;
  \<open>pm_closing\<close> counts the closures at that point. \<open>accepted\<close>, \<open>consumed\<close> and \<open>discarded\<close> record the bytes
  that went in, came out and were thrown away.\<close>

datatype read_pc = RIdle | RBusy nat "instant option" | RSleep nat "instant option" | RNotify
datatype write_pc = WIdle | WBusy bytes "instant option" | WSleep bytes "instant option" | WNotify

record pipe_machine =
  pm_pipe :: pipe
  pm_reader :: read_pc
  pm_writer :: write_pc
  pm_closing :: nat
  pm_accepted :: bytes
  pm_consumed :: bytes
  pm_discarded :: bytes

definition pipe_machine_new :: "nat \<Rightarrow> pipe_machine" where
  "pipe_machine_new capacity = \<lparr>pm_pipe = pipe_new capacity, pm_reader = RIdle, pm_writer = WIdle,
     pm_closing = 0, pm_accepted = [], pm_consumed = [], pm_discarded = []\<rparr>"

fun wake_reader :: "read_pc \<Rightarrow> read_pc" where
  "wake_reader (RSleep n d) = RBusy n d"
| "wake_reader pc = pc"

fun wake_writer :: "write_pc \<Rightarrow> write_pc" where
  "wake_writer (WSleep bs d) = WBusy bs d"
| "wake_writer pc = pc"

definition notify_all :: "pipe_machine \<Rightarrow> pipe_machine" where
  "notify_all m = m\<lparr>pm_reader := wake_reader (pm_reader m), pm_writer := wake_writer (pm_writer m)\<rparr>"

definition after_read :: "(io_kind, bytes) result turn \<Rightarrow> bool \<Rightarrow> nat \<Rightarrow> instant option \<Rightarrow> pipe_machine \<Rightarrow> pipe_machine" where
  "after_read t notifies n d m = (case t of
      Wait \<Rightarrow> m\<lparr>pm_reader := RSleep n d\<rparr>
    | Return (Ok bs) \<Rightarrow> m\<lparr>pm_reader := (if notifies then RNotify else RIdle), pm_consumed := pm_consumed m @ bs\<rparr>
    | Return (Err _) \<Rightarrow> m\<lparr>pm_reader := RIdle\<rparr>)"

definition after_write :: "(io_kind, nat) result turn \<Rightarrow> bool \<Rightarrow> bytes \<Rightarrow> instant option \<Rightarrow> pipe_machine \<Rightarrow> pipe_machine" where
  "after_write t notifies bs d m = (case t of
      Wait \<Rightarrow> m\<lparr>pm_writer := WSleep bs d\<rparr>
    | Return (Ok n) \<Rightarrow> m\<lparr>pm_writer := (if notifies then WNotify else WIdle), pm_accepted := pm_accepted m @ take n bs\<rparr>
    | Return (Err _) \<Rightarrow> m\<lparr>pm_writer := WIdle\<rparr>)"

text \<open>\<open>read_turn\<close> and \<open>write_turn\<close> hold the lock for one pass and end with the lock released, asleep, about
  to notify or returned; \<open>read_notify\<close>, \<open>write_notify\<close> and \<open>closer_notifies\<close> are the calls of \<^verbatim>\<open>notify_all\<close>
  after the lock was dropped.\<close>

inductive pipe_step :: "pipe_machine \<Rightarrow> pipe_machine \<Rightarrow> bool" where
  read_call: "pm_reader m = RIdle \<Longrightarrow> pipe_step m (m\<lparr>pm_reader := RBusy n d\<rparr>)"
| write_call: "pm_writer m = WIdle \<Longrightarrow> pipe_step m (m\<lparr>pm_writer := WBusy bs d\<rparr>)"
| read_turn: "pm_reader m = RBusy n d \<Longrightarrow> read_pass n d now (pm_pipe m) = (t, b, p') \<Longrightarrow>
    pipe_step m (after_read t b n d (m\<lparr>pm_pipe := p'\<rparr>))"
| read_notify: "pm_reader m = RNotify \<Longrightarrow> pipe_step m (notify_all (m\<lparr>pm_reader := RIdle\<rparr>))"
| write_turn: "pm_writer m = WBusy bs d \<Longrightarrow> write_pass bs d now (pm_pipe m) = (t, b, p') \<Longrightarrow>
    pipe_step m (after_write t b bs d (m\<lparr>pm_pipe := p'\<rparr>))"
| write_notify: "pm_writer m = WNotify \<Longrightarrow> pipe_step m (notify_all (m\<lparr>pm_writer := WIdle\<rparr>))"
| reader_closed: "pipe_step m (m\<lparr>pm_pipe := close_reader (pm_pipe m), pm_closing := Suc (pm_closing m),
    pm_discarded := pm_discarded m @ p_bytes (pm_pipe m)\<rparr>)"
| writer_closed: "pipe_step m (m\<lparr>pm_pipe := close_writer (pm_pipe m), pm_closing := Suc (pm_closing m)\<rparr>)"
| closer_notifies: "pm_closing m = Suc n \<Longrightarrow> pipe_step m (notify_all (m\<lparr>pm_closing := n\<rparr>))"
| reader_wakes: "pipe_step m (m\<lparr>pm_reader := wake_reader (pm_reader m)\<rparr>)"
| writer_wakes: "pipe_step m (m\<lparr>pm_writer := wake_writer (pm_writer m)\<rparr>)"

text \<open>A call of \<^verbatim>\<open>notify_all\<close> that some thread is about to make.\<close>

definition notification_due :: "pipe_machine \<Rightarrow> bool" where
  "notification_due m \<longleftrightarrow> pm_reader m = RNotify \<or> pm_writer m = WNotify \<or> 0 < pm_closing m"

definition asleep :: "pipe_machine \<Rightarrow> bool" where
  "asleep m \<longleftrightarrow> (\<exists>n d. pm_reader m = RSleep n d) \<or> (\<exists>bs d. pm_writer m = WSleep bs d)"

definition pipe_inv :: "pipe_machine \<Rightarrow> bool" where
  "pipe_inv m \<longleftrightarrow>
     (let p = pm_pipe m in
      length (p_bytes p) \<le> p_capacity p \<and> 0 < p_capacity p \<and>
      pm_accepted m = pm_consumed m @ pm_discarded m @ p_bytes p \<and>
      (p_lost p \<longleftrightarrow> pm_discarded m \<noteq> []) \<and>
      (\<not> p_reader_open p \<longrightarrow> p_bytes p = []) \<and>
      (p_reader_open p \<longrightarrow> pm_discarded m = []) \<and>
      (\<forall>n d. pm_reader m = RSleep n d \<longrightarrow> n \<noteq> 0 \<and>
         (p_bytes p = [] \<or> pm_writer m = WNotify) \<and>
         (p_reader_open p \<and> p_writer_open p \<or> 0 < pm_closing m)) \<and>
      (\<forall>bs d. pm_writer m = WSleep bs d \<longrightarrow> bs \<noteq> [] \<and>
         (length (p_bytes p) = p_capacity p \<or> pm_reader m = RNotify \<or> \<not> p_reader_open p) \<and>
         (p_reader_open p \<and> p_writer_open p \<or> 0 < pm_closing m)) \<and>
      \<not> (\<exists>n d bs d'. pm_reader m = RSleep n d \<and> pm_writer m = WSleep bs d'))"

lemma wake_simps [simp]:
  "wake_reader pc \<noteq> RSleep n d" "wake_writer wc \<noteq> WSleep bs d"
  by (cases pc; simp) (cases wc; simp)

lemma pipe_inv_new: "0 < capacity \<Longrightarrow> pipe_inv (pipe_machine_new capacity)"
  by (simp add: pipe_inv_def pipe_machine_new_def pipe_new_def)

lemma read_pass_cases:
  assumes "read_pass n d now p = (t, b, p')"
  obtains (stop) r where "t = Return r" "r = Ok [] \<or> (\<exists>k. r = Err k)" "\<not> b" "p' = p"
  | (deliver) k where "t = Return (Ok (take k (p_bytes p)))" "b" "p' = p\<lparr>p_bytes := drop k (p_bytes p)\<rparr>"
      "p_reader_open p"
  | (empty) "t = Wait" "\<not> b" "p' = p" "n \<noteq> 0" "p_bytes p = []" "p_reader_open p" "p_writer_open p"
proof (cases "n = 0 \<or> \<not> p_reader_open p \<or> p_bytes p = []")
  case True
  with assms show thesis
    by (cases "pipe_check_deadline now d")
      (auto simp: read_pass_def intro: stop empty split: if_splits)
next
  case False
  with assms show thesis
    by (intro deliver [of "min n (length (p_bytes p))"]) (auto simp: read_pass_def Let_def)
qed

lemma write_pass_cases:
  assumes "write_pass bs d now p = (t, b, p')"
  obtains (stop) r where "t = Return r" "r = Ok 0 \<or> (\<exists>k. r = Err k)" "\<not> b" "p' = p"
  | (accept) n where "t = Return (Ok n)" "b" "p' = p\<lparr>p_bytes := p_bytes p @ take n bs\<rparr>"
      "n \<le> length bs" "length (p_bytes p) + n \<le> p_capacity p" "p_reader_open p" "p_writer_open p"
  | (full) "t = Wait" "\<not> b" "p' = p" "bs \<noteq> []" "p_capacity p \<le> length (p_bytes p)" "p_reader_open p" "p_writer_open p"
proof (cases "pipe_check_deadline now d = Ok () \<and> bs \<noteq> [] \<and> p_reader_open p \<and> p_writer_open p")
  case True
  then show thesis
  proof (cases "length (p_bytes p) < p_capacity p")
    case less: True
    with True assms show thesis
      by (intro accept [of "min (length bs) (p_capacity p - length (p_bytes p))"])
        (auto simp: write_pass_def Let_def split: if_splits)
  next
    case False
    with True assms show thesis by (intro full) (auto simp: write_pass_def Let_def split: if_splits)
  qed
next
  case False
  with assms show thesis
    by (cases "pipe_check_deadline now d") (auto simp: write_pass_def intro: stop split: if_splits)
qed

lemma wake_notify [simp]:
  "wake_reader pc = RNotify \<longleftrightarrow> pc = RNotify" "wake_writer wc = WNotify \<longleftrightarrow> wc = WNotify"
  by (cases pc; simp) (cases wc; simp)

lemma pipe_step_inv:
  assumes "pipe_step m m'" and inv: "pipe_inv m"
  shows "pipe_inv m'"
  using assms(1)
proof cases
  case (read_turn n d now t b p')
  from read_turn(3) show ?thesis
  proof (cases rule: read_pass_cases)
    case (stop r)
    with inv read_turn show ?thesis by (auto simp: pipe_inv_def after_read_def Let_def)
  next
    case (deliver k)
    with inv read_turn show ?thesis by (auto simp: pipe_inv_def after_read_def Let_def)
  next
    case empty
    with inv read_turn show ?thesis by (auto simp: pipe_inv_def after_read_def Let_def)
  qed
next
  case (write_turn bs d now t b p')
  from write_turn(3) show ?thesis
  proof (cases rule: write_pass_cases)
    case (stop r)
    with inv write_turn show ?thesis by (auto simp: pipe_inv_def after_write_def Let_def)
  next
    case (accept n)
    with inv write_turn show ?thesis by (simp add: pipe_inv_def after_write_def Let_def)
  next
    case full
    with inv write_turn show ?thesis by (auto simp: pipe_inv_def after_write_def Let_def)
  qed
qed (use inv in \<open>auto simp: pipe_inv_def notify_all_def close_reader_def close_writer_def Let_def\<close>)

lemma sleeping_reader:
  assumes "pipe_inv m" and "pm_reader m = RSleep n d"
  shows "fst (read_pass n None now (pm_pipe m)) = Wait \<or> notification_due m"
  using assms by (auto simp: pipe_inv_def notification_due_def read_pass_def pipe_check_deadline_def Let_def)

lemma sleeping_writer:
  assumes "pipe_inv m" and "pm_writer m = WSleep bs d"
  shows "fst (write_pass bs None now (pm_pipe m)) = Wait \<or> notification_due m"
  using assms by (auto simp: pipe_inv_def notification_due_def write_pass_def pipe_check_deadline_def Let_def)

lemma notification_ends_sleep:
  assumes "notification_due m"
  obtains m' where "pipe_step m m'" "pm_pipe m' = pm_pipe m" "\<not> asleep m'"
proof -
  from assms consider "pm_reader m = RNotify" | "pm_writer m = WNotify" | n where "pm_closing m = Suc n"
    unfolding notification_due_def by (metis gr0_implies_Suc)
  then show thesis
  proof cases
    case 1
    from that [OF pipe_step.read_notify [OF 1]] show thesis by (simp add: notify_all_def asleep_def)
  next
    case 2
    from that [OF pipe_step.write_notify [OF 2]] show thesis by (simp add: notify_all_def asleep_def)
  next
    case 3
    from that [OF pipe_step.closer_notifies [OF 3]] show thesis by (simp add: notify_all_def asleep_def)
  qed
qed

interpretation memory_pipe: transition_system "\<lambda>m. \<exists>capacity. 0 < capacity \<and> m = pipe_machine_new capacity"
  pipe_step pipe_inv
  by unfold_locales (auto intro: pipe_inv_new pipe_step_inv)


section \<open>The duplex stream\<close>

text \<open>Two directions; the end of a stream is its incoming and its outgoing pipe.\<close>

record duplex =
  dx_first :: pipe
  dx_second :: pipe

definition duplex_new :: "nat \<Rightarrow> duplex option" where
  "duplex_new capacity = (if capacity = 0 then None
     else Some \<lparr>dx_first = pipe_new capacity, dx_second = pipe_new capacity\<rparr>)"

text \<open>The shutdown callback of the endpoint whose incoming pipe is the first (\<open>True\<close>) or the second.\<close>

definition endpoint_shutdown :: "bool \<Rightarrow> duplex \<Rightarrow> duplex" where
  "endpoint_shutdown first d =
     (if first then d\<lparr>dx_first := close_reader (dx_first d), dx_second := close_writer (dx_second d)\<rparr>
      else d\<lparr>dx_second := close_reader (dx_second d), dx_first := close_writer (dx_first d)\<rparr>)"


section \<open>Properties of the pipe\<close>

text \<open>C38: in every interleaving the bytes read so far, the bytes thrown away by closing the reader and
  the buffered bytes are, in this order, the bytes written so far; the buffer never exceeds its
  capacity; bytes are thrown away only with the reader closed, and exactly then marked as lost;
  and the two threads never sleep at the same time.\<close>

theorem pipe_fifo:
  assumes "pipe_step\<^sup>*\<^sup>* (pipe_machine_new capacity) m" and "0 < capacity"
  shows "pm_accepted m = pm_consumed m @ pm_discarded m @ p_bytes (pm_pipe m) \<and>
    length (p_bytes (pm_pipe m)) \<le> p_capacity (pm_pipe m) \<and>
    (p_lost (pm_pipe m) \<longleftrightarrow> pm_discarded m \<noteq> []) \<and>
    (p_reader_open (pm_pipe m) \<longrightarrow> pm_discarded m = []) \<and>
    \<not> (\<exists>n d bs d'. pm_reader m = RSleep n d \<and> pm_writer m = WSleep bs d')"
proof -
  have "pipe_inv m" using memory_pipe.inv_reachable [OF _ assms(1)] assms(2) by blast
  then show ?thesis by (auto simp: pipe_inv_def Let_def)
qed

text \<open>C39: no wake-up is lost although the lock is released before the notification: whenever a
  thread sleeps, the pass it would make on the pipe as it is would wait again, or a notification is
  due from a thread that changed the pipe; and a due notification can always be delivered at once,
  leaving the pipe as it is and no thread asleep.\<close>

theorem pipe_no_lost_wakeup:
  assumes "pipe_step\<^sup>*\<^sup>* (pipe_machine_new capacity) m" and "0 < capacity"
  shows "(pm_reader m = RSleep n d \<longrightarrow>
      fst (read_pass n None now (pm_pipe m)) = Wait \<or> notification_due m) \<and>
    (pm_writer m = WSleep bs d' \<longrightarrow>
      fst (write_pass bs None now (pm_pipe m)) = Wait \<or> notification_due m) \<and>
    (notification_due m \<longrightarrow> (\<exists>m'. pipe_step m m' \<and> pm_pipe m' = pm_pipe m \<and> \<not> asleep m'))"
proof -
  have "pipe_inv m" using memory_pipe.inv_reachable [OF _ assms(1)] assms(2) by blast
  then show ?thesis using sleeping_reader [of m n d] sleeping_writer [of m bs d']
    by (blast elim: notification_ends_sleep)
qed

text \<open>After an endpoint shut down, its own reads return the end of the stream and its writes and
  flushes are refused; the peer's writes are refused, its flush fails only when it had output
  unread, and it still reads everything the endpoint had written before it sees the end.\<close>

theorem endpoint_shutdown_effect:
  assumes "n \<noteq> 0" and "bs \<noteq> []" and "d' = endpoint_shutdown True d"
    and "\<not> p_lost (dx_first d)" and "p_writer_open (dx_first d)" and "p_reader_open (dx_second d)"
  shows "fst (read_pass n None now (dx_first d')) = Return (Ok []) \<and>
    fst (write_pass bs None now (dx_second d')) = Return (Err BrokenPipe) \<and>
    pipe_flush None now (dx_second d') = Err BrokenPipe \<and>
    fst (write_pass bs None now (dx_first d')) = Return (Err BrokenPipe) \<and>
    pipe_flush None now (dx_first d') = (if p_bytes (dx_first d) = [] then Ok () else Err BrokenPipe) \<and>
    fst (read_pass n None now (dx_second d')) = Return (Ok (take n (p_bytes (dx_second d))))"
  using assms by (auto simp: endpoint_shutdown_def pipe_defs Let_def min_def)

theorem pipe_fifo_witness:
  "pm_accepted (after_write (Return (Ok 1)) True [7, 8] None
     (pipe_machine_new 1\<lparr>pm_writer := WBusy [7, 8] None, pm_pipe := pipe_new 1\<lparr>p_bytes := [7]\<rparr>\<rparr>)) = [7]"
proof -
  let ?m1 = "pipe_machine_new 1\<lparr>pm_writer := WBusy [7, 8] None\<rparr>"
  let ?m2 = "after_write (Return (Ok 1)) True [7, 8] None (?m1\<lparr>pm_pipe := pipe_new 1\<lparr>p_bytes := [7]\<rparr>\<rparr>)"
  have "pipe_step (pipe_machine_new 1) ?m1"
    by (rule pipe_step.write_call) (simp add: pipe_machine_new_def)
  moreover have "pipe_step ?m1 ?m2"
    by (rule pipe_step.write_turn [where now = 0])
      (simp_all add: pipe_machine_new_def write_pass_def pipe_check_deadline_def pipe_new_def)
  ultimately have "pipe_step\<^sup>*\<^sup>* (pipe_machine_new 1) ?m2" by (meson converse_rtranclp_into_rtranclp rtranclp.rtrancl_refl)
  from pipe_fifo [OF this] show ?thesis
    by (simp add: after_write_def pipe_machine_new_def)
qed

text \<open>A reader sleeps, a byte is written, and the notification is still due.\<close>

definition demo_window :: pipe_machine where
  "demo_window = pipe_machine_new 1\<lparr>pm_pipe := pipe_new 1\<lparr>p_bytes := [7]\<rparr>, pm_reader := RSleep 4 None,
     pm_writer := WNotify, pm_accepted := [7]\<rparr>"

lemma demo_window_run: "pipe_step\<^sup>*\<^sup>* (pipe_machine_new 1) demo_window"
proof -
  let ?m1 = "pipe_machine_new 1\<lparr>pm_reader := RBusy 4 None\<rparr>"
  let ?m2 = "pipe_machine_new 1\<lparr>pm_reader := RSleep 4 None\<rparr>"
  let ?m3 = "?m2\<lparr>pm_writer := WBusy [7] None\<rparr>"
  have "pipe_step (pipe_machine_new 1) ?m1"
    by (rule pipe_step.read_call) (simp add: pipe_machine_new_def)
  moreover have "pipe_step ?m1 ?m2"
    using pipe_step.read_turn [of ?m1 4 None 0 Wait False "pipe_new 1"]
    by (simp add: pipe_machine_new_def read_pass_def pipe_check_deadline_def pipe_new_def after_read_def)
  moreover have "pipe_step ?m2 ?m3"
    by (rule pipe_step.write_call) (simp add: pipe_machine_new_def)
  moreover have "pipe_step ?m3 demo_window"
    using pipe_step.write_turn [of ?m3 "[7]" None 0 "Return (Ok 1)" True "pipe_new 1\<lparr>p_bytes := [7]\<rparr>"]
    by (simp add: demo_window_def pipe_machine_new_def write_pass_def pipe_check_deadline_def pipe_new_def
        after_write_def)
  ultimately show ?thesis by (meson converse_rtranclp_into_rtranclp rtranclp.rtrancl_refl)
qed

theorem pipe_no_lost_wakeup_witness:
  "fst (read_pass 4 None 0 (pm_pipe demo_window)) \<noteq> Wait \<and> notification_due demo_window \<and>
   (\<exists>m'. pipe_step demo_window m' \<and> pm_pipe m' = pm_pipe demo_window \<and> \<not> asleep m')"
  using pipe_no_lost_wakeup [OF demo_window_run, of 4 None 0]
  by (simp add: demo_window_def pipe_machine_new_def pipe_new_def read_pass_def)

theorem endpoint_shutdown_effect_witness:
  "pipe_flush None 0 (dx_first (endpoint_shutdown True
     \<lparr>dx_first = pipe_new 4\<lparr>p_bytes := [1]\<rparr>, dx_second = pipe_new 4\<lparr>p_bytes := [2, 3]\<rparr>\<rparr>)) = Err BrokenPipe \<and>
   fst (read_pass 9 None 0 (dx_second (endpoint_shutdown True
     \<lparr>dx_first = pipe_new 4\<lparr>p_bytes := [1]\<rparr>, dx_second = pipe_new 4\<lparr>p_bytes := [2, 3]\<rparr>\<rparr>))) = Return (Ok [2, 3])"
  using endpoint_shutdown_effect [of 9 "[1]" _ "\<lparr>dx_first = pipe_new 4\<lparr>p_bytes := [1]\<rparr>,
      dx_second = pipe_new 4\<lparr>p_bytes := [2, 3]\<rparr>\<rparr>" 0, OF _ _ refl]
  by (simp add: pipe_new_def)

end
