(* ===== verification/Outbound_Sessions.thy ===== *)
theory Outbound_Sessions
  imports Frame_Link
begin

text \<open>
  The shared output of a transport: \<^verbatim>\<open>src/src/transport/outbound.rs\<close> (the frame writer with the
  binding that names the session allowed to use it), \<^verbatim>\<open>sealing.rs\<close> and \<^verbatim>\<open>sender.rs\<close>.

  A session is the allocation of its encryption context. Allocations are numbers that are never
  reused, a weak reference is such a number, and the binding is the number of the current session
  or none. An operation that holds the writer lock runs to its end before another one starts, so
  each is one run on the outbound state and its environment.
\<close>


section \<open>State\<close>

datatype side = ClientSide | ServerSide

record outbound =
  ob_writer :: frame_writer
  ob_binding :: "nat option"
  ob_timeout :: duration
  ob_side :: side

definition outbound_new :: "side \<Rightarrow> duration \<Rightarrow> outbound" where
  "outbound_new side timeout = \<lparr>ob_writer = frame_writer_new, ob_binding = None, ob_timeout = timeout, ob_side = side\<rparr>"

abbreviation ended :: transport_error where
  "ended \<equiv> EncryptionFailed ''session ended''"

text \<open>An operation of the frame writer, and one of the clock, on the whole state.\<close>

definition framer :: "(frame_writer \<times> env, 'e, 'a) run \<Rightarrow> (outbound \<times> env, 'e, 'a) run" where
  "framer m = (\<lambda>(ob, e). map_option (\<lambda>(r, fw, e'). (r, ob\<lparr>ob_writer := fw\<rparr>, e')) (m (ob_writer ob, e)))"

definition budget :: "(outbound \<times> env, 'e, instant) run" where
  "budget = (\<lambda>(ob, e). map_option (\<lambda>(r, e'). (r, ob, e')) (env_deadline_after (ob_timeout ob) e))"

lemma framer_Some:
  "framer m (ob, e) = Some (r, s') \<longleftrightarrow>
     (\<exists>fw e'. m (ob_writer ob, e) = Some (r, fw, e') \<and> s' = (ob\<lparr>ob_writer := fw\<rparr>, e'))"
  by (auto simp: framer_def)

lemma budget_Some:
  "budget (ob, e) = Some (r, s') \<longleftrightarrow>
     (\<exists>t c. deadline_after (e_clock e) (ob_timeout ob) = (t, c) \<and> r = Ok t \<and> s' = (ob, e\<lparr>e_clock := c\<rparr>))"
  by (auto simp: budget_def)


section \<open>Operations under the writer lock\<close>

definition writer_bind :: "nat \<Rightarrow> (outbound \<times> env, 'e, unit) run" where
  "writer_bind sealer = act (\<lambda>(ob, e). ((), ob\<lparr>ob_binding := Some sealer\<rparr>, e))"

definition writer_unbind :: "(outbound \<times> env, 'e, unit) run" where
  "writer_unbind = act (\<lambda>(ob, e). ((), ob\<lparr>ob_binding := None\<rparr>, e))"

definition writer_end :: "nat \<Rightarrow> (outbound \<times> env, 'e, bool) run" where
  "writer_end sealer = act (\<lambda>(ob, e).
     if ob_binding ob = Some sealer then (True, ob\<lparr>ob_binding := None\<rparr>, e) else (False, ob, e))"

definition notify_failure :: "transport_error \<Rightarrow> instant \<Rightarrow> (outbound \<times> env, transport_error, unit) run" where
  "notify_failure err deadline = (\<lambda>(ob, e).
     if ob_side ob = ServerSide \<and> err \<noteq> SendFailed TimedOut
     then attempt (framer (fw_send_dropped deadline)) (\<lambda>_. ret ()) (ob, e)
     else ret () (ob, e))"

definition writer_send :: "cobs \<Rightarrow> nat \<Rightarrow> bytes \<Rightarrow> (outbound \<times> env, transport_error, unit) run" where
  "writer_send c sealer packet = (\<lambda>(ob, e).
     if ob_binding ob \<noteq> Some sealer then fail ended (ob, e)
     else bindr budget (\<lambda>deadline.
       attempt (framer (fw_send_packet c packet deadline)) (\<lambda>result.
         case result of
           Ok _ \<Rightarrow> ret ()
         | Err err \<Rightarrow>
             bindr (writer_end sealer) (\<lambda>removed.
             bindr (if removed then notify_failure err deadline else ret ()) (\<lambda>_. fail err)))) (ob, e))"

definition outbound_disconnect :: "nat \<Rightarrow> (outbound \<times> env, transport_error, unit) run" where
  "outbound_disconnect sealer =
     bindr (writer_end sealer) (\<lambda>removed (ob, e).
       if removed \<and> ob_side ob = ServerSide
       then bindr budget (\<lambda>deadline. framer (fw_send_dropped deadline)) (ob, e)
       else ret () (ob, e))"

definition outbound_send_reset :: "instant \<Rightarrow> (outbound \<times> env, transport_error, unit) run" where
  "outbound_send_reset deadline =
     bindr writer_unbind (\<lambda>_. bindr budget (\<lambda>own. framer (fw_send_reset (min deadline own))))"

definition limited :: "instant option \<Rightarrow> instant \<Rightarrow> instant" where
  "limited limit own = (case limit of None \<Rightarrow> own | Some l \<Rightarrow> min l own)"

definition outbound_send_dropped :: "instant option \<Rightarrow> (outbound \<times> env, transport_error, unit) run" where
  "outbound_send_dropped limit =
     bindr writer_unbind (\<lambda>_. bindr budget (\<lambda>own. framer (fw_send_dropped (limited limit own))))"

definition outbound_send_packet ::
  "cobs \<Rightarrow> bytes \<Rightarrow> instant option \<Rightarrow> (outbound \<times> env, transport_error, unit) run" where
  "outbound_send_packet c packet limit =
     bindr budget (\<lambda>own.
       attempt (framer (fw_send_packet c packet (limited limit own))) (\<lambda>result.
         case result of
           Ok _ \<Rightarrow> ret ()
         | Err (SendFailed k) \<Rightarrow>
             bindr (notify_failure (SendFailed k) (limited limit own)) (\<lambda>_. fail (SendFailed k))
         | Err err \<Rightarrow> fail err))"

definition outbound_send_frame_blob :: "bytes \<Rightarrow> (outbound \<times> env, transport_error, unit) run" where
  "outbound_send_frame_blob frame = bindr budget (\<lambda>own. framer (fw_send_frame_blob frame own))"

text \<open>Operations under the binding lock only.\<close>

definition finish_receive :: "outbound \<Rightarrow> nat \<Rightarrow> (transport_error, bytes) result \<Rightarrow> (transport_error, bytes) result" where
  "finish_receive ob sealer result = (if ob_binding ob = Some sealer then result else Err ended)"

definition refuse_oversized :: "outbound \<Rightarrow> nat \<Rightarrow> nat \<Rightarrow> (transport_error, unit) result" where
  "refuse_oversized ob sealer len = (if ob_binding ob = Some sealer then Err (PacketTooLarge len) else Err ended)"


section \<open>Sealing and senders\<close>

text \<open>The xHPKE contexts are the crypto crate's: sealing and opening either fail with a message or
  return the result and the advanced context.\<close>

record 'k hpke =
  hpke_seal :: "'k \<Rightarrow> bytes \<Rightarrow> (string, bytes \<times> 'k) result"
  hpke_open :: "'k \<Rightarrow> bytes \<Rightarrow> (string, bytes \<times> 'k) result"

definition seal :: "cobs \<Rightarrow> 'k hpke \<Rightarrow> 'k \<Rightarrow> bytes \<Rightarrow> (transport_error, bytes \<times> 'k) result option" where
  "seal c h ctx message = (case MAX_MESSAGE_SIZE (cobs_encode_buffer c) of
      None \<Rightarrow> None
    | Some limit \<Rightarrow>
        Some (if length message > limit then Err (PacketTooLarge (length message))
          else (case hpke_seal h ctx message of Err msg \<Rightarrow> Err (EncryptionFailed msg) | Ok sealed \<Rightarrow> Ok sealed)))"

definition open_packet :: "'k hpke \<Rightarrow> 'k \<Rightarrow> bytes \<Rightarrow> (transport_error, bytes \<times> 'k) result" where
  "open_packet h ctx packet =
     (case hpke_open h ctx packet of Err msg \<Rightarrow> Err (EncryptionFailed msg) | Ok opened \<Rightarrow> Ok opened)"

text \<open>What senders share: the outbound transport while its owner retains it, and the sending
  contexts that are still retained.\<close>

record 'k wire =
  w_alive :: bool
  w_outbound :: outbound
  w_sealers :: "nat \<Rightarrow> 'k option"

definition on_outbound :: "(outbound \<times> env, 'e, 'a) run \<Rightarrow> ('k wire \<times> env, 'e, 'a) run" where
  "on_outbound m = (\<lambda>(w, e). map_option (\<lambda>(r, ob, e'). (r, w\<lparr>w_outbound := ob\<rparr>, e')) (m (w_outbound w, e)))"

text \<open>\<^verbatim>\<open>Sender::send\<close>; the two panics are runs without a result.\<close>

definition sender_send :: "cobs \<Rightarrow> 'k hpke \<Rightarrow> nat \<Rightarrow> bytes \<Rightarrow> ('k wire \<times> env, transport_error, unit) run" where
  "sender_send c h sealer message = (\<lambda>(w, e).
     if \<not> w_alive w then fail Terminated (w, e)
     else (case w_sealers w sealer of
         None \<Rightarrow> fail ended (w, e)
       | Some ctx \<Rightarrow>
           (case seal c h ctx message of
              None \<Rightarrow> None
            | Some (Err (PacketTooLarge n)) \<Rightarrow> Some (refuse_oversized (w_outbound w) sealer n, w, e)
            | Some (Err _) \<Rightarrow> None
            | Some (Ok (packet, ctx')) \<Rightarrow>
                on_outbound (writer_send c sealer packet) (w\<lparr>w_sealers := (w_sealers w)(sealer \<mapsto> ctx')\<rparr>, e))))"

definition sender_disconnect :: "nat \<Rightarrow> ('k wire \<times> env, transport_error, unit) run" where
  "sender_disconnect sealer = (\<lambda>(w, e).
     if w_alive w \<and> w_sealers w sealer \<noteq> None then on_outbound (outbound_disconnect sealer) (w, e)
     else ret () (w, e))"


section \<open>What every operation keeps of the wire\<close>

text \<open>Frames on the wire stay whole: an operation only ever appends, and keeps the link invariant.\<close>

definition legal_frames :: "bytes set" where
  "legal_frames = {f. 0 \<notin> set f \<and> length f \<le> MAX_FRAME_SIZE}"

definition wire_kept :: "outbound \<times> env \<Rightarrow> outbound \<times> env \<Rightarrow> bool" where
  "wire_kept s s' \<longleftrightarrow>
     (link_ok legal_frames (ob_writer (fst s), snd s) \<longrightarrow>
        link_ok legal_frames (ob_writer (fst s'), snd s') \<and>
        prefix (segments (e_output (snd s))) (segments (e_output (snd s'))) \<and>
        e_input (snd s') = e_input (snd s) \<and> e_reads (snd s') = e_reads (snd s)) \<and>
     ob_side (fst s') = ob_side (fst s) \<and> ob_timeout (fst s') = ob_timeout (fst s)"

interpretation kept: frame_relation wire_kept
  by unfold_locales (auto simp: wire_kept_def)

lemma op_frame_legal: "cobs_codec c \<Longrightarrow> op_frame c op \<in> legal_frames"
  using op_frame_length [of c op]
  by (cases op) (auto simp: legal_frames_def split: option.splits dest: cobs_codec.encode_frame)

lemma run_op_input:
  assumes "cobs_codec c" and "run_op c op deadline (fw, e) = Some (r, s')" and "fw_inv fw"
  shows "e_input (snd s') = e_input e \<and> e_reads (snd s') = e_reads e"
  using assms
  by (cases op) (auto elim!: fw_send_packet_sent dest!: fw_send_reset_sent fw_send_dropped_sent simp: sent_def)

lemma keeps_framer_op:
  assumes c: "cobs_codec c"
  shows "keeps wire_kept (framer (run_op c op deadline))"
  unfolding keeps_def
proof (intro allI impI)
  fix s s' :: "outbound \<times> env" and r
  assume "framer (run_op c op deadline) s = Some (r, s')"
  moreover obtain ob e where s: "s = (ob, e)" by (cases s)
  ultimately obtain fw e' where
    run: "run_op c op deadline (ob_writer ob, e) = Some (r, fw, e')" and s': "s' = (ob\<lparr>ob_writer := fw\<rparr>, e')"
    by (auto simp: framer_Some)
  have "link_ok legal_frames (fw, e') \<and> prefix (segments (e_output e)) (segments (e_output e')) \<and>
      e_input e' = e_input e \<and> e_reads e' = e_reads e"
    if ok: "link_ok legal_frames (ob_writer ob, e)"
  proof -
    from ok have "fw_inv (ob_writer ob)" by (simp add: link_ok_def)
    from run_op_link [OF c run ok op_frame_legal [OF c]] run_op_input [OF c run this] show ?thesis by auto
  qed
  with s s' show "wire_kept s s'" by (simp add: wire_kept_def)
qed

lemma keeps_framer:
  "cobs_codec c \<Longrightarrow> keeps wire_kept (framer (fw_send_packet c p deadline))"
  "keeps wire_kept (framer (fw_send_reset deadline))"
  "keeps wire_kept (framer (fw_send_dropped deadline))"
  using keeps_framer_op [of c "OpPacket p" deadline]
    keeps_framer_op [OF stuffing.cobs_codec_axioms, of OpReset deadline]
    keeps_framer_op [OF stuffing.cobs_codec_axioms, of OpDropped deadline] by simp_all

lemma keeps_env_clock: "keeps wire_kept (budget :: (outbound \<times> env, 'e, instant) run)"
  by (auto simp: keeps_def budget_Some wire_kept_def link_ok_def)

lemma keeps_binding:
  "keeps wire_kept (writer_bind sealer :: (outbound \<times> env, 'e, unit) run)"
  "keeps wire_kept (writer_unbind :: (outbound \<times> env, 'e, unit) run)"
  "keeps wire_kept (writer_end sealer :: (outbound \<times> env, 'e, bool) run)"
  by (auto simp: keeps_def writer_bind_def writer_unbind_def writer_end_def wire_kept_def link_ok_def
      split: if_splits)

lemma keeps_cond:
  "keeps R m1 \<Longrightarrow> keeps R m2 \<Longrightarrow> keeps R (\<lambda>(ob, e). if P ob e then m1 (ob, e) else m2 (ob, e))"
  by (auto simp: keeps_def)

lemma keeps_branch:
  "keeps R m1 \<Longrightarrow> keeps R m2 \<Longrightarrow> keeps R (if b then m1 else m2)"
  "(\<And>x. keeps R (f x)) \<Longrightarrow> (\<And>y. keeps R (g y)) \<Longrightarrow> keeps R (case_sum f g q)"
  by (simp, cases q, simp_all)

lemmas keeps_intros = keeps_branch kept.keeps_ret kept.keeps_fail kept.keeps_bindr kept.keeps_attempt keeps_cond
  keeps_framer keeps_env_clock keeps_binding

lemma keeps_notify_failure: "keeps wire_kept (notify_failure err deadline)"
  unfolding notify_failure_def by (intro keeps_intros)

lemma keeps_writer_send: "cobs_codec c \<Longrightarrow> keeps wire_kept (writer_send c sealer packet)"
  unfolding writer_send_def by (intro keeps_intros keeps_notify_failure)

lemma keeps_outbound:
  "keeps wire_kept (outbound_disconnect sealer)" "keeps wire_kept (outbound_send_reset deadline)"
  "keeps wire_kept (outbound_send_dropped limit)"
  unfolding outbound_disconnect_def outbound_send_reset_def outbound_send_dropped_def
  by (intro keeps_intros)+

lemma keeps_outbound_send_packet:
  assumes "cobs_codec c"
  shows "keeps wire_kept (outbound_send_packet c packet limit)"
  unfolding outbound_send_packet_def
  by (intro keeps_intros assms; simp split: transport_error.split; intro conjI allI impI keeps_intros keeps_notify_failure)



section \<open>The outcome of a send\<close>

lemma notify_failure_effect:
  assumes "notify_failure err deadline (ob, e) = Some (r, ob', e')" and "fw_inv (ob_writer ob)"
  obtains q where "r = Ok ()" "ob_binding ob' = ob_binding ob" "e_output e' = e_output e @ q" "prefix q [0, 0]"
    "q \<noteq> [] \<longrightarrow> ob_side ob = ServerSide \<and> err \<noteq> SendFailed TimedOut"
proof (cases "ob_side ob = ServerSide \<and> err \<noteq> SendFailed TimedOut")
  case True
  with assms(1) obtain q fw where d: "fw_send_dropped deadline (ob_writer ob, e) = Some (q, fw, e')"
    and rest: "r = Ok ()" "ob' = ob\<lparr>ob_writer := fw\<rparr>"
    by (auto simp: notify_failure_def attempt_Some_iff framer_Some)
  from fw_send_dropped_sent [OF d assms(2)] obtain p where "prefix p (recovery (ob_writer ob) @ [0])"
    "e_output e' = e_output e @ p" by (auto simp: sent_def)
  moreover have "prefix p [0, 0]" if "prefix p [0]" for p :: bytes
    using that by (auto simp: prefix_Cons)
  ultimately show thesis using True rest by (intro that [of p]) (auto split: if_splits)
next
  case False
  with assms(1) have "r = Ok ()" "ob' = ob" "e' = e" by (auto simp: notify_failure_def split: if_splits)
  then show thesis by (intro that [of "[]"]) auto
qed

definition send_outcome :: "cobs \<Rightarrow> nat \<Rightarrow> bytes \<Rightarrow> outbound \<times> env \<Rightarrow> (transport_error, unit) result \<Rightarrow> outbound \<times> env \<Rightarrow> bool" where
  "send_outcome c sealer packet s r s' \<longleftrightarrow>
     (if ob_binding (fst s) \<noteq> Some sealer then r = Err ended \<and> s' = s
      else (case r of
          Ok _ \<Rightarrow>
            ob_binding (fst s') = Some sealer \<and>
            (\<exists>f. cobs_encode c packet MAX_FRAME_SIZE = Some f \<and>
               e_output (snd s') = e_output (snd s) @ recovery (ob_writer (fst s)) @ f @ [0])
        | Err err \<Rightarrow>
            ob_binding (fst s') = None \<and>
            ((\<exists>k. err = SendFailed k) \<or> cobs_encode_buffer c (length packet) > MAX_FRAME_SIZE) \<and>
            (\<exists>p q. e_output (snd s') = e_output (snd s) @ p @ q \<and>
               (p \<noteq> [] \<longrightarrow> (\<exists>f. cobs_encode c packet MAX_FRAME_SIZE = Some f \<and>
                  prefix p (recovery (ob_writer (fst s)) @ f @ [0]))) \<and>
               prefix q [0, 0] \<and>
               (q \<noteq> [] \<longrightarrow> ob_side (fst s) = ServerSide \<and> err \<noteq> SendFailed TimedOut))))"

lemma writer_send_outcome:
  assumes c: "cobs_codec c" and run: "writer_send c sealer packet (ob, e) = Some (r, ob', e')"
    and inv: "fw_inv (ob_writer ob)"
  shows "send_outcome c sealer packet (ob, e) r (ob', e')"
proof (cases "ob_binding ob = Some sealer")
  case False
  with run show ?thesis by (simp add: writer_send_def send_outcome_def)
next
  case bound: True
  with run obtain deadline cl q fw e1 where
    pk: "fw_send_packet c packet deadline (ob_writer ob, e\<lparr>e_clock := cl\<rparr>) = Some (q, fw, e1)"
    and rest: "(case q of Ok u \<Rightarrow> ret u | Err err \<Rightarrow> bindr (writer_end sealer) (\<lambda>removed.
        bindr (if removed then notify_failure err deadline else ret ()) (\<lambda>_. fail err))) (ob\<lparr>ob_writer := fw\<rparr>, e1) =
      Some (r, ob', e')"
    by (auto simp: writer_send_def bindr_Some_iff attempt_Some_iff framer_Some budget_Some)
  show ?thesis
  proof (cases q)
    case (Inr u)
    with rest have r: "r = Ok ()" "ob' = ob\<lparr>ob_writer := fw\<rparr>" "e' = e1" by auto
    from c pk inv show ?thesis
      by (cases rule: fw_send_packet_sent) (use r bound Inr in \<open>auto simp: send_outcome_def sent_def\<close>)
  next
    case (Inl err)
    let ?ob = "ob\<lparr>ob_writer := fw, ob_binding := None\<rparr>"
    from rest Inl bound obtain u ob1 e2 where
      nf: "notify_failure err deadline (?ob, e1) = Some (u, ob1, e2)" and out: "r = Err err" "ob' = ob1" "e' = e2"
      by (auto simp: bindr_Some_iff writer_end_def notify_failure_def attempt_Some_iff split: if_splits)
    from c pk inv obtain p where p: "e_output e1 = e_output e @ p" "fw_inv fw"
      "(\<exists>k. err = SendFailed k) \<or> cobs_encode_buffer c (length packet) > MAX_FRAME_SIZE"
      "p \<noteq> [] \<longrightarrow> (\<exists>f. cobs_encode c packet MAX_FRAME_SIZE = Some f \<and> prefix p (recovery (ob_writer ob) @ f @ [0]))"
      by (cases rule: fw_send_packet_sent) (use Inl inv in \<open>auto simp: sent_def\<close>)
    from p(2) have "fw_inv (ob_writer ?ob)" by simp
    with nf obtain q where n: "ob_binding ob1 = None" "e_output e2 = e_output e1 @ q" "prefix q [0, 0]"
      "q \<noteq> [] \<longrightarrow> ob_side ob = ServerSide \<and> err \<noteq> SendFailed TimedOut"
      by (elim notify_failure_effect) auto
    have "\<exists>p q. e_output e2 = e_output e @ p @ q \<and>
        (p \<noteq> [] \<longrightarrow> (\<exists>f. cobs_encode c packet MAX_FRAME_SIZE = Some f \<and>
           prefix p (recovery (ob_writer ob) @ f @ [0]))) \<and>
        prefix q [0, 0] \<and> (q \<noteq> [] \<longrightarrow> ob_side ob = ServerSide \<and> err \<noteq> SendFailed TimedOut)"
      by (rule exI [of _ p], rule exI [of _ q]) (use p(1,4) n in simp)
    with bound p(3) out n(1) show ?thesis unfolding send_outcome_def by simp
  qed
qed


section \<open>Sequences of operations\<close>

datatype ob_op = ObBind nat | ObEnd nat | ObSend nat bytes | ObDisconnect nat | ObReset instant
  | ObDropped "instant option" | ObPacket bytes "instant option" | ObUnbind

fun run_ob_op :: "cobs \<Rightarrow> ob_op \<Rightarrow> (outbound \<times> env, transport_error, unit) run" where
  "run_ob_op c (ObBind sealer) = writer_bind sealer"
| "run_ob_op c (ObEnd sealer) = bindr (writer_end sealer) (\<lambda>_. ret ())"
| "run_ob_op c (ObSend sealer packet) = writer_send c sealer packet"
| "run_ob_op c (ObDisconnect sealer) = outbound_disconnect sealer"
| "run_ob_op c (ObReset deadline) = outbound_send_reset deadline"
| "run_ob_op c (ObDropped limit) = outbound_send_dropped limit"
| "run_ob_op c (ObPacket packet limit) = outbound_send_packet c packet limit"
| "run_ob_op c ObUnbind = writer_unbind"

fun run_ob_ops :: "cobs \<Rightarrow> ob_op list \<Rightarrow> (outbound \<times> env, transport_error, unit) run" where
  "run_ob_ops c [] = ret ()"
| "run_ob_ops c (op # ops) = attempt (run_ob_op c op) (\<lambda>_. run_ob_ops c ops)"

lemma keeps_run_ob_op: "cobs_codec c \<Longrightarrow> keeps wire_kept (run_ob_op c op)"
  by (cases op) (auto intro: keeps_intros keeps_writer_send keeps_outbound keeps_outbound_send_packet)

lemma keeps_run_ob_ops: "cobs_codec c \<Longrightarrow> keeps wire_kept (run_ob_ops c ops)"
  by (induction ops) (auto intro: keeps_intros keeps_run_ob_op)

lemma legal_events:
  assumes "link_ok legal_frames (fw, e)"
  shows "frame_events (e_output e) = map FrameEv (segments (e_output e))"
proof (rule frame_events_short)
  fix x assume "x \<in> insert (unfinished (e_output e)) (set (segments (e_output e)))"
  with assms show "length x \<le> MAX_FRAME_SIZE"
    by (auto simp: link_ok_def legal_frames_def dest!: prefix_length_le)
qed


section \<open>Properties of the outbound side\<close>

text \<open>C35: a send of a session that is not the current one changes nothing and is refused. A send of
  the current session either puts exactly one whole frame on the wire and keeps the session, or
  ends the session; then the wire has at most a prefix of the frame, and, only on the server and
  only after an error that is not a timeout, an empty-frame notification after it.\<close>

theorem session_send_outcome:
  assumes "cobs_codec c" and "writer_send c sealer packet (ob, e) = Some (r, ob', e')"
    and "fw_inv (ob_writer ob)"
  shows "send_outcome c sealer packet (ob, e) r (ob', e')"
  using assms by (rule writer_send_outcome)

text \<open>Whatever operations run on the outbound side in whatever order, the frames on the wire stay
  frames: the reader at the other end never sees an oversized frame, and an operation never
  changes a frame that is already there.\<close>

theorem outbound_frames_kept:
  assumes "cobs_codec c"
    and "run_ob_ops c ops1 (outbound_new side timeout, e0) = Some (r1, ob1, e1)" and "e_output e0 = []"
    and "run_ob_ops c ops2 (ob1, e1) = Some (r2, ob2, e2)"
  shows "prefix (frame_events (e_output e1)) (frame_events (e_output e2)) \<and>
    OversizeEv \<notin> set (frame_events (e_output e2)) \<and> e_input e2 = e_input e0"
proof -
  have "link_ok legal_frames (frame_writer_new, e0)"
    using assms(3) fw_inv_new by (auto simp: link_ok_def legal_frames_def intro: exI [of _ "[]"])
  with keepsD [OF keeps_run_ob_ops [OF assms(1)] assms(2)] have
    1: "link_ok legal_frames (ob_writer ob1, e1)" "e_input e1 = e_input e0"
    by (simp_all add: wire_kept_def outbound_new_def)
  with keepsD [OF keeps_run_ob_ops [OF assms(1)] assms(4)] have
    2: "link_ok legal_frames (ob_writer ob2, e2)" "e_input e2 = e_input e1"
    "prefix (segments (e_output e1)) (segments (e_output e2))" by (simp_all add: wire_kept_def)
  from legal_events [OF 1(1)] legal_events [OF 2(1)] 2 1(2) show ?thesis
    by (auto intro: map_mono_prefix)
qed

lemma sealed_fits:
  assumes "cobs_codec c" and "\<And>ctx m p ctx'. hpke_seal h ctx m = Ok (p, ctx') \<Longrightarrow> length p \<le> length m + OVERHEAD"
    and "seal c h ctx message = Some (Ok (packet, ctx'))"
  shows "cobs_encode_buffer c (length packet) \<le> MAX_FRAME_SIZE"
proof -
  from assms(3) obtain limit where limit: "MAX_MESSAGE_SIZE (cobs_encode_buffer c) = Some limit"
    "length message \<le> limit" "hpke_seal h ctx message = Ok (packet, ctx')"
    by (auto simp: seal_def split: option.splits if_splits sum.splits)
  have "length packet \<le> limit + OVERHEAD" using assms(2) [OF limit(3)] limit(2) by simp
  with message_limit_from_Some [OF limit(1) [unfolded MAX_MESSAGE_SIZE_def]] show ?thesis
    using cobs_codec.encode_buffer_mono [OF assms(1)] order.trans by blast
qed

text \<open>A message that passes the size check of sealing fits a frame, so a send through a sender
  never fails with a framing limit, provided the AEAD adds no more than its overhead.\<close>

theorem sealed_message_fits:
  assumes "cobs_codec c" and "\<And>ctx m p ctx'. hpke_seal h ctx m = Ok (p, ctx') \<Longrightarrow> length p \<le> length m + OVERHEAD"
    and "seal c h ctx message = Some (Ok (packet, ctx'))"
  shows "cobs_encode_buffer c (length packet) \<le> MAX_FRAME_SIZE \<and>
    fw_send_packet c packet deadline (fw, e) \<noteq> Some (Err (FrameTooLarge n), s')"
  using sealed_fits [OF assms]
  by (auto simp: fw_send_packet_def send_frame_def Let_def split: option.splits sum.splits if_splits)

text \<open>The sending limit exists whenever an empty message fits a frame, and it is the largest: it
  fits with the AEAD overhead, and no longer message up to the frame size does.\<close>

theorem message_limit_largest:
  assumes "b OVERHEAD \<le> MAX_FRAME_SIZE"
  shows "\<exists>limit. MAX_MESSAGE_SIZE b = Some limit \<and> limit \<le> MAX_FRAME_SIZE \<and> b (limit + OVERHEAD) \<le> MAX_FRAME_SIZE \<and>
    (\<forall>k. limit < k \<longrightarrow> k \<le> MAX_FRAME_SIZE \<longrightarrow> b (k + OVERHEAD) > MAX_FRAME_SIZE)"
  using message_limit_from_defined [of b MAX_FRAME_SIZE, OF assms] message_limit_from_Some
  by (fastforce simp: MAX_MESSAGE_SIZE_def)

text \<open>Disconnecting ends the session whatever becomes of the notification, and a second
  disconnect of the same session, or one of a session that was replaced, changes nothing.\<close>

theorem disconnect_once:
  assumes "outbound_disconnect sealer (ob, e) = Some (r, ob1, e1)"
  shows "ob_binding ob1 \<noteq> Some sealer \<and> outbound_disconnect sealer (ob1, e1) = Some (Ok (), ob1, e1) \<and>
    (ob_binding ob \<noteq> Some sealer \<longrightarrow> (ob1, e1) = (ob, e))"
proof -
  have "ob_binding ob1 = None \<or> ob_binding ob1 \<noteq> Some sealer" "ob_binding ob \<noteq> Some sealer \<longrightarrow> (ob1, e1) = (ob, e)"
    using assms
    by (auto simp: outbound_disconnect_def bindr_Some_iff writer_end_def budget_Some framer_Some split: if_splits)
  then show ?thesis
    by (auto simp: outbound_disconnect_def bindr_def writer_end_def act_def ret_def)
qed


text \<open>A bound server whose adapter fails on the first write and accepts the notification, and one
  that is disconnected.\<close>

definition bound_server :: outbound where
  "bound_server = (outbound_new ServerSide 9)\<lparr>ob_binding := Some 3\<rparr>"

lemma bound_server_inv: "fw_inv (ob_writer bound_server)"
  using fw_inv_new by (simp add: bound_server_def outbound_new_def)

lemma message_limit_reference:
  "\<exists>limit. MAX_MESSAGE_SIZE (cobs_encode_buffer cobs_reference) = Some limit \<and> 1000 \<le> limit"
proof -
  have b: "cobs_encode_buffer cobs_reference OVERHEAD \<le> MAX_FRAME_SIZE"
    "cobs_encode_buffer cobs_reference (1000 + OVERHEAD) \<le> MAX_FRAME_SIZE"
    by (simp_all add: cobs_reference_def OVERHEAD_def MAX_FRAME_SIZE_def)
  obtain limit where limit: "MAX_MESSAGE_SIZE (cobs_encode_buffer cobs_reference) = Some limit"
    using message_limit_from_defined [of "cobs_encode_buffer cobs_reference" MAX_FRAME_SIZE, OF b(1)] by (auto simp: MAX_MESSAGE_SIZE_def)
  have "\<not> limit < 1000"
    using message_limit_from_Some [OF limit [unfolded MAX_MESSAGE_SIZE_def]] b(2)
    by (auto simp: MAX_FRAME_SIZE_def)
  with limit show ?thesis by auto
qed

definition sum_hpke :: "nat hpke" where
  "sum_hpke = \<lparr>hpke_seal = (\<lambda>n m. Ok (m @ replicate 16 (word_of_nat n), Suc n)),
     hpke_open = (\<lambda>n p. if drop (length p - 16) p = replicate 16 (word_of_nat n) then Ok (take (length p - 16) p, Suc n)
       else Err ''wrong tag'')\<rparr>"

lemma bound_server_sends:
  "\<exists>ob' e'. writer_send cobs_reference 3 [5] (bound_server, plain_env) = Some (Ok (), ob', e') \<and>
     ob_binding ob' = Some 3 \<and> e_output e' = [2, 5, 0]"
proof -
  let ?e = "plain_env\<lparr>e_clock := \<lparr>now_at = 1, ticks = [1]\<rparr>\<rparr>"
  let ?e1 = "?e\<lparr>e_clock := \<lparr>now_at = 2, ticks = []\<rparr>, e_output := [2, 5, 0], e_writes := drop 3 (e_writes plain_env)\<rparr>"
  have "write_half (recovery (ob_writer bound_server) @ [2, 5] @ [0]) 10 ?e = Some (Ok (), ?e1)"
    by (simp add: write_eval plain_env_def broken_env_def bound_server_def outbound_new_def frame_writer_new_def)
  from fw_send_packet_run [OF bound_server_inv, of cobs_reference "[5]" _ 10, OF _ _ _ this] obtain fw1 where
    "fw_send_packet cobs_reference [5] 10 (ob_writer bound_server, ?e) = Some (Ok (), fw1, ?e1)"
    using reference_encode [of "[5]"] by (auto simp: stuff_samples env_check_deadline_def check_deadline_def clock_now_def)
  moreover have "budget (bound_server, plain_env) = Some (Ok 10 :: (transport_error, nat) result, bound_server, ?e)"
    by (simp add: budget_def env_deadline_after_def act_def clock_defs plain_env_def broken_env_def
        bound_server_def outbound_new_def instant_limit_def)
  ultimately show ?thesis
    by (simp add: writer_send_def bindr_def attempt_def framer_def ret_def)
      (simp add: bound_server_def)
qed

theorem session_send_outcome_witness:
  "\<exists>ob' e'. send_outcome cobs_reference 3 [5] (bound_server, plain_env) (Ok ()) (ob', e') \<and> e_output e' = [2, 5, 0]"
  using bound_server_sends session_send_outcome [OF stuffing.cobs_codec_axioms _ bound_server_inv] by blast

theorem outbound_frames_kept_witness:
  "prefix (frame_events (e_output plain_env)) (frame_events (e_output plain_env))"
proof -
  have "run_ob_ops cobs_reference [ObBind 3, ObSend 4 [1]] (outbound_new ServerSide 9, plain_env) =
      Some (Ok (), bound_server, plain_env)"
    by (simp add: run_eval writer_bind_def writer_send_def bound_server_def)
  moreover have "run_ob_ops cobs_reference [ObSend 5 [2]] (bound_server, plain_env) = Some (Ok (), bound_server, plain_env)"
    by (simp add: run_eval writer_send_def bound_server_def)
  ultimately show ?thesis
    using outbound_frames_kept [OF stuffing.cobs_codec_axioms] by (simp add: plain_env_def broken_env_def)
qed

theorem sealed_message_fits_witness:
  "cobs_encode_buffer cobs_reference (length ([1, 2] @ replicate 16 (word_of_nat 5) :: bytes)) \<le> MAX_FRAME_SIZE"
proof -
  have "seal cobs_reference sum_hpke 5 [1, 2] = Some (Ok ([1, 2] @ replicate 16 (word_of_nat 5), 6))"
    using message_limit_reference by (auto simp: seal_def sum_hpke_def)
  from sealed_message_fits [OF stuffing.cobs_codec_axioms _ this] show ?thesis
    by (auto simp: sum_hpke_def OVERHEAD_def)
qed

theorem message_limit_largest_witness:
  "\<exists>limit. MAX_MESSAGE_SIZE (cobs_encode_buffer cobs_reference) = Some limit \<and> limit \<le> MAX_FRAME_SIZE"
  using message_limit_largest [of "cobs_encode_buffer cobs_reference"]
  by (auto simp: cobs_reference_def OVERHEAD_def MAX_FRAME_SIZE_def)

theorem disconnect_once_witness:
  "outbound_disconnect 4 (bound_server, plain_env) = Some (Ok (), bound_server, plain_env)"
proof -
  have run: "outbound_disconnect 4 (bound_server, plain_env) = Some (Ok (), bound_server, plain_env)"
    by (simp add: outbound_disconnect_def writer_end_def run_eval bound_server_def)
  from disconnect_once [OF run] show ?thesis by simp
qed

end
