(* ===== verification/Send_Order.thy ===== *)
theory Send_Order
  imports Wire_Prelude
begin

text \<open>
  The lock handoff of \<^verbatim>\<open>Sender::send\<close> (\<^verbatim>\<open>src/src/transport/sender.rs\<close>): a send seals under the
  encryption lock of its session, acquires the writer before it releases that lock, and writes
  under the writer lock alone. Any number of threads of any number of sessions interleave. The
  sequence number a message was sealed with stands for the message, and \<open>sm_wire\<close> records the messages in
  the order in which they acquired the writer; that a message of an ended session is then refused is
  shown in \<open>Outbound_Sessions\<close>.
\<close>


section \<open>Threads and locks\<close>

datatype send_pc =
    SendIdle
  | Holding nat \<comment> \<open>has the encryption lock of this session\<close>
  | Sealed nat nat \<comment> \<open>has sealed, still has the lock, waits for the writer\<close>
  | Handoff nat nat \<comment> \<open>has both locks\<close>
  | Writing nat nat \<comment> \<open>has the writer only\<close>

record send_machine =
  sm_pc :: "nat \<Rightarrow> send_pc"
  sm_encryption :: "nat \<Rightarrow> nat option"
  sm_writer :: "nat option"
  sm_sequence :: "nat \<Rightarrow> nat"
  sm_wire :: "(nat \<times> nat) list"

definition send_machine_new :: send_machine where
  "send_machine_new = \<lparr>sm_pc = (\<lambda>_. SendIdle), sm_encryption = (\<lambda>_. None), sm_writer = None,
     sm_sequence = (\<lambda>_. 0), sm_wire = []\<rparr>"

inductive send_step :: "send_machine \<Rightarrow> send_machine \<Rightarrow> bool" where
  lock_encryption: "sm_pc m i = SendIdle \<Longrightarrow> sm_encryption m s = None \<Longrightarrow>
    send_step m (m\<lparr>sm_pc := (sm_pc m)(i := Holding s), sm_encryption := (sm_encryption m)(s := Some i)\<rparr>)"
| refuse: "sm_pc m i = Holding s \<Longrightarrow>
    send_step m (m\<lparr>sm_pc := (sm_pc m)(i := SendIdle), sm_encryption := (sm_encryption m)(s := None)\<rparr>)"
| seal_message: "sm_pc m i = Holding s \<Longrightarrow>
    send_step m (m\<lparr>sm_pc := (sm_pc m)(i := Sealed s (sm_sequence m s)),
      sm_sequence := (sm_sequence m)(s := sm_sequence m s + 1)\<rparr>)"
| lock_writer: "sm_pc m i = Sealed s n \<Longrightarrow> sm_writer m = None \<Longrightarrow>
    send_step m (m\<lparr>sm_pc := (sm_pc m)(i := Handoff s n), sm_writer := Some i, sm_wire := sm_wire m @ [(s, n)]\<rparr>)"
| release_encryption: "sm_pc m i = Handoff s n \<Longrightarrow>
    send_step m (m\<lparr>sm_pc := (sm_pc m)(i := Writing s n), sm_encryption := (sm_encryption m)(s := None)\<rparr>)"
| release_writer: "sm_pc m i = Writing s n \<Longrightarrow>
    send_step m (m\<lparr>sm_pc := (sm_pc m)(i := SendIdle), sm_writer := None\<rparr>)"


section \<open>Invariant\<close>

fun holds_encryption :: "nat \<Rightarrow> send_pc \<Rightarrow> bool" where
  "holds_encryption s (Holding t) \<longleftrightarrow> t = s"
| "holds_encryption s (Sealed t _) \<longleftrightarrow> t = s"
| "holds_encryption s (Handoff t _) \<longleftrightarrow> t = s"
| "holds_encryption s _ \<longleftrightarrow> False"

fun holds_writer :: "send_pc \<Rightarrow> bool" where
  "holds_writer (Handoff _ _) \<longleftrightarrow> True"
| "holds_writer (Writing _ _) \<longleftrightarrow> True"
| "holds_writer _ \<longleftrightarrow> False"

definition on_wire :: "nat \<Rightarrow> send_machine \<Rightarrow> nat list" where
  "on_wire s m = map snd (filter (\<lambda>(t, _). t = s) (sm_wire m))"

text \<open>Which sequence number the wire of a session expects next: the counter of the session, less the
  message that is sealed and waits for the writer.\<close>

definition next_on_wire :: "send_machine \<Rightarrow> nat \<Rightarrow> nat" where
  "next_on_wire m s = (case sm_encryption m s of
      Some i \<Rightarrow> (case sm_pc m i of Sealed _ n \<Rightarrow> n | _ \<Rightarrow> sm_sequence m s)
    | None \<Rightarrow> sm_sequence m s)"

definition send_inv :: "send_machine \<Rightarrow> bool" where
  "send_inv m \<longleftrightarrow>
     (\<forall>s i. holds_encryption s (sm_pc m i) \<longleftrightarrow> sm_encryption m s = Some i) \<and>
     (\<forall>i. holds_writer (sm_pc m i) \<longleftrightarrow> sm_writer m = Some i) \<and>
     (\<forall>i s n. sm_pc m i = Sealed s n \<longrightarrow> sm_sequence m s = n + 1) \<and>
     (\<forall>s. on_wire s m = [0..<next_on_wire m s])"

lemma send_inv_new: "send_inv send_machine_new"
  by (simp add: send_inv_def send_machine_new_def on_wire_def next_on_wire_def)

lemma send_step_inv:
  assumes "send_step m m'" and inv: "send_inv m"
  shows "send_inv m'"
proof -
  have enc: "holds_encryption s (sm_pc m i) \<longleftrightarrow> sm_encryption m s = Some i"
    and wr: "holds_writer (sm_pc m i) \<longleftrightarrow> sm_writer m = Some i"
    and seq: "sm_pc m i = Sealed s n \<Longrightarrow> sm_sequence m s = Suc n"
    and wire: "on_wire s m = [0..<next_on_wire m s]" for s i n
    using inv by (auto simp: send_inv_def)
  have holder: "sm_encryption m s = Some i" "t \<noteq> s \<Longrightarrow> sm_encryption m t \<noteq> Some i"
    if "sm_pc m i = Holding s \<or> sm_pc m i = Sealed s n \<or> sm_pc m i = Handoff s n" for i s t n
    using enc [of s i] enc [of t i] that by auto
  have outside: "sm_encryption m t \<noteq> Some i" if "sm_pc m i = SendIdle \<or> sm_pc m i = Writing s n" for t i s n
    using enc [of t i] that by auto
  have writer: "sm_writer m = Some i" if "sm_pc m i = Handoff s n \<or> sm_pc m i = Writing s n" for i s n
    using wr [of i] that by auto
  have no_writer: "sm_writer m \<noteq> Some i" if "\<not> holds_writer (sm_pc m i)" for i
    using wr [of i] that by auto
  have same: "sm_encryption m t = Some i \<Longrightarrow> s = t"
    if "sm_pc m i = Holding s \<or> sm_pc m i = Sealed s n \<or> sm_pc m i = Handoff s n" for i s t n
    using holder(2) [OF that, of t] by auto
  have sealed: "sm_pc m j = Sealed t n \<Longrightarrow> sm_encryption m t = Some j" for j t n
    using holder(1) by blast
  note new = send_inv_def on_wire_def next_on_wire_def
  from assms(1) show ?thesis
  proof cases
    case (lock_encryption i s)
    with enc wr seq wire outside [of i] no_writer [of i] show ?thesis
      by (auto simp: new split: option.splits cong: send_pc.case_cong)
  next
    case (refuse i s)
    with enc wr seq wire holder [of i s] no_writer [of i] show ?thesis
      by (auto simp: new split: option.splits cong: send_pc.case_cong)
  next
    case (seal_message i s)
    then have only: "sm_encryption m t = Some i \<Longrightarrow> s = t" for t using same by blast
    from seal_message enc wr seq wire holder [of i s] no_writer [of i] show ?thesis
      by (auto simp: new split: option.splits cong: send_pc.case_cong dest: only sealed)
  next
    case (lock_writer i s n)
    then have only: "sm_encryption m t = Some i \<Longrightarrow> s = t" for t using same by blast
    from lock_writer enc wr seq wire holder [of i s n] show ?thesis
      by (auto simp: new split: option.splits cong: send_pc.case_cong dest: only sealed)
  next
    case (release_encryption i s n)
    then have only: "sm_encryption m t = Some i \<Longrightarrow> s = t" for t using same by blast
    from release_encryption enc wr seq wire holder [of i s n] writer [of i s n] show ?thesis
      by (auto simp: new split: option.splits cong: send_pc.case_cong dest: only sealed)
  next
    case (release_writer i s n)
    with enc wr seq wire outside [of i s n] writer [of i s n] show ?thesis
      by (auto simp: new split: option.splits cong: send_pc.case_cong)
  qed
qed

interpretation send_order: transition_system "\<lambda>m. m = send_machine_new" send_step send_inv
  by unfold_locales (auto intro: send_inv_new send_step_inv)



section \<open>Properties of the handoff\<close>

text \<open>C18: for every session, in every interleaving of its senders with each other and with other
  sessions, messages reach the writer in the order of their sequence numbers, without a gap or a
  repetition, and at most the one message that waits for the writer is missing.\<close>

theorem wire_order_is_sealing_order:
  assumes "send_step\<^sup>*\<^sup>* send_machine_new m"
  shows "\<exists>n. on_wire s m = [0..<n] \<and> n \<le> sm_sequence m s \<and> sm_sequence m s \<le> n + 1"
proof -
  have inv: "send_inv m" using send_order.inv_reachable [OF refl assms] .
  show ?thesis
  proof (intro exI conjI)
    show "on_wire s m = [0..<next_on_wire m s]" using inv by (simp add: send_inv_def)
    have "next_on_wire m s \<le> sm_sequence m s \<and> sm_sequence m s \<le> next_on_wire m s + 1"
    proof (cases "sm_encryption m s")
      case (Some i)
      then have "holds_encryption s (sm_pc m i)" using inv by (simp add: send_inv_def)
      with Some inv show ?thesis by (cases "sm_pc m i") (auto simp: next_on_wire_def send_inv_def)
    qed (simp add: next_on_wire_def)
    then show "next_on_wire m s \<le> sm_sequence m s" "sm_sequence m s \<le> next_on_wire m s + 1" by auto
  qed
qed

text \<open>A write holds the writer alone: two threads are never both between acquiring and
  releasing it, and two senders of one session never both hold its encryption lock.\<close>

theorem send_exclusion:
  assumes "send_step\<^sup>*\<^sup>* send_machine_new m"
  shows "(holds_writer (sm_pc m i) \<and> holds_writer (sm_pc m j) \<longrightarrow> i = j) \<and>
    (holds_encryption s (sm_pc m i) \<and> holds_encryption s (sm_pc m j) \<longrightarrow> i = j)"
proof -
  have "send_inv m" using send_order.inv_reachable [OF refl assms] .
  then show ?thesis by (auto simp: send_inv_def)
qed

text \<open>The second thread seals while the first one writes.\<close>

definition overlap :: send_machine where
  "overlap = \<lparr>sm_pc = (\<lambda>_. SendIdle)(0 := Writing 7 0, 1 := Sealed 7 1),
     sm_encryption = (\<lambda>_. None)(7 := Some 1), sm_writer = Some 0, sm_sequence = (\<lambda>_. 0)(7 := Suc (Suc 0)), sm_wire = [(7, 0)]\<rparr>"

lemma overlap_reachable: "send_step\<^sup>*\<^sup>* send_machine_new overlap"
proof -
  let ?m1 = "send_machine_new\<lparr>sm_pc := (\<lambda>_. SendIdle)(0 := Holding 7), sm_encryption := (\<lambda>_. None)(7 := Some 0)\<rparr>"
  let ?m2 = "?m1\<lparr>sm_pc := (\<lambda>_. SendIdle)(0 := Sealed 7 0), sm_sequence := (\<lambda>_. 0)(7 := 1)\<rparr>"
  let ?m3 = "?m2\<lparr>sm_pc := (\<lambda>_. SendIdle)(0 := Handoff 7 0), sm_writer := Some 0, sm_wire := [(7, 0)]\<rparr>"
  let ?m4 = "?m3\<lparr>sm_pc := (\<lambda>_. SendIdle)(0 := Writing 7 0), sm_encryption := (\<lambda>_. None)\<rparr>"
  let ?m5 = "?m4\<lparr>sm_pc := (\<lambda>_. SendIdle)(0 := Writing 7 0, 1 := Holding 7), sm_encryption := (\<lambda>_. None)(7 := Some 1)\<rparr>"
  have "send_step send_machine_new ?m1"
    using lock_encryption [of send_machine_new 0 7] by (simp add: send_machine_new_def)
  moreover have "send_step ?m1 ?m2" using seal_message [of ?m1 0 7] by (simp add: send_machine_new_def)
  moreover have "send_step ?m2 ?m3" using lock_writer [of ?m2 0 7 0] by (simp add: send_machine_new_def)
  moreover have "send_step ?m3 ?m4" using release_encryption [of ?m3 0 7 0] by (simp add: send_machine_new_def)
  moreover have "send_step ?m4 ?m5" using lock_encryption [of ?m4 1 7] by (simp add: send_machine_new_def)
  moreover have "send_step ?m5 overlap"
    using seal_message [of ?m5 1 7] by (simp add: send_machine_new_def overlap_def)
  ultimately show ?thesis by (meson converse_rtranclp_into_rtranclp rtranclp.rtrancl_refl)
qed

theorem wire_order_witness:
  "\<exists>n. on_wire 7 overlap = [0..<n] \<and> n \<le> sm_sequence overlap 7 \<and> sm_sequence overlap 7 \<le> n + 1"
  using wire_order_is_sealing_order [OF overlap_reachable] .

theorem send_exclusion_witness: "holds_writer (sm_pc overlap 0) \<and> \<not> holds_writer (sm_pc overlap 1)"
  using send_exclusion [OF overlap_reachable, of 0 1 7] by (simp add: overlap_def)

end
