(* ===== verification/Transport_Endpoint.thy ===== *)
theory Transport_Endpoint
  imports Outbound_Sessions
begin

text \<open>
  What the transport client and server have in common: the handshake messages of
  \<^verbatim>\<open>src/src/transport/handshake.rs\<close>, the crypto crate as a parameter, the owner of the reader, the
  outbound side and the session contexts, and \<^verbatim>\<open>new_session\<close> and \<^verbatim>\<open>end_session\<close>, which both sides
  have in the same form.

  Keys, attestations and envelopes are byte strings, error texts are strings. Fresh secrets come
  from a numbered supply. The crypto crate's functions are the fields of the record \<open>crypto\<close>;
  nothing is assumed of them here.
\<close>


section \<open>Handshake messages and crypto\<close>

record host_hello =
  host_signer :: bytes
  host_crypto :: bytes

record ark_hello =
  ark_attest :: bytes
  ark_crypto :: bytes
  a2h_encap :: bytes

record ark_hello_auth =
  aha_host_signer :: bytes
  aha_host_crypto :: bytes

record host_ack =
  h2a_encap :: bytes

record host_ack_auth =
  haa_ark_signer :: bytes
  haa_ark_crypto :: bytes

datatype direction = ArkToHost | HostToArk

record 'k crypto =
  cr_hpke :: "'k hpke"
  cr_secret :: "nat \<Rightarrow> bytes"
  cr_signer_public :: "bytes \<Rightarrow> bytes"
  cr_crypto_public :: "bytes \<Rightarrow> bytes"
  cr_fingerprint :: "bytes \<Rightarrow> bytes"
  cr_encap_size :: nat
  cr_new_sender :: "bytes \<Rightarrow> direction \<Rightarrow> nat \<Rightarrow> (string, 'k \<times> bytes) result"
  cr_new_receiver :: "bytes \<Rightarrow> bytes \<Rightarrow> direction \<Rightarrow> (string, 'k) result"
  cr_encode_hello :: "host_hello \<Rightarrow> (string, bytes) result"
  cr_decode_hello :: "bytes \<Rightarrow> (string, host_hello) result"
  cr_recipient :: "bytes \<Rightarrow> (string, bytes) result"
  cr_decrypt :: "bytes \<Rightarrow> ark_hello_auth \<Rightarrow> bytes \<Rightarrow> (string, bytes) result"
  cr_peek :: "bytes \<Rightarrow> (string, ark_hello) result"
  cr_verify :: "bytes \<Rightarrow> ark_hello_auth \<Rightarrow> bytes \<Rightarrow> (string, ark_hello) result"
  cr_seal_hello :: "ark_hello \<Rightarrow> ark_hello_auth \<Rightarrow> bytes \<Rightarrow> bytes \<Rightarrow> nat \<Rightarrow> (string, bytes) result"
  cr_seal_ack :: "host_ack \<Rightarrow> host_ack_auth \<Rightarrow> bytes \<Rightarrow> bytes \<Rightarrow> nat \<Rightarrow> (string, bytes) result"
  cr_open_ack :: "bytes \<Rightarrow> host_ack_auth \<Rightarrow> bytes \<Rightarrow> bytes \<Rightarrow> (string, host_ack) result"
  cr_device_claims :: "bytes \<Rightarrow> bool"

text \<open>\<^verbatim>\<open>handshake::timestamp\<close>: Unix seconds of the clock's wall time, a panic before the epoch. How the
  wall time follows from the clock is up to the clock crate (\<open>wall\<close>).\<close>

definition timestamp :: "(instant \<Rightarrow> int) \<Rightarrow> instant \<Rightarrow> nat option" where
  "timestamp wall t = (if wall t < 0 then None else Some (nat (wall t)))"

definition attestation_new :: "'k crypto \<Rightarrow> bytes \<Rightarrow> (transport_error, bytes) result" where
  "attestation_new cr cwt = (if cr_device_claims cr cwt then Ok cwt else Err InvalidAttestation)"

definition hs_failed :: "string \<Rightarrow> string \<Rightarrow> transport_error" where
  "hs_failed what msg = HandshakeFailed (what @ '': '' @ msg)"

definition or_failed :: "string \<Rightarrow> (string, 'a) result \<Rightarrow> ('s, transport_error, 'a) run" where
  "or_failed what r = (case r of Err msg \<Rightarrow> fail (hs_failed what msg) | Ok x \<Rightarrow> ret x)"


section \<open>The owner of a stream\<close>

record 'k endpoint =
  ep_reader :: frame_reader
  ep_outbound :: outbound
  ep_receiver :: "'k option"
  ep_sealer :: "nat option"
  ep_sealers :: "nat \<Rightarrow> 'k option"
  ep_next :: nat
  ep_secrets :: nat
  ep_handshake_timeout :: duration

definition DEFAULT_HANDSHAKE_TIMEOUT :: duration where
  "DEFAULT_HANDSHAKE_TIMEOUT = 5 * 1000000000"

definition endpoint_new :: "side \<Rightarrow> duration \<Rightarrow> 'k endpoint" where
  "endpoint_new side timeout = \<lparr>ep_reader = frame_reader_new, ep_outbound = outbound_new side timeout,
     ep_receiver = None, ep_sealer = None, ep_sealers = (\<lambda>_. None), ep_next = 0, ep_secrets = 0,
     ep_handshake_timeout = DEFAULT_HANDSHAKE_TIMEOUT\<rparr>"

definition set_handshake_timeout :: "duration \<Rightarrow> ('k, 'x) endpoint_scheme \<Rightarrow> ('k, 'x) endpoint_scheme" where
  "set_handshake_timeout timeout ep = ep\<lparr>ep_handshake_timeout := timeout\<rparr>"

definition on_reader :: "(frame_reader \<times> env, 'e, 'a) run \<Rightarrow> (('k, 'x) endpoint_scheme \<times> env, 'e, 'a) run" where
  "on_reader m = (\<lambda>(ep, e). map_option (\<lambda>(r, fr, e'). (r, ep\<lparr>ep_reader := fr\<rparr>, e')) (m (ep_reader ep, e)))"

definition on_writer :: "(outbound \<times> env, 'e, 'a) run \<Rightarrow> (('k, 'x) endpoint_scheme \<times> env, 'e, 'a) run" where
  "on_writer m = (\<lambda>(ep, e). map_option (\<lambda>(r, ob, e'). (r, ep\<lparr>ep_outbound := ob\<rparr>, e')) (m (ep_outbound ep, e)))"

definition on_clock :: "(env, 'e, 'a) run \<Rightarrow> (('k, 'x) endpoint_scheme \<times> env, 'e, 'a) run" where
  "on_clock m = (\<lambda>(ep, e). map_option (\<lambda>(r, e'). (r, ep, e')) (m e))"

definition fresh_secret :: "'k crypto \<Rightarrow> (('k, 'x) endpoint_scheme \<times> env, 'e, bytes) run" where
  "fresh_secret cr = act (\<lambda>(ep, e). (cr_secret cr (ep_secrets ep), ep\<lparr>ep_secrets := ep_secrets ep + 1\<rparr>, e))"

text \<open>\<^verbatim>\<open>new_session\<close>: a fresh allocation for the sending context, bound under the writer lock.\<close>

definition new_session :: "'k \<Rightarrow> 'k \<Rightarrow> (('k, 'x) endpoint_scheme \<times> env, 'e, nat) run" where
  "new_session sender receiver =
     bindr (act (\<lambda>(ep, e). (ep_next ep,
         ep\<lparr>ep_sealers := (ep_sealers ep)(ep_next ep \<mapsto> sender), ep_next := ep_next ep + 1\<rparr>, e))) (\<lambda>sealer.
     bindr (on_writer (writer_bind sealer)) (\<lambda>_.
     act (\<lambda>(ep, e). (sealer, ep\<lparr>ep_receiver := Some receiver, ep_sealer := Some sealer\<rparr>, e))))"

text \<open>Dropping the owner's reference to the current sending context.\<close>

definition release_contexts :: "('k, 'x) endpoint_scheme \<Rightarrow> ('k, 'x) endpoint_scheme" where
  "release_contexts ep = ep\<lparr>ep_sealers := (case ep_sealer ep of Some s \<Rightarrow> (ep_sealers ep)(s := None) | None \<Rightarrow> ep_sealers ep),
     ep_sealer := None, ep_receiver := None\<rparr>"

text \<open>\<^verbatim>\<open>end_session\<close>, with whether there was a receive context.\<close>

definition end_session :: "(('k, 'x) endpoint_scheme \<times> env, 'e, bool) run" where
  "end_session = (\<lambda>(ep, e).
     bindr (case ep_sealer ep of Some s \<Rightarrow> on_writer (writer_end s) | None \<Rightarrow> ret False) (\<lambda>_.
       act (\<lambda>(ep, e). (ep_receiver ep \<noteq> None, release_contexts ep, e))) (ep, e))"

text \<open>What sessions of other threads do with the writer while the owner is reading: their sends and
  disconnects, in the order they get the lock.\<close>

fun sender_op :: "ob_op \<Rightarrow> bool" where
  "sender_op (ObSend _ _) \<longleftrightarrow> True"
| "sender_op (ObDisconnect _) \<longleftrightarrow> True"
| "sender_op _ \<longleftrightarrow> False"

definition meanwhile :: "cobs \<Rightarrow> ob_op list \<Rightarrow> (('k, 'x) endpoint_scheme \<times> env, 'e, unit) run" where
  "meanwhile c ops = attempt (on_writer (run_ob_ops c (filter sender_op ops))) (\<lambda>_. ret ())"


section \<open>Invariant\<close>

text \<open>The receive and the send context come and go together, and only the current session, if any,
  is bound.\<close>

definition ep_inv :: "('k, 'x) endpoint_scheme \<Rightarrow> bool" where
  "ep_inv ep \<longleftrightarrow> fr_inv (ep_reader ep) \<and> fw_inv (ob_writer (ep_outbound ep)) \<and>
     (ep_receiver ep = None \<longleftrightarrow> ep_sealer ep = None) \<and>
     (\<forall>s. ob_binding (ep_outbound ep) = Some s \<longrightarrow> ep_sealer ep = Some s) \<and>
     (\<forall>s. ep_sealer ep = Some s \<longrightarrow> s < ep_next ep) \<and>
     (\<forall>s \<ge> ep_next ep. ep_sealers ep s = None)"

lemma ep_inv_new: "ep_inv (endpoint_new side timeout)"
  by (simp add: ep_inv_def endpoint_new_def outbound_new_def fr_inv_new fw_inv_new)

lemma on_reader_Some:
  "on_reader m (ep, e) = Some (r, s') \<longleftrightarrow> (\<exists>fr e'. m (ep_reader ep, e) = Some (r, fr, e') \<and> s' = (ep\<lparr>ep_reader := fr\<rparr>, e'))"
  by (auto simp: on_reader_def)

lemma on_writer_Some:
  "on_writer m (ep, e) = Some (r, s') \<longleftrightarrow>
     (\<exists>ob e'. m (ep_outbound ep, e) = Some (r, ob, e') \<and> s' = (ep\<lparr>ep_outbound := ob\<rparr>, e'))"
  by (auto simp: on_writer_def)

lemma on_clock_Some:
  "on_clock m (ep, e) = Some (r, s') \<longleftrightarrow> (\<exists>e'. m e = Some (r, e') \<and> s' = (ep, e'))"
  by (auto simp: on_clock_def)

lemmas on_Some = on_reader_Some on_writer_Some on_clock_Some


lemma or_failed_Ok: "or_failed what r s = Some (Ok x, s') \<longleftrightarrow> r = Ok x \<and> s' = s"
  by (auto simp: or_failed_def split: sum.splits)

lemma case_fail_Ok:
  "(case r of Err k \<Rightarrow> fail (f k) | Ok v \<Rightarrow> ret v) s = Some (Ok x, s') \<longleftrightarrow> r = Ok x \<and> s' = s"
  by (auto split: sum.splits)


section \<open>What the operations keep\<close>

text \<open>On the outbound side: the writer stays well-formed, and the binding is kept or removed.\<close>

definition ob_kept :: "outbound \<times> env \<Rightarrow> outbound \<times> env \<Rightarrow> bool" where
  "ob_kept s s' \<longleftrightarrow> (fw_inv (ob_writer (fst s)) \<longrightarrow> fw_inv (ob_writer (fst s'))) \<and>
     (ob_binding (fst s') = ob_binding (fst s) \<or> ob_binding (fst s') = None)"

interpretation ob: frame_relation ob_kept
  by unfold_locales (auto simp: ob_kept_def)

lemma ob_kept_framer:
  "cobs_codec c \<Longrightarrow> keeps ob_kept (framer (fw_send_packet c p deadline))"
  "keeps ob_kept (framer (fw_send_reset deadline))" "keeps ob_kept (framer (fw_send_dropped deadline))"
  by (auto simp: keeps_def framer_Some ob_kept_def sent_def
      elim!: fw_send_packet_sent dest!: fw_send_reset_sent fw_send_dropped_sent)

lemma ob_kept_basic:
  "keeps ob_kept (budget :: (outbound \<times> env, 'e, instant) run)"
  "keeps ob_kept (writer_unbind :: (outbound \<times> env, 'e, unit) run)"
  "keeps ob_kept (writer_end sealer :: (outbound \<times> env, 'e, bool) run)"
  by (auto simp: keeps_def budget_Some ob_kept_def writer_unbind_def writer_end_def split: if_splits)

lemmas ob_intros = ob.keeps_ret ob.keeps_fail ob.keeps_bindr ob.keeps_attempt keeps_branch keeps_cond
  ob_kept_framer ob_kept_basic

lemma ob_kept_notify_failure: "keeps ob_kept (notify_failure err deadline)"
  unfolding notify_failure_def by (intro ob_intros)

lemma ob_kept_ops:
  assumes "cobs_codec c"
  shows "keeps ob_kept (writer_send c sealer packet)" "keeps ob_kept (outbound_disconnect sealer)"
    "keeps ob_kept (outbound_send_reset deadline)" "keeps ob_kept (outbound_send_dropped limit)"
    "keeps ob_kept (outbound_send_packet c packet limit)"
  unfolding writer_send_def outbound_disconnect_def outbound_send_reset_def outbound_send_dropped_def
    outbound_send_packet_def
      apply (intro ob_intros assms ob_kept_notify_failure)+
  apply (simp split: transport_error.split)
  apply (intro conjI allI impI ob_intros ob_kept_notify_failure)
  done

lemma ob_kept_sender_ops:
  "cobs_codec c \<Longrightarrow> keeps ob_kept (run_ob_ops c (filter sender_op ops))"
proof (induction ops)
  case (Cons op ops)
  then have "sender_op op \<Longrightarrow> keeps ob_kept (run_ob_op c op)"
    by (cases op) (auto intro: ob_kept_ops)
  with Cons show ?case by (auto intro: ob_intros)
qed (simp add: ob_intros)

text \<open>On the endpoint: sessions and contexts are untouched, and the invariant survives.\<close>

definition session_kept :: "('k, 'x) endpoint_scheme \<times> env \<Rightarrow> ('k, 'x) endpoint_scheme \<times> env \<Rightarrow> bool" where
  "session_kept s s' \<longleftrightarrow> (ep_inv (fst s) \<longrightarrow> ep_inv (fst s')) \<and> ep_receiver (fst s') = ep_receiver (fst s) \<and>
     ep_sealer (fst s') = ep_sealer (fst s) \<and> ep_sealers (fst s') = ep_sealers (fst s) \<and>
     ep_next (fst s') = ep_next (fst s) \<and> endpoint.more (fst s') = endpoint.more (fst s) \<and>
     (ob_binding (ep_outbound (fst s')) = ob_binding (ep_outbound (fst s)) \<or>
      ob_binding (ep_outbound (fst s')) = None)"

interpretation session: frame_relation session_kept
  by unfold_locales (auto simp: session_kept_def)

lemma session_kept_on_writer:
  "keeps ob_kept m \<Longrightarrow> keeps session_kept (on_writer m)"
  by (fastforce simp: keeps_def on_writer_Some session_kept_def ob_kept_def ep_inv_def)

lemma next_packet_inv:
  assumes "next_packet decode deadline (fr, e) = Some (r, fr', e')" and "fr_inv fr"
  shows "fr_inv fr' \<and> e_output e' = e_output e \<and> e_writes e' = e_writes e"
proof -
  from assms(1) obtain q where "next_frame deadline (fr, e) = Some (q, fr', e')"
    by (auto simp: next_packet_def bindr_Some_iff split: if_splits sum.splits)
  from next_frame_refines [OF this assms(2)] show ?thesis by (simp add: reader_ok_def)
qed

lemma session_kept_reader: "keeps session_kept (on_reader (next_packet decode deadline))"
  by (auto simp: keeps_def on_reader_Some session_kept_def ep_inv_def dest: next_packet_inv)

lemma session_kept_basic:
  "keeps session_kept (on_clock m)"
  "keeps session_kept (fresh_secret cr :: (('k, 'x) endpoint_scheme \<times> env, 'e, bytes) run)"
  "keeps session_kept (or_failed what r)"
  by (auto simp: keeps_def on_clock_Some session_kept_def fresh_secret_def or_failed_def ep_inv_def split: sum.splits)

lemma keeps_state: "(\<And>ob e. keeps R (f ob e)) \<Longrightarrow> keeps R (\<lambda>(ob, e). f ob e (ob, e))"
  by (auto simp: keeps_def)

lemma keeps_case_prod: "(\<And>a b. keeps R (f a b)) \<Longrightarrow> keeps R (case_prod f p)"
  by (cases p) simp

lemmas session_intros = session.keeps_ret session.keeps_fail session.keeps_bindr session.keeps_attempt keeps_branch
  keeps_case_prod session_kept_on_writer session_kept_reader session_kept_basic

lemma meanwhile_not_Err [simp]: "meanwhile c ops s \<noteq> Some (Err k, s')"
  by (auto simp: meanwhile_def attempt_Some_iff)

lemma session_kept_meanwhile: "cobs_codec c \<Longrightarrow> keeps session_kept (meanwhile c ops)"
  unfolding meanwhile_def by (intro session_intros ob_kept_sender_ops)

lemma end_session_effect:
  assumes "end_session (ep, e) = Some (r, ep', e')" and "ep_inv ep"
  shows "ep_inv ep' \<and> r = Ok (ep_receiver ep \<noteq> None) \<and> e' = e \<and> ep_receiver ep' = None \<and> ep_sealer ep' = None \<and>
    ob_binding (ep_outbound ep') = None \<and> ep_next ep' = ep_next ep \<and>
    endpoint.more ep' = endpoint.more ep"
  using assms
  by (cases "ep_sealer ep"; cases "ob_binding (ep_outbound ep)")
    (auto simp: end_session_def bindr_Some_iff on_writer_Some writer_end_def release_contexts_def ep_inv_def
      split: if_splits)

lemma end_session_returns: "end_session s \<noteq> None"
  by (cases s) (auto simp: end_session_def run_eval on_writer_def writer_end_def split: option.splits)

lemma new_session_effect:
  assumes "new_session sender receiver (ep, e) = Some (r, ep', e')" and "ep_inv ep"
  shows "ep_inv ep' \<and> e' = e \<and> r = Ok (ep_next ep) \<and> ep_receiver ep' = Some receiver \<and> ep_sealer ep' = Some (ep_next ep) \<and>
    ob_binding (ep_outbound ep') = Some (ep_next ep) \<and> ep_sealers ep' (ep_next ep) = Some sender \<and> ep_next ep' = Suc (ep_next ep) \<and>
    endpoint.more ep' = endpoint.more ep"
  using assms by (auto simp: new_session_def bindr_Some_iff on_writer_Some writer_bind_def ep_inv_def)

end
