(* ===== verification/Transport_Demo.thy ===== *)
theory Transport_Demo
  imports Transport_Endpoint
begin

text \<open>
  A concrete crypto provider and a concrete environment, on which the properties of the transport
  client and server are exercised: a handshake over an adapter that accepts and delivers
  everything.
\<close>

definition demo_crypto :: "nat crypto" where
  "demo_crypto = \<lparr>cr_hpke = sum_hpke, cr_secret = (\<lambda>n. [word_of_nat n]), cr_signer_public = (\<lambda>sk. 1 # sk),
     cr_crypto_public = (\<lambda>sk. 2 # sk), cr_fingerprint = (\<lambda>pk. pk), cr_encap_size = 1,
     cr_new_sender = (\<lambda>pk dir n. Ok (n, [9])), cr_new_receiver = (\<lambda>sk encap dir. Ok 7),
     cr_encode_hello = (\<lambda>h. Ok [5]),
     cr_decode_hello = (\<lambda>bs. if bs = [5] then Ok \<lparr>host_signer = [1, 0], host_crypto = [2, 1]\<rparr> else Err ''not a hello''),
     cr_recipient = (\<lambda>p. if p = [] then Err ''empty'' else Ok (tl p)), cr_decrypt = (\<lambda>p a sk. Ok p),
     cr_peek = (\<lambda>p. Ok \<lparr>ark_attest = [5], ark_crypto = [6], a2h_encap = [8]\<rparr>),
     cr_verify = (\<lambda>p a pk. Ok \<lparr>ark_attest = [5], ark_crypto = [6], a2h_encap = [8]\<rparr>),
     cr_seal_hello = (\<lambda>h a sk pk t. Ok [4, 2, 1]), cr_seal_ack = (\<lambda>h a sk pk t. Ok [3]),
     cr_open_ack = (\<lambda>p a sk pk. if p = [3] then Ok \<lparr>h2a_encap = [8]\<rparr> else Err ''not an ack''),
     cr_device_claims = (\<lambda>_. True)\<rparr>"

lemma demo_fields [simp]:
  "cr_secret demo_crypto n = [word_of_nat n]" "cr_signer_public demo_crypto sk = 1 # sk"
  "cr_crypto_public demo_crypto sk = 2 # sk" "cr_fingerprint demo_crypto pk = pk" "cr_encap_size demo_crypto = 1"
  "cr_new_sender demo_crypto pk dir n = Ok (n, [9])" "cr_new_receiver demo_crypto sk encap dir = Ok 7"
  "cr_encode_hello demo_crypto h = Ok [5]"
  "cr_recipient demo_crypto p = (if p = [] then Err ''empty'' else Ok (tl p))" "cr_decrypt demo_crypto p a sk = Ok p"
  "cr_peek demo_crypto p = Ok \<lparr>ark_attest = [5], ark_crypto = [6], a2h_encap = [8]\<rparr>"
  "cr_verify demo_crypto p a pk = Ok \<lparr>ark_attest = [5], ark_crypto = [6], a2h_encap = [8]\<rparr>"
  "cr_decode_hello demo_crypto [5] = Ok \<lparr>host_signer = [1, 0], host_crypto = [2, 1]\<rparr>"
  "cr_seal_hello demo_crypto hello ha sk pk t = Ok [4, 2, 1]" "cr_open_ack demo_crypto [3] aa sk pk = Ok \<lparr>h2a_encap = [8]\<rparr>"
  "cr_seal_ack demo_crypto ack aa sk pk t = Ok [3]" "cr_device_claims demo_crypto p = True"
  by (simp_all add: demo_crypto_def)

text \<open>A stale empty frame comes before the server's hello.\<close>

definition demo_env :: env where
  "demo_env = \<lparr>e_clock = \<lparr>now_at = 0, ticks = []\<rparr>, e_close = None, e_input = [0, 4, 4, 2, 1, 0],
     e_reads = [RdOk 1, RdOk 9], e_output = [], e_writes = replicate 9 (WrOk 9)\<rparr>"

abbreviation demo_verify :: "bytes \<Rightarrow> int \<Rightarrow> (string, bytes \<times> unit) result" where
  "demo_verify \<equiv> \<lambda>attestation now. Ok ([5], ())"

abbreviation demo_wrote :: "bytes \<Rightarrow> rd_turn list \<Rightarrow> bytes \<Rightarrow> nat \<Rightarrow> env" where
  "demo_wrote inp rds out left \<equiv>
     demo_env\<lparr>e_input := inp, e_reads := rds, e_output := out, e_writes := replicate left (WrOk 9)\<rparr>"

lemma demo_write:
  assumes "0 < length bs" and "length bs \<le> 9" and "0 < deadline"
  shows "write_half bs deadline (demo_wrote inp rds out (left + 3)) = Some (Ok (), demo_wrote inp rds (out @ bs) left)"
  using assms
  by (simp add: write_eval demo_env_def numeral_3_eq_3) 

lemma demo_check: "0 < deadline \<Longrightarrow> env_check_deadline deadline (demo_wrote inp rds out left) =
    Some (Ok (), demo_wrote inp rds out left)"
  by (simp add: env_check_deadline_def check_deadline_def clock_now_def demo_env_def)


lemma demo_send:
  assumes "fw_inv (ob_writer ob)" and "\<not> fw_resync (ob_writer ob)" and "length p \<le> 5" and "0 < d" and "ob_timeout ob = 9"
  shows "\<exists>fw'. fw_inv fw' \<and> \<not> fw_resync fw' \<and>
    outbound_send_packet cobs_reference p (Some d) (ob, demo_wrote inp rds out (left + 3)) =
      Some (Ok (), ob\<lparr>ob_writer := fw'\<rparr>, demo_wrote inp rds (out @ stuff p @ [0]) left)"
proof -
  have enc: "cobs_encode_buffer cobs_reference (length p) \<le> MAX_FRAME_SIZE"
    "cobs_encode cobs_reference p MAX_FRAME_SIZE = Some (stuff p)" "length (stuff p) \<le> MAX_FRAME_SIZE"
    using reference_encode [of p] assms(3) by auto
  have "length (stuff p @ [0]) \<le> 9" using length_stuff [of p] assms(3) by simp
  then have w: "write_half (recovery (ob_writer ob) @ stuff p @ [0]) (min d 9) (demo_wrote inp rds out (left + 3)) =
      Some (Ok (), demo_wrote inp rds (out @ stuff p @ [0]) left)"
    using demo_write [of "stuff p @ [0]" "min d 9"] assms(2,4) by simp
  have "env_check_deadline (min d 9) (demo_wrote inp rds (out @ stuff p @ [0]) left) =
      Some (Ok (), demo_wrote inp rds (out @ stuff p @ [0]) left)"
    using demo_check assms(4) by simp
  from fw_send_packet_run [OF assms(1) enc w this] obtain fw' where fw': "fw_inv fw'" "\<not> fw_resync fw'"
    "fw_send_packet cobs_reference p (min d 9) (ob_writer ob, demo_wrote inp rds out (left + 3)) =
       Some (Ok (), fw', demo_wrote inp rds (out @ stuff p @ [0]) left)" by auto
  have "budget (ob, demo_wrote inp rds out (left + 3)) = Some (Ok 9 :: (transport_error, nat) result, ob, demo_wrote inp rds out (left + 3))"
    using assms(5) by (simp add: budget_def env_deadline_after_def act_def clock_defs demo_env_def instant_limit_def)
  with fw' show ?thesis
    by (auto simp: outbound_send_packet_def bindr_def attempt_def framer_def ret_def limited_def)
qed

lemma demo_reset:
  assumes "fw_inv (ob_writer ob)" and "0 < d" and "ob_timeout ob = 9"
  shows "\<exists>fw'. fw_inv fw' \<and> \<not> fw_resync fw' \<and>
    outbound_send_reset d (ob, demo_wrote inp rds out (left + 3)) =
      Some (Ok (), ob\<lparr>ob_writer := fw', ob_binding := None\<rparr>, demo_wrote inp rds (out @ [0, 0]) left)"
proof -
  have w: "write_half [0, 0] (min d 9) (demo_wrote inp rds out (left + 3)) = Some (Ok (), demo_wrote inp rds (out @ [0, 0]) left)"
    using demo_write [of "[0, 0]" "min d 9"] assms(2) by simp
  have "env_check_deadline (min d 9) (demo_wrote inp rds (out @ [0, 0]) left) = Some (Ok (), demo_wrote inp rds (out @ [0, 0]) left)"
    using demo_check assms(2) by simp
  from fw_send_reset_run [OF assms(1) w this] obtain fw' where fw': "fw_inv fw'" "\<not> fw_resync fw'"
    "fw_send_reset (min d 9) (ob_writer ob, demo_wrote inp rds out (left + 3)) = Some (Ok (), fw', demo_wrote inp rds (out @ [0, 0]) left)"
    by auto
  have "budget (ob\<lparr>ob_binding := None\<rparr>, demo_wrote inp rds out (left + 3)) =
      Some (Ok 9 :: (transport_error, nat) result, ob\<lparr>ob_binding := None\<rparr>, demo_wrote inp rds out (left + 3))"
    using assms(3) by (simp add: budget_def env_deadline_after_def act_def clock_defs demo_env_def instant_limit_def)
  with fw' show ?thesis
    by (auto simp: outbound_send_reset_def bindr_def writer_unbind_def act_def framer_def)
qed

end
