(* ===== verification/Transport_Client.thy ===== *)
theory Transport_Client
  imports Transport_Demo
begin

text \<open>
  The transport client, \<^verbatim>\<open>src/src/transport/client.rs\<close>: connecting (reset, hello, waiting for the
  server's hello, verifying it, acknowledging) and receiving. The verifier is the caller's code, a
  parameter; \<open>wall\<close> is the clock crate's wall time.
\<close>


section \<open>Connecting\<close>

text \<open>What one read contributes to the wait for the server's hello: signals, undecodable and oversized
  frames count as empty packets.\<close>

definition skip_stale :: "(transport_error, bytes option) result \<Rightarrow> (transport_error, bytes) result" where
  "skip_stale r = (case r of
      Ok (Some packet) \<Rightarrow> Ok packet
    | Ok None \<Rightarrow> Ok []
    | Err (FrameDecodingFailed _) \<Rightarrow> Ok []
    | Err (FrameTooLarge _) \<Rightarrow> Ok []
    | Err err \<Rightarrow> Err err)"

partial_function (option) await_hello ::
  "cobs \<Rightarrow> 'k crypto \<Rightarrow> bytes \<Rightarrow> instant \<Rightarrow> ('k, 'x) endpoint_scheme \<times> env \<Rightarrow>
    ((transport_error, bytes) result \<times> ('k, 'x) endpoint_scheme \<times> env) option" where
  "await_hello c cr recipient deadline s =
     (case on_reader (next_packet (cobs_decode c) (Some deadline)) s of
        None \<Rightarrow> None
      | Some (r, s') \<Rightarrow>
          (case skip_stale r of
             Err err \<Rightarrow> fail err s'
           | Ok packet \<Rightarrow>
               if cr_recipient cr packet = Ok recipient then ret packet s'
               else await_hello c cr recipient deadline s'))"

definition wall_time :: "(instant \<Rightarrow> int) \<Rightarrow> (('k, 'x) endpoint_scheme \<times> env, 'e, int) run" where
  "wall_time wall = on_clock (\<lambda>e. Some (Ok (wall (now_at (e_clock e))), e))"

definition sign_time :: "(instant \<Rightarrow> int) \<Rightarrow> nat option \<Rightarrow> (('k, 'x) endpoint_scheme \<times> env, 'e, nat) run" where
  "sign_time wall fixed = (case fixed of
      Some t \<Rightarrow> ret t
    | None \<Rightarrow> on_clock (\<lambda>e. map_option (\<lambda>t. (Ok t, e)) (timestamp wall (now_at (e_clock e)))))"

text \<open>The second half of \<^verbatim>\<open>handshake\<close>: from the packet that names this attempt's key to the
  acknowledgment on the wire.\<close>

definition client_authenticate ::
  "cobs \<Rightarrow> 'k crypto \<Rightarrow> (instant \<Rightarrow> int) \<Rightarrow> (bytes \<Rightarrow> int \<Rightarrow> (string, bytes \<times> 'i) result) \<Rightarrow>
   bytes \<Rightarrow> bytes \<Rightarrow> nat option \<Rightarrow> instant \<Rightarrow> bytes \<Rightarrow>
   (('k, 'x) endpoint_scheme \<times> env, transport_error, 'k \<times> 'k \<times> 'i) run" where
  "client_authenticate c cr wall verify signer_sk crypto_sk fixed deadline packet =
     (let auth = \<lparr>aha_host_signer = cr_signer_public cr signer_sk, aha_host_crypto = cr_crypto_public cr crypto_sk\<rparr> in
      bindr (or_failed ''failed to decrypt server hello'' (cr_decrypt cr packet auth crypto_sk)) (\<lambda>sign1.
      bindr (or_failed ''invalid server hello payload'' (cr_peek cr sign1)) (\<lambda>unverified.
      bindr (case attestation_new cr (ark_attest unverified) of Err err \<Rightarrow> fail err | Ok a \<Rightarrow> ret a) (\<lambda>attestation.
      bindr (wall_time wall) (\<lambda>now.
      bindr (case verify attestation now of Err msg \<Rightarrow> fail (HandshakeFailed msg) | Ok v \<Rightarrow> ret v) (\<lambda>(identity, info).
      bindr (or_failed ''server hello signature invalid'' (cr_verify cr sign1 auth identity)) (\<lambda>hello.
      bindr (if length (a2h_encap hello) \<noteq> cr_encap_size cr then fail (HandshakeFailed ''invalid a2h_encap size'')
             else ret ()) (\<lambda>_.
      bindr (or_failed ''client receiver setup failed'' (cr_new_receiver cr crypto_sk (a2h_encap hello) ArkToHost)) (\<lambda>receiver.
      bindr (act (\<lambda>(ep, e). (ep_secrets ep, ep\<lparr>ep_secrets := ep_secrets ep + 1\<rparr>, e))) (\<lambda>rnd.
      bindr (or_failed ''client sender setup failed'' (cr_new_sender cr (ark_crypto hello) HostToArk rnd)) (\<lambda>(sender, encap).
      bindr (sign_time wall fixed) (\<lambda>time.
      bindr (or_failed ''failed to seal client ack'' (cr_seal_ack cr \<lparr>h2a_encap = encap\<rparr>
          \<lparr>haa_ark_signer = identity, haa_ark_crypto = ark_crypto hello\<rparr> signer_sk (ark_crypto hello) time)) (\<lambda>ack.
      bindr (on_writer (outbound_send_packet c ack (Some deadline))) (\<lambda>_.
      ret (sender, receiver, info)))))))))))))))"

text \<open>\<^verbatim>\<open>Client::handshake\<close>.\<close>

definition client_handshake ::
  "cobs \<Rightarrow> 'k crypto \<Rightarrow> (instant \<Rightarrow> int) \<Rightarrow> (bytes \<Rightarrow> int \<Rightarrow> (string, bytes \<times> 'i) result) \<Rightarrow>
   bytes \<Rightarrow> bytes \<Rightarrow> nat option \<Rightarrow> instant \<Rightarrow>
   (('k, 'x) endpoint_scheme \<times> env, transport_error, nat \<times> 'i) run" where
  "client_handshake c cr wall verify signer_sk crypto_sk fixed deadline =
     (case cr_encode_hello cr \<lparr>host_signer = cr_signer_public cr signer_sk, host_crypto = cr_crypto_public cr crypto_sk\<rparr> of
        Err msg \<Rightarrow> bindr end_session (\<lambda>_. fail (hs_failed ''failed to encode client hello'' msg))
      | Ok hello \<Rightarrow>
          bindr (act (\<lambda>(ep, e). ((), release_contexts ep, e))) (\<lambda>_.
          bindr (on_writer (outbound_send_reset deadline)) (\<lambda>_.
          bindr (on_writer (outbound_send_packet c hello (Some deadline))) (\<lambda>_.
          bindr (await_hello c cr (cr_fingerprint cr (cr_crypto_public cr crypto_sk)) deadline) (\<lambda>packet.
          bindr (client_authenticate c cr wall verify signer_sk crypto_sk fixed deadline packet) (\<lambda>(sender, receiver, info).
          bindr (new_session sender receiver) (\<lambda>session. ret (session, info))))))))"

definition client_connect ::
  "cobs \<Rightarrow> 'k crypto \<Rightarrow> (instant \<Rightarrow> int) \<Rightarrow> (bytes \<Rightarrow> int \<Rightarrow> (string, bytes \<times> 'i) result) \<Rightarrow>
   (('k, 'x) endpoint_scheme \<times> env, transport_error, nat \<times> 'i) run" where
  "client_connect c cr wall verify = (\<lambda>(ep, e).
     bindr (on_clock (env_deadline_after (ep_handshake_timeout ep))) (\<lambda>deadline.
     bindr (fresh_secret cr) (\<lambda>signer_sk.
     bindr (fresh_secret cr) (\<lambda>crypto_sk.
     client_handshake c cr wall verify signer_sk crypto_sk None deadline))) (ep, e))"


text \<open>The verifiers that come with the client: a pinned identity key, which accepts any attestation, and trusted
  roots, for which the trust crate (\<open>device_verify\<close>) decides; \<open>identity\<close> is its device's key, \<open>pre_epoch\<close> the standard
  library's text for a time before the epoch.\<close>

definition pinned_verify :: "bytes \<Rightarrow> bytes \<Rightarrow> int \<Rightarrow> (string, bytes \<times> bytes) result" where
  "pinned_verify key attestation now = Ok (key, attestation)"

record roots =
  hardware :: "bytes list"
  emulator :: "bytes list"

definition roots_verify :: "(bytes \<Rightarrow> bytes list \<Rightarrow> bytes list \<Rightarrow> nat option \<Rightarrow> (string, 'd) result) \<Rightarrow> ('d \<Rightarrow> bytes) \<Rightarrow> string \<Rightarrow>
    roots \<Rightarrow> bytes \<Rightarrow> int \<Rightarrow> (string, bytes \<times> 'd) result" where
  "roots_verify device_verify identity pre_epoch rs attestation now =
     (if now < 0 then Err pre_epoch
      else case device_verify attestation (hardware rs) (emulator rs) (Some (nat now)) of
          Err msg \<Rightarrow> Err msg
        | Ok device \<Rightarrow> Ok (identity device, device))"


section \<open>Receiving\<close>

text \<open>\<^verbatim>\<open>Client::recv\<close>, first what it does with a packet. \<open>others\<close> are the sends and disconnects of other threads that get the
  writer before the message is accepted.\<close>

definition client_accept :: "'k crypto \<Rightarrow> 'k \<Rightarrow> bytes \<Rightarrow> (('k, 'x) endpoint_scheme \<times> env, transport_error, bytes) run" where
  "client_accept cr receiver packet = (\<lambda>(ep, e).
     case ep_sealer ep of
       None \<Rightarrow> None
     | Some sealer \<Rightarrow>
         let opened = open_packet (cr_hpke cr) receiver packet;
             ep1 = (case opened of Ok (_, ctx) \<Rightarrow> ep\<lparr>ep_receiver := Some ctx\<rparr> | Err _ \<Rightarrow> ep)
         in case finish_receive (ep_outbound ep) sealer (case opened of Ok (m, _) \<Rightarrow> Ok m | Err err \<Rightarrow> Err err) of
              Err err \<Rightarrow> bindr end_session (\<lambda>_. fail err) (ep1, e)
            | Ok message \<Rightarrow> ret message (ep1, e))"

definition client_recv :: "cobs \<Rightarrow> 'k crypto \<Rightarrow> ob_op list \<Rightarrow> (('k, 'x) endpoint_scheme \<times> env, transport_error, bytes) run" where
  "client_recv c cr others = (\<lambda>(ep, e).
     case ep_receiver ep of
       None \<Rightarrow> fail (EncryptionFailed ''no active session'') (ep, e)
     | Some receiver \<Rightarrow>
         attempt (on_reader (next_packet (cobs_decode c) None)) (\<lambda>r.
         bindr (meanwhile c others) (\<lambda>_.
         case r of
           Err err \<Rightarrow> bindr end_session (\<lambda>_. fail err)
         | Ok None \<Rightarrow> bindr end_session (\<lambda>_. fail SessionReset)
         | Ok (Some packet) \<Rightarrow> client_accept cr receiver packet)) (ep, e))"

text \<open>Dropping the client: the stream is closed, then the session ends.\<close>

definition client_drop :: "(('k, 'x) endpoint_scheme \<times> env, 'e, unit) run" where
  "client_drop = bindr (act (\<lambda>(ep, e). ((), ep, e\<lparr>e_close := Some 0\<rparr>))) (\<lambda>_. bindr end_session (\<lambda>_. ret ()))"


section \<open>What connecting keeps\<close>

lemma session_kept_await_hello: "keeps session_kept (await_hello c cr recipient deadline)"
proof -
  have "session_kept s (snd y)" if "await_hello c cr recipient deadline s = Some y" for s y
  proof (rule await_hello.raw_induct [OF _ that])
    fix rec and c :: cobs and cr recipient deadline s y
    assume IH: "\<And>c cr recipient deadline s y. rec c cr recipient deadline s = Some y \<Longrightarrow> session_kept s (snd y)"
      and body: "(case on_reader (next_packet (cobs_decode c) (Some deadline)) s of
        None \<Rightarrow> None
      | Some (r, s') \<Rightarrow>
          (case skip_stale r of
             Err err \<Rightarrow> fail err s'
           | Ok packet \<Rightarrow>
               if cr_recipient cr packet = Ok recipient then ret packet s'
               else rec c cr recipient deadline s')) = Some y"
    then obtain q s1 where step: "on_reader (next_packet (cobs_decode c) (Some deadline)) s = Some (q, s1)"
      by (auto split: option.splits)
    have "session_kept s s1" using keepsD [OF session_kept_reader step] .
    moreover have "session_kept s1 (snd y)"
      using body step IH [of c cr recipient deadline s1 y] session.R_refl [of s1]
      by (cases "skip_stale q") (auto simp: fail_def ret_def split: if_splits)
    ultimately show "session_kept s (snd y)" by (rule session.R_trans)
  qed
  then show ?thesis by (fastforce simp: keeps_def)
qed

lemma session_kept_authenticate:
  assumes "cobs_codec c"
  shows "keeps session_kept (client_authenticate c cr wall verify signer_sk crypto_sk fixed deadline packet)"
proof -
  have secrets: "keeps session_kept (act (\<lambda>(ep, e). (ep_secrets ep, ep\<lparr>ep_secrets := ep_secrets ep + 1\<rparr>, e)) ::
      (('k, 'x) endpoint_scheme \<times> env, transport_error, nat) run)"
    by (auto simp: keeps_def session_kept_def ep_inv_def)
  have time: "keeps session_kept (sign_time wall fixed :: (('k, 'x) endpoint_scheme \<times> env, transport_error, nat) run)"
    by (auto simp: sign_time_def split: option.split intro: session_intros)
  show ?thesis
    unfolding client_authenticate_def Let_def wall_time_def
    by (intro session_intros secrets time ob_kept_ops assms)
qed


lemma reset_effect:
  assumes "cobs_codec c" and "on_writer (outbound_send_reset deadline) (release_contexts ep, e) = Some (r, ep', e')"
    and "ep_inv ep"
  shows "ep_inv ep' \<and> ep_receiver ep' = None \<and> ep_sealer ep' = None \<and> ob_binding (ep_outbound ep') = None \<and>
    ep_next ep' = ep_next ep"
proof -
  from assms(2) obtain ob where run: "outbound_send_reset deadline (ep_outbound ep, e) = Some (r, ob, e')"
    and ep': "ep' = release_contexts ep\<lparr>ep_outbound := ob\<rparr>"
    by (auto simp: on_writer_Some release_contexts_def)
  have "ob_kept (ep_outbound ep, e) (ob, e')" using keepsD [OF ob_kept_ops(3) [OF assms(1)] run] .
  moreover have "ob_binding ob = None"
    using run by (auto simp: outbound_send_reset_def bindr_Some_iff writer_unbind_def budget_Some framer_Some)
  ultimately show ?thesis
    using assms(3) ep' by (auto simp: ep_inv_def ob_kept_def release_contexts_def split: option.splits)
qed

text \<open>The state of a client without a session.\<close>

definition no_session :: "nat \<Rightarrow> ('k, 'x) endpoint_scheme \<Rightarrow> bool" where
  "no_session n ep \<longleftrightarrow> ep_inv ep \<and> ep_receiver ep = None \<and> ep_sealer ep = None \<and> ob_binding (ep_outbound ep) = None \<and>
     ep_next ep = n"

lemma no_session_kept: "session_kept (ep, e) (ep', e') \<Longrightarrow> no_session n ep \<Longrightarrow> no_session n ep'"
  by (auto simp: session_kept_def no_session_def)

lemma no_session_run: "keeps session_kept m \<Longrightarrow> m (ep, e) = Some (r, ep', e') \<Longrightarrow> no_session n ep \<Longrightarrow> no_session n ep'"
  by (blast dest: keepsD no_session_kept)

definition connect_outcome :: "nat \<Rightarrow> (transport_error, nat \<times> 'i) result \<Rightarrow> ('k, 'x) endpoint_scheme \<Rightarrow> bool" where
  "connect_outcome n r ep \<longleftrightarrow> (case r of
      Err _ \<Rightarrow> no_session n ep
    | Ok (session, info) \<Rightarrow> session = n \<and> ep_inv ep \<and> ep_receiver ep \<noteq> None \<and> ep_sealer ep = Some n \<and>
        ob_binding (ep_outbound ep) = Some n \<and> ep_next ep = Suc n)"

lemma client_handshake_outcome:
  assumes c: "cobs_codec c" and inv: "ep_inv ep"
    and run: "client_handshake c cr wall verify signer_sk crypto_sk fixed deadline (ep, e) = Some (r, ep', e')"
  shows "connect_outcome (ep_next ep) r ep'"
proof (cases "cr_encode_hello cr \<lparr>host_signer = cr_signer_public cr signer_sk, host_crypto = cr_crypto_public cr crypto_sk\<rparr>")
  case (Inl msg)
  with run inv show ?thesis
    by (auto simp: client_handshake_def bindr_Some_iff connect_outcome_def no_session_def dest!: end_session_effect)
next
  case (Inr hello)
  let ?middle = "bindr (on_writer (outbound_send_packet c hello (Some deadline))) (\<lambda>_.
      bindr (await_hello c cr (cr_fingerprint cr (cr_crypto_public cr crypto_sk)) deadline)
        (client_authenticate c cr wall verify signer_sk crypto_sk fixed deadline))"
  have middle: "keeps session_kept ?middle"
    by (intro session_intros session_kept_await_hello session_kept_authenticate ob_kept_ops c)
  from run Inr have "bindr (on_writer (outbound_send_reset deadline)) (\<lambda>_. bindr ?middle (\<lambda>(sender, receiver, info).
      bindr (new_session sender receiver) (\<lambda>session. ret (session, info)))) (release_contexts ep, e) = Some (r, ep', e')"
    by (simp add: client_handshake_def bindr_assoc bindr_def [of "act _"] act_def)
  then show ?thesis
  proof (cases rule: bindr_SomeE)
    case (err k)
    with reset_effect [OF c err(1) inv] show ?thesis by (simp add: connect_outcome_def no_session_def)
  next
    case (ok u s1)
    obtain ep1 e1 where s1: "s1 = (ep1, e1)" by fastforce
    with reset_effect [OF c _ inv] ok(1) have 1: "no_session (ep_next ep) ep1" by (auto simp: no_session_def)
    from ok(2) s1 show ?thesis
    proof (cases rule: bindr_SomeE)
      case (err k)
      with no_session_run [OF middle _ 1] s1 show ?thesis by (auto simp: connect_outcome_def)
    next
      case (ok x s2)
      obtain ep2 e2 where s2: "s2 = (ep2, e2)" by fastforce
      with no_session_run [OF middle _ 1] ok(1) s1 have 2: "no_session (ep_next ep) ep2" by blast
      with ok(2) s2 show ?thesis
        by (auto simp: bindr_Some_iff connect_outcome_def no_session_def split: prod.splits dest!: new_session_effect)
    qed
  qed
qed



section \<open>Authenticity\<close>

text \<open>What has been checked when the acknowledgment goes out: an envelope that this attempt's secret
  key opens, bound to this attempt's two public keys, whose signature verifies under the
  identity that the verifier gave for the attestation inside.\<close>

definition authenticated ::
  "'k crypto \<Rightarrow> (bytes \<Rightarrow> int \<Rightarrow> (string, bytes \<times> 'i) result) \<Rightarrow> bytes \<Rightarrow> bytes \<Rightarrow> 'k \<Rightarrow> 'i \<Rightarrow> bool" where
  "authenticated cr verify signer_sk crypto_sk receiver info \<longleftrightarrow>
     (\<exists>packet sign1 unverified identity hello now.
        let auth = \<lparr>aha_host_signer = cr_signer_public cr signer_sk, aha_host_crypto = cr_crypto_public cr crypto_sk\<rparr> in
        cr_recipient cr packet = Ok (cr_fingerprint cr (cr_crypto_public cr crypto_sk)) \<and>
        cr_decrypt cr packet auth crypto_sk = Ok sign1 \<and> cr_peek cr sign1 = Ok unverified \<and>
        cr_device_claims cr (ark_attest unverified) \<and> verify (ark_attest unverified) now = Ok (identity, info) \<and>
        cr_verify cr sign1 auth identity = Ok hello \<and> length (a2h_encap hello) = cr_encap_size cr \<and>
        cr_new_receiver cr crypto_sk (a2h_encap hello) ArkToHost = Ok receiver)"

lemma await_hello_recipient:
  assumes "await_hello c cr recipient deadline s = Some (Ok packet, s')"
  shows "cr_recipient cr packet = Ok recipient"
proof -
  have "\<forall>packet. fst y = Ok packet \<longrightarrow> cr_recipient cr packet = Ok recipient"
    if "await_hello c cr recipient deadline s = Some y" for y
    by (rule await_hello.raw_induct [OF _ that])
      (auto simp: fail_def ret_def split: option.splits sum.splits if_splits)
  from this [OF assms] show ?thesis by simp
qed

lemma client_authenticate_Ok:
  assumes "client_authenticate c cr wall verify signer_sk crypto_sk fixed deadline packet s = Some (Ok (sender, receiver, info), s')"
    and "cr_recipient cr packet = Ok (cr_fingerprint cr (cr_crypto_public cr crypto_sk))"
  shows "authenticated cr verify signer_sk crypto_sk receiver info"
  using assms unfolding client_authenticate_def Let_def authenticated_def attestation_new_def
  by (auto simp: bindr_Some_iff or_failed_Ok case_fail_Ok split: if_splits) blast

lemma client_handshake_authentic:
  assumes "client_handshake c cr wall verify signer_sk crypto_sk fixed deadline (ep, e) = Some (Ok (session, info), ep', e')"
    and "ep_inv ep"
  shows "\<exists>receiver. ep_receiver ep' = Some receiver \<and> authenticated cr verify signer_sk crypto_sk receiver info"
proof -
  from assms(1) obtain packet s1 s2 s3 sender receiver where
    aw: "await_hello c cr (cr_fingerprint cr (cr_crypto_public cr crypto_sk)) deadline s1 = Some (Ok packet, s2)"
    and au: "client_authenticate c cr wall verify signer_sk crypto_sk fixed deadline packet s2 = Some (Ok (sender, receiver, info), s3)"
    and ns: "new_session sender receiver s3 = Some (Ok session :: (transport_error, nat) result, ep', e')"
    unfolding client_handshake_def by (auto simp: bindr_Some_iff split: sum.splits)
  have "ep_receiver ep' = Some receiver"
    using ns by (cases s3) (auto simp: new_session_def bindr_Some_iff on_writer_Some writer_bind_def)
  with client_authenticate_Ok [OF au await_hello_recipient [OF aw]] show ?thesis by blast
qed


section \<open>Properties of the client\<close>

lemma client_connect_outcome:
  fixes ep :: "('k, 'x) endpoint_scheme"
  assumes "cobs_codec c" and "ep_inv ep" and "client_connect c cr wall verify (ep, e) = Some (r, ep', e')"
  shows "connect_outcome (ep_next ep) r ep'"
proof -
  let ?prep = "bindr (on_clock (env_deadline_after (ep_handshake_timeout ep))) (\<lambda>deadline.
      bindr (fresh_secret cr) (\<lambda>signer_sk. bindr (fresh_secret cr) (\<lambda>crypto_sk. ret (signer_sk, crypto_sk, deadline))))
      :: (('k, 'x) endpoint_scheme \<times> env, transport_error, bytes \<times> bytes \<times> instant) run"
  from assms(3) obtain sk1 sk2 deadline ep1 e1 where
    prep: "?prep (ep, e) = Some (Ok (sk1, sk2, deadline), ep1, e1)"
    and hs: "client_handshake c cr wall verify sk1 sk2 None deadline (ep1, e1) = Some (r, ep', e')"
    by (auto simp: client_connect_def bindr_Some_iff on_clock_Some fresh_secret_def)
  have "keeps session_kept ?prep" by (intro session_intros)
  from keepsD [OF this prep] assms(2) have "ep_inv ep1" "ep_next ep1 = ep_next ep"
    by (auto simp: session_kept_def)
  with client_handshake_outcome [OF assms(1) _ hs] show ?thesis by simp
qed

text \<open>Connecting ends the previous session in every case. When it fails, the client has no
  session: no context, and no sender may write. When it succeeds, the session is a new one that no
  earlier sender belongs to, it is the only one that may write, and both contexts are in place.\<close>

theorem connect_session:
  fixes ep :: "('k, 'x) endpoint_scheme"
  assumes "cobs_codec c" and "ep_inv ep" and "client_connect c cr wall verify (ep, e) = Some (r, ep', e')"
  shows "connect_outcome (ep_next ep) r ep'"
  using assms by (rule client_connect_outcome)

text \<open>C20: a session is established only after the server authenticated itself to this very attempt.\<close>

theorem connect_authentic:
  assumes "ep_inv ep" and "client_connect c cr wall verify (ep, e) = Some (Ok (session, info), ep', e')"
  shows "\<exists>receiver. ep_receiver ep' = Some receiver \<and>
    authenticated cr verify (cr_secret cr (ep_secrets ep)) (cr_secret cr (Suc (ep_secrets ep))) receiver info"
proof -
  from assms(2) obtain deadline e1 where
    "client_handshake c cr wall verify (cr_secret cr (ep_secrets ep)) (cr_secret cr (Suc (ep_secrets ep))) None deadline
       (ep\<lparr>ep_secrets := Suc (Suc (ep_secrets ep))\<rparr>, e1) = Some (Ok (session, info), ep', e')"
    by (auto simp: client_connect_def bindr_Some_iff on_clock_Some fresh_secret_def)
  moreover have "ep_inv (ep\<lparr>ep_secrets := Suc (Suc (ep_secrets ep))\<rparr>)" using assms(1) by (simp add: ep_inv_def)
  ultimately show ?thesis by (rule client_handshake_authentic)
qed


lemma ended_outcome:
  assumes "bindr end_session (\<lambda>_. fail err) (ep, e) = Some (r, ep', e')" "ep_inv ep"
  shows "ep_inv ep' \<and> r = Err err \<and> ep_receiver ep' = None \<and> ep_sealer ep' = None \<and> ob_binding (ep_outbound ep') = None"
  using assms by (auto simp: bindr_Some_iff dest!: end_session_effect)

lemma client_accept_outcome:
  assumes "ep_inv ep" "ep_receiver ep = Some receiver" "client_accept cr receiver packet (ep, e) = Some (r, ep', e')"
  shows "ep_inv ep' \<and> (case r of
      Err _ \<Rightarrow> ep_receiver ep' = None \<and> ep_sealer ep' = None \<and> ob_binding (ep_outbound ep') = None
    | Ok message \<Rightarrow> (\<exists>ctx. open_packet (cr_hpke cr) receiver packet = Ok (message, ctx) \<and> ep_receiver ep' = Some ctx \<and>
        ep_sealer ep' = ep_sealer ep \<and> ob_binding (ep_outbound ep') = ep_sealer ep))"
proof -
  from assms(1,2) obtain sealer where sealer: "ep_sealer ep = Some sealer" by (auto simp: ep_inv_def)
  have inv: "ep_inv (ep\<lparr>ep_receiver := Some ctx\<rparr>)" for ctx using assms(1,2) by (auto simp: ep_inv_def)
  show ?thesis
  proof (cases "\<exists>m ctx. open_packet (cr_hpke cr) receiver packet = Ok (m, ctx) \<and> ob_binding (ep_outbound ep) = Some sealer")
    case True
    with assms(3) sealer inv show ?thesis by (auto simp: client_accept_def finish_receive_def)
  next
    case False
    with assms(1,3) sealer inv obtain err ep3 where "bindr end_session (\<lambda>_. fail err) (ep3, e) = Some (r, ep', e')" "ep_inv ep3"
      by (auto simp: client_accept_def finish_receive_def Let_def split: sum.splits if_splits)
    from ended_outcome [OF this] show ?thesis by simp
  qed
qed

text \<open>C34: receiving keeps the invariant. Any error, whether a bad frame, a signal, an undecryptable
  packet, a read failure or a session that a sender ended meanwhile, leaves the client without a
  session. A message is returned only when it is the decryption of the next packet under the
  session's receive context and the session was still current, and the context advances with it.\<close>

theorem client_recv_outcome:
  assumes "cobs_codec c" and "ep_inv ep" and "client_recv c cr others (ep, e) = Some (r, ep', e')"
  shows "ep_inv ep' \<and> (case r of
      Err _ \<Rightarrow> ep_receiver ep' = None \<and> ep_sealer ep' = None \<and> ob_binding (ep_outbound ep') = None
    | Ok message \<Rightarrow> (\<exists>receiver packet fr e1 ctx. ep_receiver ep = Some receiver \<and>
        next_packet (cobs_decode c) None (ep_reader ep, e) = Some (Ok (Some packet), fr, e1) \<and>
        open_packet (cr_hpke cr) receiver packet = Ok (message, ctx) \<and> ep_receiver ep' = Some ctx \<and>
        ep_sealer ep' = ep_sealer ep \<and> ob_binding (ep_outbound ep') = ep_sealer ep))"
proof (cases "ep_receiver ep")
  case None
  with assms(2,3) show ?thesis by (auto simp: client_recv_def ep_inv_def)
next
  case (Some receiver)
  with assms(3) obtain q s1 u ep2 e2 where
    rd: "on_reader (next_packet (cobs_decode c) None) (ep, e) = Some (q, s1)"
    and mw: "meanwhile c others s1 = Some (Ok u, ep2, e2)"
    and rest: "(case q of
           Err err \<Rightarrow> bindr end_session (\<lambda>_. fail err)
         | Ok None \<Rightarrow> bindr end_session (\<lambda>_. fail SessionReset)
         | Ok (Some packet) \<Rightarrow> client_accept cr receiver packet) (ep2, e2) = Some (r, ep', e')"
    by (auto simp: client_recv_def attempt_Some_iff bindr_Some_iff meanwhile_def)
  have "session_kept (ep, e) (ep2, e2)"
    using session.R_trans [OF keepsD [OF session_kept_reader rd] keepsD [OF session_kept_meanwhile [OF assms(1)] mw]] .
  with assms(2) have k: "ep_inv ep2" "ep_receiver ep2 = Some receiver" "ep_sealer ep2 = ep_sealer ep"
    using Some by (auto simp: session_kept_def)
  show ?thesis
  proof (cases "\<exists>packet. q = Ok (Some packet)")
    case False
    with rest obtain err where "bindr end_session (\<lambda>_. fail err) (ep2, e2) = Some (r, ep', e')"
      by (auto split: sum.splits option.splits)
    from ended_outcome [OF this k(1)] show ?thesis by simp
  next
    case True
    then obtain packet where q: "q = Ok (Some packet)" by blast
    with rest have "client_accept cr receiver packet (ep2, e2) = Some (r, ep', e')" by simp
    from client_accept_outcome [OF k(1,2) this] rd q k(3) Some show ?thesis
      by (auto simp: on_reader_Some split: sum.splits)
  qed
qed


section \<open>A handshake in full\<close>

definition demo_reader :: "nat \<Rightarrow> frame_reader" where
  "demo_reader k = \<lparr>fr_buffer = [0, 4, 4, 2, 1, 0] @ replicate (MAX_FRAME_SIZE - 5) 0, fr_filled = 6,
     fr_offset = k, fr_search = k, fr_discard = False\<rparr>"

lemma demo_packets:
  assumes "0 < d"
  shows "next_packet unstuff (Some d) (frame_reader_new, demo_wrote (e_input demo_env) (e_reads demo_env) out n) =
      Some (Ok None, demo_reader 1, demo_wrote [] [] out n)"
    and "next_packet unstuff (Some d) (demo_reader 1, demo_wrote [] [] out n) =
      Some (Ok (Some [4, 2, 1]), demo_reader 6, demo_wrote [] [] out n)"
  using assms
  by (simp_all add: next_packet_def next_frame.simps frame_reader_new_def demo_env_def opt_check_deadline_def
      env_check_deadline_def check_deadline_def clock_now_def ret_def read_half.simps bindr_def attempt_def enter_def
      act_def rd_call_def take_input_def Let_def fr_compact_def subvec_def splice_at_def MAX_FRAME_SIZE_def
      unstuff.simps demo_reader_def)


lemma demo_await:
  assumes "0 < d" and "ep_reader ep = frame_reader_new"
  shows "await_hello cobs_reference demo_crypto [2, 1] d (ep, demo_wrote (e_input demo_env) (e_reads demo_env) out n) =
    Some (Ok [4, 2, 1], ep\<lparr>ep_reader := demo_reader 6\<rparr>, demo_wrote [] [] out n)"
proof -
  have dec: "cobs_decode cobs_reference = unstuff" by (simp add: cobs_reference_def)
  show ?thesis
    by (subst await_hello.simps, simp only: on_reader_def prod.case assms(2) dec demo_packets(1) [OF assms(1)]
        option.map option.case, subst await_hello.simps)
      (simp add: skip_stale_def on_reader_def dec demo_packets(2) [OF assms(1), simplified] ret_def)
qed

lemma demo_authenticate:
  assumes "outbound_send_packet cobs_reference [3] (Some d) (ep_outbound ep, e) = Some (Ok (), ob, e')"
  shows "client_authenticate cobs_reference demo_crypto (\<lambda>_. 0) demo_verify sk1 sk2 None d [4, 2, 1] (ep, e) =
    Some (Ok (ep_secrets ep, 7, ()), ep\<lparr>ep_secrets := Suc (ep_secrets ep), ep_outbound := ob\<rparr>, e')"
  using assms
  by (simp add: client_authenticate_def Let_def bindr_def or_failed_def attestation_new_def wall_time_def on_clock_def
      ret_def act_def sign_time_def timestamp_def on_writer_def)

lemma demo_connect:
  "\<exists>ep' e'. client_connect cobs_reference demo_crypto (\<lambda>_. 0) demo_verify (endpoint_new ClientSide 9, demo_env) =
     Some (Ok (0, ()), ep', e')"
proof -
  let ?d = "5000000000 :: nat"
  let ?ob = "outbound_new ClientSide 9"
  define i r where "i = e_input demo_env" and "r = e_reads demo_env"
  have inv: "fw_inv (ob_writer ?ob)" "ob_timeout ?ob = 9" by (simp_all add: outbound_new_def fw_inv_new)
  obtain fw1 where fw1: "fw_inv fw1" "\<not> fw_resync fw1"
    "outbound_send_reset ?d (?ob, demo_wrote i r [] 9) =
       Some (Ok (), ?ob\<lparr>ob_writer := fw1, ob_binding := None\<rparr>, demo_wrote i r [0, 0] 6)"
    using demo_reset [of ?ob ?d 6 "[]" r i] inv by auto
  let ?ob1 = "?ob\<lparr>ob_writer := fw1, ob_binding := None\<rparr>"
  obtain fw2 where fw2: "fw_inv fw2" "\<not> fw_resync fw2"
    "outbound_send_packet cobs_reference [5] (Some ?d) (?ob1, demo_wrote i r [0, 0] 6) =
       Some (Ok (), ?ob1\<lparr>ob_writer := fw2\<rparr>, demo_wrote i r ([0, 0] @ stuff [5] @ [0]) 3)"
    using demo_send [of ?ob1 "[5]" ?d 3 "[0, 0]" r i] fw1(1,2) by (auto simp: outbound_new_def)
  define out where "out = [0, 0] @ stuff [5] @ [0]"
  let ?ob2 = "?ob1\<lparr>ob_writer := fw2\<rparr>"
  obtain fw3 where fw3: "outbound_send_packet cobs_reference [3] (Some ?d) (?ob2, demo_wrote [] [] out 3) =
       Some (Ok (), ?ob2\<lparr>ob_writer := fw3\<rparr>, demo_wrote [] [] (out @ stuff [3] @ [0]) 0)"
    using demo_send [of ?ob2 "[3]" ?d 0 out "[]" "[]"] fw2(1,2) by (auto simp: outbound_new_def)
  have env: "demo_env = demo_wrote i r [] 9" by (simp add: i_def r_def demo_env_def)
  have clock: "env_deadline_after DEFAULT_HANDSHAKE_TIMEOUT (demo_wrote i r [] 9) =
      Some (Ok ?d :: (transport_error, nat) result, demo_wrote i r [] 9)"
    by (simp add: env_deadline_after_def act_def clock_defs demo_env_def instant_limit_def DEFAULT_HANDSHAKE_TIMEOUT_def)
  note await = demo_await [of ?d, folded i_def r_def]
  let ?ep = "endpoint_new ClientSide 9 :: nat endpoint"
  let ?ep1 = "?ep\<lparr>ep_secrets := 2, ep_outbound := ?ob2\<rparr>"
  have au: "client_authenticate cobs_reference demo_crypto (\<lambda>_. 0) demo_verify [0] [1] None ?d [4, 2, 1]
      (?ep1\<lparr>ep_reader := demo_reader 6\<rparr>, demo_wrote [] [] out 3) = Some (Ok (2, 7, ()),
      ?ep1\<lparr>ep_reader := demo_reader 6, ep_secrets := 3, ep_outbound := ?ob2\<lparr>ob_writer := fw3\<rparr>\<rparr>,
      demo_wrote [] [] (out @ stuff [3] @ [0]) 0)"
    using demo_authenticate [of ?d "?ep1\<lparr>ep_reader := demo_reader 6\<rparr>" "demo_wrote [] [] out 3"] fw3
    by simp
  have aw: "await_hello cobs_reference demo_crypto [2, 1] ?d (?ep1, demo_wrote i r out 3) =
      Some (Ok [4, 2, 1], ?ep1\<lparr>ep_reader := demo_reader 6\<rparr>, demo_wrote [] [] out 3)"
    by (rule await) (simp_all add: endpoint_new_def)
  show ?thesis
    using clock fw1(3) fw2(3) [folded out_def] aw au
    by (subst env) (simp add: client_connect_def client_handshake_def bindr_def act_def fresh_secret_def
        on_writer_def on_clock_def endpoint_new_def release_contexts_def ret_def new_session_def writer_bind_def
        numeral_2_eq_2 del: env_deadline_after_Some)
qed

theorem connect_session_witness:
  "\<exists>ep' e'. client_connect cobs_reference demo_crypto (\<lambda>_. 0) demo_verify (endpoint_new ClientSide 9, demo_env) =
     Some (Ok (0, ()), ep', e') \<and> ob_binding (ep_outbound ep') = Some 0"
proof -
  obtain ep' e' where run: "client_connect cobs_reference demo_crypto (\<lambda>_. 0) demo_verify (endpoint_new ClientSide 9, demo_env) =
      Some (Ok (0, ()), ep', e')" using demo_connect by blast
  from connect_session [OF stuffing.cobs_codec_axioms ep_inv_new run] run show ?thesis
    by (auto simp: connect_outcome_def endpoint_new_def)
qed

theorem connect_authentic_witness:
  "\<exists>receiver. authenticated demo_crypto demo_verify [0] [1] receiver ()"
proof -
  obtain ep' e' where run: "client_connect cobs_reference demo_crypto (\<lambda>_. 0) demo_verify (endpoint_new ClientSide 9, demo_env) =
      Some (Ok (0, ()), ep', e')" using demo_connect by blast
  from connect_authentic [OF ep_inv_new run] show ?thesis by (auto simp: endpoint_new_def)
qed

theorem client_recv_outcome_witness:
  "\<exists>ep' e'. client_recv cobs_reference demo_crypto [] (endpoint_new ClientSide 9, demo_env) =
     Some (Err (EncryptionFailed ''no active session''), ep', e') \<and> ep_inv ep'"
proof -
  have run: "client_recv cobs_reference demo_crypto [] (endpoint_new ClientSide 9, demo_env) =
      Some (Err (EncryptionFailed ''no active session''), endpoint_new ClientSide 9, demo_env)"
    by (simp add: client_recv_def endpoint_new_def fail_def)
  from client_recv_outcome [OF stuffing.cobs_codec_axioms ep_inv_new run] run show ?thesis by blast
qed

end
