(* ===== verification/Transport_Server.thy ===== *)
theory Transport_Server
  imports Transport_Demo
begin

text \<open>
  The transport server, \<^verbatim>\<open>src/src/transport/server.rs\<close>: the receive loop with its handshakes, the
  events it reports and local disconnects. The attester is the caller's code (\<open>attest\<close>, a supply of
  attestations), \<open>wall\<close> is the clock crate's wall time. One pass of the receive loop is a run of its
  own; the loop itself may go round for ever, and is then without a result.
\<close>


section \<open>State and events\<close>

record 'k server = "'k endpoint" +
  sv_signer :: bytes
  sv_handshake_deadline :: "instant option"

datatype event = Connected nat | Disconnected | Message bytes

definition server_new :: "bytes \<Rightarrow> duration \<Rightarrow> 'k server" where
  "server_new signer timeout = endpoint.extend (endpoint_new ServerSide timeout)
     \<lparr>sv_signer = signer, sv_handshake_deadline = None\<rparr>"


text \<open>The transport errors the loop returns at once.\<close>

fun read_failure :: "transport_error \<Rightarrow> bool" where
  "read_failure Terminated = True"
| "read_failure (RecvFailed _) = True"
| "read_failure _ = False"

fun send_failure :: "transport_error \<Rightarrow> bool" where
  "send_failure (SendFailed _) = True"
| "send_failure _ = False"


section \<open>The handshake\<close>

partial_function (option) await_host_hello ::
  "cobs \<Rightarrow> instant \<Rightarrow> 'k server \<times> env \<Rightarrow> ((transport_error, bytes) result \<times> 'k server \<times> env) option" where
  "await_host_hello c deadline s =
     (case on_reader (next_packet (cobs_decode c) (Some deadline)) s of
        None \<Rightarrow> None
      | Some (r, s') \<Rightarrow>
          (case r of
             Err err \<Rightarrow> fail err s'
           | Ok packet \<Rightarrow> (case packet of None \<Rightarrow> await_host_hello c deadline s' | Some p \<Rightarrow> ret p s')))"

definition next_secret :: "('k server \<times> env, 'e, nat) run" where
  "next_secret = act (\<lambda>(sv, e). (ep_secrets sv, sv\<lparr>ep_secrets := ep_secrets sv + 1\<rparr>, e))"

text \<open>Messages 1 and 2: decode the hello, set up the sending context, seal and send the answer. The
  result is the sending context, this attempt's secret key and the hello.\<close>

definition server_answer ::
  "cobs \<Rightarrow> 'k crypto \<Rightarrow> (instant \<Rightarrow> int) \<Rightarrow> (nat \<Rightarrow> bytes) \<Rightarrow> instant \<Rightarrow> bytes \<Rightarrow>
   ('k server \<times> env, transport_error, 'k \<times> bytes \<times> host_hello) run" where
  "server_answer c cr wall attest deadline packet =
     bindr (or_failed ''invalid client hello'' (cr_decode_hello cr packet)) (\<lambda>hello.
     bindr next_secret (\<lambda>n.
     bindr next_secret (\<lambda>rnd.
     bindr (or_failed ''server sender setup failed'' (cr_new_sender cr (host_crypto hello) ArkToHost rnd)) (\<lambda>(sender, encap).
     bindr next_secret (\<lambda>m.
     bindr (on_clock (\<lambda>e. map_option (\<lambda>t. (Ok t, e)) (timestamp wall (now_at (e_clock e))))) (\<lambda>time.
     bindr (\<lambda>(sv, e). or_failed ''failed to seal server hello'' (cr_seal_hello cr
          \<lparr>ark_attest = attest m, ark_crypto = cr_crypto_public cr (cr_secret cr n), a2h_encap = encap\<rparr>
          \<lparr>aha_host_signer = host_signer hello, aha_host_crypto = host_crypto hello\<rparr>
          (sv_signer sv) (host_crypto hello) time) (sv, e)) (\<lambda>sealed.
     bindr (on_writer (outbound_send_packet c sealed (Some deadline))) (\<lambda>_.
     ret (sender, cr_secret cr n, hello)))))))))"

text \<open>Message 3: open the acknowledgment and set up the receive context.\<close>

definition server_complete ::
  "'k crypto \<Rightarrow> 'k \<Rightarrow> bytes \<Rightarrow> host_hello \<Rightarrow> bytes \<Rightarrow> ('k server \<times> env, transport_error, 'k \<times> 'k) run" where
  "server_complete cr sender key hello packet = (\<lambda>(sv, e).
     bindr (or_failed ''invalid client ack'' (cr_open_ack cr packet
         \<lparr>haa_ark_signer = cr_signer_public cr (sv_signer sv), haa_ark_crypto = cr_crypto_public cr key\<rparr>
         key (host_signer hello))) (\<lambda>ack.
     bindr (if length (h2a_encap ack) \<noteq> cr_encap_size cr then fail (HandshakeFailed ''invalid h2a_encap size'') else ret ()) (\<lambda>_.
     bindr (or_failed ''server receiver setup failed'' (cr_new_receiver cr key (h2a_encap ack) HostToArk)) (\<lambda>receiver.
     ret (sender, receiver)))) (sv, e))"

partial_function (option) server_attempts ::
  "cobs \<Rightarrow> 'k crypto \<Rightarrow> (instant \<Rightarrow> int) \<Rightarrow> (nat \<Rightarrow> bytes) \<Rightarrow> instant \<Rightarrow> 'k server \<times> env \<Rightarrow>
    ((transport_error, 'k \<times> 'k) result \<times> 'k server \<times> env) option" where
  "server_attempts c cr wall attest deadline s =
     (case bindr (await_host_hello c deadline) (server_answer c cr wall attest deadline) s of
        None \<Rightarrow> None
      | Some (r, s1) \<Rightarrow>
          (case r of
             Err err \<Rightarrow> fail err s1
           | Ok answered \<Rightarrow>
               (case on_reader (next_packet (cobs_decode c) (Some deadline)) s1 of
                  None \<Rightarrow> None
                | Some (q, s2) \<Rightarrow>
                    (case q of
                       Err err \<Rightarrow> fail err s2
                     | Ok packet \<Rightarrow>
                         (case packet of
                            None \<Rightarrow> server_attempts c cr wall attest deadline s2
                          | Some p \<Rightarrow> (case answered of (sender, key, hello) \<Rightarrow> server_complete cr sender key hello p s2))))))"

definition server_handshake ::
  "cobs \<Rightarrow> 'k crypto \<Rightarrow> (instant \<Rightarrow> int) \<Rightarrow> (nat \<Rightarrow> bytes) \<Rightarrow> instant \<Rightarrow>
   ('k server \<times> env, transport_error, 'k \<times> 'k) run" where
  "server_handshake c cr wall attest deadline =
     bindr (on_writer writer_unbind) (\<lambda>_. server_attempts c cr wall attest deadline)"


section \<open>The receive loop\<close>

definition server_send_dropped :: "('k server \<times> env, 'e, unit) run" where
  "server_send_dropped = attempt (on_writer (outbound_send_dropped None)) (\<lambda>_. ret ())"

definition server_disconnect :: "('k server \<times> env, 'e, unit) run" where
  "server_disconnect = bindr end_session (\<lambda>_. server_send_dropped)"

text \<open>The pass of the loop that runs a requested handshake.\<close>

definition handshake_turn ::
  "cobs \<Rightarrow> 'k crypto \<Rightarrow> (instant \<Rightarrow> int) \<Rightarrow> (nat \<Rightarrow> bytes) \<Rightarrow> instant \<Rightarrow>
   ('k server \<times> env, transport_error, event option) run" where
  "handshake_turn c cr wall attest deadline =
     attempt (server_handshake c cr wall attest deadline) (\<lambda>r. case r of
         Ok contexts \<Rightarrow> (case contexts of (sender, receiver) \<Rightarrow>
           bindr (new_session sender receiver) (\<lambda>session. ret (Some (Connected session))))
       | Err err \<Rightarrow>
           if read_failure err \<or> send_failure err then fail err
           else
             attempt (on_writer (outbound_send_dropped (Some deadline))) (\<lambda>_.
             attempt (on_clock (env_check_deadline deadline)) (\<lambda>q.
               case q of Err k \<Rightarrow> fail (RecvFailed k) | Ok _ \<Rightarrow> ret None)))"

text \<open>A packet that arrived: data outside a session, or a message of the session.\<close>

definition server_packet :: "'k crypto \<Rightarrow> bytes \<Rightarrow> ('k server \<times> env, transport_error, event option) run" where
  "server_packet cr packet = (\<lambda>(sv, e).
     case ep_receiver sv of
       None \<Rightarrow> bindr server_send_dropped (\<lambda>_. ret None) (sv, e)
     | Some receiver \<Rightarrow>
         (case ep_sealer sv of
            None \<Rightarrow> None
          | Some sealer \<Rightarrow>
              let opened = open_packet (cr_hpke cr) receiver packet;
                  sv1 = (case opened of Ok (_, ctx) \<Rightarrow> sv\<lparr>ep_receiver := Some ctx\<rparr> | Err _ \<Rightarrow> sv)
              in case finish_receive (ep_outbound sv) sealer (case opened of Ok (m, _) \<Rightarrow> Ok m | Err err \<Rightarrow> Err err) of
                   Err err \<Rightarrow> bindr end_session (\<lambda>_. bindr server_send_dropped (\<lambda>_. ret (Some Disconnected))) (sv1, e)
                 | Ok message \<Rightarrow> ret (Some (Message message)) (sv1, e)))"

text \<open>One pass of the loop; \<open>None\<close> as its result is \<^verbatim>\<open>continue\<close>.\<close>

definition server_turn ::
  "cobs \<Rightarrow> 'k crypto \<Rightarrow> (instant \<Rightarrow> int) \<Rightarrow> (nat \<Rightarrow> bytes) \<Rightarrow> ob_op list \<Rightarrow>
   ('k server \<times> env, transport_error, event option) run" where
  "server_turn c cr wall attest others = (\<lambda>(sv, e).
     case sv_handshake_deadline sv of
       Some deadline \<Rightarrow> handshake_turn c cr wall attest deadline (sv\<lparr>sv_handshake_deadline := None\<rparr>, e)
     | None \<Rightarrow>
         attempt (on_reader (next_packet (cobs_decode c) None)) (\<lambda>r.
         bindr (meanwhile c others) (\<lambda>_.
         case r of
           Err err \<Rightarrow>
             if read_failure err then fail err
             else bindr end_session (\<lambda>ended. bindr server_send_dropped (\<lambda>_.
               ret (if ended then Some Disconnected else None)))
         | Ok None \<Rightarrow>
             bindr (\<lambda>(sv, e). on_clock (env_deadline_after (ep_handshake_timeout sv)) (sv, e)) (\<lambda>deadline.
             bindr (act (\<lambda>(sv, e). ((), sv\<lparr>sv_handshake_deadline := Some deadline\<rparr>, e))) (\<lambda>_.
             bindr end_session (\<lambda>ended. ret (if ended then Some Disconnected else None))))
         | Ok (Some packet) \<Rightarrow> server_packet cr packet)) (sv, e))"

text \<open>\<^verbatim>\<open>Server::recv\<close>; \<open>others\<close> holds what senders on other threads do in each pass.\<close>

partial_function (option) server_recv ::
  "cobs \<Rightarrow> 'k crypto \<Rightarrow> (instant \<Rightarrow> int) \<Rightarrow> (nat \<Rightarrow> bytes) \<Rightarrow> ob_op list list \<Rightarrow> 'k server \<times> env \<Rightarrow>
    ((transport_error, event) result \<times> 'k server \<times> env) option" where
  "server_recv c cr wall attest others s =
     (case server_turn c cr wall attest (case others of [] \<Rightarrow> [] | ops # _ \<Rightarrow> ops) s of
        None \<Rightarrow> None
      | Some (r, s') \<Rightarrow>
          (case r of
             Err err \<Rightarrow> fail err s'
           | Ok next \<Rightarrow>
               (case next of
                  Some event \<Rightarrow> ret event s'
                | None \<Rightarrow> server_recv c cr wall attest (tl others) s')))"

definition server_drop :: "('k server \<times> env, 'e, unit) run" where
  "server_drop = bindr (act (\<lambda>(sv, e). ((), sv, e\<lparr>e_close := Some 0\<rparr>))) (\<lambda>_. bindr end_session (\<lambda>_. ret ()))"


section \<open>What the handshake keeps\<close>

lemma session_kept_await_host_hello: "keeps session_kept (await_host_hello c deadline)"
proof -
  have "session_kept s (snd y)" if "await_host_hello c deadline s = Some y" for s y
  proof (rule await_host_hello.raw_induct [OF _ that])
    fix rec and c :: cobs and deadline s y
    assume IH: "\<And>c deadline s y. rec c deadline s = Some y \<Longrightarrow> session_kept s (snd y)"
      and body: "(case on_reader (next_packet (cobs_decode c) (Some deadline)) s of
        None \<Rightarrow> None
      | Some (r, s') \<Rightarrow>
          (case r of
             Err err \<Rightarrow> fail err s'
           | Ok packet \<Rightarrow> (case packet of None \<Rightarrow> rec c deadline s' | Some p \<Rightarrow> ret p s'))) = Some y"
    then obtain q s1 where step: "on_reader (next_packet (cobs_decode c) (Some deadline)) s = Some (q, s1)"
      by (auto split: option.splits)
    have "session_kept s s1" using keepsD [OF session_kept_reader step] .
    moreover have "session_kept s1 (snd y)"
      using body step IH [of c deadline s1 y] session.R_refl [of s1]
      by (cases q) (auto simp: fail_def ret_def split: option.splits)
    ultimately show "session_kept s (snd y)" by (rule session.R_trans)
  qed
  then show ?thesis by (fastforce simp: keeps_def)
qed


lemma session_kept_next_secret: "keeps session_kept (next_secret :: ('k server \<times> env, transport_error, nat) run)"
  by (auto simp: keeps_def session_kept_def next_secret_def ep_inv_def)

lemma session_kept_answer:
  assumes "cobs_codec c"
  shows "keeps session_kept (server_answer c cr wall attest deadline packet)"
  unfolding server_answer_def
  by (intro session_intros session_kept_next_secret keeps_state ob_kept_ops assms)

lemma session_kept_complete: "keeps session_kept (server_complete cr sender key hello packet)"
  unfolding server_complete_def by (intro session_intros keeps_state)

lemma session_kept_attempts:
  assumes "cobs_codec c"
  shows "keeps session_kept (server_attempts c cr wall attest deadline)"
proof -
  have answer: "keeps session_kept (bindr (await_host_hello c deadline) (server_answer c cr wall attest deadline))"
    if "cobs_codec c" for c cr wall attest deadline
    by (intro session_intros session_kept_await_host_hello session_kept_answer that)
  have "cobs_codec c \<longrightarrow> session_kept s (snd y)" if "server_attempts c cr wall attest deadline s = Some y" for s y
  proof (rule server_attempts.raw_induct [OF _ that], rule impI)
    fix rec and c :: cobs and cr :: "'k crypto" and wall attest deadline s y
    assume IH: "\<And>c cr wall attest deadline s y. rec c cr wall attest deadline s = Some y \<Longrightarrow> cobs_codec c \<longrightarrow> session_kept s (snd y)"
      and c: "cobs_codec c"
      and body: "(case bindr (await_host_hello c deadline) (server_answer c cr wall attest deadline) s of
        None \<Rightarrow> None
      | Some (r, s1) \<Rightarrow>
          (case r of
             Err err \<Rightarrow> fail err s1
           | Ok answered \<Rightarrow>
               (case on_reader (next_packet (cobs_decode c) (Some deadline)) s1 of
                  None \<Rightarrow> None
                | Some (q, s2) \<Rightarrow>
                    (case q of
                       Err err \<Rightarrow> fail err s2
                     | Ok packet \<Rightarrow>
                         (case packet of
                            None \<Rightarrow> rec c cr wall attest deadline s2
                          | Some p \<Rightarrow> (case answered of (sender, key, hello) \<Rightarrow> server_complete cr sender key hello p s2)))))) = Some y"
    from body obtain r s1 where ans: "bindr (await_host_hello c deadline) (server_answer c cr wall attest deadline) s = Some (r, s1)"
      by (auto split: option.splits)
    note k1 = keepsD [OF answer [OF c] ans]
    show "session_kept s (snd y)"
    proof (cases r)
      case (Inl err)
      with body ans k1 show ?thesis by (auto simp: fail_def)
    next
      case (Inr answered)
      with body ans obtain q s2 where rd: "on_reader (next_packet (cobs_decode c) (Some deadline)) s1 = Some (q, s2)"
        by (auto split: option.splits)
      note k2 = session.R_trans [OF k1 keepsD [OF session_kept_reader rd]]
      have "session_kept s2 (snd y)"
        using body ans Inr rd IH [of c cr wall attest deadline s2 y] c session.R_refl [of s2]
        by (cases y) (auto simp: fail_def split: sum.splits option.splits prod.splits
            dest: keepsD [OF session_kept_complete])
      with k2 show ?thesis by (rule session.R_trans)
    qed
  qed
  with assms show ?thesis by (fastforce simp: keeps_def)
qed

lemma session_kept_unbind: "keeps session_kept (on_writer writer_unbind)"
  by (intro session_kept_on_writer ob_kept_basic)

lemma session_kept_handshake:
  "cobs_codec c \<Longrightarrow> keeps session_kept (server_handshake c cr wall attest deadline)"
  unfolding server_handshake_def by (intro session_intros session_kept_attempts ob_kept_basic)

lemma session_kept_send_dropped: "keeps session_kept server_send_dropped"
  unfolding server_send_dropped_def
  by (intro session_intros ob_kept_ops(4) [OF stuffing.cobs_codec_axioms])



section \<open>One pass of the loop\<close>

text \<open>A handshake is requested only while there is no session.\<close>

definition sv_inv :: "'k server \<Rightarrow> bool" where
  "sv_inv sv \<longleftrightarrow> ep_inv sv \<and> (sv_handshake_deadline sv \<noteq> None \<longrightarrow> ep_receiver sv = None)"

text \<open>What a pass does to the session, by its result.\<close>

definition turn_outcome :: "'k server \<Rightarrow> (transport_error, event option) result \<Rightarrow> 'k server \<Rightarrow> bool" where
  "turn_outcome sv r sv' \<longleftrightarrow> sv_inv sv' \<and> (case r of
      Err _ \<Rightarrow> ep_receiver sv' = ep_receiver sv \<and> ep_sealer sv' = ep_sealer sv \<and> ep_next sv' = ep_next sv
    | Ok None \<Rightarrow> ep_receiver sv = None \<and> ep_receiver sv' = None \<and> ep_next sv' = ep_next sv
    | Ok (Some (Connected s)) \<Rightarrow> ep_receiver sv = None \<and> ep_receiver sv' \<noteq> None \<and> s = ep_next sv \<and>
        ep_sealer sv' = Some s \<and> ob_binding (ep_outbound sv') = Some s \<and> ep_next sv' = Suc s
    | Ok (Some Disconnected) \<Rightarrow> ep_receiver sv \<noteq> None \<and> ep_receiver sv' = None \<and>
        ob_binding (ep_outbound sv') = None \<and> ep_next sv' = ep_next sv
    | Ok (Some (Message m)) \<Rightarrow> ep_receiver sv \<noteq> None \<and> ep_receiver sv' \<noteq> None \<and>
        ep_sealer sv' = ep_sealer sv \<and> ob_binding (ep_outbound sv') = ep_sealer sv \<and> ep_next sv' = ep_next sv)"

lemma server_more: "endpoint.more sv' = endpoint.more sv \<Longrightarrow>
    sv_handshake_deadline sv' = sv_handshake_deadline sv \<and> sv_signer sv' = sv_signer sv"
  by (cases sv; cases sv') simp

lemma sv_kept:
  assumes "session_kept (sv, e) (sv', e')" and "sv_inv sv"
  shows "sv_inv sv'" "ep_receiver sv' = ep_receiver sv" "ep_sealer sv' = ep_sealer sv" "ep_next sv' = ep_next sv"
    "sv_handshake_deadline sv' = sv_handshake_deadline sv"
  using assms server_more [of sv' sv] by (auto simp: session_kept_def sv_inv_def)

lemma sv_end_session:
  assumes "end_session (sv, e) = Some (r, sv', e')" and "ep_inv sv"
  shows "sv_inv sv'" "r = Ok (ep_receiver sv \<noteq> None)" "ep_receiver sv' = None" "ob_binding (ep_outbound sv') = None"
    "ep_next sv' = ep_next sv"
  using end_session_effect [OF assms] by (auto simp: sv_inv_def)

lemma sv_send_dropped:
  assumes "server_send_dropped (sv, e) = Some (r, sv', e')" and "sv_inv sv"
  shows "sv_inv sv'" "r = Ok ()" "ep_receiver sv' = ep_receiver sv" "ep_sealer sv' = ep_sealer sv" "ep_next sv' = ep_next sv"
    "ob_binding (ep_outbound sv') = None"
proof -
  show "sv_inv sv'" "ep_receiver sv' = ep_receiver sv" "ep_sealer sv' = ep_sealer sv" "ep_next sv' = ep_next sv"
    using sv_kept [OF keepsD [OF session_kept_send_dropped assms(1)] assms(2)] by auto
  show "r = Ok ()" "ob_binding (ep_outbound sv') = None"
    using assms(1)
    by (auto simp: server_send_dropped_def attempt_Some_iff on_writer_Some outbound_send_dropped_def bindr_Some_iff
        writer_unbind_def budget_Some framer_Some)
qed


lemma sv_send_droppedD:
  "server_send_dropped (sv, e) = Some (r, sv', e') \<Longrightarrow> sv_inv sv \<Longrightarrow>
     sv_inv sv' \<and> r = Ok () \<and> ep_receiver sv' = ep_receiver sv \<and> ep_sealer sv' = ep_sealer sv \<and>
     ep_next sv' = ep_next sv \<and> ob_binding (ep_outbound sv') = None"
  using sv_send_dropped [of sv e r sv' e'] by blast

lemma sv_end_sessionD:
  "end_session (sv, e) = Some (r, sv', e') \<Longrightarrow> ep_inv sv \<Longrightarrow>
     sv_inv sv' \<and> r = Ok (ep_receiver sv \<noteq> None) \<and> ep_receiver sv' = None \<and> ob_binding (ep_outbound sv') = None \<and>
     ep_next sv' = ep_next sv"
  using sv_end_session [of sv e r sv' e'] by blast

lemma handshake_turn_outcome:
  assumes c: "cobs_codec c" and inv: "sv_inv sv" and none: "ep_receiver sv = None" "sv_handshake_deadline sv = None"
    and run: "handshake_turn c cr wall attest deadline (sv, e) = Some (r, sv', e')"
  shows "turn_outcome sv r sv'"
proof -
  from run obtain q sv1 e1 where hs: "server_handshake c cr wall attest deadline (sv, e) = Some (q, sv1, e1)"
    and rest: "(case q of
         Ok contexts \<Rightarrow> (case contexts of (sender, receiver) \<Rightarrow>
           bindr (new_session sender receiver) (\<lambda>session. ret (Some (Connected session))))
       | Err err \<Rightarrow>
           if read_failure err \<or> send_failure err then fail err
           else
             attempt (on_writer (outbound_send_dropped (Some deadline))) (\<lambda>_.
             attempt (on_clock (env_check_deadline deadline)) (\<lambda>q.
               case q of Err k \<Rightarrow> fail (RecvFailed k) | Ok _ \<Rightarrow> ret None))) (sv1, e1) = Some (r, sv', e')"
    by (auto simp: handshake_turn_def attempt_Some_iff)
  note k1 = sv_kept [OF keepsD [OF session_kept_handshake [OF c] hs] inv]
  have drop: "keeps session_kept (attempt (on_writer (outbound_send_dropped (Some deadline))) (\<lambda>_.
      attempt (on_clock (env_check_deadline deadline)) (\<lambda>q. case q of Err k \<Rightarrow> fail (RecvFailed k) | Ok _ \<Rightarrow> ret None))
      :: ('a server \<times> env, transport_error, event option) run)"
    by (intro session_intros ob_kept_ops(4) [OF c])
  show ?thesis
  proof (cases q)
    case (Inr contexts)
    with rest k1 none show ?thesis
      by (auto simp: bindr_Some_iff turn_outcome_def sv_inv_def split: prod.splits dest!: new_session_effect
          dest: server_more)
  next
    case (Inl err)
    show ?thesis
    proof (cases "read_failure err \<or> send_failure err")
      case True
      with Inl rest k1 show ?thesis by (auto simp: turn_outcome_def)
    next
      case False
      with Inl rest have "attempt (on_writer (outbound_send_dropped (Some deadline))) (\<lambda>_.
          attempt (on_clock (env_check_deadline deadline)) (\<lambda>q. case q of Err k \<Rightarrow> fail (RecvFailed k) | Ok _ \<Rightarrow> ret None))
          (sv1, e1) = Some (r, sv', e')" by simp
      note run2 = this and k2 = sv_kept [OF keepsD [OF drop this] k1(1)]
      have "r = Ok None \<or> (\<exists>k. r = Err (RecvFailed k))"
      proof -
        from run2 obtain q :: "(io_kind, unit) result" and s3 where "(case q of Err k \<Rightarrow> fail (RecvFailed k) | Ok _ \<Rightarrow> ret None) s3 = Some (r, sv', e')"
          unfolding attempt_Some_iff by blast
        then show ?thesis by (cases q) auto
      qed
      then show ?thesis
        using k1 k2 none by (auto simp: turn_outcome_def)
    qed
  qed
qed

lemma server_packet_outcome:
  assumes inv: "sv_inv sv" and run: "server_packet cr packet (sv, e) = Some (r, sv', e')"
  shows "turn_outcome sv r sv'"
proof (cases "ep_receiver sv")
  case None
  with run inv show ?thesis
    by (auto simp: server_packet_def bindr_Some_iff turn_outcome_def dest!: sv_send_droppedD)
next
  case (Some receiver)
  then obtain sealer where sealer: "ep_sealer sv = Some sealer" using inv by (auto simp: sv_inv_def ep_inv_def)
  let ?opened = "open_packet (cr_hpke cr) receiver packet"
  have inv1: "ep_inv (sv\<lparr>ep_receiver := Some ctx\<rparr>)" "sv_inv (sv\<lparr>ep_receiver := Some ctx\<rparr>)" for ctx
    using inv Some by (auto simp: sv_inv_def ep_inv_def)
  have ended: ?thesis
    if "bindr end_session (\<lambda>_. bindr server_send_dropped (\<lambda>_. ret (Some Disconnected))) (sv1, e) = Some (r, sv', e')"
      "ep_inv sv1" "ep_next sv1 = ep_next sv" for sv1
    using that Some
    by (auto simp: bindr_Some_iff turn_outcome_def dest!: sv_end_sessionD sv_send_droppedD)
  show ?thesis
  proof (cases "\<exists>m ctx. ?opened = Ok (m, ctx) \<and> ob_binding (ep_outbound sv) = Some sealer")
    case True
    with run Some sealer inv1 show ?thesis
      by (auto simp: server_packet_def finish_receive_def turn_outcome_def)
  next
    case False
    with run Some sealer inv1 inv obtain sv1 where
      "bindr end_session (\<lambda>_. bindr server_send_dropped (\<lambda>_. ret (Some Disconnected))) (sv1, e) = Some (r, sv', e')"
      "ep_inv sv1" "ep_next sv1 = ep_next sv"
      by (auto simp: server_packet_def finish_receive_def Let_def sv_inv_def split: sum.splits if_splits)
    then show ?thesis by (rule ended)
  qed
qed


lemma server_turn_outcome:
  assumes c: "cobs_codec c" and inv: "sv_inv sv"
    and run: "server_turn c cr wall attest others (sv, e) = Some (r, sv', e')"
  shows "turn_outcome sv r sv'"
proof (cases "sv_handshake_deadline sv")
  case (Some deadline)
  let ?sv = "sv\<lparr>sv_handshake_deadline := None\<rparr>"
  have "sv_inv ?sv" "ep_receiver ?sv = None" using inv Some by (auto simp: sv_inv_def ep_inv_def)
  with handshake_turn_outcome [OF c, of ?sv cr wall attest deadline e r sv' e'] run Some
  have "turn_outcome ?sv r sv'" by (simp add: server_turn_def)
  then show ?thesis by (auto simp: turn_outcome_def split: sum.splits option.splits event.splits)
next
  case None
  with run obtain q sv1 e1 u sv2 e2 where
    rd: "on_reader (next_packet (cobs_decode c) None) (sv, e) = Some (q, sv1, e1)"
    and mw: "meanwhile c others (sv1, e1) = Some (Ok u :: (transport_error, unit) result, sv2, e2)"
    and rest: "(case q of
           Err err \<Rightarrow>
             if read_failure err then fail err
             else bindr end_session (\<lambda>ended. bindr server_send_dropped (\<lambda>_.
               ret (if ended then Some Disconnected else None)))
         | Ok None \<Rightarrow>
             bindr (\<lambda>(sv, e). on_clock (env_deadline_after (ep_handshake_timeout sv)) (sv, e)) (\<lambda>deadline.
             bindr (act (\<lambda>(sv, e). ((), sv\<lparr>sv_handshake_deadline := Some deadline\<rparr>, e))) (\<lambda>_.
             bindr end_session (\<lambda>ended. ret (if ended then Some Disconnected else None))))
         | Ok (Some packet) \<Rightarrow> server_packet cr packet) (sv2, e2) = Some (r, sv', e')"
    by (auto simp: server_turn_def attempt_Some_iff bindr_Some_iff [of "meanwhile c others"])
  note k = sv_kept [OF session.R_trans [OF keepsD [OF session_kept_reader rd] keepsD [OF session_kept_meanwhile [OF c] mw]] inv]
  have same: "turn_outcome sv2 r sv' \<Longrightarrow> turn_outcome sv r sv'"
    using k(2,3,4) by (auto simp: turn_outcome_def split: sum.splits option.splits event.splits)
  have ep: "ep_inv sv2" "ep_inv (sv2\<lparr>sv_handshake_deadline := d\<rparr>)" for d
    using k(1) by (auto simp: sv_inv_def ep_inv_def)
  show ?thesis
  proof (cases q)
    case (Inl err)
    with rest k(1) ep(1) have "turn_outcome sv2 r sv'"
      by (auto simp: turn_outcome_def bindr_Some_iff split: if_splits dest!: sv_end_sessionD sv_send_droppedD)
    then show ?thesis by (rule same)
  next
    case (Inr p)
    show ?thesis
    proof (cases p)
      case None
      with rest Inr ep(2) have "turn_outcome sv2 r sv'"
        by (auto simp: turn_outcome_def bindr_Some_iff on_clock_Some split: if_splits dest!: sv_end_sessionD)
      then show ?thesis by (rule same)
    next
      case (Some packet)
      with rest Inr k(1) have "turn_outcome sv2 r sv'" by (auto intro: server_packet_outcome)
      then show ?thesis by (rule same)
    qed
  qed
qed



section \<open>Whole calls and histories\<close>

abbreviation as_turn :: "(transport_error, event) result \<Rightarrow> (transport_error, event option) result" where
  "as_turn r \<equiv> map_sum id Some r"

lemma turn_outcome_trans:
  assumes "turn_outcome sv (Ok None) sv1" and "turn_outcome sv1 (as_turn r) sv'" and "sv_inv sv"
  shows "turn_outcome sv (as_turn r) sv'"
proof -
  have "ep_sealer sv = None" "ep_sealer sv1 = None"
    using assms(1,3) by (auto simp: turn_outcome_def sv_inv_def ep_inv_def)
  with assms(1,2) show ?thesis
    by (cases r) (auto simp: turn_outcome_def split: event.splits)
qed

lemma server_recv_outcome:
  assumes "cobs_codec c" and "sv_inv sv" and "server_recv c cr wall attest others (sv, e) = Some (r, sv', e')"
  shows "turn_outcome sv (as_turn r) sv'"
proof -
  have "cobs_codec c \<longrightarrow> sv_inv (fst s) \<longrightarrow> turn_outcome (fst s) (as_turn (fst y)) (fst (snd y))"
    if "server_recv c cr wall attest others s = Some y" for s y
  proof (rule server_recv.raw_induct [OF _ that], intro impI)
    fix rec and c :: cobs and cr :: "'a crypto" and wall attest others s y
    assume IH: "\<And>c cr wall attest others s y. rec c cr wall attest others s = Some y \<Longrightarrow>
        cobs_codec c \<longrightarrow> sv_inv (fst s) \<longrightarrow> turn_outcome (fst s) (as_turn (fst y)) (fst (snd y))"
      and c: "cobs_codec c" and inv: "sv_inv (fst s)"
      and body: "(case server_turn c cr wall attest (case others of [] \<Rightarrow> [] | ops # _ \<Rightarrow> ops) s of
        None \<Rightarrow> None
      | Some (r, s') \<Rightarrow>
          (case r of
             Err err \<Rightarrow> fail err s'
           | Ok next \<Rightarrow>
               (case next of
                  Some event \<Rightarrow> ret event s'
                | None \<Rightarrow> rec c cr wall attest (tl others) s'))) = Some y"
    obtain sv e where s: "s = (sv, e)" by fastforce
    from body obtain q s1 where step: "server_turn c cr wall attest (case others of [] \<Rightarrow> [] | ops # _ \<Rightarrow> ops) s = Some (q, s1)"
      by (auto split: option.splits)
    obtain sv1 e1 where s1: "s1 = (sv1, e1)" by fastforce
    from server_turn_outcome [OF c] step s s1 inv have out: "turn_outcome sv q sv1" by auto
    show "turn_outcome (fst s) (as_turn (fst y)) (fst (snd y))"
    proof (cases "q = Ok None")
      case True
      with body step have "rec c cr wall attest (tl others) s1 = Some y" by simp
      moreover have "sv_inv sv1" using out by (simp add: turn_outcome_def)
      ultimately have "turn_outcome sv1 (as_turn (fst y)) (fst (snd y))"
        using IH [of c cr wall attest "tl others" s1 y] c s1 by simp
      with out True inv s show ?thesis using turn_outcome_trans by simp
    next
      case False
      with body step out s s1 show ?thesis
        by (cases q) (auto simp: fail_def ret_def split: option.splits)
    qed
  qed
  from this [OF assms(3)] assms(1,2) show ?thesis by simp
qed

text \<open>A history of calls of the server's owner, and what it observes: the events of its receives, and
  its own disconnects.\<close>

datatype call = CallRecv "ob_op list list" | CallDisconnect
datatype observed = Saw event | Left

fun server_calls ::
  "cobs \<Rightarrow> 'k crypto \<Rightarrow> (instant \<Rightarrow> int) \<Rightarrow> (nat \<Rightarrow> bytes) \<Rightarrow> call list \<Rightarrow> 'k server \<times> env \<Rightarrow>
   (observed list \<times> 'k server \<times> env) option" where
  "server_calls c cr wall attest [] s = Some ([], s)"
| "server_calls c cr wall attest (CallRecv others # calls) s =
     (case server_recv c cr wall attest others s of
        None \<Rightarrow> None
      | Some (r, s') \<Rightarrow> map_option (\<lambda>(log, s''). ((case r of Ok ev \<Rightarrow> [Saw ev] | Err _ \<Rightarrow> []) @ log, s''))
          (server_calls c cr wall attest calls s'))"
| "server_calls c cr wall attest (CallDisconnect # calls) s =
     (case server_disconnect s of
        None \<Rightarrow> None
      | Some (r :: (transport_error, unit) result, s') \<Rightarrow>
          map_option (\<lambda>(log, s''). (Left # log, s'')) (server_calls c cr wall attest calls s'))"

text \<open>A session opens with its \<open>Connected\<close> event, has messages only while it is open, and ends once,
  either by an event or by the owner; each session has a greater number than all before.\<close>

fun bracketed :: "bool \<Rightarrow> nat \<Rightarrow> observed list \<Rightarrow> bool" where
  "bracketed is_open n [] \<longleftrightarrow> True"
| "bracketed is_open n (Saw (Connected s) # log) \<longleftrightarrow> \<not> is_open \<and> n \<le> s \<and> bracketed True (Suc s) log"
| "bracketed is_open n (Saw (Message m) # log) \<longleftrightarrow> is_open \<and> bracketed True n log"
| "bracketed is_open n (Saw Disconnected # log) \<longleftrightarrow> is_open \<and> bracketed False n log"
| "bracketed is_open n (Left # log) \<longleftrightarrow> bracketed False n log"

lemma server_disconnect_effect:
  assumes "server_disconnect (sv, e) = Some (r, sv', e')" and "sv_inv sv"
  shows "sv_inv sv' \<and> ep_receiver sv' = None \<and> ob_binding (ep_outbound sv') = None \<and> ep_next sv' = ep_next sv"
  using assms by (auto simp: server_disconnect_def bindr_Some_iff sv_inv_def [of sv] dest!: sv_end_sessionD sv_send_droppedD)

lemma server_calls_bracketed:
  assumes "cobs_codec c" and "server_calls c cr wall attest calls (sv, e) = Some (log, s')" and "sv_inv sv"
  shows "bracketed (ep_receiver sv \<noteq> None) (ep_next sv) log"
  using assms(2,3)
proof (induction calls arbitrary: sv e log)
  case (Cons call calls)
  show ?case
  proof (cases call)
    case (CallRecv others)
    with Cons.prems(1) obtain r sv1 e1 log1 where
      run: "server_recv c cr wall attest others (sv, e) = Some (r, sv1, e1)"
      and rest: "server_calls c cr wall attest calls (sv1, e1) = Some (log1, s')"
      and log: "log = (case r of Ok ev \<Rightarrow> [Saw ev] | Err _ \<Rightarrow> []) @ log1" by (auto split: option.splits)
    have out: "turn_outcome sv (as_turn r) sv1" by (rule server_recv_outcome [OF assms(1) Cons.prems(2) run])
    with Cons.IH [OF rest] have IH: "bracketed (ep_receiver sv1 \<noteq> None) (ep_next sv1) log1"
      by (simp add: turn_outcome_def)
    show ?thesis
    proof (cases r)
      case (Inl err)
      with IH out log show ?thesis by (simp add: turn_outcome_def)
    next
      case (Inr ev)
      with IH out log show ?thesis by (cases ev) (auto simp: turn_outcome_def)
    qed
  next
    case CallDisconnect
    with Cons.prems(1) obtain r sv1 e1 log1 where
      run: "server_disconnect (sv, e) = Some (r :: (transport_error, unit) result, sv1, e1)"
      and rest: "server_calls c cr wall attest calls (sv1, e1) = Some (log1, s')" and log: "log = Left # log1"
      by (auto split: option.splits)
    from server_disconnect_effect [OF run Cons.prems(2)] Cons.IH [OF rest] log show ?thesis by auto
  qed
qed simp


section \<open>Authenticity\<close>

text \<open>An attempt the client abandoned: the server answered a hello, and the next frame it read was
  another reset.\<close>

definition abandoned ::
  "cobs \<Rightarrow> 'k crypto \<Rightarrow> (instant \<Rightarrow> int) \<Rightarrow> (nat \<Rightarrow> bytes) \<Rightarrow> instant \<Rightarrow> 'k server \<times> env \<Rightarrow> 'k server \<times> env \<Rightarrow> bool" where
  "abandoned c cr wall attest deadline s s' \<longleftrightarrow>
     (\<exists>answer s1. bindr (await_host_hello c deadline) (server_answer c cr wall attest deadline) s = Some (Ok answer, s1) \<and>
        on_reader (next_packet (cobs_decode c) (Some deadline)) s1 = Some (Ok None, s'))"

text \<open>The answer to \<open>hello\<close> whose key is the secret drawn at position \<open>n\<close>: the sending context is made for
  the host's key, and the sealed packet that was sent carries the public key of that secret.\<close>

definition hello_answered ::
  "cobs \<Rightarrow> 'k crypto \<Rightarrow> (instant \<Rightarrow> int) \<Rightarrow> (nat \<Rightarrow> bytes) \<Rightarrow> instant \<Rightarrow> host_hello \<Rightarrow> nat \<Rightarrow> 'k \<Rightarrow>
   'k server \<times> env \<Rightarrow> 'k server \<times> env \<Rightarrow> bool" where
  "hello_answered c cr wall attest deadline hello n sender s s' \<longleftrightarrow>
     (\<exists>encap time sealed. n = ep_secrets (fst s) \<and>
        cr_new_sender cr (host_crypto hello) ArkToHost (n + 1) = Ok (sender, encap) \<and>
        timestamp wall (now_at (e_clock (snd s))) = Some time \<and>
        cr_seal_hello cr \<lparr>ark_attest = attest (n + 2), ark_crypto = cr_crypto_public cr (cr_secret cr n), a2h_encap = encap\<rparr>
          \<lparr>aha_host_signer = host_signer hello, aha_host_crypto = host_crypto hello\<rparr>
          (sv_signer (fst s)) (host_crypto hello) time = Ok sealed \<and>
        on_writer (outbound_send_packet c sealed (Some deadline)) ((fst s)\<lparr>ep_secrets := n + 3\<rparr>, snd s) = Some (Ok (), s'))"

text \<open>What has been checked when a handshake that began in \<open>s\<close> succeeds: after the abandoned attempts a
  hello was read and answered with the secret \<open>n\<close>, and the very next packet is an acknowledgment that
  opens for this secret and the server's own identity, signed by the host key of that hello; the
  receive context is the one that acknowledgment sets up.\<close>

definition acknowledged ::
  "cobs \<Rightarrow> 'k crypto \<Rightarrow> (instant \<Rightarrow> int) \<Rightarrow> (nat \<Rightarrow> bytes) \<Rightarrow> instant \<Rightarrow> nat \<Rightarrow> 'k \<Rightarrow> 'k \<Rightarrow>
   'k server \<times> env \<Rightarrow> 'k server \<times> env \<Rightarrow> bool" where
  "acknowledged c cr wall attest deadline n sender receiver s s' \<longleftrightarrow>
     (\<exists>s0 hello_packet s1 hello s2 packet ack.
        (abandoned c cr wall attest deadline)\<^sup>*\<^sup>* s s0 \<and>
        await_host_hello c deadline s0 = Some (Ok hello_packet, s1) \<and> cr_decode_hello cr hello_packet = Ok hello \<and>
        hello_answered c cr wall attest deadline hello n sender s1 s2 \<and>
        on_reader (next_packet (cobs_decode c) (Some deadline)) s2 = Some (Ok (Some packet), s') \<and>
        cr_open_ack cr packet \<lparr>haa_ark_signer = cr_signer_public cr (sv_signer (fst s)),
            haa_ark_crypto = cr_crypto_public cr (cr_secret cr n)\<rparr> (cr_secret cr n) (host_signer hello) = Ok ack \<and>
        length (h2a_encap ack) = cr_encap_size cr \<and>
        cr_new_receiver cr (cr_secret cr n) (h2a_encap ack) HostToArk = Ok receiver)"

text \<open>Reading and sending draw no secret and leave the identity alone.\<close>

definition identity_kept :: "'k server \<times> env \<Rightarrow> 'k server \<times> env \<Rightarrow> bool" where
  "identity_kept s s' \<longleftrightarrow> sv_signer (fst s') = sv_signer (fst s) \<and> ep_secrets (fst s') = ep_secrets (fst s)"

lemma identity_trans: "identity_kept s t \<Longrightarrow> identity_kept t u \<Longrightarrow> identity_kept s u"
  by (simp add: identity_kept_def)

lemma identity_reader: "on_reader m s = Some (r, s') \<Longrightarrow> identity_kept s s'"
  by (cases s) (auto simp: on_reader_Some identity_kept_def)

lemma identity_writer: "on_writer m s = Some (r, s') \<Longrightarrow> identity_kept s s'"
  by (cases s) (auto simp: on_writer_Some identity_kept_def)

lemma identity_await:
  assumes "await_host_hello c deadline s = Some (r, s')"
  shows "identity_kept s s'"
proof -
  have "identity_kept s (snd y)" if "await_host_hello c deadline s = Some y" for y
  proof (rule await_host_hello.raw_induct [OF _ that])
    fix rec and c :: cobs and deadline s y
    assume IH: "\<And>c deadline s y. rec c deadline s = Some y \<Longrightarrow> identity_kept s (snd y)"
      and body: "(case on_reader (next_packet (cobs_decode c) (Some deadline)) s of
        None \<Rightarrow> None
      | Some (r, s') \<Rightarrow>
          (case r of
             Err err \<Rightarrow> fail err s'
           | Ok packet \<Rightarrow> (case packet of None \<Rightarrow> rec c deadline s' | Some p \<Rightarrow> ret p s'))) = Some y"
    then obtain q s1 where step: "on_reader (next_packet (cobs_decode c) (Some deadline)) s = Some (q, s1)"
      by (auto split: option.splits)
    have "snd y = s1 \<or> rec c deadline s1 = Some y"
      using body step by (cases q) (auto simp: fail_def ret_def split: option.splits)
    with IH [of c deadline s1 y] identity_reader [OF step] show "identity_kept s (snd y)"
      by (auto intro: identity_trans)
  qed
  from this [OF assms] show ?thesis by simp
qed

lemma server_answer_Ok:
  assumes "server_answer c cr wall attest deadline packet s = Some (Ok (sender, key, hello), s')"
  obtains n where "cr_decode_hello cr packet = Ok hello" "key = cr_secret cr n"
    "hello_answered c cr wall attest deadline hello n sender s s'"
  using assms unfolding server_answer_def hello_answered_def
  by (cases s) (auto simp: bindr_Some_iff or_failed_Ok next_secret_def on_clock_Some numeral_2_eq_2 numeral_3_eq_3)

lemma hello_answered_identity:
  assumes "hello_answered c cr wall attest deadline hello n sender s s'"
  shows "n = ep_secrets (fst s)" and "ep_secrets (fst s') = n + 3" and "sv_signer (fst s') = sv_signer (fst s)"
  using assms identity_writer unfolding hello_answered_def identity_kept_def by fastforce+

lemma abandoned_identity:
  assumes "abandoned c cr wall attest deadline s s'"
  shows "sv_signer (fst s') = sv_signer (fst s)" and "ep_secrets (fst s) \<le> ep_secrets (fst s')"
proof -
  from assms obtain p s0 sender key hello s1 where hello: "await_host_hello c deadline s = Some (Ok p, s0)"
    and ans: "server_answer c cr wall attest deadline p s0 = Some (Ok (sender, key, hello), s1)"
    and rd: "on_reader (next_packet (cobs_decode c) (Some deadline)) s1 = Some (Ok None, s')"
    unfolding abandoned_def by (auto simp: bindr_Some_iff)
  obtain n where "hello_answered c cr wall attest deadline hello n sender s0 s1" using server_answer_Ok [OF ans] by blast
  from hello_answered_identity [OF this] identity_await [OF hello] identity_reader [OF rd]
  show "sv_signer (fst s') = sv_signer (fst s)" and "ep_secrets (fst s) \<le> ep_secrets (fst s')"
    by (simp_all add: identity_kept_def)
qed

lemma server_complete_Ok:
  assumes "server_complete cr sender key hello packet s = Some (Ok (sender', receiver), s')"
  shows "\<exists>ack. cr_open_ack cr packet \<lparr>haa_ark_signer = cr_signer_public cr (sv_signer (fst s)),
        haa_ark_crypto = cr_crypto_public cr key\<rparr> key (host_signer hello) = Ok ack \<and>
      length (h2a_encap ack) = cr_encap_size cr \<and> cr_new_receiver cr key (h2a_encap ack) HostToArk = Ok receiver"
    and "sender' = sender \<and> s' = s"
  using assms unfolding server_complete_def
  by (cases s; auto simp: bindr_Some_iff or_failed_Ok split: if_splits)+

text \<open>An attempt that succeeds was acknowledged, and one after an abandoned attempt counts for both.\<close>

lemma acknowledged_now:
  assumes "bindr (await_host_hello c deadline) (server_answer c cr wall attest deadline) s = Some (Ok (sender, key, hello), s1)"
    and rd: "on_reader (next_packet (cobs_decode c) (Some deadline)) s1 = Some (Ok (Some p), s2)"
    and fin: "server_complete cr sender key hello p s2 = Some (Ok (sender', receiver), s')"
  shows "\<exists>n. acknowledged c cr wall attest deadline n sender' receiver s s' \<and>
    ep_secrets (fst s) \<le> n \<and> ep_secrets (fst s') = n + 3"
proof -
  from assms(1) obtain p1 s0 where hello: "await_host_hello c deadline s = Some (Ok p1, s0)"
    and ans: "server_answer c cr wall attest deadline p1 s0 = Some (Ok (sender, key, hello), s1)"
    by (auto simp: bindr_Some_iff)
  obtain n where n: "cr_decode_hello cr p1 = Ok hello" "key = cr_secret cr n"
    "hello_answered c cr wall attest deadline hello n sender s0 s1" by (rule server_answer_Ok [OF ans])
  note ids = hello_answered_identity [OF n(3)] identity_await [OF hello] identity_reader [OF rd]
  then have signer: "sv_signer (fst s2) = sv_signer (fst s)" by (simp add: identity_kept_def)
  have "acknowledged c cr wall attest deadline n sender' receiver s s'"
    using server_complete_Ok [OF fin] signer hello n rd unfolding acknowledged_def n(2)
    by (metis rtranclp.rtrancl_refl)
  with ids server_complete_Ok(2) [OF fin] show ?thesis by (auto simp: identity_kept_def)
qed

lemma acknowledged_later:
  assumes "abandoned c cr wall attest deadline s s1" and "acknowledged c cr wall attest deadline n sender receiver s1 s'"
  shows "acknowledged c cr wall attest deadline n sender receiver s s'"
  using assms(2) abandoned_identity(1) [OF assms(1)]
    converse_rtranclp_into_rtranclp [of "abandoned c cr wall attest deadline", OF assms(1)]
  unfolding acknowledged_def by metis

lemma server_attempts_authentic:
  assumes "server_attempts c cr wall attest deadline s = Some (Ok (sender, receiver), s')"
  shows "\<exists>n. acknowledged c cr wall attest deadline n sender receiver s s' \<and>
    ep_secrets (fst s) \<le> n \<and> ep_secrets (fst s') = n + 3"
proof -
  have "\<forall>sender receiver. fst y = Ok (sender, receiver) \<longrightarrow>
      (\<exists>n. acknowledged c cr wall attest deadline n sender receiver s (snd y) \<and> ep_secrets (fst s) \<le> n \<and> ep_secrets (fst (snd y)) = n + 3)"
    if "server_attempts c cr wall attest deadline s = Some y" for y
  proof (rule server_attempts.raw_induct [OF _ that], intro impI allI)
    fix rec and c :: cobs and cr :: "'a crypto" and wall attest deadline s y sender receiver
    assume IH: "\<And>c cr wall attest deadline s y. rec c cr wall attest deadline s = Some y \<Longrightarrow>
        \<forall>sender receiver. fst y = Ok (sender, receiver) \<longrightarrow>
          (\<exists>n. acknowledged c cr wall attest deadline n sender receiver s (snd y) \<and> ep_secrets (fst s) \<le> n \<and> ep_secrets (fst (snd y)) = n + 3)"
      and y: "fst y = Ok (sender, receiver)"
      and body: "(case bindr (await_host_hello c deadline) (server_answer c cr wall attest deadline) s of
        None \<Rightarrow> None
      | Some (r, s1) \<Rightarrow>
          (case r of
             Err err \<Rightarrow> fail err s1
           | Ok answered \<Rightarrow>
               (case on_reader (next_packet (cobs_decode c) (Some deadline)) s1 of
                  None \<Rightarrow> None
                | Some (q, s2) \<Rightarrow>
                    (case q of
                       Err err \<Rightarrow> fail err s2
                     | Ok packet \<Rightarrow>
                         (case packet of
                            None \<Rightarrow> rec c cr wall attest deadline s2
                          | Some p \<Rightarrow> (case answered of (sender, key, hello) \<Rightarrow> server_complete cr sender key hello p s2)))))) = Some y"
    from body y obtain sender0 key hello s1 q s2 where
      ans: "bindr (await_host_hello c deadline) (server_answer c cr wall attest deadline) s = Some (Ok (sender0, key, hello), s1)"
      and rd: "on_reader (next_packet (cobs_decode c) (Some deadline)) s1 = Some (Ok q, s2)"
      and rest: "(case q of None \<Rightarrow> rec c cr wall attest deadline s2 | Some p \<Rightarrow> server_complete cr sender0 key hello p s2) = Some y"
      by (auto simp: fail_def split: option.splits sum.splits)
    show "\<exists>n. acknowledged c cr wall attest deadline n sender receiver s (snd y) \<and> ep_secrets (fst s) \<le> n \<and> ep_secrets (fst (snd y)) = n + 3"
    proof (cases q)
      case None
      then have ab: "abandoned c cr wall attest deadline s s2" using ans rd unfolding abandoned_def by blast
      from None rest IH [of c cr wall attest deadline s2 y] y
      obtain n where "acknowledged c cr wall attest deadline n sender receiver s2 (snd y)" "ep_secrets (fst s2) \<le> n"
        "ep_secrets (fst (snd y)) = n + 3" by auto
      with acknowledged_later [OF ab] abandoned_identity(2) [OF ab] show ?thesis by (meson le_trans)
    next
      case (Some p)
      with rest y have "server_complete cr sender0 key hello p s2 = Some (Ok (sender, receiver), snd y)"
        by (cases y) simp
      with acknowledged_now [OF ans] rd Some show ?thesis by blast
    qed
  qed
  from this [OF assms] show ?thesis by simp
qed


lemma server_turn_connected:
  assumes "server_turn c cr wall attest others (sv, e) = Some (Ok (Some (Connected s)), sv', e')"
  obtains deadline where "sv_handshake_deadline sv = Some deadline"
    "handshake_turn c cr wall attest deadline (sv\<lparr>sv_handshake_deadline := None\<rparr>, e) = Some (Ok (Some (Connected s)), sv', e')"
proof (cases "sv_handshake_deadline sv")
  case (Some deadline)
  with assms that show thesis by (simp add: server_turn_def)
next
  case None
  have packet: "server_packet cr p t \<noteq> Some (Ok (Some (Connected s)), sv', e')" for p t
    by (cases t) (auto simp: server_packet_def bindr_Some_iff Let_def split: option.splits sum.splits if_splits)
  from None assms obtain q s1 where "bindr (meanwhile c others) (\<lambda>_.
         case q of
           Err err \<Rightarrow>
             if read_failure err then fail err
             else bindr end_session (\<lambda>ended. bindr server_send_dropped (\<lambda>_.
               ret (if ended then Some Disconnected else None)))
         | Ok None \<Rightarrow>
             bindr (\<lambda>(sv, e). on_clock (env_deadline_after (ep_handshake_timeout sv)) (sv, e)) (\<lambda>deadline.
             bindr (act (\<lambda>(sv, e). ((), sv\<lparr>sv_handshake_deadline := Some deadline\<rparr>, e))) (\<lambda>_.
             bindr end_session (\<lambda>ended. ret (if ended then Some Disconnected else None))))
         | Ok (Some packet) \<Rightarrow> server_packet cr packet) s1 = Some (Ok (Some (Connected s)), sv', e')"
    by (auto simp: server_turn_def attempt_Some_iff)
  with packet show thesis
    by (cases q) (auto simp: bindr_Some_iff split: if_splits option.splits)
qed


section \<open>Properties of the server\<close>

text \<open>C11: over any history of receives and local disconnects, with senders on other threads
  interfering at will, the owner sees well-formed sessions: each begins with its own event and a
  number never used before, messages arrive only inside a session, and its end is reported
  exactly once or not at all when the owner ended it.\<close>

theorem server_events_bracketed:
  assumes "cobs_codec c" and "server_calls c cr wall attest calls (server_new signer timeout, e) = Some (log, s')"
  shows "bracketed False 0 log"
proof -
  have inv: "sv_inv (server_new signer timeout :: 'a server)"
    using ep_inv_new [of ServerSide timeout]
    by (simp add: sv_inv_def ep_inv_def server_new_def endpoint.extend_def endpoint_new_def)
  from server_calls_bracketed [OF assms this] show ?thesis
    by (simp add: server_new_def endpoint.extend_def endpoint_new_def)
qed

text \<open>One receive call changes the session only in the way its result says. A failed read or the
  end of the stream leaves the session as it is, a session starts with a fresh number that alone
  is bound, a disconnect leaves nothing bound, and a message is delivered only while its session
  is bound.\<close>

theorem server_recv_session:
  assumes "cobs_codec c" and "sv_inv sv" and "server_recv c cr wall attest others (sv, e) = Some (r, sv', e')"
  shows "turn_outcome sv (as_turn r) sv'"
  using assms by (rule server_recv_outcome)

text \<open>C19: a session is reported only after the client acknowledged this very attempt. The secret of the
  attempt is the last key drawn, at a position no earlier handshake of this server used; the sealed
  hello that carries its public key answers the last hello read, and the packet read next is an
  acknowledgment that opens with this secret, signed by that hello's host key and bound to the
  server's identity. The session's two contexts are those of this attempt.\<close>

theorem server_session_authentic:
  assumes "server_turn c cr wall attest others (sv, e) = Some (Ok (Some (Connected s)), sv', e')"
  shows "\<exists>deadline begun n sender receiver ended. sv_handshake_deadline sv = Some deadline \<and>
    on_writer writer_unbind (sv\<lparr>sv_handshake_deadline := None\<rparr>, e) =
      Some (Ok () :: (transport_error, unit) result, begun) \<and>
    acknowledged c cr wall attest deadline n sender receiver begun ended \<and>
    ep_secrets sv \<le> n \<and> ep_secrets sv' = n + 3 \<and>
    ep_receiver sv' = Some receiver \<and> ep_sealer sv' = Some s \<and> ep_sealers sv' s = Some sender"
proof -
  from assms obtain deadline where dl: "sv_handshake_deadline sv = Some deadline" and
    run: "handshake_turn c cr wall attest deadline (sv\<lparr>sv_handshake_deadline := None\<rparr>, e) = Some (Ok (Some (Connected s)), sv', e')"
    by (rule server_turn_connected)
  from run obtain sender receiver s1 where
    hs: "server_handshake c cr wall attest deadline (sv\<lparr>sv_handshake_deadline := None\<rparr>, e) = Some (Ok (sender, receiver), s1)"
    and ns: "new_session sender receiver s1 = Some (Ok s :: (transport_error, nat) result, sv', e')"
  proof -
    from run obtain q s1 where hs: "server_handshake c cr wall attest deadline (sv\<lparr>sv_handshake_deadline := None\<rparr>, e) = Some (q, s1)"
      and rest: "(case q of
         Ok contexts \<Rightarrow> (case contexts of (sender, receiver) \<Rightarrow>
           bindr (new_session sender receiver) (\<lambda>session. ret (Some (Connected session))))
       | Err err \<Rightarrow>
           if read_failure err \<or> send_failure err then fail err
           else
             attempt (on_writer (outbound_send_dropped (Some deadline))) (\<lambda>_.
             attempt (on_clock (env_check_deadline deadline)) (\<lambda>q.
               case q of Err k \<Rightarrow> fail (RecvFailed k) | Ok _ \<Rightarrow> ret None))) s1 = Some (Ok (Some (Connected s)), sv', e')"
      unfolding handshake_turn_def attempt_Some_iff by blast
    show thesis
    proof (cases q)
      case (Inr contexts)
      with rest hs that show thesis by (cases contexts) (auto simp: bindr_Some_iff)
    next
      case (Inl err)
      have no: "(case k of Err k \<Rightarrow> fail (RecvFailed k) | Ok _ \<Rightarrow> ret None) t \<noteq> Some (Ok (Some (Connected s)), sv', e')"
        for k :: "(io_kind, unit) result" and t by (cases k) auto
      with rest Inl show thesis by (simp only: sum.case attempt_Some_iff split: if_splits) (auto simp: no)
    qed
  qed
  from hs obtain begun where ub: "on_writer writer_unbind (sv\<lparr>sv_handshake_deadline := None\<rparr>, e) =
      Some (Ok () :: (transport_error, unit) result, begun)"
    and at: "server_attempts c cr wall attest deadline begun = Some (Ok (sender, receiver), s1)"
    by (auto simp: server_handshake_def bindr_Some_iff)
  have "ep_secrets sv' = ep_secrets (fst s1)" "ep_receiver sv' = Some receiver" "ep_sealer sv' = Some s"
    "ep_sealers sv' s = Some sender"
    using ns by (cases s1; auto simp: new_session_def bindr_Some_iff on_writer_Some writer_bind_def)+
  moreover obtain n where "acknowledged c cr wall attest deadline n sender receiver begun s1"
    "ep_secrets (fst begun) \<le> n" "ep_secrets (fst s1) = n + 3" using server_attempts_authentic [OF at] by blast
  moreover have "ep_secrets (fst begun) = ep_secrets sv" using identity_writer [OF ub] by (simp add: identity_kept_def)
  ultimately show ?thesis using dl ub by metis
qed



section \<open>A handshake in full\<close>

definition host_bytes :: bytes where
  "host_bytes = [0, 2, 5, 0, 2, 3, 0]"

definition host_reader :: "nat \<Rightarrow> frame_reader" where
  "host_reader k = \<lparr>fr_buffer = host_bytes @ replicate (MAX_FRAME_SIZE - 6) 0, fr_filled = 7,
     fr_offset = k, fr_search = k, fr_discard = False\<rparr>"

lemma host_packets:
  "next_packet unstuff None (frame_reader_new, demo_wrote host_bytes (e_reads demo_env) out n) =
     Some (Ok None, host_reader (Suc 0), demo_wrote [] [] out n)"
  "0 < d \<Longrightarrow> next_packet unstuff (Some d) (host_reader (Suc 0), demo_wrote [] [] out n) =
     Some (Ok (Some [5]), host_reader 4, demo_wrote [] [] out n)"
  "0 < d \<Longrightarrow> next_packet unstuff (Some d) (host_reader 4, demo_wrote [] [] out n) =
     Some (Ok (Some [3]), host_reader 7, demo_wrote [] [] out n)"
  by (simp_all add: next_packet_def next_frame.simps frame_reader_new_def demo_env_def opt_check_deadline_def
      env_check_deadline_def check_deadline_def clock_now_def ret_def read_half.simps bindr_def attempt_def enter_def
      act_def rd_call_def take_input_def Let_def fr_compact_def subvec_def splice_at_def MAX_FRAME_SIZE_def
      unstuff.simps host_reader_def host_bytes_def)

definition demo_server :: "nat server" where
  "demo_server = server_new [4] 9"

lemma demo_server_attempt:
  assumes "0 < d" and "ep_outbound sv = outbound_new ServerSide 9" and "ep_reader sv = host_reader (Suc 0)" and "ep_secrets sv = 0"
  shows "\<exists>fw. server_attempts cobs_reference demo_crypto (\<lambda>_. 0) (\<lambda>_. [5]) d (sv, demo_wrote [] [] [] 9) =
    Some (Ok (1, 7), sv\<lparr>ep_reader := host_reader 7, ep_secrets := 3, ep_outbound := (outbound_new ServerSide 9)\<lparr>ob_writer := fw\<rparr>\<rparr>,
      demo_wrote [] [] (stuff [4, 2, 1] @ [0]) 6)"
proof -
  let ?ob = "outbound_new ServerSide 9"
  have dec: "cobs_decode cobs_reference = unstuff" by (simp add: cobs_reference_def)
  obtain fw where send: "outbound_send_packet cobs_reference [4, 2, 1] (Some d) (?ob, demo_wrote [] [] [] 9) =
      Some (Ok (), ?ob\<lparr>ob_writer := fw\<rparr>, demo_wrote [] [] (stuff [4, 2, 1] @ [0]) 6)"
    using demo_send [of ?ob "[4, 2, 1]" d 6 "[]" "[]" "[]"] assms(1)
    by (auto simp: outbound_new_def fw_inv_new frame_writer_new_def [THEN arg_cong, of fw_resync])
  have await: "await_host_hello cobs_reference d (sv, demo_wrote [] [] [] 9) =
      Some (Ok [5], sv\<lparr>ep_reader := host_reader 4\<rparr>, demo_wrote [] [] [] 9)"
    by (subst await_host_hello.simps) (simp add: on_reader_def dec assms(3) host_packets(2) [OF assms(1)] ret_def)
  have answer: "server_answer cobs_reference demo_crypto (\<lambda>_. 0) (\<lambda>_. [5]) d [5]
      (sv\<lparr>ep_reader := host_reader 4\<rparr>, demo_wrote [] [] [] 9) = Some (Ok (1, [0], \<lparr>host_signer = [1, 0], host_crypto = [2, 1]\<rparr>),
      sv\<lparr>ep_reader := host_reader 4, ep_secrets := 3, ep_outbound := ?ob\<lparr>ob_writer := fw\<rparr>\<rparr>, demo_wrote [] [] (stuff [4, 2, 1] @ [0]) 6)"
    using send assms(2,4)
    by (simp add: server_answer_def bindr_def or_failed_def ret_def next_secret_def act_def on_clock_def timestamp_def
        on_writer_def numeral_3_eq_3)
  show ?thesis
    by (subst server_attempts.simps)
      (simp add: bindr_def await answer on_reader_def dec host_packets(3) [OF assms(1)] server_complete_def or_failed_def ret_def,
       intro exI [of _ fw], cases sv, simp)
qed

lemma demo_server_fields:
  "ep_reader demo_server = frame_reader_new" "ep_outbound demo_server = outbound_new ServerSide 9"
  "ep_receiver demo_server = None" "ep_sealer demo_server = None" "ep_secrets demo_server = 0" "ep_next demo_server = 0"
  "ep_handshake_timeout demo_server = 5000000000" "sv_handshake_deadline demo_server = None"
  "ep_sealers demo_server = (\<lambda>_. None)"
  by (simp_all add: demo_server_def server_new_def endpoint.extend_def endpoint_new_def DEFAULT_HANDSHAKE_TIMEOUT_def)

lemma demo_server_turn:
  "\<exists>sv' e'. server_turn cobs_reference demo_crypto (\<lambda>_. 0) (\<lambda>_. [5]) []
      (demo_server\<lparr>ep_reader := host_reader (Suc 0), sv_handshake_deadline := Some 5000000000\<rparr>, demo_wrote [] [] [] 9) =
    Some (Ok (Some (Connected 0)), sv', e') \<and> ep_secrets sv' = 3"
proof -
  let ?sv = "demo_server\<lparr>ep_reader := host_reader (Suc 0), sv_handshake_deadline := None\<rparr>"
  note new = demo_server_fields
  obtain fw where hs: "server_attempts cobs_reference demo_crypto (\<lambda>_. 0) (\<lambda>_. [5]) 5000000000 (?sv, demo_wrote [] [] [] 9) =
      Some (Ok (1, 7), ?sv\<lparr>ep_reader := host_reader 7, ep_secrets := 3, ep_outbound := (outbound_new ServerSide 9)\<lparr>ob_writer := fw\<rparr>\<rparr>,
        demo_wrote [] [] (stuff [4, 2, 1] @ [0]) 6)"
    using demo_server_attempt [of 5000000000 ?sv] new by auto
  have unbind: "on_writer writer_unbind (?sv, demo_wrote [] [] [] 9) =
      Some (Ok () :: (transport_error, unit) result, ?sv, demo_wrote [] [] [] 9)"
    using new by (simp add: on_writer_def writer_unbind_def act_def outbound_new_def)
  have bind: "\<exists>sv' e'. new_session 1 7 (sv, e) = Some (Ok (ep_next sv) :: (transport_error, nat) result, sv', e') \<and>
      ep_secrets sv' = ep_secrets sv"
    for sv :: "nat server" and e
    by (simp add: new_session_def bindr_def act_def on_writer_def writer_bind_def)
  have "server_handshake cobs_reference demo_crypto (\<lambda>_. 0) (\<lambda>_. [5]) 5000000000 (?sv, demo_wrote [] [] [] 9) =
      Some (Ok (1, 7), ?sv\<lparr>ep_reader := host_reader 7, ep_secrets := 3, ep_outbound := (outbound_new ServerSide 9)\<lparr>ob_writer := fw\<rparr>\<rparr>,
      demo_wrote [] [] (stuff [4, 2, 1] @ [0]) 6)"
    unfolding server_handshake_def bindr_def unbind using hs by simp
  with bind [of "?sv\<lparr>ep_reader := host_reader 7, ep_secrets := 3, ep_outbound := (outbound_new ServerSide 9)\<lparr>ob_writer := fw\<rparr>\<rparr>"
      "demo_wrote [] [] (stuff [4, 2, 1] @ [0]) 6"] new
  show ?thesis by (auto simp: server_turn_def handshake_turn_def attempt_def bindr_def ret_def)
qed

lemma demo_server_connects:
  "\<exists>sv' e'. server_recv cobs_reference demo_crypto (\<lambda>_. 0) (\<lambda>_. [5]) [] (demo_server, demo_wrote host_bytes (e_reads demo_env) [] 9) =
     Some (Ok (Connected 0), sv', e')"
proof -
  let ?sv = "demo_server\<lparr>ep_reader := host_reader (Suc 0), sv_handshake_deadline := Some 5000000000\<rparr>"
  have dec: "cobs_decode cobs_reference = unstuff" by (simp add: cobs_reference_def)
  have clock: "env_deadline_after 5000000000 (demo_wrote [] [] [] 9) =
      Some (Ok 5000000000 :: (transport_error, nat) result, demo_wrote [] [] [] 9)"
    by (simp add: env_deadline_after_def act_def clock_defs demo_env_def instant_limit_def)
  have turn1: "server_turn cobs_reference demo_crypto (\<lambda>_. 0) (\<lambda>_. [5]) [] (demo_server, demo_wrote host_bytes (e_reads demo_env) [] 9) =
      Some (Ok None, ?sv, demo_wrote [] [] [] 9)"
    using demo_server_fields clock host_packets(1) [of 9 "[]"]
    by (simp add: server_turn_def attempt_def on_reader_def dec bindr_def meanwhile_def on_writer_def ret_def on_clock_def
        act_def end_session_def release_contexts_def del: env_deadline_after_Some)
  show ?thesis
    using demo_server_turn
    by (subst server_recv.simps, simp only: list.case turn1 option.case prod.case sum.case, subst server_recv.simps)
      (auto simp: ret_def)
qed

theorem server_events_bracketed_witness: "bracketed False 0 [Saw (Connected 0)]"
proof -
  obtain sv' e' where "server_recv cobs_reference demo_crypto (\<lambda>_. 0) (\<lambda>_. [5]) []
      (demo_server, demo_wrote host_bytes (e_reads demo_env) [] 9) = Some (Ok (Connected 0), sv', e')"
    using demo_server_connects by blast
  then have "server_calls cobs_reference demo_crypto (\<lambda>_. 0) (\<lambda>_. [5]) [CallRecv []]
      (server_new [4] 9, demo_wrote host_bytes (e_reads demo_env) [] 9) = Some ([Saw (Connected 0)], sv', e')"
    by (simp add: demo_server_def)
  from server_events_bracketed [OF stuffing.cobs_codec_axioms this] show ?thesis .
qed

lemma demo_server_inv: "sv_inv demo_server"
  using ep_inv_new [of ServerSide 9]
  by (simp add: sv_inv_def ep_inv_def demo_server_def server_new_def endpoint.extend_def endpoint_new_def)

theorem server_recv_session_witness:
  "\<exists>sv'. turn_outcome demo_server (Ok (Some (Connected 0))) sv' \<and> ob_binding (ep_outbound sv') = Some 0"
proof -
  obtain sv' e' where "server_recv cobs_reference demo_crypto (\<lambda>_. 0) (\<lambda>_. [5]) []
      (demo_server, demo_wrote host_bytes (e_reads demo_env) [] 9) = Some (Ok (Connected 0), sv', e')"
    using demo_server_connects by blast
  from server_recv_session [OF stuffing.cobs_codec_axioms demo_server_inv this] show ?thesis
    by (auto simp: turn_outcome_def)
qed


theorem server_session_authentic_witness:
  "\<exists>begun sender receiver ended. acknowledged cobs_reference demo_crypto (\<lambda>_. 0) (\<lambda>_. [5])
     5000000000 0 sender receiver begun ended \<and> sv_signer (fst begun) = [4]"
proof -
  let ?sv = "demo_server\<lparr>ep_reader := host_reader (Suc 0), sv_handshake_deadline := Some 5000000000\<rparr>"
  obtain sv' e' where run: "server_turn cobs_reference demo_crypto (\<lambda>_. 0) (\<lambda>_. [5]) [] (?sv, demo_wrote [] [] [] 9) =
      Some (Ok (Some (Connected 0)), sv', e')" and drawn: "ep_secrets sv' = 3" using demo_server_turn by blast
  obtain deadline begun n sender receiver ended where dl: "sv_handshake_deadline ?sv = Some deadline"
    and ub: "on_writer writer_unbind (?sv\<lparr>sv_handshake_deadline := None\<rparr>, demo_wrote [] [] [] 9) =
      Some (Ok () :: (transport_error, unit) result, begun)"
    and ack: "acknowledged cobs_reference demo_crypto (\<lambda>_. 0) (\<lambda>_. [5]) deadline n sender receiver begun ended"
    and n: "ep_secrets sv' = n + 3"
    using server_session_authentic [OF run] by blast
  have "sv_signer (fst begun) = [4]"
    using identity_writer [OF ub] by (simp add: identity_kept_def demo_server_def server_new_def endpoint.extend_def)
  moreover have "deadline = 5000000000" "n = 0" using dl drawn n by simp_all
  ultimately show ?thesis using ack by blast
qed

end
