(* ===== verification/Secure_Channel.thy ===== *)
theory Secure_Channel
  imports Transport_Server Transport_Client
begin

text \<open>
  A session from end to end: what a sender seals and writes at one end is what the receiver at the other
  end reads, decodes and opens. The frame writer and reader, the sealing of \<^verbatim>\<open>sealing.rs\<close>, \<^verbatim>\<open>sender.rs\<close> and the receive
  calls of \<^verbatim>\<open>client.rs\<close> and \<^verbatim>\<open>server.rs\<close> are composed here.
\<close>


section \<open>Paired contexts\<close>

text \<open>What the crypto crate promises of a sending and a receiving context that come from the same
  encapsulation: what one seals the other opens, in order.\<close>

locale hpke_channel =
  fixes h :: "'k hpke" and paired :: "'k \<Rightarrow> 'k \<Rightarrow> bool"
  assumes opens: "paired s r \<Longrightarrow> hpke_seal h s m = Ok (p, s') \<Longrightarrow> \<exists>r'. hpke_open h r p = Ok (m, r') \<and> paired s' r'"
begin

lemma open_sealed:
  assumes "paired s r" "seal c h s m = Some (Ok (p, s'))"
  obtains r' where "open_packet h r p = Ok (m, r')" "paired s' r'"
proof -
  have "hpke_seal h s m = Ok (p, s')" using assms(2) by (auto simp: seal_def split: option.splits if_splits sum.splits)
  from opens [OF assms(1) this] show thesis using that by (auto simp: open_packet_def)
qed

end

interpretation counted: hpke_channel sum_hpke "(=)"
  by unfold_locales (auto simp: sum_hpke_def)


section \<open>Sending\<close>

text \<open>The messages of a session, one send after the other.\<close>

fun send_all :: "cobs \<Rightarrow> 'k hpke \<Rightarrow> nat \<Rightarrow> bytes list \<Rightarrow> ('k wire \<times> env, transport_error, unit) run" where
  "send_all c h sealer [] = ret ()"
| "send_all c h sealer (m # ms) = bindr (sender_send c h sealer m) (\<lambda>_. send_all c h sealer ms)"

text \<open>The packets of a sequence of messages, with the contexts advancing.\<close>

inductive sealed_as :: "cobs \<Rightarrow> 'k hpke \<Rightarrow> 'k \<Rightarrow> bytes list \<Rightarrow> bytes list \<Rightarrow> 'k \<Rightarrow> bool" for c h where
  none: "sealed_as c h s [] [] s"
| more: "seal c h s m = Some (Ok (p, s1)) \<Longrightarrow> cobs_encode c p MAX_FRAME_SIZE = Some f \<Longrightarrow> sealed_as c h s1 ms fs s' \<Longrightarrow>
    sealed_as c h s (m # ms) (f # fs) s'"

inductive_cases sealed_as_ConsE: "sealed_as c h s (m # ms) fs s'"
inductive_cases sealed_as_NilE: "sealed_as c h s [] fs s'"

abbreviation framed :: "bytes list \<Rightarrow> bytes" where
  "framed fs \<equiv> concat (map (\<lambda>f. f @ [0]) fs)"

text \<open>A sender whose stream is at a frame boundary.\<close>

definition clean :: "outbound \<Rightarrow> bool" where
  "clean ob \<longleftrightarrow> fw_inv (ob_writer ob) \<and> \<not> fw_resync (ob_writer ob)"

lemma writer_send_clean:
  assumes c: "cobs_codec c" and run: "writer_send c sealer packet (ob, e) = Some (Ok (), ob', e')" and clean: "clean ob"
  obtains f where "cobs_encode c packet MAX_FRAME_SIZE = Some f" "e_output e' = e_output e @ f @ [0]" "clean ob'"
proof -
  from run obtain deadline cl q fw e1 where
    pk: "fw_send_packet c packet deadline (ob_writer ob, e\<lparr>e_clock := cl\<rparr>) = Some (q, fw, e1)"
    and rest: "(case q of Ok u \<Rightarrow> ret u | Err err \<Rightarrow> bindr (writer_end sealer) (\<lambda>removed.
        bindr (if removed then notify_failure err deadline else ret ()) (\<lambda>_. fail err))) (ob\<lparr>ob_writer := fw\<rparr>, e1) =
      Some (Ok (), ob', e')"
    by (auto simp: writer_send_def bindr_Some_iff attempt_Some_iff framer_Some budget_Some split: if_splits)
  obtain u where q: "q = Ok u" using rest by (cases q) (auto simp: bindr_Some_iff)
  from c pk clean [unfolded clean_def, THEN conjunct1] show thesis
  proof (cases rule: fw_send_packet_sent)
    case (packet f)
    with q rest clean that show thesis by (auto simp: sent_def clean_def)
  qed (use q in simp)
qed

lemma sender_send_clean:
  assumes c: "cobs_codec c" and run: "sender_send c h sealer m (w, e) = Some (Ok (), w', e')" and clean: "clean (w_outbound w)"
    and ctx: "w_sealers w sealer = Some s"
  obtains p s1 f where "seal c h s m = Some (Ok (p, s1))" "cobs_encode c p MAX_FRAME_SIZE = Some f"
    "e_output e' = e_output e @ f @ [0]" "clean (w_outbound w')" "w_sealers w' sealer = Some s1"
proof -
  obtain p s1 where sealed: "seal c h s m = Some (Ok (p, s1))"
    using run ctx by (auto simp: sender_send_def refuse_oversized_def split: if_splits option.splits sum.splits transport_error.splits)
  with run ctx obtain ob where ob: "writer_send c sealer p (w_outbound w, e) = Some (Ok (), ob, e')" "w_outbound w' = ob"
    "w_sealers w' sealer = Some s1"
    by (auto simp: sender_send_def on_outbound_def split: if_splits)
  from writer_send_clean [OF c ob(1) clean] sealed ob(2,3) that show thesis by metis
qed

lemma send_all_framed:
  assumes c: "cobs_codec c" and "send_all c h sealer ms (w, e) = Some (Ok (), w', e')" and "clean (w_outbound w)"
    and "w_sealers w sealer = Some s"
  shows "\<exists>fs s'. sealed_as c h s ms fs s' \<and> e_output e' = e_output e @ framed fs \<and> clean (w_outbound w') \<and> w_sealers w' sealer = Some s'"
  using assms(2-)
proof (induction ms arbitrary: w e s)
  case Nil
  then show ?case by (auto intro: sealed_as.none)
next
  case (Cons m ms)
  from Cons.prems(1) obtain w1 e1 where one: "sender_send c h sealer m (w, e) = Some (Ok (), w1, e1)"
    and rest: "send_all c h sealer ms (w1, e1) = Some (Ok (), w', e')" by (auto simp: bindr_Some_iff)
  from c one Cons.prems(2,3) obtain p s1 f where f: "seal c h s m = Some (Ok (p, s1))" "cobs_encode c p MAX_FRAME_SIZE = Some f"
    "e_output e1 = e_output e @ f @ [0]" "clean (w_outbound w1)" "w_sealers w1 sealer = Some s1" by (rule sender_send_clean)
  from Cons.IH [OF rest f(4,5)] obtain fs s' where "sealed_as c h s1 ms fs s'" "e_output e' = e_output e1 @ framed fs"
    "clean (w_outbound w')" "w_sealers w' sealer = Some s'" by blast
  with f(1-3) show ?case by (auto intro!: exI [of _ "f # fs"] exI [of _ s'] sealed_as.more)
qed


section \<open>Receiving\<close>

text \<open>A reader at a frame boundary, with a stream of bytes before it that the adapter delivers.\<close>

definition facing :: "bytes \<Rightarrow> frame_reader \<times> env \<Rightarrow> bool" where
  "facing xs s \<longleftrightarrow> fr_inv (fst s) \<and> \<not> fr_discard (fst s) \<and> delivers (snd s) \<and> fr_stream s = xs"

lemma next_packet_facing:
  assumes c: "cobs_codec c" and before: "facing (f @ 0 # xs) (fr, e)" and enc: "cobs_encode c p MAX_FRAME_SIZE = Some f"
  obtains fr' e' where "next_packet (cobs_decode c) None (fr, e) = Some (Ok (Some p), fr', e')" "facing xs (fr', e')"
proof -
  have f: "f \<noteq> []" "0 \<notin> set f" "length f \<le> MAX_FRAME_SIZE" "cobs_decode c f = Ok p"
    using cobs_codec.encode_frame [OF c enc] cobs_codec.decode_encode [OF c enc] by auto
  have fr: "fr_inv fr" "delivers e" "\<not> fr_discard fr" "fr_stream (fr, e) = f @ 0 # xs" using before by (simp_all add: facing_def)
  have split: "split_next (fr_discard fr) (fr_stream (fr, e)) = Some (FrameEv f, False, xs)"
    using fr(3,4) split_next_found(1) [OF f(2,3)] by simp
  then obtain r fr' e' where run: "next_frame None (fr, e) = Some (r, fr', e')" "delivers e'"
    and r: "(\<exists>q. r = Ok q) \<or> (\<exists>n. r = Err (FrameTooLarge n))" using next_frame_delivers [OF fr(1,2)] by blast
  have ok: "fr_inv fr'" "frame_result (fr_discard fr) (fr_stream (fr, e)) r (fr', e')"
    using next_frame_refines [OF run(1) fr(1)] by (simp_all add: reader_ok_def)
  have ev: "event_of r fr' = [FrameEv f]" and after: "\<not> fr_discard fr'" "fr_stream (fr', e') = xs"
    using r ok(2) split by (auto simp: frame_result_def event_of_def)
  have "packet_of c f = Ok (Some p)" using f(1,4) by (simp add: packet_of_def)
  then have "next_packet (cobs_decode c) None (fr, e) = Some (Ok (Some p), fr', e')"
    using next_packet_frame [OF run(1), of f c] ev fr(1) by simp
  moreover have "facing xs (fr', e')" using ok(1) after run(2) by (simp add: facing_def)
  ultimately show thesis by (rule that)
qed

text \<open>An endpoint inside a session: it has a receive context and its session is the one bound.\<close>

definition in_session :: "'k \<Rightarrow> ('k, 'x) endpoint_scheme \<Rightarrow> bool" where
  "in_session r ep \<longleftrightarrow> ep_receiver ep = Some r \<and> ep_sealer ep \<noteq> None \<and> ob_binding (ep_outbound ep) = ep_sealer ep"

lemma server_recv_message:
  assumes c: "cobs_codec c" and before: "facing (f @ 0 # xs) (ep_reader sv, e)" and enc: "cobs_encode c p MAX_FRAME_SIZE = Some f"
    and sv: "in_session r sv" "sv_handshake_deadline sv = None" and opened: "open_packet (cr_hpke cr) r p = Ok (m, r')"
  obtains sv' e' where "server_recv c cr wall attest [] (sv, e) = Some (Ok (Message m), sv', e')"
    "facing xs (ep_reader sv', e')" "in_session r' sv'" "sv_handshake_deadline sv' = None"
proof -
  obtain fr' e' where read: "next_packet (cobs_decode c) None (ep_reader sv, e) = Some (Ok (Some p), fr', e')" "facing xs (fr', e')"
    using c before enc by (rule next_packet_facing)
  obtain sealer where sealer: "ep_sealer sv = Some sealer" "ob_binding (ep_outbound sv) = Some sealer" "ep_receiver sv = Some r"
    using sv(1) by (auto simp: in_session_def)
  let ?sv = "sv\<lparr>ep_reader := fr', ep_receiver := Some r'\<rparr>"
  have "server_turn c cr wall attest [] (sv, e) = Some (Ok (Some (Message m)), ?sv, e')"
    using sv(2) read(1) sealer opened
    by (simp add: server_turn_def attempt_def on_reader_def bindr_def meanwhile_def on_writer_def ret_def server_packet_def finish_receive_def)
  then have "server_recv c cr wall attest [] (sv, e) = Some (Ok (Message m), ?sv, e')"
    by (subst server_recv.simps) (simp add: ret_def)
  moreover have "facing xs (ep_reader ?sv, e')" "in_session r' ?sv" "sv_handshake_deadline ?sv = None"
    using read(2) sealer sv(2) by (simp_all add: in_session_def)
  ultimately show thesis by (rule that)
qed

lemma client_recv_message:
  assumes c: "cobs_codec c" and before: "facing (f @ 0 # xs) (ep_reader ep, e)" and enc: "cobs_encode c p MAX_FRAME_SIZE = Some f"
    and ep: "in_session r ep" and opened: "open_packet (cr_hpke cr) r p = Ok (m, r')"
  obtains ep' e' where "client_recv c cr [] (ep, e) = Some (Ok m, ep', e')" "facing xs (ep_reader ep', e')" "in_session r' ep'"
proof -
  obtain fr' e' where read: "next_packet (cobs_decode c) None (ep_reader ep, e) = Some (Ok (Some p), fr', e')" "facing xs (fr', e')"
    using c before enc by (rule next_packet_facing)
  obtain sealer where sealer: "ep_sealer ep = Some sealer" "ob_binding (ep_outbound ep) = Some sealer" "ep_receiver ep = Some r"
    using ep by (auto simp: in_session_def)
  let ?ep = "ep\<lparr>ep_reader := fr', ep_receiver := Some r'\<rparr>"
  have "client_recv c cr [] (ep, e) = Some (Ok m, ?ep, e')"
    using read(1) sealer opened
    by (simp add: client_recv_def client_accept_def attempt_def on_reader_def bindr_def meanwhile_def on_writer_def ret_def finish_receive_def)
  moreover have "facing xs (ep_reader ?ep, e')" "in_session r' ?ep" using read(2) sealer by (simp_all add: in_session_def)
  ultimately show thesis by (rule that)
qed

text \<open>As many receive calls as there are messages.\<close>

fun server_recv_all :: "cobs \<Rightarrow> 'k crypto \<Rightarrow> (instant \<Rightarrow> int) \<Rightarrow> (nat \<Rightarrow> bytes) \<Rightarrow> nat \<Rightarrow>
    ('k server \<times> env, transport_error, event list) run" where
  "server_recv_all c cr wall attest 0 = ret []"
| "server_recv_all c cr wall attest (Suc n) =
     bindr (server_recv c cr wall attest []) (\<lambda>ev. bindr (server_recv_all c cr wall attest n) (\<lambda>evs. ret (ev # evs)))"

fun client_recv_all :: "cobs \<Rightarrow> 'k crypto \<Rightarrow> nat \<Rightarrow> (('k, 'x) endpoint_scheme \<times> env, transport_error, bytes list) run" where
  "client_recv_all c cr 0 = ret []"
| "client_recv_all c cr (Suc n) =
     bindr (client_recv c cr []) (\<lambda>m. bindr (client_recv_all c cr n) (\<lambda>ms. ret (m # ms)))"

context hpke_channel
begin

lemma server_hears:
  assumes c: "cobs_codec c" and "sealed_as c h s ms fs s'" and "cr_hpke cr = h" and "paired s r"
    and "facing (framed fs @ xs) (ep_reader sv, e)" and "in_session r sv" and "sv_handshake_deadline sv = None"
  shows "\<exists>sv' e' r'. server_recv_all c cr wall attest (length ms) (sv, e) = Some (Ok (map Message ms), sv', e') \<and>
    facing xs (ep_reader sv', e') \<and> in_session r' sv' \<and> paired s' r'"
  using assms(2-)
proof (induction ms arbitrary: s fs sv e r)
  case Nil
  then show ?case by (auto elim!: sealed_as_NilE)
next
  case (Cons m ms)
  from Cons.prems(1) obtain p s1 f fs1 where f: "fs = f # fs1" "seal c h s m = Some (Ok (p, s1))"
    "cobs_encode c p MAX_FRAME_SIZE = Some f" "sealed_as c h s1 ms fs1 s'" by (elim sealed_as_ConsE) auto
  obtain r1 where r1: "open_packet (cr_hpke cr) r p = Ok (m, r1)" "paired s1 r1"
    using open_sealed [OF Cons.prems(3) f(2)] Cons.prems(2) by metis
  have "facing (f @ 0 # (framed fs1 @ xs)) (ep_reader sv, e)" using Cons.prems(4) f(1) by simp
  from c this f(3) Cons.prems(5,6) r1(1) obtain sv1 e1 where one: "server_recv c cr wall attest [] (sv, e) = Some (Ok (Message m), sv1, e1)"
    "facing (framed fs1 @ xs) (ep_reader sv1, e1)" "in_session r1 sv1" "sv_handshake_deadline sv1 = None"
    by (rule server_recv_message)
  from Cons.IH [OF f(4) Cons.prems(2) r1(2) one(2-)] one(1) show ?case by (auto simp: bindr_def ret_def)
qed

lemma client_hears:
  assumes c: "cobs_codec c" and "sealed_as c h s ms fs s'" and "cr_hpke cr = h" and "paired s r"
    and "facing (framed fs @ xs) (ep_reader ep, e)" and "in_session r ep"
  shows "\<exists>ep' e' r'. client_recv_all c cr (length ms) (ep, e) = Some (Ok ms, ep', e') \<and>
    facing xs (ep_reader ep', e') \<and> in_session r' ep' \<and> paired s' r'"
  using assms(2-)
proof (induction ms arbitrary: s fs ep e r)
  case Nil
  then show ?case by (auto elim!: sealed_as_NilE)
next
  case (Cons m ms)
  from Cons.prems(1) obtain p s1 f fs1 where f: "fs = f # fs1" "seal c h s m = Some (Ok (p, s1))"
    "cobs_encode c p MAX_FRAME_SIZE = Some f" "sealed_as c h s1 ms fs1 s'" by (elim sealed_as_ConsE) auto
  obtain r1 where r1: "open_packet (cr_hpke cr) r p = Ok (m, r1)" "paired s1 r1"
    using open_sealed [OF Cons.prems(3) f(2)] Cons.prems(2) by metis
  have "facing (f @ 0 # (framed fs1 @ xs)) (ep_reader ep, e)" using Cons.prems(4) f(1) by simp
  from c this f(3) Cons.prems(5) r1(1) obtain ep1 e1 where one: "client_recv c cr [] (ep, e) = Some (Ok m, ep1, e1)"
    "facing (framed fs1 @ xs) (ep_reader ep1, e1)" "in_session r1 ep1"
    by (rule client_recv_message)
  from Cons.IH [OF f(4) Cons.prems(2) r1(2) one(2-)] one(1) show ?case by (auto simp: bindr_def ret_def)
qed

end


section \<open>The channel\<close>

text \<open>C5: a session carries messages unchanged, in order and whole, in both directions: once a run of sends has succeeded
  on a stream at a frame boundary, the peer whose receive context is paired with the sending one, reading
  the very bytes that were written, receives exactly these messages, one per call, and stands where the sender stands, ready
  for the next, with the session still bound.\<close>

theorem session_roundtrip:
  assumes "cobs_codec c" and "hpke_channel (cr_hpke cr) paired"
    and send: "send_all c (cr_hpke cr) sealer ms (w, e) = Some (Ok (), w', e')"
    and "clean (w_outbound w)" and "w_sealers w sealer = Some s" and "paired s r"
    and out: "e_output e' = e_output e @ ys"
  shows "\<exists>s'. w_sealers w' sealer = Some s' \<and>
    (\<forall>sv d. in_session r sv \<longrightarrow> sv_handshake_deadline sv = None \<longrightarrow> facing (ys @ xs) (ep_reader sv, d) \<longrightarrow>
       (\<exists>sv' d' r'. server_recv_all c cr wall attest (length ms) (sv, d) = Some (Ok (map Message ms), sv', d') \<and>
          facing xs (ep_reader sv', d') \<and> in_session r' sv' \<and> paired s' r')) \<and>
    (\<forall>ep d. in_session r ep \<longrightarrow> facing (ys @ xs) (ep_reader ep, d) \<longrightarrow>
       (\<exists>ep' d' r'. client_recv_all c cr (length ms) (ep :: 'k endpoint, d) = Some (Ok ms, ep', d') \<and>
          facing xs (ep_reader ep', d') \<and> in_session r' ep' \<and> paired s' r'))"
proof -
  obtain fs s' where fs: "sealed_as c (cr_hpke cr) s ms fs s'" "e_output e' = e_output e @ framed fs" "w_sealers w' sealer = Some s'"
    using send_all_framed [OF assms(1) send assms(4,5)] by blast
  then have ys: "ys = framed fs" using out by simp
  show ?thesis
    using fs(3) hpke_channel.server_hears [OF assms(2,1) fs(1) refl assms(6)] hpke_channel.client_hears [OF assms(2,1) fs(1) refl assms(6)]
    unfolding ys by blast
qed



section \<open>A message across\<close>

text \<open>An adapter that takes everything at once.\<close>

definition easy_env :: "bytes \<Rightarrow> nat \<Rightarrow> env" where
  "easy_env out n = demo_env\<lparr>e_output := out, e_writes := replicate n (WrOk 999)\<rparr>"

lemma easy_write:
  assumes "0 < length bs" and "length bs \<le> 999" and "0 < deadline"
  shows "write_half bs deadline (easy_env out (n + 3)) = Some (Ok (), easy_env (out @ bs) n)"
  using assms by (simp add: write_eval easy_env_def demo_env_def numeral_3_eq_3)

lemma easy_send:
  assumes "clean ob" and "length p \<le> 900" and "ob_timeout ob = 9" and bound: "ob_binding ob = Some sealer"
  shows "\<exists>fw. clean (ob\<lparr>ob_writer := fw\<rparr>) \<and>
    writer_send cobs_reference sealer p (ob, easy_env out (n + 3)) = Some (Ok (), ob\<lparr>ob_writer := fw\<rparr>, easy_env (out @ stuff p @ [0]) n)"
proof -
  have enc: "cobs_encode_buffer cobs_reference (length p) \<le> MAX_FRAME_SIZE"
    "cobs_encode cobs_reference p MAX_FRAME_SIZE = Some (stuff p)" "length (stuff p) \<le> MAX_FRAME_SIZE"
    using reference_encode [of p] assms(2) by auto
  have clean: "fw_inv (ob_writer ob)" "\<not> fw_resync (ob_writer ob)" using assms(1) by (simp_all add: clean_def)
  have "length (stuff p @ [0]) \<le> 999" using length_stuff [of p] assms(2) by simp
  then have w: "write_half (recovery (ob_writer ob) @ stuff p @ [0]) 9 (easy_env out (n + 3)) =
      Some (Ok (), easy_env (out @ stuff p @ [0]) n)"
    using easy_write [of "stuff p @ [0]" 9] clean(2) by simp
  have "env_check_deadline 9 (easy_env out n) = Some (Ok (), easy_env out n)" for out n
    by (simp add: env_check_deadline_def check_deadline_def clock_now_def demo_env_def easy_env_def)
  from fw_send_packet_run [OF clean(1) enc w this] obtain fw where fw: "fw_inv fw" "\<not> fw_resync fw"
    "fw_send_packet cobs_reference p 9 (ob_writer ob, easy_env out (n + 3)) = Some (Ok (), fw, easy_env (out @ stuff p @ [0]) n)" by auto
  have "budget (ob, easy_env out (n + 3)) = Some (Ok 9 :: (transport_error, nat) result, ob, easy_env out (n + 3))"
    using assms(3) by (simp add: budget_def env_deadline_after_def act_def clock_defs demo_env_def easy_env_def instant_limit_def)
  with fw bound show ?thesis
    by (intro exI [of _ fw]) (simp add: writer_send_def clean_def bindr_def attempt_def framer_def ret_def)
qed

definition easy_wire :: "nat \<Rightarrow> nat wire" where
  "easy_wire s = \<lparr>w_alive = True, w_outbound = (outbound_new ClientSide 9)\<lparr>ob_binding := Some 0\<rparr>, w_sealers = (\<lambda>_. None)(0 \<mapsto> s)\<rparr>"

lemma easy_wire_clean: "clean (w_outbound (easy_wire s))"
  using fw_inv_new by (simp add: easy_wire_def clean_def outbound_new_def frame_writer_new_def)

lemma easy_sender:
  assumes "length m \<le> 800"
  shows "\<exists>fw. clean ((w_outbound (easy_wire s))\<lparr>ob_writer := fw\<rparr>) \<and> sender_send cobs_reference sum_hpke 0 m (easy_wire s, easy_env out (n + 3)) =
    Some (Ok (), (easy_wire (Suc s))\<lparr>w_outbound := (w_outbound (easy_wire s))\<lparr>ob_writer := fw\<rparr>\<rparr>,
      easy_env (out @ stuff (m @ replicate 16 (word_of_nat s)) @ [0]) n)"
proof -
  let ?p = "m @ replicate 16 (word_of_nat s)"
  obtain limit where limit: "MAX_MESSAGE_SIZE (cobs_encode_buffer cobs_reference) = Some limit" "1000 \<le> limit"
    using message_limit_reference by blast
  have sealed: "seal cobs_reference sum_hpke s m = Some (Ok (?p, Suc s))"
    using limit assms by (simp add: seal_def sum_hpke_def)
  obtain fw where "clean ((w_outbound (easy_wire s))\<lparr>ob_writer := fw\<rparr>)" "writer_send cobs_reference 0 ?p (w_outbound (easy_wire s), easy_env out (n + 3)) =
      Some (Ok (), (w_outbound (easy_wire s))\<lparr>ob_writer := fw\<rparr>, easy_env (out @ stuff ?p @ [0]) n)"
    using easy_send [OF easy_wire_clean, of ?p s 0 out n] assms by (auto simp: easy_wire_def outbound_new_def)
  with sealed show ?thesis
    by (intro exI [of _ fw]) (simp add: sender_send_def on_outbound_def easy_wire_def)
qed

definition easy_client :: "nat \<Rightarrow> nat endpoint" where
  "easy_client r = (endpoint_new ClientSide 9)\<lparr>ep_receiver := Some r, ep_sealer := Some 0,
     ep_outbound := (outbound_new ClientSide 9)\<lparr>ob_binding := Some 0\<rparr>\<rparr>"

definition easy_server :: "nat \<Rightarrow> nat server" where
  "easy_server r = (server_new [4] 9)\<lparr>ep_receiver := Some r, ep_sealer := Some 0,
     ep_outbound := (outbound_new ServerSide 9)\<lparr>ob_binding := Some 0\<rparr>\<rparr>"

definition easy_reading :: "bytes \<Rightarrow> env" where
  "easy_reading xs = demo_env\<lparr>e_input := xs, e_reads := replicate (2 * length xs) (RdOk 5)\<rparr>"

lemma easy_endpoints: "in_session r (easy_client r)" "in_session r (easy_server r)" "sv_handshake_deadline (easy_server r) = None"
  "facing xs (ep_reader (easy_client r), easy_reading xs)" "facing xs (ep_reader (easy_server r), easy_reading xs)"
  using fr_inv_new
  by (simp_all add: in_session_def easy_client_def easy_server_def server_new_def endpoint.extend_def endpoint_new_def facing_def
      easy_reading_def demo_env_def delivers_def fr_stream_def fr_pending_def frame_reader_new_def subvec_def)

theorem session_roundtrip_witness:
  "\<exists>sv' d'. server_recv_all cobs_reference demo_crypto (\<lambda>_. 0) (\<lambda>_. []) 1 (easy_server 5, easy_reading (stuff ([7] @ replicate 16 5) @ [0])) =
     Some (Ok [Message [7]], sv', d')"
proof -
  let ?ys = "stuff ([7] @ replicate 16 5) @ [0]"
  obtain w' where send: "send_all cobs_reference (cr_hpke demo_crypto) 0 [[7]] (easy_wire 5, easy_env [] 3) = Some (Ok (), w', easy_env ([] @ ?ys) 0)"
    using easy_sender [of "[7]" 5 "[]" 0] by (auto simp: demo_crypto_def bindr_def ret_def)
  have channel: "hpke_channel (cr_hpke demo_crypto) (=)" using counted.hpke_channel_axioms by (simp add: demo_crypto_def)
  have out: "e_output (easy_env ([] @ ?ys) 0) = e_output (easy_env [] 3) @ ?ys" by (simp add: easy_env_def)
  have ctx: "w_sealers (easy_wire 5) 0 = Some 5" by (simp add: easy_wire_def)
  note there = session_roundtrip [OF stuffing.cobs_codec_axioms channel send easy_wire_clean ctx refl out,
      where xs = "[]" and wall = "\<lambda>_. 0" and attest = "\<lambda>_. []"]
  have "facing (?ys @ []) (ep_reader (easy_server 5), easy_reading ?ys)" using easy_endpoints(5) [of ?ys 5] by simp
  moreover obtain s' where "\<forall>sv d. in_session 5 sv \<longrightarrow> sv_handshake_deadline sv = None \<longrightarrow> facing (?ys @ []) (ep_reader sv, d) \<longrightarrow>
       (\<exists>sv' d' r'. server_recv_all cobs_reference demo_crypto (\<lambda>_. 0) (\<lambda>_. []) (length [[7] :: bytes]) (sv, d) =
            Some (Ok (map Message [[7]]), sv', d') \<and> facing [] (ep_reader sv', d') \<and> in_session r' sv' \<and> s' = r')"
    using there by (elim exE conjE) (rule that)
  ultimately obtain sv' d' where "server_recv_all cobs_reference demo_crypto (\<lambda>_. 0) (\<lambda>_. []) (length [[7] :: bytes]) (easy_server 5, easy_reading ?ys) =
      Some (Ok (map Message [[7]]), sv', d')" using easy_endpoints(2,3) [of 5] by metis
  then show ?thesis by auto
qed

end
