(* ===== verification/Protocol_Base.thy ===== *)
theory Protocol_Base
  imports Transport_Base
begin

text \<open>
  The vocabulary of the protocol layer: the roles and the parity of request identifiers
  (\<^verbatim>\<open>src/src/protocol/envelope.rs\<close>), the errors (\<^verbatim>\<open>src/src/protocol/error.rs\<close>) and the
  session defaults (\<^verbatim>\<open>src/src/protocol/mod.rs\<close>). Request identifiers are \<^verbatim>\<open>u64\<close>.
\<close>


section \<open>Errors\<close>

text \<open>\<^verbatim>\<open>schema::Error\<close>, the error body of an answer.\<close>

record schema_error =
  err_code :: "64 word"
  err_msg :: string

datatype reserved_errors =
    Unspecified | Unanswered | Unknown | Unsupported | Unavailable | Unauthorized | Unconfirmed | Undelivered

fun reserved_code :: "reserved_errors \<Rightarrow> 64 word" where
  "reserved_code Unspecified = 0"
| "reserved_code Unanswered = 1"
| "reserved_code Unknown = 2"
| "reserved_code Unsupported = 3"
| "reserved_code Unavailable = 4"
| "reserved_code Unauthorized = 5"
| "reserved_code Unconfirmed = 6"
| "reserved_code Undelivered = 7"

definition error_reserved :: "reserved_errors \<Rightarrow> string \<Rightarrow> schema_error" where
  "error_reserved code msg = \<lparr>err_code = reserved_code code, err_msg = msg\<rparr>"

text \<open>The conversion of an application error; a code in the reserved range is a panic of debug
  builds.\<close>

definition error_from_coded :: "64 word \<Rightarrow> string \<Rightarrow> schema_error option" where
  "error_from_coded code msg = (if code \<ge> 0x100 then Some \<lparr>err_code = code, err_msg = msg\<rparr> else None)"

datatype protocol_error =
    Closed
  | Timeout
  | Transport transport_error
  | Remote schema_error
  | UnexpectedResponse string string
  | WrongDirection string
  | TooLarge nat
  | Malformed
  | InboundRequestLimitExceeded nat
  | InboundByteLimitExceeded nat

fun orderly :: "protocol_error \<Rightarrow> bool" where
  "orderly Closed = True"
| "orderly (Transport err) = (err = SessionReset \<or> err = Terminated)"
| "orderly _ = False"


section \<open>Defaults\<close>

definition DEFAULT_AUTOREPLY_TIMEOUT :: duration where
  "DEFAULT_AUTOREPLY_TIMEOUT = 5 * 1000000000"

definition DEFAULT_MAX_INBOUND_REQUESTS :: nat where
  "DEFAULT_MAX_INBOUND_REQUESTS = 1024"

definition DEFAULT_MAX_INBOUND_BYTES :: nat where
  "DEFAULT_MAX_INBOUND_BYTES = 16 * 1024 * 1024"


section \<open>Roles and identifiers\<close>

type_synonym id = "64 word"

datatype role = Client | Server

definition peer :: "role \<Rightarrow> role" where
  "peer r = (case r of Client \<Rightarrow> Server | Server \<Rightarrow> Client)"

datatype parity = Odd | Even

definition parity_of :: "id \<Rightarrow> parity" where
  "parity_of i = (if i mod 2 = 1 then Odd else Even)"

fun parity_first :: "parity \<Rightarrow> id" where
  "parity_first Odd = 1"
| "parity_first Even = 2"

fun parity_from :: "role \<Rightarrow> parity" where
  "parity_from Client = Odd"
| "parity_from Server = Even"

datatype message_kind = Request | Response

definition kind_from_id :: "id \<Rightarrow> parity \<Rightarrow> message_kind" where
  "kind_from_id i parity = (if parity_of i = parity then Response else Request)"

text \<open>\<^verbatim>\<open>u64::checked_add\<close> with 2, as the writer allocates the next identifier.\<close>

definition id_checked_add2 :: "id \<Rightarrow> id option" where
  "id_checked_add2 i = (if unat i + 2 < 2 ^ 64 then Some (i + 2) else None)"

lemma ex_role: "(\<exists>r. P r) \<longleftrightarrow> P Client \<or> P Server"
  by (metis role.exhaust)

lemma all_role: "(\<forall>r. P r) \<longleftrightarrow> P Client \<and> P Server"
  by (metis role.exhaust)

lemma peer_peer [simp]: "peer (peer r) = r"
  by (cases r) (simp_all add: peer_def)

lemma word_mod2_unat: "(i mod 2 = (1 :: 64 word)) \<longleftrightarrow> odd (unat i)"
proof -
  have "unat (i mod 2) = unat i mod 2" by (simp add: unat_mod)
  moreover have "(i mod 2 = 1) \<longleftrightarrow> unat (i mod 2) = unat (1 :: 64 word)"
    by (simp only: word_unat_eq_iff)
  ultimately show ?thesis by (simp add: odd_iff_mod_2_eq_one)
qed

lemma parity_of_unat: "parity_of i = (if odd (unat i) then Odd else Even)"
  by (simp add: parity_of_def word_mod2_unat)

lemma id_checked_add2_Some:
  assumes "id_checked_add2 i = Some j"
  shows "unat j = unat i + 2" and "parity_of j = parity_of i"
proof -
  from assms have lt: "unat i + 2 < 2 ^ 64" and j: "j = i + 2"
    by (auto simp: id_checked_add2_def split: if_splits)
  have "unat (i + 2) = unat i + unat (2 :: 64 word)"
    by (rule unat_add_lem [THEN iffD1]) (use lt in simp)
  then show *: "unat j = unat i + 2" using j by simp
  show "parity_of j = parity_of i" by (simp add: parity_of_unat *)
qed

lemma parity_of_first [simp]: "parity_of (parity_first p) = p"
  by (cases p) (simp_all add: parity_of_unat)

lemma parity_from_peer: "parity_from (peer r) \<noteq> parity_from r"
  by (cases r) (simp_all add: peer_def)

end
