(* ===== verification/Schema_Enums.thy ===== *)
theory Schema_Enums
  imports Protocol_Base
begin

text \<open>
  The enumerations of \<^verbatim>\<open>src/src/protocol/generated/darkbio.wire.rs\<close>: their variants with the numbers they have on the wire, and the
  conversions to and from the names of the schema. \<^verbatim>\<open>ReservedErrors\<close> itself is in \<open>Protocol_Base\<close>.
\<close>


section \<open>Names of variants\<close>

locale named_enum =
  fixes as_str_name :: "'a \<Rightarrow> string" and from_str_name :: "string \<Rightarrow> 'a option" and code :: "'a \<Rightarrow> 'w :: len word"
  assumes from_as: "from_str_name (as_str_name x) = Some x"
    and as_from: "from_str_name s = Some x \<Longrightarrow> as_str_name x = s"
    and code_inj: "code x = code y \<Longrightarrow> x = y"
begin

lemma names: "from_str_name s = Some x \<longleftrightarrow> s = as_str_name x"
  using from_as as_from by auto

lemma codes: "code x = code y \<longleftrightarrow> x = y"
  using code_inj by blast

end


section \<open>ReservedErrors\<close>

fun reserved_errors_as_str_name :: "reserved_errors \<Rightarrow> string" where
  "reserved_errors_as_str_name Unspecified = ''RESERVED_ERRORS_UNSPECIFIED''"
| "reserved_errors_as_str_name Unanswered = ''RESERVED_ERRORS_UNANSWERED''"
| "reserved_errors_as_str_name Unknown = ''RESERVED_ERRORS_UNKNOWN''"
| "reserved_errors_as_str_name Unsupported = ''RESERVED_ERRORS_UNSUPPORTED''"
| "reserved_errors_as_str_name Unavailable = ''RESERVED_ERRORS_UNAVAILABLE''"
| "reserved_errors_as_str_name Unauthorized = ''RESERVED_ERRORS_UNAUTHORIZED''"
| "reserved_errors_as_str_name Unconfirmed = ''RESERVED_ERRORS_UNCONFIRMED''"
| "reserved_errors_as_str_name Undelivered = ''RESERVED_ERRORS_UNDELIVERED''"

definition reserved_errors_from_str_name :: "string \<Rightarrow> reserved_errors option" where
  "reserved_errors_from_str_name value =
     (if value = ''RESERVED_ERRORS_UNSPECIFIED'' then Some Unspecified
      else if value = ''RESERVED_ERRORS_UNANSWERED'' then Some Unanswered
      else if value = ''RESERVED_ERRORS_UNKNOWN'' then Some Unknown
      else if value = ''RESERVED_ERRORS_UNSUPPORTED'' then Some Unsupported
      else if value = ''RESERVED_ERRORS_UNAVAILABLE'' then Some Unavailable
      else if value = ''RESERVED_ERRORS_UNAUTHORIZED'' then Some Unauthorized
      else if value = ''RESERVED_ERRORS_UNCONFIRMED'' then Some Unconfirmed
      else if value = ''RESERVED_ERRORS_UNDELIVERED'' then Some Undelivered
      else None)"

section \<open>ExecutionState\<close>

datatype execution_state = ExecutionState_Unspecified | ExecutionState_Running | ExecutionState_Awaiting | ExecutionState_Resolved

fun execution_state_code :: "execution_state \<Rightarrow> 32 word" where
  "execution_state_code ExecutionState_Unspecified = 0"
| "execution_state_code ExecutionState_Running = 1"
| "execution_state_code ExecutionState_Awaiting = 2"
| "execution_state_code ExecutionState_Resolved = 3"

fun execution_state_as_str_name :: "execution_state \<Rightarrow> string" where
  "execution_state_as_str_name ExecutionState_Unspecified = ''EXECUTION_STATE_UNSPECIFIED''"
| "execution_state_as_str_name ExecutionState_Running = ''EXECUTION_STATE_RUNNING''"
| "execution_state_as_str_name ExecutionState_Awaiting = ''EXECUTION_STATE_AWAITING''"
| "execution_state_as_str_name ExecutionState_Resolved = ''EXECUTION_STATE_RESOLVED''"

definition execution_state_from_str_name :: "string \<Rightarrow> execution_state option" where
  "execution_state_from_str_name value =
     (if value = ''EXECUTION_STATE_UNSPECIFIED'' then Some ExecutionState_Unspecified
      else if value = ''EXECUTION_STATE_RUNNING'' then Some ExecutionState_Running
      else if value = ''EXECUTION_STATE_AWAITING'' then Some ExecutionState_Awaiting
      else if value = ''EXECUTION_STATE_RESOLVED'' then Some ExecutionState_Resolved
      else None)"

section \<open>ExecutionStream\<close>

datatype execution_stream = ExecutionStream_Unspecified | ExecutionStream_Stdout | ExecutionStream_Stderr

fun execution_stream_code :: "execution_stream \<Rightarrow> 32 word" where
  "execution_stream_code ExecutionStream_Unspecified = 0"
| "execution_stream_code ExecutionStream_Stdout = 1"
| "execution_stream_code ExecutionStream_Stderr = 2"

fun execution_stream_as_str_name :: "execution_stream \<Rightarrow> string" where
  "execution_stream_as_str_name ExecutionStream_Unspecified = ''EXECUTION_STREAM_UNSPECIFIED''"
| "execution_stream_as_str_name ExecutionStream_Stdout = ''EXECUTION_STREAM_STDOUT''"
| "execution_stream_as_str_name ExecutionStream_Stderr = ''EXECUTION_STREAM_STDERR''"

definition execution_stream_from_str_name :: "string \<Rightarrow> execution_stream option" where
  "execution_stream_from_str_name value =
     (if value = ''EXECUTION_STREAM_UNSPECIFIED'' then Some ExecutionStream_Unspecified
      else if value = ''EXECUTION_STREAM_STDOUT'' then Some ExecutionStream_Stdout
      else if value = ''EXECUTION_STREAM_STDERR'' then Some ExecutionStream_Stderr
      else None)"

section \<open>SlotKind\<close>

datatype slot_kind = SlotKind_Unspecified | SlotKind_ReferenceGenome | SlotKind_GeneAnnotations | SlotKind_SmallVariants | SlotKind_VariantCatalog | SlotKind_StructuralVariants | SlotKind_CopyNumberVariants

fun slot_kind_code :: "slot_kind \<Rightarrow> 32 word" where
  "slot_kind_code SlotKind_Unspecified = 0"
| "slot_kind_code SlotKind_ReferenceGenome = 1"
| "slot_kind_code SlotKind_GeneAnnotations = 2"
| "slot_kind_code SlotKind_SmallVariants = 3"
| "slot_kind_code SlotKind_VariantCatalog = 4"
| "slot_kind_code SlotKind_StructuralVariants = 5"
| "slot_kind_code SlotKind_CopyNumberVariants = 6"

fun slot_kind_as_str_name :: "slot_kind \<Rightarrow> string" where
  "slot_kind_as_str_name SlotKind_Unspecified = ''SLOT_KIND_UNSPECIFIED''"
| "slot_kind_as_str_name SlotKind_ReferenceGenome = ''SLOT_KIND_REFERENCE_GENOME''"
| "slot_kind_as_str_name SlotKind_GeneAnnotations = ''SLOT_KIND_GENE_ANNOTATIONS''"
| "slot_kind_as_str_name SlotKind_SmallVariants = ''SLOT_KIND_SMALL_VARIANTS''"
| "slot_kind_as_str_name SlotKind_VariantCatalog = ''SLOT_KIND_VARIANT_CATALOG''"
| "slot_kind_as_str_name SlotKind_StructuralVariants = ''SLOT_KIND_STRUCTURAL_VARIANTS''"
| "slot_kind_as_str_name SlotKind_CopyNumberVariants = ''SLOT_KIND_COPY_NUMBER_VARIANTS''"

definition slot_kind_from_str_name :: "string \<Rightarrow> slot_kind option" where
  "slot_kind_from_str_name value =
     (if value = ''SLOT_KIND_UNSPECIFIED'' then Some SlotKind_Unspecified
      else if value = ''SLOT_KIND_REFERENCE_GENOME'' then Some SlotKind_ReferenceGenome
      else if value = ''SLOT_KIND_GENE_ANNOTATIONS'' then Some SlotKind_GeneAnnotations
      else if value = ''SLOT_KIND_SMALL_VARIANTS'' then Some SlotKind_SmallVariants
      else if value = ''SLOT_KIND_VARIANT_CATALOG'' then Some SlotKind_VariantCatalog
      else if value = ''SLOT_KIND_STRUCTURAL_VARIANTS'' then Some SlotKind_StructuralVariants
      else if value = ''SLOT_KIND_COPY_NUMBER_VARIANTS'' then Some SlotKind_CopyNumberVariants
      else None)"

section \<open>SlotOrigin\<close>

datatype slot_origin = SlotOrigin_Unspecified | SlotOrigin_Personal | SlotOrigin_Reference

fun slot_origin_code :: "slot_origin \<Rightarrow> 32 word" where
  "slot_origin_code SlotOrigin_Unspecified = 0"
| "slot_origin_code SlotOrigin_Personal = 1"
| "slot_origin_code SlotOrigin_Reference = 2"

fun slot_origin_as_str_name :: "slot_origin \<Rightarrow> string" where
  "slot_origin_as_str_name SlotOrigin_Unspecified = ''SLOT_ORIGIN_UNSPECIFIED''"
| "slot_origin_as_str_name SlotOrigin_Personal = ''SLOT_ORIGIN_PERSONAL''"
| "slot_origin_as_str_name SlotOrigin_Reference = ''SLOT_ORIGIN_REFERENCE''"

definition slot_origin_from_str_name :: "string \<Rightarrow> slot_origin option" where
  "slot_origin_from_str_name value =
     (if value = ''SLOT_ORIGIN_UNSPECIFIED'' then Some SlotOrigin_Unspecified
      else if value = ''SLOT_ORIGIN_PERSONAL'' then Some SlotOrigin_Personal
      else if value = ''SLOT_ORIGIN_REFERENCE'' then Some SlotOrigin_Reference
      else None)"

section \<open>SlotState\<close>

datatype slot_state = SlotState_Unspecified | SlotState_Empty | SlotState_Filled | SlotState_Damaged

fun slot_state_code :: "slot_state \<Rightarrow> 32 word" where
  "slot_state_code SlotState_Unspecified = 0"
| "slot_state_code SlotState_Empty = 1"
| "slot_state_code SlotState_Filled = 2"
| "slot_state_code SlotState_Damaged = 3"

fun slot_state_as_str_name :: "slot_state \<Rightarrow> string" where
  "slot_state_as_str_name SlotState_Unspecified = ''SLOT_STATE_UNSPECIFIED''"
| "slot_state_as_str_name SlotState_Empty = ''SLOT_STATE_EMPTY''"
| "slot_state_as_str_name SlotState_Filled = ''SLOT_STATE_FILLED''"
| "slot_state_as_str_name SlotState_Damaged = ''SLOT_STATE_DAMAGED''"

definition slot_state_from_str_name :: "string \<Rightarrow> slot_state option" where
  "slot_state_from_str_name value =
     (if value = ''SLOT_STATE_UNSPECIFIED'' then Some SlotState_Unspecified
      else if value = ''SLOT_STATE_EMPTY'' then Some SlotState_Empty
      else if value = ''SLOT_STATE_FILLED'' then Some SlotState_Filled
      else if value = ''SLOT_STATE_DAMAGED'' then Some SlotState_Damaged
      else None)"

section \<open>SlotConfidence\<close>

datatype slot_confidence = SlotConfidence_Unspecified | SlotConfidence_Low | SlotConfidence_Mid | SlotConfidence_High

fun slot_confidence_code :: "slot_confidence \<Rightarrow> 32 word" where
  "slot_confidence_code SlotConfidence_Unspecified = 0"
| "slot_confidence_code SlotConfidence_Low = 1"
| "slot_confidence_code SlotConfidence_Mid = 2"
| "slot_confidence_code SlotConfidence_High = 3"

fun slot_confidence_as_str_name :: "slot_confidence \<Rightarrow> string" where
  "slot_confidence_as_str_name SlotConfidence_Unspecified = ''SLOT_CONFIDENCE_UNSPECIFIED''"
| "slot_confidence_as_str_name SlotConfidence_Low = ''SLOT_CONFIDENCE_LOW''"
| "slot_confidence_as_str_name SlotConfidence_Mid = ''SLOT_CONFIDENCE_MID''"
| "slot_confidence_as_str_name SlotConfidence_High = ''SLOT_CONFIDENCE_HIGH''"

definition slot_confidence_from_str_name :: "string \<Rightarrow> slot_confidence option" where
  "slot_confidence_from_str_name value =
     (if value = ''SLOT_CONFIDENCE_UNSPECIFIED'' then Some SlotConfidence_Unspecified
      else if value = ''SLOT_CONFIDENCE_LOW'' then Some SlotConfidence_Low
      else if value = ''SLOT_CONFIDENCE_MID'' then Some SlotConfidence_Mid
      else if value = ''SLOT_CONFIDENCE_HIGH'' then Some SlotConfidence_High
      else None)"


section \<open>Every enumeration is named\<close>

interpretation reserved_names: named_enum reserved_errors_as_str_name reserved_errors_from_str_name reserved_code
proof
  show "reserved_errors_from_str_name (reserved_errors_as_str_name x) = Some x" for x by (cases x) (simp_all add: reserved_errors_from_str_name_def)
  show "reserved_errors_from_str_name s = Some x \<Longrightarrow> reserved_errors_as_str_name x = s" for s x by (auto simp: reserved_errors_from_str_name_def split: if_splits)
  show "reserved_code x = reserved_code y \<Longrightarrow> x = y" for x y by (cases x; cases y) simp_all
qed

interpretation execution_state_names: named_enum execution_state_as_str_name execution_state_from_str_name execution_state_code
proof
  show "execution_state_from_str_name (execution_state_as_str_name x) = Some x" for x by (cases x) (simp_all add: execution_state_from_str_name_def)
  show "execution_state_from_str_name s = Some x \<Longrightarrow> execution_state_as_str_name x = s" for s x by (auto simp: execution_state_from_str_name_def split: if_splits)
  show "execution_state_code x = execution_state_code y \<Longrightarrow> x = y" for x y by (cases x; cases y) simp_all
qed

interpretation execution_stream_names: named_enum execution_stream_as_str_name execution_stream_from_str_name execution_stream_code
proof
  show "execution_stream_from_str_name (execution_stream_as_str_name x) = Some x" for x by (cases x) (simp_all add: execution_stream_from_str_name_def)
  show "execution_stream_from_str_name s = Some x \<Longrightarrow> execution_stream_as_str_name x = s" for s x by (auto simp: execution_stream_from_str_name_def split: if_splits)
  show "execution_stream_code x = execution_stream_code y \<Longrightarrow> x = y" for x y by (cases x; cases y) simp_all
qed

interpretation slot_kind_names: named_enum slot_kind_as_str_name slot_kind_from_str_name slot_kind_code
proof
  show "slot_kind_from_str_name (slot_kind_as_str_name x) = Some x" for x by (cases x) (simp_all add: slot_kind_from_str_name_def)
  show "slot_kind_from_str_name s = Some x \<Longrightarrow> slot_kind_as_str_name x = s" for s x by (auto simp: slot_kind_from_str_name_def split: if_splits)
  show "slot_kind_code x = slot_kind_code y \<Longrightarrow> x = y" for x y by (cases x; cases y) simp_all
qed

interpretation slot_origin_names: named_enum slot_origin_as_str_name slot_origin_from_str_name slot_origin_code
proof
  show "slot_origin_from_str_name (slot_origin_as_str_name x) = Some x" for x by (cases x) (simp_all add: slot_origin_from_str_name_def)
  show "slot_origin_from_str_name s = Some x \<Longrightarrow> slot_origin_as_str_name x = s" for s x by (auto simp: slot_origin_from_str_name_def split: if_splits)
  show "slot_origin_code x = slot_origin_code y \<Longrightarrow> x = y" for x y by (cases x; cases y) simp_all
qed

interpretation slot_state_names: named_enum slot_state_as_str_name slot_state_from_str_name slot_state_code
proof
  show "slot_state_from_str_name (slot_state_as_str_name x) = Some x" for x by (cases x) (simp_all add: slot_state_from_str_name_def)
  show "slot_state_from_str_name s = Some x \<Longrightarrow> slot_state_as_str_name x = s" for s x by (auto simp: slot_state_from_str_name_def split: if_splits)
  show "slot_state_code x = slot_state_code y \<Longrightarrow> x = y" for x y by (cases x; cases y) simp_all
qed

interpretation slot_confidence_names: named_enum slot_confidence_as_str_name slot_confidence_from_str_name slot_confidence_code
proof
  show "slot_confidence_from_str_name (slot_confidence_as_str_name x) = Some x" for x by (cases x) (simp_all add: slot_confidence_from_str_name_def)
  show "slot_confidence_from_str_name s = Some x \<Longrightarrow> slot_confidence_as_str_name x = s" for s x by (auto simp: slot_confidence_from_str_name_def split: if_splits)
  show "slot_confidence_code x = slot_confidence_code y \<Longrightarrow> x = y" for x y by (cases x; cases y) simp_all
qed


section \<open>Property\<close>

text \<open>The names of an enumeration are unambiguous: parsing accepts exactly the names that printing produces and gives the
  variant back, and different variants have different numbers on the wire.\<close>

theorem enum_names:
  "(reserved_errors_from_str_name s = Some a \<longleftrightarrow> s = reserved_errors_as_str_name a) \<and> (reserved_code a = reserved_code a' \<longleftrightarrow> a = a') \<and>
   (execution_state_from_str_name s = Some b \<longleftrightarrow> s = execution_state_as_str_name b) \<and> (execution_state_code b = execution_state_code b' \<longleftrightarrow> b = b') \<and>
   (execution_stream_from_str_name s = Some c \<longleftrightarrow> s = execution_stream_as_str_name c) \<and> (execution_stream_code c = execution_stream_code c' \<longleftrightarrow> c = c') \<and>
   (slot_kind_from_str_name s = Some d \<longleftrightarrow> s = slot_kind_as_str_name d) \<and> (slot_kind_code d = slot_kind_code d' \<longleftrightarrow> d = d') \<and>
   (slot_origin_from_str_name s = Some e \<longleftrightarrow> s = slot_origin_as_str_name e) \<and> (slot_origin_code e = slot_origin_code e' \<longleftrightarrow> e = e') \<and>
   (slot_state_from_str_name s = Some f \<longleftrightarrow> s = slot_state_as_str_name f) \<and> (slot_state_code f = slot_state_code f' \<longleftrightarrow> f = f') \<and>
   (slot_confidence_from_str_name s = Some g \<longleftrightarrow> s = slot_confidence_as_str_name g) \<and> (slot_confidence_code g = slot_confidence_code g' \<longleftrightarrow> g = g')"
  by (intro conjI) (simp_all only: reserved_names.names reserved_names.codes execution_state_names.names execution_state_names.codes execution_stream_names.names execution_stream_names.codes slot_kind_names.names slot_kind_names.codes slot_origin_names.names slot_origin_names.codes slot_state_names.names slot_state_names.codes slot_confidence_names.names slot_confidence_names.codes)

end
