(* ===== verification/Message_Bodies.thy ===== *)
theory Message_Bodies
  imports Protocol_Base
begin

text \<open>
  The message bodies of the protocol: \<^verbatim>\<open>src/src/protocol/message.rs\<close> with the tables that
  \<^verbatim>\<open>src/src/protocol/generated/message.rs\<close> feeds to its macros. A message is a variant
  and its payload; the payload types are prost structures, a type parameter here. The macros
  expand the tables into one match arm per entry, which are lookups in the tables.
\<close>


section \<open>The generated tables\<close>

text \<open>\<^verbatim>\<open>messages!\<close>: the variants of \<^verbatim>\<open>Message\<close> with their payload types.\<close>

definition messages :: "(string \<times> string) list" where
  "messages =
    [(''CloudSyncFinishRequest'', ''CloudSyncFinishRequest''),
     (''CloudSyncFinishResponse'', ''CloudSyncFinishResponse''),
     (''CloudSyncStartRequest'', ''CloudSyncStartRequest''),
     (''CloudSyncStartResponse'', ''CloudSyncStartResponse''),
     (''DatasetPathsRequest'', ''DatasetPathsRequest''),
     (''DatasetPathsResponse'', ''DatasetPathsResponse''), (''Develop'', ''Vec<u8>''),
     (''DeviceInfoRequest'', ''DeviceInfoRequest''), (''DeviceInfoResponse'', ''DeviceInfoResponse''),
     (''ExecutionCancelRequest'', ''ExecutionCancelRequest''),
     (''ExecutionCancelResponse'', ''ExecutionCancelResponse''),
     (''ExecutionCreateRequest'', ''ExecutionCreateRequest''),
     (''ExecutionCreateResponse'', ''ExecutionCreateResponse''),
     (''ExecutionLoadRequest'', ''ExecutionLoadRequest''),
     (''ExecutionLoadResponse'', ''ExecutionLoadResponse''),
     (''ExecutionModuleReadRequest'', ''ExecutionModuleReadRequest''),
     (''ExecutionModuleReadResponse'', ''ExecutionModuleReadResponse''),
     (''ExecutionModuleSizeRequest'', ''ExecutionModuleSizeRequest''),
     (''ExecutionModuleSizeResponse'', ''ExecutionModuleSizeResponse''),
     (''ExecutionOutputRequest'', ''ExecutionOutputRequest''),
     (''ExecutionOutputResponse'', ''ExecutionOutputResponse''),
     (''ExecutionResultRequest'', ''ExecutionResultRequest''),
     (''ExecutionResultResponse'', ''ExecutionResultResponse''),
     (''ExecutionStartRequest'', ''ExecutionStartRequest''),
     (''ExecutionStartResponse'', ''ExecutionStartResponse''),
     (''ExecutionStatusRequest'', ''ExecutionStatusRequest''),
     (''ExecutionStatusResponse'', ''ExecutionStatusResponse''),
     (''FirmwareUpdateInitRequest'', ''FirmwareUpdateInitRequest''),
     (''FirmwareUpdateInitResponse'', ''FirmwareUpdateInitResponse''),
     (''FirmwareUpdateInstallRequest'', ''FirmwareUpdateInstallRequest''),
     (''FirmwareUpdateInstallResponse'', ''FirmwareUpdateInstallResponse''),
     (''FirmwareUpdatePrepRequest'', ''FirmwareUpdatePrepRequest''),
     (''FirmwareUpdatePrepResponse'', ''FirmwareUpdatePrepResponse''),
     (''FirmwareUpdateUploadRequest'', ''FirmwareUpdateUploadRequest''),
     (''FirmwareUpdateUploadResponse'', ''FirmwareUpdateUploadResponse''),
     (''FirmwareUpdateVerifyRequest'', ''FirmwareUpdateVerifyRequest''),
     (''FirmwareUpdateVerifyResponse'', ''FirmwareUpdateVerifyResponse''),
     (''GenuinityProofRequest'', ''GenuinityProofRequest''),
     (''GenuinityProofResponse'', ''GenuinityProofResponse''),
     (''OnboardingRequest'', ''OnboardingRequest''), (''OnboardingResponse'', ''OnboardingResponse''),
     (''PairingAcceptanceRequest'', ''PairingAcceptanceRequest''),
     (''PairingAcceptanceResponse'', ''PairingAcceptanceResponse''),
     (''PairingAckArkStorageRequest'', ''PairingAckArkStorageRequest''),
     (''PairingAckArkStorageResponse'', ''PairingAckArkStorageResponse''),
     (''PairingAuthRequest'', ''PairingAuthRequest''),
     (''PairingAuthResponse'', ''PairingAuthResponse''),
     (''PairingCompletionRequest'', ''PairingCompletionRequest''),
     (''PairingCompletionResponse'', ''PairingCompletionResponse''),
     (''PairingSetAppIdentityRequest'', ''PairingSetAppIdentityRequest''),
     (''PairingSetAppIdentityResponse'', ''PairingSetAppIdentityResponse''),
     (''PairingSetAppStorageRequest'', ''PairingSetAppStorageRequest''),
     (''PairingSetAppStorageResponse'', ''PairingSetAppStorageResponse''),
     (''RelayInboundRequest'', ''RelayInboundRequest''),
     (''RelayInboundResponse'', ''RelayInboundResponse''),
     (''RelayJoinRequest'', ''RelayJoinRequest''), (''RelayJoinResponse'', ''RelayJoinResponse''),
     (''RelayOutboundRequest'', ''RelayOutboundRequest''),
     (''RelayOutboundResponse'', ''RelayOutboundResponse''),
     (''SlotDeleteRequest'', ''SlotDeleteRequest''), (''SlotDeleteResponse'', ''SlotDeleteResponse''),
     (''SlotIdentifyRequest'', ''SlotIdentifyRequest''),
     (''SlotIdentifyResponse'', ''SlotIdentifyResponse''), (''SlotListRequest'', ''SlotListRequest''),
     (''SlotListResponse'', ''SlotListResponse''), (''SlotRepairRequest'', ''SlotRepairRequest''),
     (''SlotRepairResponse'', ''SlotRepairResponse''),
     (''SlotUploadCancelRequest'', ''SlotUploadCancelRequest''),
     (''SlotUploadCancelResponse'', ''SlotUploadCancelResponse''),
     (''SlotUploadChunkRequest'', ''SlotUploadChunkRequest''),
     (''SlotUploadChunkResponse'', ''SlotUploadChunkResponse''),
     (''SlotUploadProcessRequest'', ''SlotUploadProcessRequest''),
     (''SlotUploadProcessResponse'', ''SlotUploadProcessResponse''),
     (''SlotUploadStartRequest'', ''SlotUploadStartRequest''),
     (''SlotUploadStartResponse'', ''SlotUploadStartResponse''),
     (''UnlockRequest'', ''UnlockRequest''), (''UnlockResponse'', ''UnlockResponse'')]"

text \<open>\<^verbatim>\<open>contents!\<close>: the fields of each envelope's oneof with the variant they carry.\<close>

definition host_to_ark :: "(string \<times> string) list" where
  "host_to_ark =
    [(''Onboard'', ''OnboardingRequest''), (''DeviceInfo'', ''DeviceInfoRequest''),
     (''CloudSyncStart'', ''CloudSyncStartRequest''),
     (''CloudSyncFinish'', ''CloudSyncFinishRequest''),
     (''GenuinityProof'', ''GenuinityProofRequest''),
     (''FirmwareUpdatePrep'', ''FirmwareUpdatePrepRequest''),
     (''FirmwareUpdateInit'', ''FirmwareUpdateInitRequest''),
     (''FirmwareUpdateUpload'', ''FirmwareUpdateUploadRequest''),
     (''FirmwareUpdateVerify'', ''FirmwareUpdateVerifyRequest''),
     (''FirmwareUpdateInstall'', ''FirmwareUpdateInstallRequest''),
     (''PairingAuth'', ''PairingAuthRequest''),
     (''PairingSetAppId'', ''PairingSetAppIdentityRequest''),
     (''PairingSetAppStorage'', ''PairingSetAppStorageRequest''),
     (''PairingAckArkStorage'', ''PairingAckArkStorageRequest''),
     (''PairingAccept'', ''PairingAcceptanceRequest''),
     (''PairingComplete'', ''PairingCompletionRequest''), (''RelayJoin'', ''RelayJoinRequest''),
     (''RelayInbound'', ''RelayInboundRequest''), (''RelayOutbound'', ''RelayOutboundResponse''),
     (''Unlock'', ''UnlockRequest''), (''ExecCreate'', ''ExecutionCreateRequest''),
     (''ExecLoad'', ''ExecutionLoadRequest''), (''ExecStart'', ''ExecutionStartRequest''),
     (''ExecStatus'', ''ExecutionStatusRequest''), (''ExecCancel'', ''ExecutionCancelRequest''),
     (''ExecResult'', ''ExecutionResultRequest''), (''ExecOutput'', ''ExecutionOutputRequest''),
     (''ExecModuleSize'', ''ExecutionModuleSizeResponse''),
     (''ExecModuleRead'', ''ExecutionModuleReadResponse''), (''SlotList'', ''SlotListRequest''),
     (''SlotRepair'', ''SlotRepairRequest''), (''SlotDelete'', ''SlotDeleteRequest''),
     (''SlotIdentify'', ''SlotIdentifyRequest''), (''SlotUploadStart'', ''SlotUploadStartRequest''),
     (''SlotUploadChunk'', ''SlotUploadChunkRequest''),
     (''SlotUploadCancel'', ''SlotUploadCancelRequest''),
     (''SlotUploadProcess'', ''SlotUploadProcessRequest''),
     (''DatasetPaths'', ''DatasetPathsRequest''), (''Develop'', ''Develop'')]"

definition ark_to_host :: "(string \<times> string) list" where
  "ark_to_host =
    [(''Onboard'', ''OnboardingResponse''), (''DeviceInfo'', ''DeviceInfoResponse''),
     (''CloudSyncStart'', ''CloudSyncStartResponse''),
     (''CloudSyncFinish'', ''CloudSyncFinishResponse''),
     (''GenuinityProof'', ''GenuinityProofResponse''),
     (''FirmwareUpdatePrep'', ''FirmwareUpdatePrepResponse''),
     (''FirmwareUpdateInit'', ''FirmwareUpdateInitResponse''),
     (''FirmwareUpdateUpload'', ''FirmwareUpdateUploadResponse''),
     (''FirmwareUpdateVerify'', ''FirmwareUpdateVerifyResponse''),
     (''FirmwareUpdateInstall'', ''FirmwareUpdateInstallResponse''),
     (''PairingAuth'', ''PairingAuthResponse''),
     (''PairingSetAppId'', ''PairingSetAppIdentityResponse''),
     (''PairingSetAppStorage'', ''PairingSetAppStorageResponse''),
     (''PairingAckArkStorage'', ''PairingAckArkStorageResponse''),
     (''PairingAccept'', ''PairingAcceptanceResponse''),
     (''PairingComplete'', ''PairingCompletionResponse''), (''RelayJoin'', ''RelayJoinResponse''),
     (''RelayInbound'', ''RelayInboundResponse''), (''RelayOutbound'', ''RelayOutboundRequest''),
     (''Unlock'', ''UnlockResponse''), (''ExecCreate'', ''ExecutionCreateResponse''),
     (''ExecLoad'', ''ExecutionLoadResponse''), (''ExecStart'', ''ExecutionStartResponse''),
     (''ExecStatus'', ''ExecutionStatusResponse''), (''ExecCancel'', ''ExecutionCancelResponse''),
     (''ExecResult'', ''ExecutionResultResponse''), (''ExecOutput'', ''ExecutionOutputResponse''),
     (''ExecModuleSize'', ''ExecutionModuleSizeRequest''),
     (''ExecModuleRead'', ''ExecutionModuleReadRequest''), (''SlotList'', ''SlotListResponse''),
     (''SlotRepair'', ''SlotRepairResponse''), (''SlotDelete'', ''SlotDeleteResponse''),
     (''SlotIdentify'', ''SlotIdentifyResponse''), (''SlotUploadStart'', ''SlotUploadStartResponse''),
     (''SlotUploadChunk'', ''SlotUploadChunkResponse''),
     (''SlotUploadCancel'', ''SlotUploadCancelResponse''),
     (''SlotUploadProcess'', ''SlotUploadProcessResponse''),
     (''DatasetPaths'', ''DatasetPathsResponse''), (''Develop'', ''Develop'')]"


section \<open>Messages and contents\<close>

datatype 'p message = Message (variant: string) (payload: 'p)

datatype 'p content = Content (field: string) (body: 'p)

text \<open>The oneof a role sends.\<close>

fun contents :: "role \<Rightarrow> (string \<times> string) list" where
  "contents Client = host_to_ark"
| "contents Server = ark_to_host"

text \<open>The values of the Rust types: a message has one of the variants, a content one of the fields.
  Lookups outside these are \<open>None\<close> or the empty name.\<close>

definition message_ok :: "'p message \<Rightarrow> bool" where
  "message_ok m \<longleftrightarrow> variant m \<in> fst ` set messages"

definition content_ok :: "role \<Rightarrow> 'p content \<Rightarrow> bool" where
  "content_ok r c \<longleftrightarrow> field c \<in> fst ` set (contents r)"

definition type_of_variant :: "string \<Rightarrow> string" where
  "type_of_variant v = (case map_of messages v of Some t \<Rightarrow> t | None \<Rightarrow> [])"

definition type_name :: "'p message \<Rightarrow> string" where
  "type_name m = type_of_variant (variant m)"

text \<open>\<^verbatim>\<open>TryFrom<Message> for Content\<close>: the field whose variant the message has.\<close>

definition content_try_from :: "role \<Rightarrow> 'p message \<Rightarrow> (protocol_error, 'p content) result" where
  "content_try_from r m =
     (case map_of (map prod.swap (contents r)) (variant m) of
        Some f \<Rightarrow> Ok (Content f (payload m))
      | None \<Rightarrow> Err (WrongDirection (type_name m)))"

text \<open>\<^verbatim>\<open>From<Content> for Message\<close>.\<close>

definition message_from :: "role \<Rightarrow> 'p content \<Rightarrow> 'p message option" where
  "message_from r c = map_option (\<lambda>v. Message v (body c)) (map_of (contents r) (field c))"

text \<open>\<^verbatim>\<open>TryFrom<Message> for $payload\<close>, for the payload of the variant \<open>v\<close>.\<close>

definition payload_try_from :: "string \<Rightarrow> 'p message \<Rightarrow> (protocol_error, 'p) result" where
  "payload_try_from v m =
     (if variant m = v then Ok (payload m)
      else Err (UnexpectedResponse (type_of_variant v) (type_name m)))"


section \<open>The tables are bijections\<close>

lemma map_of_swap:
  "distinct (map snd ps) \<Longrightarrow> map_of (map prod.swap ps) v = Some f \<longleftrightarrow> (f, v) \<in> set ps"
  by (induction ps) (auto simp: rev_image_eqI split: if_splits)

lemma contents_distinct: "distinct (map fst (contents r)) \<and> distinct (map snd (contents r))"
proof (cases r)
  case Client
  show ?thesis unfolding Client by code_simp
next
  case Server
  show ?thesis unfolding Server by code_simp
qed

text \<open>Where each variant stands in the other table.\<close>

lemma messages_found:
  "map (\<lambda>i. map snd (contents Client @ contents Server) ! i)
    [3, 42, 2, 41, 37, 76, 38, 1, 40, 24, 63, 20, 59, 21, 60, 67, 28, 66, 27, 26, 65, 25, 64,
     22, 61, 23, 62, 6, 45, 9, 48, 5, 44, 7, 46, 8, 47, 4, 43, 0, 39, 14, 53, 13, 52, 10, 49,
     15, 54, 11, 50, 12, 51, 17, 56, 16, 55, 57, 18, 31, 70, 32, 71, 29, 68, 30, 69, 35, 74,
     34, 73, 36, 75, 33, 72, 19, 58]
   = map fst messages"
  by code_simp

lemma contents_found:
  "map (\<lambda>i. map fst messages ! i)
    [39, 7, 2, 0, 37, 31, 27, 33, 35, 29, 45, 49, 51, 43, 41, 47, 55, 53, 58, 75, 11, 13, 23,
     25, 9, 21, 19, 18, 16, 63, 65, 59, 61, 73, 69, 67, 71, 4, 6, 40, 8, 3, 1, 38, 32, 28, 34,
     36, 30, 46, 50, 52, 44, 42, 48, 56, 54, 57, 76, 12, 14, 24, 26, 10, 22, 20, 17, 15, 64,
     66, 60, 62, 74, 70, 68, 72, 5, 6]
   = map snd (contents Client @ contents Server)"
  by code_simp

lemma subset_by_index:
  assumes "map (\<lambda>i. ys ! i) is = xs" and "\<forall>i \<in> set is. i < length ys"
  shows "set xs \<subseteq> set ys"
  using assms by auto

lemma contents_lengths: "length messages = 77" "length (contents Client @ contents Server) = 78"
  by code_simp+

lemma contents_messages: "fst ` set messages = snd ` set (contents Client) \<union> snd ` set (contents Server)"
proof -
  have "set (map fst messages) = set (map snd (contents Client @ contents Server))"
    by (rule subset_antisym; rule subset_by_index [OF messages_found] subset_by_index [OF contents_found])
      (simp_all only: length_map contents_lengths, simp_all)
  then show ?thesis by (simp add: image_Un)
qed

lemma contents_overlap: "snd ` set (contents Client) \<inter> snd ` set (contents Server) = {''Develop''}"
  by code_simp

lemma content_try_from_Ok:
  "content_try_from r m = Ok c \<longleftrightarrow> (field c, variant m) \<in> set (contents r) \<and> body c = payload m"
proof -
  have swap: "map_of (map prod.swap (contents r)) (variant m) = Some f \<longleftrightarrow> (f, variant m) \<in> set (contents r)" for f
    using contents_distinct [of r] by (simp add: map_of_swap)
  show ?thesis
    by (cases c) (auto simp: content_try_from_def swap [symmetric] split: option.splits)
qed

lemma content_try_from_Err:
  "content_try_from r m = Err k \<longleftrightarrow> variant m \<notin> snd ` set (contents r) \<and> k = WrongDirection (type_name m)"
proof -
  have "map_of (map prod.swap (contents r)) (variant m) = None \<longleftrightarrow> variant m \<notin> snd ` set (contents r)"
    by (simp add: map_of_eq_None_iff image_image)
  then show ?thesis by (auto simp: content_try_from_def split: option.splits)
qed

lemma message_from_Some:
  "message_from r c = Some m \<longleftrightarrow> (field c, variant m) \<in> set (contents r) \<and> body c = payload m"
  using contents_distinct [of r] by (cases m) (auto simp: message_from_def map_of_eq_Some_iff)

lemma message_from_ok: "message_from r c \<noteq> None \<longleftrightarrow> content_ok r c"
  by (auto simp: message_from_def content_ok_def map_of_eq_None_iff)

lemma travels: "(\<exists>c. content_try_from r m = Ok c) \<longleftrightarrow> variant m \<in> snd ` set (contents r)"
proof
  assume "variant m \<in> snd ` set (contents r)"
  then obtain f where "(f, variant m) \<in> set (contents r)" by auto
  then have "content_try_from r m = Ok (Content f (payload m))" by (simp add: content_try_from_Ok)
  then show "\<exists>c. content_try_from r m = Ok c" by blast
qed (auto simp: content_try_from_Ok intro: rev_image_eqI)


section \<open>Properties\<close>

text \<open>Converting between messages and the contents of a direction loses nothing: a message
  becomes a content exactly when that content becomes this message, every content of the direction
  is some message, and a refused message is refused for its direction. Every message may travel in
  some direction, and only the development message in both.\<close>

theorem body_conversions:
  "(content_try_from r m = Ok c \<longleftrightarrow> message_from r c = Some m) \<and>
   (message_from r c \<noteq> None \<longleftrightarrow> content_ok r c) \<and>
   (content_try_from r m = Err k \<longrightarrow> k = WrongDirection (type_name m)) \<and>
   (message_ok m \<longleftrightarrow> (\<exists>d c. content_try_from d m = Ok c)) \<and>
   ((\<forall>d. \<exists>c. content_try_from d m = Ok c) \<longleftrightarrow> variant m = ''Develop'')"
proof (intro conjI impI)
  show "content_try_from r m = Ok c \<longleftrightarrow> message_from r c = Some m"
    by (simp add: content_try_from_Ok message_from_Some)
  show "message_from r c \<noteq> None \<longleftrightarrow> content_ok r c" by (rule message_from_ok)
  show "k = WrongDirection (type_name m)" if "content_try_from r m = Err k"
    using that by (simp add: content_try_from_Err)
  have "(\<exists>d c. content_try_from d m = Ok c) \<longleftrightarrow>
      variant m \<in> snd ` set (contents Client) \<union> snd ` set (contents Server)"
    by (simp only: travels ex_role Un_iff)
  then show "message_ok m \<longleftrightarrow> (\<exists>d c. content_try_from d m = Ok c)"
    by (simp only: message_ok_def contents_messages)
  have "(\<forall>d. \<exists>c. content_try_from d m = Ok c) \<longleftrightarrow>
      variant m \<in> snd ` set (contents Client) \<inter> snd ` set (contents Server)"
    by (simp only: travels all_role Int_iff)
  then show "(\<forall>d. \<exists>c. content_try_from d m = Ok c) \<longleftrightarrow> variant m = ''Develop''"
    by (simp only: contents_overlap singleton_iff)
qed

theorem body_conversions_witness:
  "content_try_from Client (Message ''UnlockResponse'' ()) = Err (WrongDirection ''UnlockResponse'') \<and>
   content_try_from Server (Message ''UnlockResponse'' ()) = Ok (Content ''Unlock'' ()) \<and>
   message_from Server (Content ''Unlock'' ()) = Some (Message ''UnlockResponse'' ())"
proof -
  have sent: "content_try_from Server (Message ''UnlockResponse'' ()) = Ok (Content ''Unlock'' ())"
    by code_simp
  have "content_try_from Client (Message ''UnlockResponse'' ()) = Err (WrongDirection ''UnlockResponse'')"
    by code_simp
  moreover have "message_from Server (Content ''Unlock'' ()) = Some (Message ''UnlockResponse'' ())"
    using body_conversions [of Server "Message ''UnlockResponse'' ()" "Content ''Unlock'' ()"] sent by blast
  ultimately show ?thesis using sent by blast
qed

end
