(* ===== verification/Schema_Names.thy ===== *)
theory Schema_Names
  imports Message_Bodies
begin

text \<open>
  The names of bodies for log lines: \<^verbatim>\<open>src/src/protocol/generated/darkbio.wire.names.rs\<close> for the contents of an envelope whose body is not
  decoded, and \<^verbatim>\<open>Message::field_name\<close> of \<^verbatim>\<open>src/src/protocol/generated/message.rs\<close> for messages.
\<close>


section \<open>The tables\<close>

definition host_to_ark_names :: "(string \<times> string) list" where
  "host_to_ark_names =
    [(''Onboard'', ''onboard''), (''DeviceInfo'', ''device_info''), (''CloudSyncStart'', ''cloud_sync_start''),
     (''CloudSyncFinish'', ''cloud_sync_finish''), (''GenuinityProof'', ''genuinity_proof''),
     (''FirmwareUpdatePrep'', ''firmware_update_prep''), (''FirmwareUpdateInit'', ''firmware_update_init''),
     (''FirmwareUpdateUpload'', ''firmware_update_upload''), (''FirmwareUpdateVerify'', ''firmware_update_verify''),
     (''FirmwareUpdateInstall'', ''firmware_update_install''), (''PairingAuth'', ''pairing_auth''),
     (''PairingSetAppId'', ''pairing_set_app_id''), (''PairingSetAppStorage'', ''pairing_set_app_storage''),
     (''PairingAckArkStorage'', ''pairing_ack_ark_storage''), (''PairingAccept'', ''pairing_accept''),
     (''PairingComplete'', ''pairing_complete''), (''RelayJoin'', ''relay_join''), (''RelayInbound'', ''relay_inbound''),
     (''RelayOutbound'', ''relay_outbound''), (''Unlock'', ''unlock''), (''ExecCreate'', ''exec_create''),
     (''ExecLoad'', ''exec_load''), (''ExecStart'', ''exec_start''), (''ExecStatus'', ''exec_status''),
     (''ExecCancel'', ''exec_cancel''), (''ExecResult'', ''exec_result''), (''ExecOutput'', ''exec_output''),
     (''ExecModuleSize'', ''exec_module_size''), (''ExecModuleRead'', ''exec_module_read''), (''SlotList'', ''slot_list''),
     (''SlotRepair'', ''slot_repair''), (''SlotDelete'', ''slot_delete''), (''SlotIdentify'', ''slot_identify''),
     (''SlotUploadStart'', ''slot_upload_start''), (''SlotUploadChunk'', ''slot_upload_chunk''),
     (''SlotUploadCancel'', ''slot_upload_cancel''), (''SlotUploadProcess'', ''slot_upload_process''),
     (''DatasetPaths'', ''dataset_paths''), (''Develop'', ''develop'')]"

definition ark_to_host_names :: "(string \<times> string) list" where
  "ark_to_host_names =
    [(''Onboard'', ''onboard''), (''DeviceInfo'', ''device_info''), (''CloudSyncStart'', ''cloud_sync_start''),
     (''CloudSyncFinish'', ''cloud_sync_finish''), (''GenuinityProof'', ''genuinity_proof''),
     (''FirmwareUpdatePrep'', ''firmware_update_prep''), (''FirmwareUpdateInit'', ''firmware_update_init''),
     (''FirmwareUpdateUpload'', ''firmware_update_upload''), (''FirmwareUpdateVerify'', ''firmware_update_verify''),
     (''FirmwareUpdateInstall'', ''firmware_update_install''), (''PairingAuth'', ''pairing_auth''),
     (''PairingSetAppId'', ''pairing_set_app_id''), (''PairingSetAppStorage'', ''pairing_set_app_storage''),
     (''PairingAckArkStorage'', ''pairing_ack_ark_storage''), (''PairingAccept'', ''pairing_accept''),
     (''PairingComplete'', ''pairing_complete''), (''RelayJoin'', ''relay_join''), (''RelayInbound'', ''relay_inbound''),
     (''RelayOutbound'', ''relay_outbound''), (''Unlock'', ''unlock''), (''ExecCreate'', ''exec_create''),
     (''ExecLoad'', ''exec_load''), (''ExecStart'', ''exec_start''), (''ExecStatus'', ''exec_status''),
     (''ExecCancel'', ''exec_cancel''), (''ExecResult'', ''exec_result''), (''ExecOutput'', ''exec_output''),
     (''ExecModuleSize'', ''exec_module_size''), (''ExecModuleRead'', ''exec_module_read''), (''SlotList'', ''slot_list''),
     (''SlotRepair'', ''slot_repair''), (''SlotDelete'', ''slot_delete''), (''SlotIdentify'', ''slot_identify''),
     (''SlotUploadStart'', ''slot_upload_start''), (''SlotUploadChunk'', ''slot_upload_chunk''),
     (''SlotUploadCancel'', ''slot_upload_cancel''), (''SlotUploadProcess'', ''slot_upload_process''),
     (''DatasetPaths'', ''dataset_paths''), (''Develop'', ''develop'')]"

definition field_names :: "(string \<times> string) list" where
  "field_names =
    [(''CloudSyncFinishRequest'', ''cloud_sync_finish''), (''CloudSyncFinishResponse'', ''cloud_sync_finish''),
     (''CloudSyncStartRequest'', ''cloud_sync_start''), (''CloudSyncStartResponse'', ''cloud_sync_start''),
     (''DatasetPathsRequest'', ''dataset_paths''), (''DatasetPathsResponse'', ''dataset_paths''), (''Develop'', ''develop''),
     (''DeviceInfoRequest'', ''device_info''), (''DeviceInfoResponse'', ''device_info''),
     (''ExecutionCancelRequest'', ''exec_cancel''), (''ExecutionCancelResponse'', ''exec_cancel''),
     (''ExecutionCreateRequest'', ''exec_create''), (''ExecutionCreateResponse'', ''exec_create''),
     (''ExecutionLoadRequest'', ''exec_load''), (''ExecutionLoadResponse'', ''exec_load''),
     (''ExecutionModuleReadRequest'', ''exec_module_read''), (''ExecutionModuleReadResponse'', ''exec_module_read''),
     (''ExecutionModuleSizeRequest'', ''exec_module_size''), (''ExecutionModuleSizeResponse'', ''exec_module_size''),
     (''ExecutionOutputRequest'', ''exec_output''), (''ExecutionOutputResponse'', ''exec_output''),
     (''ExecutionResultRequest'', ''exec_result''), (''ExecutionResultResponse'', ''exec_result''),
     (''ExecutionStartRequest'', ''exec_start''), (''ExecutionStartResponse'', ''exec_start''),
     (''ExecutionStatusRequest'', ''exec_status''), (''ExecutionStatusResponse'', ''exec_status''),
     (''FirmwareUpdateInitRequest'', ''firmware_update_init''), (''FirmwareUpdateInitResponse'', ''firmware_update_init''),
     (''FirmwareUpdateInstallRequest'', ''firmware_update_install''),
     (''FirmwareUpdateInstallResponse'', ''firmware_update_install''), (''FirmwareUpdatePrepRequest'', ''firmware_update_prep''),
     (''FirmwareUpdatePrepResponse'', ''firmware_update_prep''), (''FirmwareUpdateUploadRequest'', ''firmware_update_upload''),
     (''FirmwareUpdateUploadResponse'', ''firmware_update_upload''), (''FirmwareUpdateVerifyRequest'', ''firmware_update_verify''),
     (''FirmwareUpdateVerifyResponse'', ''firmware_update_verify''), (''GenuinityProofRequest'', ''genuinity_proof''),
     (''GenuinityProofResponse'', ''genuinity_proof''), (''OnboardingRequest'', ''onboard''), (''OnboardingResponse'', ''onboard''),
     (''PairingAcceptanceRequest'', ''pairing_accept''), (''PairingAcceptanceResponse'', ''pairing_accept''),
     (''PairingAckArkStorageRequest'', ''pairing_ack_ark_storage''),
     (''PairingAckArkStorageResponse'', ''pairing_ack_ark_storage''), (''PairingAuthRequest'', ''pairing_auth''),
     (''PairingAuthResponse'', ''pairing_auth''), (''PairingCompletionRequest'', ''pairing_complete''),
     (''PairingCompletionResponse'', ''pairing_complete''), (''PairingSetAppIdentityRequest'', ''pairing_set_app_id''),
     (''PairingSetAppIdentityResponse'', ''pairing_set_app_id''), (''PairingSetAppStorageRequest'', ''pairing_set_app_storage''),
     (''PairingSetAppStorageResponse'', ''pairing_set_app_storage''), (''RelayInboundRequest'', ''relay_inbound''),
     (''RelayInboundResponse'', ''relay_inbound''), (''RelayJoinRequest'', ''relay_join''), (''RelayJoinResponse'', ''relay_join''),
     (''RelayOutboundRequest'', ''relay_outbound''), (''RelayOutboundResponse'', ''relay_outbound''),
     (''SlotDeleteRequest'', ''slot_delete''), (''SlotDeleteResponse'', ''slot_delete''),
     (''SlotIdentifyRequest'', ''slot_identify''), (''SlotIdentifyResponse'', ''slot_identify''),
     (''SlotListRequest'', ''slot_list''), (''SlotListResponse'', ''slot_list''), (''SlotRepairRequest'', ''slot_repair''),
     (''SlotRepairResponse'', ''slot_repair''), (''SlotUploadCancelRequest'', ''slot_upload_cancel''),
     (''SlotUploadCancelResponse'', ''slot_upload_cancel''), (''SlotUploadChunkRequest'', ''slot_upload_chunk''),
     (''SlotUploadChunkResponse'', ''slot_upload_chunk''), (''SlotUploadProcessRequest'', ''slot_upload_process''),
     (''SlotUploadProcessResponse'', ''slot_upload_process''), (''SlotUploadStartRequest'', ''slot_upload_start''),
     (''SlotUploadStartResponse'', ''slot_upload_start''), (''UnlockRequest'', ''unlock''), (''UnlockResponse'', ''unlock'')]"

text \<open>The match arms are lookups; outside the tables there are no values.\<close>

fun content_names :: "role \<Rightarrow> (string \<times> string) list" where
  "content_names Client = host_to_ark_names"
| "content_names Server = ark_to_host_names"

definition content_name :: "role \<Rightarrow> string \<Rightarrow> string" where
  "content_name r f = (case map_of (content_names r) f of Some name \<Rightarrow> name | None \<Rightarrow> [])"

definition field_name :: "'p message \<Rightarrow> string" where
  "field_name m = (case map_of field_names (variant m) of Some name \<Rightarrow> name | None \<Rightarrow> [])"


section \<open>The tables agree\<close>

text \<open>The names follow the tables of contents and of messages, row by row.\<close>

lemma content_names_rows: "map fst (content_names r) = map fst (contents r)"
proof (cases r)
  case Client
  show ?thesis unfolding Client by code_simp
next
  case Server
  show ?thesis unfolding Server by code_simp
qed

lemma field_names_rows: "map fst field_names = map fst messages"
  by code_simp

lemma field_names_contents: "list_all (\<lambda>((f, v), (f', name)). map_of field_names v = Some name) (zip (contents r) (content_names r))"
proof (cases r)
  case Client
  show ?thesis unfolding Client by code_simp
next
  case Server
  show ?thesis unfolding Server by code_simp
qed

text \<open>The name read off an envelope is the name of its message.\<close>

lemma content_name_field_name:
  assumes "message_from r c = Some m"
  shows "content_name r (field c) = field_name m"
proof -
  let ?rows = "zip (contents r) (content_names r)"
  have len: "length (content_names r) = length (contents r)" using content_names_rows by (metis length_map)
  obtain i where i: "i < length (contents r)" "contents r ! i = (field c, variant m)"
    using assms by (auto simp: message_from_Some in_set_conv_nth)
  obtain name where name: "content_names r ! i = (field c, name)"
    using arg_cong [OF content_names_rows [of r], of "\<lambda>xs. xs ! i"] i len by (cases "content_names r ! i") simp
  have "distinct (map fst (content_names r))" using contents_distinct content_names_rows by metis
  then have "map_of (content_names r) (field c) = Some name" using name i(1) len by (metis map_of_eq_Some_iff nth_mem)
  moreover have "map_of field_names (variant m) = Some name"
    using field_names_contents [of r] i name len by (auto simp: list_all_length)
  ultimately show ?thesis by (simp add: content_name_def field_name_def)
qed

end
