(* ===== verification/Envelope_Routing.thy ===== *)
theory Envelope_Routing
  imports Schema_Names
begin

text \<open>
  \<^verbatim>\<open>src/src/protocol/envelope.rs\<close>: reading the routing fields of an envelope without decoding its
  body, encoding and decoding whole envelopes, and the byte charge of a retained envelope.

  The protobuf crate (prost, and the code it derives for the schema) is the parameter \<open>prost\<close>: its
  decoders of the opaque and of the full envelopes, its encoder, and the two low-level functions
  that step over the top-level fields. \<open>prost_codec\<close> names what the protocol relies on.
\<close>


section \<open>The protobuf crate\<close>

text \<open>The role argument is the side that sends the envelope. \<open>pb_outer\<close> is the opaque decoder, which
  yields the identifier, whether an error is present and which field of the oneof is.\<close>

record 'p prost =
  pb_outer :: "role \<Rightarrow> bytes \<Rightarrow> (string, id \<times> bool \<times> string option) result"
  pb_decode_key :: "bytes \<Rightarrow> (nat \<times> nat \<times> bytes) option"
  pb_skip_field :: "nat \<Rightarrow> nat \<Rightarrow> bytes \<Rightarrow> bytes option"
  pb_encoded_len :: "role \<Rightarrow> id \<Rightarrow> schema_error option \<Rightarrow> 'p content option \<Rightarrow> nat"
  pb_encode :: "role \<Rightarrow> id \<Rightarrow> schema_error option \<Rightarrow> 'p content option \<Rightarrow> bytes"
  pb_decode :: "role \<Rightarrow> bytes \<Rightarrow> (string, id \<times> schema_error option \<times> 'p content option) result"

text \<open>\<open>has_field pb bs t\<close>: stepping over the fields of \<open>bs\<close> from the start reaches a field with
  tag \<open>t\<close>, all fields before it having tags below the content range.\<close>

inductive has_field :: "'p prost \<Rightarrow> bytes \<Rightarrow> nat \<Rightarrow> bool" for pb where
  here: "bs \<noteq> [] \<Longrightarrow> pb_decode_key pb bs = Some (t, wire, rest) \<Longrightarrow> has_field pb bs t"
| later: "bs \<noteq> [] \<Longrightarrow> pb_decode_key pb bs = Some (t', wire, rest) \<Longrightarrow> t' < 0x100 \<Longrightarrow>
    pb_skip_field pb wire t' rest = Some rest' \<Longrightarrow> has_field pb rest' t \<Longrightarrow> has_field pb bs t"

inductive_cases has_fieldE: "has_field pb bs t"

locale prost_codec =
  fixes pb :: "'p prost"
  assumes key_progress: "pb_decode_key pb bs = Some (tag, wire, rest) \<Longrightarrow> length rest < length bs"
    and skip_shrinks: "pb_skip_field pb wire tag bs = Some rest \<Longrightarrow> length rest \<le> length bs"
    and encoded_len: "length (pb_encode pb r i err content) = pb_encoded_len pb r i err content"
    and decode_encode: "pb_encoded_len pb r i err content < 2 ^ 64 \<Longrightarrow>
       (\<forall>c. content = Some c \<longrightarrow> content_ok r c) \<Longrightarrow>
       pb_decode pb r (pb_encode pb r i err content) = Ok (i, err, content)"
    and outer_encode: "pb_encoded_len pb r i err content < 2 ^ 64 \<Longrightarrow>
       (\<forall>c. content = Some c \<longrightarrow> content_ok r c) \<Longrightarrow>
       pb_outer pb r (pb_encode pb r i err content) = Ok (i, err \<noteq> None, map_option field content)"
    and encode_fields: "pb_encoded_len pb r i err None < 2 ^ 64 \<Longrightarrow>
       has_field pb (pb_encode pb r i err None) tag \<Longrightarrow> tag < 0x100"


section \<open>Reading the header\<close>

record header =
  h_id :: id
  h_failed :: bool
  h_payload :: "string option"
  h_unknown :: bool

text \<open>The loop of \<^verbatim>\<open>decode_header\<close> over the top-level fields: whether a tag of the content range
  comes before the end and before the first field that does not parse.\<close>

partial_function (option) unknown_scan :: "'p prost \<Rightarrow> bytes \<Rightarrow> bool option" where
  "unknown_scan pb rest =
     (if rest = [] then Some False
      else case pb_decode_key pb rest of
          None \<Rightarrow> Some False
        | Some (tag, wire, rest1) \<Rightarrow>
            if tag \<ge> 0x100 then Some True
            else (case pb_skip_field pb wire tag rest1 of
                None \<Rightarrow> Some False
              | Some rest2 \<Rightarrow> unknown_scan pb rest2))"

text \<open>\<^verbatim>\<open>Side::decode_header\<close>, for the side \<open>r\<close> that received the bytes. Every refusal is
  \<^verbatim>\<open>Error::Malformed\<close>.\<close>

definition decode_header :: "'p prost \<Rightarrow> role \<Rightarrow> bytes \<Rightarrow> (protocol_error, header) result option" where
  "decode_header pb r bs =
     (case pb_outer pb (peer r) bs of
        Err _ \<Rightarrow> Some (Err Malformed)
      | Ok (i, failed, known) \<Rightarrow>
          (case (if known = None then unknown_scan pb bs else Some False) of
             None \<Rightarrow> None
           | Some unknown \<Rightarrow>
               if (known \<noteq> None \<or> unknown) = failed then Some (Err Malformed)
               else Some (Ok \<lparr>h_id = i, h_failed = failed,
                  h_payload = (if known \<noteq> None then map_option (content_name (peer r)) known else if unknown then Some ''unknown''
                     else if failed then Some ''err'' else None),
                  h_unknown = unknown\<rparr>)))"


section \<open>Whole envelopes\<close>

text \<open>A body is a message or an error; \<open>limit\<close> is \<^verbatim>\<open>transport::MAX_MESSAGE_SIZE\<close>.\<close>

type_synonym 'p body = "(schema_error, 'p message) result"

text \<open>The name of a body for log lines.\<close>

definition body_name :: "'p body \<Rightarrow> string" where
  "body_name b = (case b of Ok m \<Rightarrow> field_name m | Err _ \<Rightarrow> ''err'')"

definition envelope_parts :: "role \<Rightarrow> 'p body \<Rightarrow> (protocol_error, schema_error option \<times> 'p content option) result" where
  "envelope_parts r b = (case b of
      Ok m \<Rightarrow> (case content_try_from r m of Ok c \<Rightarrow> Ok (None, Some c) | Err k \<Rightarrow> Err k)
    | Err err \<Rightarrow> Ok (Some err, None))"

definition envelope_encode :: "'p prost \<Rightarrow> nat \<Rightarrow> role \<Rightarrow> id \<Rightarrow> 'p body \<Rightarrow> (protocol_error, bytes) result" where
  "envelope_encode pb limit r i b = (case envelope_parts r b of
      Err k \<Rightarrow> Err k
    | Ok (err, content) \<Rightarrow>
        let n = pb_encoded_len pb r i err content
        in if n > limit then Err (TooLarge n) else Ok (pb_encode pb r i err content))"

datatype decode_error = Protobuf string | Body

text \<open>The Rust content always belongs to the oneof it was decoded from; a content outside it is no
  value of the type and counts as a missing body here.\<close>

definition envelope_decode :: "'p prost \<Rightarrow> role \<Rightarrow> bytes \<Rightarrow> (decode_error, id \<times> 'p body) result" where
  "envelope_decode pb r bs = (case pb_decode pb (peer r) bs of
      Err msg \<Rightarrow> Err (Protobuf msg)
    | Ok (i, err, content) \<Rightarrow>
        (case (Option.bind content (message_from (peer r)), err) of
           (Some m, None) \<Rightarrow> Ok (i, Ok m)
         | (None, Some e) \<Rightarrow> (if content = None then Ok (i, Err e) else Err Body)
         | _ \<Rightarrow> Err Body))"


section \<open>Retained bytes\<close>

text \<open>\<^verbatim>\<open>ByteCharge::reserve\<close> on the counter, with the \<^verbatim>\<open>checked_add\<close> of \<^verbatim>\<open>usize\<close>, and the drop of a
  charge; an underflow of the counter is a panic of debug builds.\<close>

definition charge_reserve :: "nat \<Rightarrow> nat \<Rightarrow> nat \<Rightarrow> (protocol_error, nat) result" where
  "charge_reserve used n limit =
     (if used + n < 2 ^ 64 \<and> used + n \<le> limit then Ok (used + n) else Err (InboundByteLimitExceeded limit))"

definition charge_drop :: "nat \<Rightarrow> nat \<Rightarrow> nat option" where
  "charge_drop used n = (if n \<le> used then Some (used - n) else None)"

text \<open>\<^verbatim>\<open>IncomingEnvelope\<close>: the bytes and the header. Its side and session are those of the session
  that holds it, and its charge is the length of the bytes.\<close>

record incoming =
  in_bytes :: bytes
  in_header :: header

definition in_charge :: "incoming \<Rightarrow> nat" where
  "in_charge e = length (in_bytes e)"

lemma charge_reserve_Ok: "charge_reserve used n limit = Ok used1 \<Longrightarrow> used1 = used + n \<and> used1 \<le> limit"
  by (auto simp: charge_reserve_def split: if_splits)

lemma charge_reserve_Err: "charge_reserve used n limit = Err k \<Longrightarrow> k = InboundByteLimitExceeded limit"
  by (auto simp: charge_reserve_def split: if_splits)


section \<open>The scan of the top-level fields\<close>

context prost_codec
begin

lemma has_field_step:
  assumes "bs \<noteq> []" "pb_decode_key pb bs = Some (tag, wire, rest)" "\<not> tag \<ge> 0x100" "t \<ge> 0x100"
  shows "has_field pb bs t \<longleftrightarrow> (\<exists>rest'. pb_skip_field pb wire tag rest = Some rest' \<and> has_field pb rest' t)"
  using assms by (subst has_field.simps) auto

lemma unknown_scan_total: "unknown_scan pb bs = Some (\<exists>t \<ge> 0x100. has_field pb bs t)"
proof (induction "length bs" arbitrary: bs rule: less_induct)
  case less
  show ?case
  proof (cases "bs = [] \<or> pb_decode_key pb bs = None")
    case True
    then have "\<not> has_field pb bs t" for t by (auto elim: has_fieldE)
    with True show ?thesis by (subst unknown_scan.simps) auto
  next
    case False
    then obtain tag wire rest where ne: "bs \<noteq> []" and key: "pb_decode_key pb bs = Some (tag, wire, rest)"
      by auto
    show ?thesis
    proof (cases "tag \<ge> 0x100")
      case True
      with ne key show ?thesis by (subst unknown_scan.simps) (auto intro: has_field.here)
    next
      case small: False
      show ?thesis
      proof (cases "pb_skip_field pb wire tag rest")
        case None
        with ne key small show ?thesis
          by (subst unknown_scan.simps) (simp add: has_field_step cong: conj_cong)
      next
        case (Some rest')
        have "length rest' < length bs"
          using key_progress [OF key] skip_shrinks [OF Some] by simp
        then have "unknown_scan pb rest' = Some (\<exists>t \<ge> 0x100. has_field pb rest' t)" by (rule less)
        with ne key small Some show ?thesis
          by (subst unknown_scan.simps) (simp add: has_field_step cong: conj_cong)
      qed
    qed
  qed
qed

lemma decode_header_returns: "\<exists>res. decode_header pb r bs = Some res"
  by (auto simp: decode_header_def unknown_scan_total split: sum.splits)

lemma decode_header_Ok:
  assumes "decode_header pb r bs = Some (Ok h)"
  shows "h_failed h \<longleftrightarrow> \<not> h_unknown h \<and> (\<forall>name. pb_outer pb (peer r) bs \<noteq> Ok (h_id h, h_failed h, Some name))"
    and "h_unknown h \<Longrightarrow> \<exists>t \<ge> 0x100. has_field pb bs t"
  using assms
  by (auto simp: decode_header_def unknown_scan_total split: sum.splits if_splits prod.splits)

lemma envelope_roundtrip:
  assumes sent: "envelope_encode pb limit r i b = Ok bs" and limit: "limit < 2 ^ 64"
  shows "length bs \<le> limit \<and> envelope_decode pb (peer r) bs = Ok (i, b) \<and>
    (\<exists>h. decode_header pb (peer r) bs = Some (Ok h) \<and> h_id h = i \<and> (h_failed h \<longleftrightarrow> isl b) \<and> \<not> h_unknown h \<and>
       h_payload h = Some (body_name b))"
proof -
  from sent obtain err content where parts: "envelope_parts r b = Ok (err, content)"
    and len: "pb_encoded_len pb r i err content \<le> limit" and bs: "bs = pb_encode pb r i err content"
    by (auto simp: envelope_encode_def Let_def split: sum.splits if_splits)
  have small: "pb_encoded_len pb r i err content < 2 ^ 64" using len limit by simp
  have bodies: "(\<exists>m c. b = Ok m \<and> content_try_from r m = Ok c \<and> err = None \<and> content = Some c) \<or>
      (\<exists>e. b = Err e \<and> err = Some e \<and> content = None)"
    using parts by (auto simp: envelope_parts_def split: sum.splits)
  have returned: "message_from r c = Some m" "content_ok r c" if "content_try_from r m = Ok c" for m c
    using that message_from_ok [of r c] message_from_Some [of r c m] by (auto simp: content_try_from_Ok)
  have ok: "\<forall>c. content = Some c \<longrightarrow> content_ok r c" using bodies returned by auto
  have outer: "pb_outer pb r bs = Ok (i, err \<noteq> None, map_option field content)"
    unfolding bs by (rule outer_encode [OF small ok])
  have decoded: "pb_decode pb r bs = Ok (i, err, content)"
    unfolding bs by (rule decode_encode [OF small ok])
  have scan: "unknown_scan pb bs = Some False" if "content = None"
  proof -
    have "\<not> (has_field pb bs tag \<and> tag \<ge> 0x100)" for tag
      using encode_fields small that unfolding bs by (meson not_less)
    then show ?thesis by (auto simp: unknown_scan_total)
  qed
  have "length bs \<le> limit" using len unfolding bs by (simp add: encoded_len)
  moreover have "envelope_decode pb (peer r) bs = Ok (i, b)"
    using bodies
  proof (elim disjE exE conjE)
    fix m c assume *: "b = Ok m" "content_try_from r m = Ok c" "err = None" "content = Some c"
    with returned(1) [OF *(2)] show ?thesis by (simp add: envelope_decode_def decoded)
  qed (simp add: envelope_decode_def decoded)
  moreover have "\<exists>h. decode_header pb (peer r) bs = Some (Ok h) \<and> h_id h = i \<and>
      (h_failed h \<longleftrightarrow> isl b) \<and> \<not> h_unknown h \<and> h_payload h = Some (body_name b)"
    using bodies scan content_name_field_name [OF returned(1)] by (auto simp: decode_header_def outer body_name_def)
  ultimately show ?thesis by blast
qed

end


lemma envelope_encode_mono:
  "envelope_encode pb limit r i b = Ok bs \<Longrightarrow> limit \<le> limit' \<Longrightarrow> envelope_encode pb limit' r i b = Ok bs"
  by (auto simp: envelope_encode_def Let_def split: sum.splits if_splits)

lemma envelope_encode_length:
  assumes "prost_codec pb" "envelope_encode pb limit r i b = Ok bs"
  shows "length bs \<le> limit"
  using assms(2) prost_codec.encoded_len [OF assms(1)]
  by (auto simp: envelope_encode_def Let_def split: sum.splits if_splits)


section \<open>Properties\<close>

text \<open>The routing fields without a loop: what an envelope's header is, as a function of the opaque
  decoder and of the fields present.\<close>

definition header_spec :: "'p prost \<Rightarrow> role \<Rightarrow> bytes \<Rightarrow> (protocol_error, header) result" where
  "header_spec pb r bs = (case pb_outer pb (peer r) bs of
      Err _ \<Rightarrow> Err Malformed
    | Ok (i, failed, Some name) \<Rightarrow>
        if failed then Err Malformed else Ok \<lparr>h_id = i, h_failed = False, h_payload = Some (content_name (peer r) name), h_unknown = False\<rparr>
    | Ok (i, failed, None) \<Rightarrow>
        if \<exists>t \<ge> 0x100. has_field pb bs t
        then (if failed then Err Malformed
              else Ok \<lparr>h_id = i, h_failed = False, h_payload = Some ''unknown'', h_unknown = True\<rparr>)
        else (if failed then Ok \<lparr>h_id = i, h_failed = True, h_payload = Some ''err'', h_unknown = False\<rparr>
              else Err Malformed))"

text \<open>C25: reading a header always returns, whatever bytes the peer sent, and yields exactly what the
  envelope says: known content, content of a future schema, or an error, and nothing with both or
  neither of content and error.\<close>

theorem decode_header_is_spec:
  assumes "prost_codec pb"
  shows "decode_header pb r bs = Some (header_spec pb r bs)"
  using prost_codec.unknown_scan_total [OF assms]
  by (auto simp: decode_header_def header_spec_def split: sum.splits option.splits)

text \<open>C26: what one side encodes the other side reads back: the size respects the transport limit, the
  header names the identifier, whether it is an error and the message, and the full decoding gives the
  identifier and the body. Only a message of the wrong direction or a size over the limit is
  refused, and an error body never for its direction.\<close>

theorem envelope_exchange:
  assumes "prost_codec pb" and "limit < 2 ^ 64"
  shows "case envelope_encode pb limit r i b of
      Ok bs \<Rightarrow> length bs \<le> limit \<and> envelope_decode pb (peer r) bs = Ok (i, b) \<and>
        (\<exists>h. decode_header pb (peer r) bs = Some (Ok h) \<and> h_id h = i \<and> (h_failed h \<longleftrightarrow> isl b) \<and> \<not> h_unknown h \<and>
           h_payload h = Some (body_name b))
    | Err k \<Rightarrow> (\<exists>n. k = TooLarge n \<and> limit < n) \<or> (\<exists>m. b = Ok m \<and> k = WrongDirection (type_name m))"
  using prost_codec.envelope_roundtrip [OF assms(1) _ assms(2), of r i b]
  by (auto simp: envelope_encode_def envelope_parts_def content_try_from_Err Let_def split: sum.splits if_splits)

end
