(* ===== verification/Protobuf_Reference.thy ===== *)
theory Protobuf_Reference
  imports Envelope_Routing
begin

text \<open>
  A reference implementation of the protobuf wire format for the two envelopes: base-128 varints,
  keys, the scalar and length-delimited wire types, last-one-wins scalars, unknown fields skipped.
  It shows that the laws of \<open>prost_codec\<close> can be met by a real format, and the witnesses of the
  protocol layer run on it. Payloads are their encoded bytes. The content tags are those of
  \<^verbatim>\<open>src/src/protocol/generated/darkbio.wire.opaque.rs\<close>; the deprecated group wire types are
  refused.
\<close>


section \<open>Varints, keys and values\<close>

fun varint :: "nat \<Rightarrow> bytes" where
  "varint n = (if n < 128 then [of_nat n] else of_nat (n mod 128 + 128) # varint (n div 128))"

declare varint.simps [simp del]

fun get_varint :: "nat \<Rightarrow> bytes \<Rightarrow> (nat \<times> bytes) option" where
  "get_varint 0 bs = None"
| "get_varint (Suc k) [] = None"
| "get_varint (Suc k) (b # bs) =
     (if unat b < 128 then Some (unat b, bs)
      else map_option (\<lambda>(n, rest). (unat b - 128 + 128 * n, rest)) (get_varint k bs))"

definition read_varint :: "bytes \<Rightarrow> (nat \<times> bytes) option" where
  "read_varint bs = (case get_varint 10 bs of
      None \<Rightarrow> None
    | Some (n, rest) \<Rightarrow> if n < 2 ^ 64 then Some (n, rest) else None)"

definition read_key :: "bytes \<Rightarrow> (nat \<times> nat \<times> bytes) option" where
  "read_key bs = (case read_varint bs of
      None \<Rightarrow> None
    | Some (k, rest) \<Rightarrow>
        if k < 2 ^ 32 \<and> k mod 8 \<le> 5 \<and> 1 \<le> k div 8 then Some (k div 8, k mod 8, rest) else None)"

datatype wire_value = WVarint nat | WBytes bytes | WFixed bytes

definition read_exact :: "nat \<Rightarrow> bytes \<Rightarrow> (bytes \<times> bytes) option" where
  "read_exact n bs = (if n \<le> length bs then Some (take n bs, drop n bs) else None)"

definition read_value :: "nat \<Rightarrow> bytes \<Rightarrow> (wire_value \<times> bytes) option" where
  "read_value wire bs =
     (if wire = 0 then map_option (\<lambda>(n, rest). (WVarint n, rest)) (read_varint bs)
      else if wire = 1 then map_option (\<lambda>(v, rest). (WFixed v, rest)) (read_exact 8 bs)
      else if wire = 2 then (case read_varint bs of
          None \<Rightarrow> None
        | Some (n, rest) \<Rightarrow> map_option (\<lambda>(v, rest'). (WBytes v, rest')) (read_exact n rest))
      else if wire = 5 then map_option (\<lambda>(v, rest). (WFixed v, rest)) (read_exact 4 bs)
      else None)"

definition skip_value :: "nat \<Rightarrow> nat \<Rightarrow> bytes \<Rightarrow> bytes option" where
  "skip_value wire tag bs = map_option snd (read_value wire bs)"

text \<open>The fields the envelopes use: varints and byte strings.\<close>

fun write_field :: "nat \<times> wire_value \<Rightarrow> bytes" where
  "write_field (tag, WVarint n) = varint (tag * 8) @ varint n"
| "write_field (tag, WBytes v) = varint (tag * 8 + 2) @ varint (length v) @ v"
| "write_field (tag, WFixed v) = varint (tag * 8 + (if length v = 8 then 1 else 5)) @ v"

fun fields :: "nat \<Rightarrow> bytes \<Rightarrow> (nat \<times> wire_value) list option" where
  "fields k [] = Some []"
| "fields 0 (b # bs) = None"
| "fields (Suc k) (b # bs) = (case read_key (b # bs) of
      None \<Rightarrow> None
    | Some (tag, wire, rest) \<Rightarrow>
        (case read_value wire rest of
           None \<Rightarrow> None
         | Some (v, rest') \<Rightarrow> map_option (Cons (tag, v)) (fields k rest')))"


section \<open>The envelopes\<close>

definition content_tags :: "(string \<times> nat) list" where
  "content_tags =
    [(''Onboard'', 256), (''DeviceInfo'', 257), (''CloudSyncStart'', 258), (''CloudSyncFinish'', 259),
     (''GenuinityProof'', 260), (''FirmwareUpdatePrep'', 513), (''FirmwareUpdateInit'', 514),
     (''FirmwareUpdateUpload'', 515), (''FirmwareUpdateVerify'', 516), (''FirmwareUpdateInstall'', 517),
     (''PairingAuth'', 769), (''PairingSetAppId'', 770), (''PairingSetAppStorage'', 771),
     (''PairingAckArkStorage'', 772), (''PairingAccept'', 773), (''PairingComplete'', 774),
     (''RelayJoin'', 1025), (''RelayInbound'', 1026), (''RelayOutbound'', 1027), (''Unlock'', 1281),
     (''ExecCreate'', 1282), (''ExecLoad'', 1283), (''ExecStart'', 1284), (''ExecStatus'', 1285),
     (''ExecCancel'', 1286), (''ExecResult'', 1287), (''ExecOutput'', 1288), (''ExecModuleSize'', 1289),
     (''ExecModuleRead'', 1290), (''SlotList'', 1537), (''SlotRepair'', 1538), (''SlotDelete'', 1539),
     (''SlotIdentify'', 1540), (''SlotUploadStart'', 1541), (''SlotUploadChunk'', 1542),
     (''SlotUploadCancel'', 1543), (''SlotUploadProcess'', 1544), (''DatasetPaths'', 1793), (''Develop'', 4096)]"

definition get_uint :: "nat \<Rightarrow> (nat \<times> wire_value) list \<Rightarrow> nat option" where
  "get_uint tag fs = foldl (\<lambda>acc (t, v). if t = tag
     then (case v of WVarint n \<Rightarrow> map_option (\<lambda>_. n) acc | _ \<Rightarrow> None) else acc) (Some 0) fs"

definition get_bytes :: "nat \<Rightarrow> (nat \<times> wire_value) list \<Rightarrow> bytes option option" where
  "get_bytes tag fs = foldl (\<lambda>acc (t, v). if t = tag
     then (case v of WBytes b \<Rightarrow> map_option (\<lambda>_. Some b) acc | _ \<Rightarrow> None) else acc) (Some None) fs"

definition get_content :: "(nat \<times> wire_value) list \<Rightarrow> bytes content option option" where
  "get_content fs = foldl (\<lambda>acc (t, v). case map_of (map prod.swap content_tags) t of
      None \<Rightarrow> acc
    | Some f \<Rightarrow> (case v of WBytes b \<Rightarrow> map_option (\<lambda>_. Some (Content f b)) acc | _ \<Rightarrow> None)) (Some None) fs"

definition text_bytes :: "string \<Rightarrow> bytes" where
  "text_bytes s = map (\<lambda>c. of_nat (of_char c)) s"

definition bytes_text :: "bytes \<Rightarrow> string" where
  "bytes_text bs = map (\<lambda>b. char_of (unat b)) bs"

definition uint_field :: "nat \<Rightarrow> 64 word \<Rightarrow> (nat \<times> wire_value) list" where
  "uint_field tag n = (if n = 0 then [] else [(tag, WVarint (unat n))])"

definition encode_fields :: "(nat \<times> wire_value) list \<Rightarrow> bytes" where
  "encode_fields fs = concat (map write_field fs)"

definition error_fields :: "schema_error \<Rightarrow> (nat \<times> wire_value) list" where
  "error_fields err = uint_field 1 (err_code err) @
     (if err_msg err = [] then [] else [(2, WBytes (text_bytes (err_msg err)))])"

definition content_tag :: "bytes content \<Rightarrow> nat" where
  "content_tag c = (case map_of content_tags (field c) of Some t \<Rightarrow> t | None \<Rightarrow> 0x1fff)"

definition envelope_fields :: "id \<Rightarrow> schema_error option \<Rightarrow> bytes content option \<Rightarrow> (nat \<times> wire_value) list" where
  "envelope_fields i err content = uint_field 1 i @
     (case err of None \<Rightarrow> [] | Some e \<Rightarrow> [(2, WBytes (encode_fields (error_fields e)))]) @
     (case content of None \<Rightarrow> [] | Some c \<Rightarrow> [(content_tag c, WBytes (body c))])"

definition reference_encode :: "role \<Rightarrow> id \<Rightarrow> schema_error option \<Rightarrow> bytes content option \<Rightarrow> bytes" where
  "reference_encode r i err content = encode_fields (envelope_fields i err content)"

definition decode_error :: "bytes \<Rightarrow> schema_error option" where
  "decode_error bs = Option.bind (fields (length bs) bs) (\<lambda>fs.
     Option.bind (get_uint 1 fs) (\<lambda>code.
     map_option (\<lambda>msg. \<lparr>err_code = of_nat code, err_msg = (case msg of None \<Rightarrow> [] | Some b \<Rightarrow> bytes_text b)\<rparr>)
       (get_bytes 2 fs)))"

definition reference_parts :: "bytes \<Rightarrow> (string, id \<times> bytes option \<times> bytes content option) result" where
  "reference_parts bs = (case Option.bind (fields (length bs) bs) (\<lambda>fs.
       Option.bind (get_uint 1 fs) (\<lambda>i.
       Option.bind (get_bytes 2 fs) (\<lambda>err.
       map_option (\<lambda>c. (of_nat i, err, c)) (get_content fs)))) of
     None \<Rightarrow> Err ''invalid envelope'' | Some parts \<Rightarrow> Ok parts)"

definition reference_outer :: "role \<Rightarrow> bytes \<Rightarrow> (string, id \<times> bool \<times> string option) result" where
  "reference_outer r bs = (case reference_parts bs of
      Err msg \<Rightarrow> Err msg
    | Ok (i, err, c) \<Rightarrow> Ok (i, err \<noteq> None, map_option field c))"

definition reference_decode :: "role \<Rightarrow> bytes \<Rightarrow> (string, id \<times> schema_error option \<times> bytes content option) result" where
  "reference_decode r bs = (case reference_parts bs of
      Err msg \<Rightarrow> Err msg
    | Ok (i, None, c) \<Rightarrow> Ok (i, None, c)
    | Ok (i, Some e, c) \<Rightarrow> (case decode_error e of None \<Rightarrow> Err ''invalid error'' | Some err \<Rightarrow> Ok (i, Some err, c)))"

definition protobuf :: "bytes prost" where
  "protobuf = \<lparr>pb_outer = reference_outer, pb_decode_key = read_key, pb_skip_field = skip_value,
     pb_encoded_len = (\<lambda>r i err content. length (reference_encode r i err content)),
     pb_encode = reference_encode, pb_decode = reference_decode\<rparr>"


section \<open>Reading what was written\<close>

lemma get_varint_varint: "n < 128 ^ Suc k \<Longrightarrow> get_varint (Suc k) (varint n @ rest) = Some (n, rest)"
proof (induction k arbitrary: n)
  case 0
  then show ?case by (simp add: varint.simps [of n] unat_of_nat)
next
  case (Suc k)
  show ?case
  proof (cases "n < 128")
    case True
    then show ?thesis by (simp add: varint.simps [of n] unat_of_nat)
  next
    case False
    have "n div 128 < 128 ^ Suc k"
      using Suc.prems by (simp add: div_less_iff_less_mult mult.commute)
    then have rest: "get_varint (Suc k) (varint (n div 128) @ rest) = Some (n div 128, rest)" by (rule Suc.IH)
    have "n mod 128 + 128 < 256" using mod_less_divisor [of 128 n] by linarith
    then have byte: "unat (of_nat (n mod 128 + 128) :: byte) = n mod 128 + 128"
      by (simp only: unat_of_nat len_num1 len_bit0 len_of_numeral_defs) simp
    have "get_varint (Suc (Suc k)) (varint n @ rest) = Some (n mod 128 + 128 * (n div 128), rest)"
      using False by (simp only: varint.simps [of n] if_False append_Cons get_varint.simps byte) (simp add: rest del: get_varint.simps)
    then show ?thesis by (simp only: mod_mult_div_eq)
  qed
qed

lemma read_varint_varint: "n < 2 ^ 64 \<Longrightarrow> read_varint (varint n @ rest) = Some (n, rest)"
proof -
  assume n: "n < 2 ^ 64"
  have "get_varint (Suc 9) (varint n @ rest) = Some (n, rest)"
    by (rule get_varint_varint) (use n in simp)
  then show ?thesis using n by (simp add: read_varint_def)
qed

lemma get_varint_length: "get_varint k bs = Some (n, rest) \<Longrightarrow> length rest < length bs"
  by (induction k bs arbitrary: n rest rule: get_varint.induct) (auto split: if_splits intro: less_SucI)

lemma read_varint_length: "read_varint bs = Some (n, rest) \<Longrightarrow> length rest < length bs"
  by (auto simp: read_varint_def dest: get_varint_length split: option.splits if_splits)

lemma read_key_length: "read_key bs = Some (tag, wire, rest) \<Longrightarrow> length rest < length bs"
  by (auto simp: read_key_def dest: read_varint_length split: option.splits if_splits)

lemma read_exact_length: "read_exact n bs = Some (v, rest) \<Longrightarrow> length rest \<le> length bs"
  by (auto simp: read_exact_def split: if_splits)

lemma read_value_length: "read_value wire bs = Some (v, rest) \<Longrightarrow> length rest \<le> length bs"
  by (auto simp: read_value_def dest!: read_varint_length read_exact_length split: if_splits option.splits)

lemma read_key_varint:
  "1 \<le> tag \<Longrightarrow> tag < 2 ^ 28 \<Longrightarrow> wire \<le> 5 \<Longrightarrow> read_key (varint (tag * 8 + wire) @ rest) = Some (tag, wire, rest)"
  by (simp add: read_key_def read_varint_varint)

text \<open>The values that fit: what an envelope below 2^64 bytes is made of.\<close>

fun field_ok :: "nat \<times> wire_value \<Rightarrow> bool" where
  "field_ok (tag, WVarint n) \<longleftrightarrow> 1 \<le> tag \<and> tag < 2 ^ 28 \<and> n < 2 ^ 64"
| "field_ok (tag, WBytes v) \<longleftrightarrow> 1 \<le> tag \<and> tag < 2 ^ 28 \<and> length v < 2 ^ 64"
| "field_ok (tag, WFixed v) \<longleftrightarrow> False"

lemma varint_not_Nil [simp]: "varint n \<noteq> []"
  by (simp add: varint.simps [of n])

lemma read_field:
  assumes "field_ok f"
  shows "\<exists>wire rest'. read_key (write_field f @ rest) = Some (fst f, wire, rest' @ rest) \<and>
    read_value wire (rest' @ rest) = Some (snd f, rest)"
  using assms
proof (cases f rule: field_ok.cases)
  case (1 tag n)
  with assms show ?thesis
    using read_key_varint [of tag 0 "varint n @ rest"]
    by (intro exI [of _ 0] exI [of _ "varint n"]) (simp add: read_value_def read_varint_varint)
next
  case (2 tag b)
  with assms show ?thesis
    using read_key_varint [of tag 2 "varint (length b) @ b @ rest"]
    by (intro exI [of _ 2] exI [of _ "varint (length b) @ b"])
      (simp add: read_value_def read_varint_varint read_exact_def)
qed simp

lemma id_bound [simp]: "unat (i :: 64 word) < 18446744073709551616"
  using unsigned_less [of i, where 'a = nat] by simp

lemma write_field_length: "1 \<le> length (write_field f)"
  by (cases f rule: write_field.cases) (simp_all add: Suc_le_eq)

lemma fields_write:
  "list_all field_ok fs \<Longrightarrow> length (encode_fields fs) \<le> k \<Longrightarrow> fields k (encode_fields fs) = Some fs"
proof (induction fs arbitrary: k)
  case Nil
  then show ?case by (simp add: encode_fields_def)
next
  case (Cons f fs)
  obtain tag v where f: "f = (tag, v)" by fastforce
  have enc: "encode_fields (f # fs) = write_field f @ encode_fields fs" by (simp add: encode_fields_def)
  from write_field_length [of f] obtain b bs where bytes: "write_field f = b # bs" by (cases "write_field f") auto
  from Cons.prems(2) obtain k' where k: "k = Suc k'" and k': "length (encode_fields fs) \<le> k'"
    unfolding enc bytes by (cases k) auto
  obtain wire rest' where "read_key (write_field f @ encode_fields fs) = Some (tag, wire, rest' @ encode_fields fs)"
    and "read_value wire (rest' @ encode_fields fs) = Some (v, encode_fields fs)"
    using Cons.prems(1) read_field [of f "encode_fields fs"] by (auto simp: f)
  then have "fields (Suc k') (b # bs @ encode_fields fs) = Some ((tag, v) # fs)"
    using Cons.IH [OF _ k'] Cons.prems(1) by (simp add: bytes)
  then show ?case by (simp only: enc bytes k append_Cons) (simp add: f)
qed

lemma text_roundtrip [simp]: "bytes_text (text_bytes s) = s"
proof -
  have "unat (of_nat (of_char c) :: byte) = of_char c" for c
    by (simp add: unat_of_nat)
  then show ?thesis by (simp add: bytes_text_def text_bytes_def map_idI)
qed

lemma length_text [simp]: "length (text_bytes s) = length s"
  by (simp add: text_bytes_def)

lemma encoded_bytes_length:
  "(tag, WBytes v) \<in> set fs \<Longrightarrow> length v < length (encode_fields fs)"
proof (induction fs)
  case (Cons f fs)
  then show ?case
    by (cases "f = (tag, WBytes v)") (auto simp: encode_fields_def Suc_le_eq)
qed simp

lemma content_tags_contents: "map fst content_tags = map fst (contents r)"
proof (cases r)
  case Client
  show ?thesis unfolding Client by code_simp
next
  case Server
  show ?thesis unfolding Server by code_simp
qed

lemma content_tags_distinct: "distinct (map snd content_tags)" "\<forall>t \<in> set (map snd content_tags). 0x100 \<le> t \<and> t < 0x1fff"
  by (simp_all add: content_tags_def)

lemma content_tag_ok:
  assumes "content_ok r c"
  shows "map_of (map prod.swap content_tags) (content_tag c) = Some (field c)"
    and "0x100 \<le> content_tag c" "content_tag c < 0x1fff"
proof -
  have "field c \<in> fst ` set content_tags"
    using assms content_tags_contents [of r] by (metis content_ok_def set_map)
  then obtain t where t: "map_of content_tags (field c) = Some t" "(field c, t) \<in> set content_tags"
    by (metis map_of_SomeD map_of_eq_None_iff not_None_eq)
  then show "map_of (map prod.swap content_tags) (content_tag c) = Some (field c)"
    using map_of_swap [OF content_tags_distinct(1)] by (simp add: content_tag_def)
  show "0x100 \<le> content_tag c" "content_tag c < 0x1fff"
    using t content_tags_distinct(2) by (auto simp: content_tag_def)
qed

lemma small_tag_unknown: "t < 0x100 \<Longrightarrow> map_of (map prod.swap content_tags) t = None"
  using content_tags_distinct(2) by (fastforce simp: map_of_eq_None_iff)



section \<open>The reference is a codec\<close>

lemma error_fields_ok:
  assumes "length (err_msg e) < 2 ^ 64"
  shows "list_all field_ok (error_fields e)"
  using assms by (simp add: error_fields_def uint_field_def)

lemma decode_error_encode:
  assumes "length (encode_fields (error_fields e)) < 2 ^ 64"
  shows "decode_error (encode_fields (error_fields e)) = Some e"
proof -
  have "length (err_msg e) < 2 ^ 64"
  proof (cases "err_msg e = []")
    case False
    then have "length (text_bytes (err_msg e)) < length (encode_fields (error_fields e))"
      by (intro encoded_bytes_length [of 2]) (simp add: error_fields_def)
    with assms show ?thesis by simp
  qed simp
  then have "fields (length (encode_fields (error_fields e))) (encode_fields (error_fields e)) = Some (error_fields e)"
    by (intro fields_write error_fields_ok order.refl)
  then show ?thesis
    by (auto simp: decode_error_def error_fields_def uint_field_def get_uint_def get_bytes_def)
qed

lemma envelope_fields_ok:
  assumes "length (encode_fields (envelope_fields i err content)) < 2 ^ 64"
    and ok: "\<forall>c. content = Some c \<longrightarrow> content_ok r c"
  shows "list_all field_ok (envelope_fields i err content)"
proof -
  have "length v < 2 ^ 64" if "(tag, WBytes v) \<in> set (envelope_fields i err content)" for tag v
    using encoded_bytes_length [OF that] assms(1) by simp
  moreover have "1 \<le> content_tag c \<and> content_tag c < 2 ^ 28" if "content = Some c" for c
    using content_tag_ok(2,3) [of r c] ok that by simp
  ultimately show ?thesis
    by (fastforce simp: envelope_fields_def uint_field_def split: option.splits)
qed

lemma reference_parts_encode:
  assumes "length (reference_encode r i err content) < 2 ^ 64"
    and ok: "\<forall>c. content = Some c \<longrightarrow> content_ok r c"
  shows "reference_parts (reference_encode r i err content) =
    Ok (i, map_option (\<lambda>e. encode_fields (error_fields e)) err, content)"
proof -
  let ?fs = "envelope_fields i err content"
  have tag: "map_of (map prod.swap content_tags) (content_tag c) = Some (field c)"
    "0x100 \<le> content_tag c" if "content = Some c" for c
    using content_tag_ok [of r c] ok that by auto
  have "fields (length (encode_fields ?fs)) (encode_fields ?fs) = Some ?fs"
    using envelope_fields_ok [of i err content r] assms by (intro fields_write) (simp_all add: reference_encode_def)
  moreover have "get_uint 1 ?fs = Some (unat i)"
    using tag(2) by (auto simp: get_uint_def envelope_fields_def uint_field_def split: option.splits)
  moreover have "get_bytes 2 ?fs = Some (map_option (\<lambda>e. encode_fields (error_fields e)) err)"
    using tag(2) by (auto simp: get_bytes_def envelope_fields_def uint_field_def split: option.splits)
  moreover have "get_content ?fs = Some content"
    using tag(1) small_tag_unknown [of 1] small_tag_unknown [of 2]
    by (auto simp: get_content_def envelope_fields_def uint_field_def split: option.splits)
  ultimately show ?thesis by (simp add: reference_parts_def reference_encode_def)
qed

lemma has_field_encoded:
  assumes "has_field protobuf bs tag" "bs = encode_fields fs" "list_all field_ok fs"
  shows "tag \<in> fst ` set fs"
  using assms
proof (induction arbitrary: fs rule: has_field.induct)
  case (here bs t wire rest)
  then obtain f fs' where fs: "fs = f # fs'" by (cases fs) (auto simp: encode_fields_def)
  obtain wire' rest' where "read_key (write_field f @ encode_fields fs') = Some (fst f, wire', rest' @ encode_fields fs')"
    using read_field [of f "encode_fields fs'"] here.prems(2) fs by auto
  with here show ?case by (simp add: fs encode_fields_def protobuf_def)
next
  case (later bs t' wire rest rest1 t)
  then obtain f fs' where fs: "fs = f # fs'" by (cases fs) (auto simp: encode_fields_def)
  obtain wire' rest' where "read_key (write_field f @ encode_fields fs') = Some (fst f, wire', rest' @ encode_fields fs')"
    and "read_value wire' (rest' @ encode_fields fs') = Some (snd f, encode_fields fs')"
    using read_field [of f "encode_fields fs'"] later.prems(2) fs by auto
  with later.hyps later.prems(1) have "rest1 = encode_fields fs'"
    by (auto simp: fs encode_fields_def protobuf_def skip_value_def)
  with later.IH later.prems(2) show ?case by (simp add: fs)
qed

interpretation reference: prost_codec protobuf
proof
  fix bs tag wire rest
  show "pb_decode_key protobuf bs = Some (tag, wire, rest) \<Longrightarrow> length rest < length bs"
    by (simp add: protobuf_def read_key_length)
  show "pb_skip_field protobuf wire tag bs = Some rest \<Longrightarrow> length rest \<le> length bs"
    by (auto simp: protobuf_def skip_value_def dest: read_value_length)
next
  fix r i err and content :: "bytes content option"
  show "length (pb_encode protobuf r i err content) = pb_encoded_len protobuf r i err content"
    by (simp add: protobuf_def)
  assume len: "pb_encoded_len protobuf r i err content < 2 ^ 64"
    and ok: "\<forall>c. content = Some c \<longrightarrow> content_ok r c"
  then have parts: "reference_parts (reference_encode r i err content) =
      Ok (i, map_option (\<lambda>e. encode_fields (error_fields e)) err, content)"
    by (intro reference_parts_encode) (simp_all add: protobuf_def)
  have "decode_error (encode_fields (error_fields e)) = Some e" if "err = Some e" for e
  proof (rule decode_error_encode)
    have "(2, WBytes (encode_fields (error_fields e))) \<in> set (envelope_fields i err content)"
      using that by (simp add: envelope_fields_def)
    from encoded_bytes_length [OF this] len
    show "length (encode_fields (error_fields e)) < 2 ^ 64" by (simp add: protobuf_def reference_encode_def)
  qed
  with parts show "pb_decode protobuf r (pb_encode protobuf r i err content) = Ok (i, err, content)"
    by (cases err) (simp_all add: protobuf_def reference_decode_def)
  from parts show "pb_outer protobuf r (pb_encode protobuf r i err content) = Ok (i, err \<noteq> None, map_option field content)"
    by (simp add: protobuf_def reference_outer_def)
next
  fix r i err tag
  assume len: "pb_encoded_len protobuf r i err None < 2 ^ 64"
    and "has_field protobuf (pb_encode protobuf r i err None) tag"
  then have "tag \<in> fst ` set (envelope_fields i err None)"
    using envelope_fields_ok [of i err None r]
    by (intro has_field_encoded) (auto simp: protobuf_def reference_encode_def)
  then show "tag < 0x100" by (auto simp: envelope_fields_def uint_field_def split: option.splits if_splits)
qed


section \<open>Witnesses\<close>

text \<open>An unlock request of the host with identifier 1, and an envelope with a field of a later
  schema.\<close>

definition unlock_bytes :: bytes where
  "unlock_bytes = [8, 1, 0x8a, 0x50, 1, 7]"

definition future_bytes :: bytes where
  "future_bytes = [8, 1, 0xe2, 0x12, 0]"

lemma varint_short: "n < 128 \<Longrightarrow> varint n = [of_nat n]"
  "128 \<le> n \<Longrightarrow> n < 16384 \<Longrightarrow> varint n = [of_nat (n mod 128 + 128), of_nat (n div 128)]"
  by (simp_all add: varint.simps [of n] varint.simps [of "n div 128"])

lemma read_varint_short:
  "unat b < 128 \<Longrightarrow> read_varint (b # bs) = Some (unat b, bs)"
  "128 \<le> unat b \<Longrightarrow> unat b' < 128 \<Longrightarrow> read_varint (b # b' # bs) = Some (unat b - 128 + 128 * unat b', bs)"
proof -
  have one: "unat b < 128 \<Longrightarrow> get_varint (Suc (Suc k)) (b # bs) = Some (unat b, bs)" for k
    by simp
  show "unat b < 128 \<Longrightarrow> read_varint (b # bs) = Some (unat b, bs)"
    using one [of 8] by (simp add: read_varint_def)
  have two: "128 \<le> unat b \<Longrightarrow> unat b' < 128 \<Longrightarrow>
      get_varint (Suc (Suc k)) (b # b' # bs) = Some (unat b - 128 + 128 * unat b', bs)" for k
    by simp
  show "128 \<le> unat b \<Longrightarrow> unat b' < 128 \<Longrightarrow> read_varint (b # b' # bs) = Some (unat b - 128 + 128 * unat b', bs)"
    using two [of 8] unsigned_less [of b, where 'a = nat] by (simp add: read_varint_def)
qed

lemma unlock_encoded: "envelope_encode protobuf 1000 Client 1 (Ok (Message ''UnlockRequest'' [7])) = Ok unlock_bytes"
proof -
  have content: "content_try_from Client (Message ''UnlockRequest'' [7 :: byte]) = Ok (Content ''Unlock'' [7])" by code_simp
  have tag: "content_tag (Content ''Unlock'' [7]) = 1281" by (simp add: content_tag_def content_tags_def)
  show ?thesis
    by (simp add: envelope_encode_def envelope_parts_def content protobuf_def reference_encode_def encode_fields_def
        envelope_fields_def uint_field_def tag varint_short unlock_bytes_def)
qed

theorem envelope_exchange_witness:
  "envelope_decode protobuf Server unlock_bytes = Ok (1, Ok (Message ''UnlockRequest'' [7]))"
  using envelope_exchange [OF reference.prost_codec_axioms, where limit = 1000 and r = Client and i = 1
      and b = "Ok (Message ''UnlockRequest'' [7])"]
  by (simp add: unlock_encoded peer_def)

theorem decode_header_is_spec_witness:
  "header_spec protobuf Server future_bytes =
     Ok \<lparr>h_id = 1, h_failed = False, h_payload = Some ''unknown'', h_unknown = True\<rparr>"
proof -
  have keys: "read_key future_bytes = Some (1, 0, [1, 0xe2, 0x12, 0])"
    "read_key [0xe2, 0x12, 0] = Some (300, 2, [0])"
    by (simp_all add: future_bytes_def read_key_def read_varint_short)
  have vals: "read_value 0 [1, 0xe2, 0x12, 0] = Some (WVarint 1, [0xe2, 0x12, 0])"
    "read_value 2 [0] = Some (WBytes [], [])"
    by (simp_all add: read_value_def read_varint_short read_exact_def)
  have fields: "fields (length future_bytes) future_bytes = Some [(1, WVarint 1), (300, WBytes [])]"
    using keys vals by (simp add: future_bytes_def)
  have outer: "pb_outer protobuf (peer Server) future_bytes = Ok (1, False, None)"
    by (simp add: protobuf_def reference_outer_def reference_parts_def fields get_uint_def get_bytes_def
        get_content_def content_tags_def)
  have ne: "future_bytes \<noteq> []" by (simp add: future_bytes_def)
  have "unknown_scan protobuf [0xe2, 0x12, 0] = Some True"
    by (subst unknown_scan.simps) (simp add: protobuf_def keys)
  then have "unknown_scan protobuf future_bytes = Some True"
    using ne by (subst unknown_scan.simps) (simp add: protobuf_def keys skip_value_def vals)
  with outer have "decode_header protobuf Server future_bytes =
      Some (Ok \<lparr>h_id = 1, h_failed = False, h_payload = Some ''unknown'', h_unknown = True\<rparr>)"
    by (simp add: decode_header_def)
  then show ?thesis using decode_header_is_spec [OF reference.prost_codec_axioms, of Server future_bytes] by simp
qed

end
