(* ===== verification/Schema_Structs.thy ===== *)
theory Schema_Structs
  imports Wire_Prelude
begin

text \<open>
  The messages of the protocol: \<^verbatim>\<open>src/src/protocol/generated/darkbio.wire.rs\<close>. A structure is the list of its fields, each with its
  name, its tag, its label and its type, as the \<^verbatim>\<open>prost\<close> attributes say, and the two oneofs of the envelopes list
  their fields with tag and payload type. \<open>Schema_Codec\<close> says which values they have and what codec they need.
\<close>


section \<open>Fields\<close>

datatype ftype = UInt64 | UInt32 | Boolean | Text | ByteVec | Enumeration string | Struct string

datatype label = Plain | Optional | Repeated

type_synonym sfield = "string \<times> nat \<times> label \<times> ftype"

type_synonym struct_table = "(string \<times> sfield list) list"


section \<open>Structures\<close>

definition error_struct :: "struct_table" where
  "error_struct =
    [(''Error'', [(''code'', 1, Plain, UInt64), (''msg'', 2, Plain, Text)])]"

definition device_structs :: "struct_table" where
  "device_structs =
    [(''OnboardingRequest'', [(''device_attestation'', 1, Plain, ByteVec)]),
     (''OnboardingResponse'', []),
     (''DeviceInfoRequest'', []),
     (''DeviceInfoResponse'', [(''version_id'', 1, Plain, UInt32), (''version_str'', 2, Plain, Text), (''revision_id'', 3, Plain, UInt32),
        (''revision_str'', 4, Plain, Text), (''firmware_version'', 7, Plain, Text), (''firmware_publish'', 8, Plain, UInt64),
        (''cloud_synced'', 9, Plain, Boolean), (''cloud_clock'', 10, Plain, UInt64), (''paired'', 11, Plain, Boolean),
        (''unlocked'', 12, Plain, Boolean)]),
     (''CloudSyncStartRequest'', [(''signer'', 1, Plain, ByteVec), (''crypto'', 2, Plain, ByteVec)]),
     (''CloudSyncStartResponse'', [(''challenge'', 1, Plain, ByteVec)]),
     (''CloudSyncFinishRequest'', [(''unixmilli'', 1, Plain, UInt64), (''signature'', 2, Plain, ByteVec)]),
     (''CloudSyncFinishResponse'', [(''accepted'', 1, Plain, UInt64)]),
     (''GenuinityProofRequest'', []),
     (''GenuinityProofResponse'', [(''proof'', 1, Plain, ByteVec)])]"

definition firmware_structs :: "struct_table" where
  "firmware_structs =
    [(''FirmwareUpdatePrepRequest'', [(''version'', 1, Plain, Text), (''sha256'', 2, Plain, ByteVec), (''bytes'', 3, Plain, UInt64)]),
     (''FirmwareUpdatePrepResponse'', [(''auth'', 1, Plain, ByteVec)]),
     (''FirmwareUpdateInitRequest'', [(''access'', 1, Plain, ByteVec)]),
     (''FirmwareUpdateInitResponse'', []),
     (''FirmwareUpdateUploadRequest'', [(''chunk'', 1, Plain, ByteVec)]),
     (''FirmwareUpdateUploadResponse'', []),
     (''FirmwareUpdateVerifyRequest'', []),
     (''FirmwareUpdateVerifyResponse'', []),
     (''FirmwareUpdateInstallRequest'', []),
     (''FirmwareUpdateInstallResponse'', [])]"

definition pairing_structs :: "struct_table" where
  "pairing_structs =
    [(''PairingAuthRequest'', []),
     (''PairingAuthResponse'', [(''auth'', 1, Plain, ByteVec), (''fprint'', 2, Plain, ByteVec)]),
     (''PairingSetAppIdentityRequest'', [(''identity'', 1, Plain, ByteVec)]),
     (''PairingSetAppIdentityResponse'', []),
     (''PairingSetAppStorageRequest'', [(''app_key'', 1, Plain, ByteVec)]),
     (''PairingSetAppStorageResponse'', [(''ark_keys'', 1, Plain, ByteVec)]),
     (''PairingAckArkStorageRequest'', [(''app_ack'', 1, Plain, ByteVec)]),
     (''PairingAckArkStorageResponse'', []),
     (''PairingAcceptanceRequest'', []),
     (''PairingAcceptanceResponse'', [(''confirm'', 1, Plain, ByteVec)]),
     (''PairingCompletionRequest'', []),
     (''PairingCompletionResponse'', [(''confirm'', 1, Plain, ByteVec)])]"

definition relay_structs :: "struct_table" where
  "relay_structs =
    [(''RelayJoinRequest'', []),
     (''RelayJoinResponse'', [(''auth'', 1, Plain, ByteVec)]),
     (''RelayInboundRequest'', [(''frame'', 1, Plain, ByteVec)]),
     (''RelayInboundResponse'', []),
     (''RelayOutboundRequest'', [(''frame'', 1, Plain, ByteVec)]),
     (''RelayOutboundResponse'', [])]"

definition execution_structs :: "struct_table" where
  "execution_structs =
    [(''UnlockRequest'', []),
     (''UnlockResponse'', []),
     (''ExecutionCreateRequest'', [(''sha256'', 1, Plain, ByteVec)]),
     (''ExecutionCreateResponse'', [(''taskid'', 1, Plain, UInt64)]),
     (''ExecutionLoadRequest'', [(''taskid'', 1, Plain, UInt64)]),
     (''ExecutionLoadResponse'', []),
     (''ExecutionStartRequest'', [(''taskid'', 1, Plain, UInt64)]),
     (''ExecutionStartResponse'', []),
     (''ExecutionCancelRequest'', [(''taskid'', 1, Plain, UInt64)]),
     (''ExecutionCancelResponse'', []),
     (''ExecutionStatusRequest'', [(''taskid'', 1, Plain, UInt64)]),
     (''ExecutionStatusResponse'', [(''state'', 3, Plain, Enumeration ''ExecutionState'')]),
     (''ExecutionResultRequest'', [(''taskid'', 1, Plain, UInt64)])]"

definition result_structs :: "struct_table" where
  "result_structs =
    [(''ExecutionResultResponse'', [(''name'', 1, Plain, Text), (''version'', 2, Plain, Text), (''develop'', 3, Plain, Boolean),
        (''success'', 4, Plain, Boolean), (''paths'', 5, Repeated, Text), (''media'', 6, Plain, Text),
        (''stdout_bytes'', 7, Plain, UInt64), (''stderr_bytes'', 8, Plain, UInt64)]),
     (''ExecutionOutputRequest'', [(''taskid'', 1, Plain, UInt64), (''stream'', 2, Plain, Enumeration ''ExecutionStream''),
        (''offset'', 3, Plain, UInt64), (''size'', 4, Plain, UInt64)]),
     (''ExecutionOutputResponse'', [(''chunk'', 1, Plain, ByteVec)]),
     (''ExecutionModuleSizeRequest'', [(''taskid'', 1, Plain, UInt64), (''sha256'', 2, Plain, ByteVec)]),
     (''ExecutionModuleSizeResponse'', [(''size'', 1, Plain, UInt64)]),
     (''ExecutionModuleReadRequest'', [(''taskid'', 1, Plain, UInt64), (''sha256'', 2, Plain, ByteVec), (''offset'', 3, Plain, UInt64),
        (''size'', 4, Plain, UInt64)]),
     (''ExecutionModuleReadResponse'', [(''chunk'', 1, Plain, ByteVec)])]"

definition slot_structs :: "struct_table" where
  "slot_structs =
    [(''SlotDownload'', [(''url'', 1, Plain, Text), (''bytes'', 2, Plain, UInt64), (''sha256'', 3, Plain, Text)]),
     (''SlotStatus'', [(''kind'', 1, Plain, Enumeration ''SlotKind''), (''name'', 2, Plain, Text), (''desc'', 3, Plain, Text),
        (''format'', 4, Plain, Text), (''origin'', 5, Plain, Enumeration ''SlotOrigin''),
        (''state'', 6, Plain, Enumeration ''SlotState''), (''damage'', 7, Plain, Text),
        (''deps'', 8, Repeated, Enumeration ''SlotKind''), (''bytes'', 9, Plain, UInt64), (''build'', 10, Plain, Text),
        (''version'', 11, Plain, Text), (''download'', 12, Optional, Struct ''SlotDownload'')]),
     (''SlotListRequest'', []),
     (''SlotListResponse'', [(''slots'', 1, Repeated, Struct ''SlotStatus'')]),
     (''SlotRepairRequest'', [(''slot'', 1, Plain, Enumeration ''SlotKind'')]),
     (''SlotRepairResponse'', []),
     (''SlotDeleteRequest'', [(''slot'', 1, Plain, Enumeration ''SlotKind'')]),
     (''SlotDeleteResponse'', []),
     (''SlotIdentifyRequest'', [(''name'', 1, Plain, Text), (''size'', 2, Plain, UInt64), (''chunk'', 3, Plain, ByteVec),
        (''kinds'', 4, Repeated, Enumeration ''SlotKind'')]),
     (''SlotIdentifyResponse'', [(''kind'', 1, Plain, Enumeration ''SlotKind''), (''conf'', 2, Plain, Enumeration ''SlotConfidence''),
        (''summary'', 3, Plain, Text), (''details'', 4, Plain, Text), (''rejection'', 5, Plain, Text)])]"

definition upload_structs :: "struct_table" where
  "upload_structs =
    [(''SlotUploadStartRequest'', [(''kind'', 1, Plain, Enumeration ''SlotKind''), (''name'', 2, Plain, Text), (''size'', 3, Plain, UInt64),
        (''chunk'', 4, Plain, ByteVec)]),
     (''SlotUploadStartResponse'', [(''session'', 1, Plain, UInt64)]),
     (''SlotUploadChunkRequest'', [(''session'', 1, Plain, UInt64), (''chunk'', 2, Plain, ByteVec)]),
     (''SlotUploadChunkResponse'', []),
     (''SlotUploadCancelRequest'', [(''session'', 1, Plain, UInt64)]),
     (''SlotUploadCancelResponse'', []),
     (''SlotPhase'', [(''name'', 1, Plain, Text), (''desc'', 2, Plain, Text)]),
     (''SlotUploadProcessRequest'', [(''session'', 1, Plain, UInt64)]),
     (''SlotUploadProcessResponse'', [(''proc_start'', 1, Plain, UInt64), (''phases'', 2, Repeated, Struct ''SlotPhase''), (''phase_in'', 3, Plain, UInt64),
        (''phase_start'', 4, Plain, UInt64), (''phase_progress'', 5, Plain, UInt64), (''failure'', 6, Plain, Text)])]"

definition dataset_structs :: "struct_table" where
  "dataset_structs =
    [(''DatasetPathsRequest'', []),
     (''DatasetPathsResponse'', [(''paths'', 1, Repeated, Struct ''DatasetPath'')]),
     (''DatasetPath'', [(''path'', 1, Plain, Text), (''directory'', 2, Plain, Boolean), (''grantable'', 3, Plain, Boolean),
        (''available'', 4, Plain, Boolean), (''desc'', 5, Plain, Text), (''format'', 6, Plain, Text),
        (''examples'', 7, Repeated, Text), (''public'', 8, Plain, Boolean), (''wording'', 9, Plain, Text)])]"

definition structs :: struct_table where
  "structs = error_struct @ device_structs @ firmware_structs @ pairing_structs @ relay_structs @ execution_structs @
     result_structs @ slot_structs @ upload_structs @ dataset_structs"

lemmas structs_defs = structs_def error_struct_def device_structs_def firmware_structs_def pairing_structs_def relay_structs_def
  execution_structs_def result_structs_def slot_structs_def upload_structs_def dataset_structs_def


section \<open>Contents\<close>

text \<open>The variants of the two \<^verbatim>\<open>Content\<close> enums; \<^verbatim>\<open>Develop\<close> carries plain bytes.\<close>

definition host_to_ark_schema :: "(string \<times> nat \<times> string) list" where
  "host_to_ark_schema =
    [(''Onboard'', 256, ''OnboardingRequest''), (''DeviceInfo'', 257, ''DeviceInfoRequest''),
     (''CloudSyncStart'', 258, ''CloudSyncStartRequest''), (''CloudSyncFinish'', 259, ''CloudSyncFinishRequest''),
     (''GenuinityProof'', 260, ''GenuinityProofRequest''), (''FirmwareUpdatePrep'', 513, ''FirmwareUpdatePrepRequest''),
     (''FirmwareUpdateInit'', 514, ''FirmwareUpdateInitRequest''),
     (''FirmwareUpdateUpload'', 515, ''FirmwareUpdateUploadRequest''),
     (''FirmwareUpdateVerify'', 516, ''FirmwareUpdateVerifyRequest''),
     (''FirmwareUpdateInstall'', 517, ''FirmwareUpdateInstallRequest''), (''PairingAuth'', 769, ''PairingAuthRequest''),
     (''PairingSetAppId'', 770, ''PairingSetAppIdentityRequest''),
     (''PairingSetAppStorage'', 771, ''PairingSetAppStorageRequest''),
     (''PairingAckArkStorage'', 772, ''PairingAckArkStorageRequest''),
     (''PairingAccept'', 773, ''PairingAcceptanceRequest''), (''PairingComplete'', 774, ''PairingCompletionRequest''),
     (''RelayJoin'', 1025, ''RelayJoinRequest''), (''RelayInbound'', 1026, ''RelayInboundRequest''),
     (''RelayOutbound'', 1027, ''RelayOutboundResponse''), (''Unlock'', 1281, ''UnlockRequest''),
     (''ExecCreate'', 1282, ''ExecutionCreateRequest''), (''ExecLoad'', 1283, ''ExecutionLoadRequest''),
     (''ExecStart'', 1284, ''ExecutionStartRequest''), (''ExecStatus'', 1285, ''ExecutionStatusRequest''),
     (''ExecCancel'', 1286, ''ExecutionCancelRequest''), (''ExecResult'', 1287, ''ExecutionResultRequest''),
     (''ExecOutput'', 1288, ''ExecutionOutputRequest''), (''ExecModuleSize'', 1289, ''ExecutionModuleSizeResponse''),
     (''ExecModuleRead'', 1290, ''ExecutionModuleReadResponse''), (''SlotList'', 1537, ''SlotListRequest''),
     (''SlotRepair'', 1538, ''SlotRepairRequest''), (''SlotDelete'', 1539, ''SlotDeleteRequest''),
     (''SlotIdentify'', 1540, ''SlotIdentifyRequest''), (''SlotUploadStart'', 1541, ''SlotUploadStartRequest''),
     (''SlotUploadChunk'', 1542, ''SlotUploadChunkRequest''), (''SlotUploadCancel'', 1543, ''SlotUploadCancelRequest''),
     (''SlotUploadProcess'', 1544, ''SlotUploadProcessRequest''), (''DatasetPaths'', 1793, ''DatasetPathsRequest''),
     (''Develop'', 4096, ''Vec<u8>'')]"

definition ark_to_host_schema :: "(string \<times> nat \<times> string) list" where
  "ark_to_host_schema =
    [(''Onboard'', 256, ''OnboardingResponse''), (''DeviceInfo'', 257, ''DeviceInfoResponse''),
     (''CloudSyncStart'', 258, ''CloudSyncStartResponse''), (''CloudSyncFinish'', 259, ''CloudSyncFinishResponse''),
     (''GenuinityProof'', 260, ''GenuinityProofResponse''), (''FirmwareUpdatePrep'', 513, ''FirmwareUpdatePrepResponse''),
     (''FirmwareUpdateInit'', 514, ''FirmwareUpdateInitResponse''),
     (''FirmwareUpdateUpload'', 515, ''FirmwareUpdateUploadResponse''),
     (''FirmwareUpdateVerify'', 516, ''FirmwareUpdateVerifyResponse''),
     (''FirmwareUpdateInstall'', 517, ''FirmwareUpdateInstallResponse''), (''PairingAuth'', 769, ''PairingAuthResponse''),
     (''PairingSetAppId'', 770, ''PairingSetAppIdentityResponse''),
     (''PairingSetAppStorage'', 771, ''PairingSetAppStorageResponse''),
     (''PairingAckArkStorage'', 772, ''PairingAckArkStorageResponse''),
     (''PairingAccept'', 773, ''PairingAcceptanceResponse''), (''PairingComplete'', 774, ''PairingCompletionResponse''),
     (''RelayJoin'', 1025, ''RelayJoinResponse''), (''RelayInbound'', 1026, ''RelayInboundResponse''),
     (''RelayOutbound'', 1027, ''RelayOutboundRequest''), (''Unlock'', 1281, ''UnlockResponse''),
     (''ExecCreate'', 1282, ''ExecutionCreateResponse''), (''ExecLoad'', 1283, ''ExecutionLoadResponse''),
     (''ExecStart'', 1284, ''ExecutionStartResponse''), (''ExecStatus'', 1285, ''ExecutionStatusResponse''),
     (''ExecCancel'', 1286, ''ExecutionCancelResponse''), (''ExecResult'', 1287, ''ExecutionResultResponse''),
     (''ExecOutput'', 1288, ''ExecutionOutputResponse''), (''ExecModuleSize'', 1289, ''ExecutionModuleSizeRequest''),
     (''ExecModuleRead'', 1290, ''ExecutionModuleReadRequest''), (''SlotList'', 1537, ''SlotListResponse''),
     (''SlotRepair'', 1538, ''SlotRepairResponse''), (''SlotDelete'', 1539, ''SlotDeleteResponse''),
     (''SlotIdentify'', 1540, ''SlotIdentifyResponse''), (''SlotUploadStart'', 1541, ''SlotUploadStartResponse''),
     (''SlotUploadChunk'', 1542, ''SlotUploadChunkResponse''), (''SlotUploadCancel'', 1543, ''SlotUploadCancelResponse''),
     (''SlotUploadProcess'', 1544, ''SlotUploadProcessResponse''), (''DatasetPaths'', 1793, ''DatasetPathsResponse''),
     (''Develop'', 4096, ''Vec<u8>'')]"


section \<open>Well-formed structures\<close>

text \<open>Distinct tags in the range of the wire format and below the content fields, and no structure that is neither optional nor
  repeated.\<close>

definition struct_ok :: "sfield list \<Rightarrow> bool" where
  "struct_ok fs \<longleftrightarrow> distinct (map (\<lambda>(_, tag, _, _). tag) fs) \<and>
     list_all (\<lambda>(_, tag, label, ty). 1 \<le> tag \<and> tag < 0x100 \<and> (case ty of Struct _ \<Rightarrow> label \<noteq> Plain | _ \<Rightarrow> True)) fs"

lemma structs_ok: "list_all (\<lambda>(_, fs). struct_ok fs) structs"
  by (simp add: structs_defs struct_ok_def)

end
