(* ===== verification/Schema_Codec.thy ===== *)
theory Schema_Codec
  imports Protobuf_Reference Schema_Structs
begin

text \<open>
  The values of the structures of \<open>Schema_Structs\<close>, and what is relied on of the code that prost derives for them: the codec of a
  table of structures is a parameter, the locale \<open>derived_codec\<close>, which promises to read back what it wrote for every table
  whose fields have distinct tags. The property of this theory is that the generated tables of the repository meet this and
  agree with each other, so that every message arrives. A reference implementation of the protobuf format shows that the locale
  has an instance: plain fields are left out at their default, optional ones are present or not, repeated numbers are packed,
  unknown fields are skipped, the last of several plain values wins, structures are merged, and nesting is limited.
\<close>


section \<open>Values\<close>

text \<open>A structure's value lists, for each field, its values: one for a plain field, at most one for an optional one.
  Text is its UTF-8 bytes; \<open>utf8\<close>, the validity check, is a parameter.\<close>

datatype pvalue = PUint nat | PBool bool | PEnum "32 word" | PBytes bytes | PStruct "pvalue list list"

fun default_value :: "ftype \<Rightarrow> pvalue" where
  "default_value UInt64 = PUint 0"
| "default_value UInt32 = PUint 0"
| "default_value Boolean = PBool False"
| "default_value (Enumeration _) = PEnum 0"
| "default_value Text = PBytes []"
| "default_value ByteVec = PBytes []"
| "default_value (Struct _) = PStruct []"

fun initial :: "sfield \<Rightarrow> pvalue list" where
  "initial (_, _, label, ty) = (if label = Plain then [default_value ty] else [])"

definition struct_fields :: "struct_table \<Rightarrow> string \<Rightarrow> sfield list" where
  "struct_fields table s = (case map_of table s of Some fs \<Rightarrow> fs | None \<Rightarrow> [])"

definition empty_struct :: "struct_table \<Rightarrow> string \<Rightarrow> pvalue list list" where
  "empty_struct table s = map initial (struct_fields table s)"

text \<open>The values of a Rust structure type; the last argument of each step is the check of nested structures.\<close>

fun value_typed :: "(bytes \<Rightarrow> bool) \<Rightarrow> (string \<Rightarrow> pvalue list list \<Rightarrow> bool) \<Rightarrow> ftype \<Rightarrow> pvalue \<Rightarrow> bool" where
  "value_typed utf8 sub UInt64 (PUint n) \<longleftrightarrow> n < 2 ^ 64"
| "value_typed utf8 sub UInt32 (PUint n) \<longleftrightarrow> n < 2 ^ 32"
| "value_typed utf8 sub Boolean (PBool _) \<longleftrightarrow> True"
| "value_typed utf8 sub (Enumeration _) (PEnum _) \<longleftrightarrow> True"
| "value_typed utf8 sub Text (PBytes b) \<longleftrightarrow> utf8 b"
| "value_typed utf8 sub ByteVec (PBytes _) \<longleftrightarrow> True"
| "value_typed utf8 sub (Struct s) (PStruct vs) \<longleftrightarrow> sub s vs"
| "value_typed utf8 sub _ _ \<longleftrightarrow> False"

fun field_typed :: "(bytes \<Rightarrow> bool) \<Rightarrow> (string \<Rightarrow> pvalue list list \<Rightarrow> bool) \<Rightarrow> sfield \<Rightarrow> pvalue list \<Rightarrow> bool" where
  "field_typed utf8 sub (_, _, label, ty) xs \<longleftrightarrow> list_all (value_typed utf8 sub ty) xs \<and>
     (case label of Plain \<Rightarrow> length xs = 1 | Optional \<Rightarrow> length xs \<le> 1 | Repeated \<Rightarrow> True)"

primrec struct_typed :: "struct_table \<Rightarrow> (bytes \<Rightarrow> bool) \<Rightarrow> nat \<Rightarrow> string \<Rightarrow> pvalue list list \<Rightarrow> bool" where
  "struct_typed table utf8 0 s vs \<longleftrightarrow> False"
| "struct_typed table utf8 (Suc d) s vs \<longleftrightarrow> map_of table s \<noteq> None \<and>
     list_all2 (field_typed utf8 (struct_typed table utf8 d)) (struct_fields table s) vs"

text \<open>The nesting prost allows.\<close>

definition RECURSION_LIMIT :: nat where
  "RECURSION_LIMIT = 100"


section \<open>The derived codec\<close>

text \<open>The content of a message is a structure of the schema, or plain bytes for \<^verbatim>\<open>Develop\<close>, which travel as they are. \<open>enc\<close> and \<open>dec\<close>
  are the derived codec.\<close>

fun content_typed :: "(bytes \<Rightarrow> bool) \<Rightarrow> string \<Rightarrow> pvalue \<Rightarrow> bool" where
  "content_typed utf8 s (PStruct vs) \<longleftrightarrow> struct_typed structs utf8 RECURSION_LIMIT s vs"
| "content_typed utf8 s (PBytes b) \<longleftrightarrow> s = ''Vec<u8>''"
| "content_typed utf8 s _ \<longleftrightarrow> False"

fun content_bytes :: "(struct_table \<Rightarrow> string \<Rightarrow> pvalue list list \<Rightarrow> bytes) \<Rightarrow> string \<Rightarrow> pvalue \<Rightarrow> bytes" where
  "content_bytes enc s (PStruct vs) = enc structs s vs"
| "content_bytes enc s (PBytes b) = b"
| "content_bytes enc s _ = []"

definition content_value :: "(struct_table \<Rightarrow> string \<Rightarrow> bytes \<Rightarrow> pvalue list list option) \<Rightarrow> string \<Rightarrow> bytes \<Rightarrow> pvalue option" where
  "content_value dec s b = (if s = ''Vec<u8>'' then Some (PBytes b) else map_option PStruct (dec structs s b))"

lemma no_struct_of_bytes: "map_of structs ''Vec<u8>'' = None"
  by (simp add: structs_defs)

text \<open>For every table of structures with distinct tags, decoding reads back every value of the Rust types.\<close>

locale derived_codec =
  fixes utf8 :: "bytes \<Rightarrow> bool"
    and enc :: "struct_table \<Rightarrow> string \<Rightarrow> pvalue list list \<Rightarrow> bytes"
    and dec :: "struct_table \<Rightarrow> string \<Rightarrow> bytes \<Rightarrow> pvalue list list option"
  assumes derived_decode: "list_all (\<lambda>(_, fs). struct_ok fs) table \<Longrightarrow> struct_typed table utf8 RECURSION_LIMIT s vs \<Longrightarrow>
    length (enc table s vs) < 2 ^ 64 \<Longrightarrow> dec table s (enc table s vs) = Some vs"
begin

lemma content_decodes:
  assumes "content_typed utf8 s x" "length (content_bytes enc s x) < 2 ^ 64"
  shows "content_value dec s (content_bytes enc s x) = Some x"
proof (cases x)
  case (PStruct vs)
  with assms(1) have typed: "struct_typed structs utf8 RECURSION_LIMIT s vs" by simp
  then have "s \<noteq> ''Vec<u8>''" using no_struct_of_bytes by (auto simp: RECURSION_LIMIT_def numeral_eq_Suc)
  with PStruct assms(2) derived_decode [OF structs_ok typed] show ?thesis by (simp add: content_value_def)
qed (use assms(1) in \<open>simp_all add: content_value_def\<close>)

end


section \<open>Writing\<close>

fun numeric :: "ftype \<Rightarrow> bool" where
  "numeric UInt64 = True"
| "numeric UInt32 = True"
| "numeric Boolean = True"
| "numeric (Enumeration _) = True"
| "numeric _ = False"

text \<open>Numbers as 64-bit varints; an enumeration is an \<^verbatim>\<open>i32\<close>, which is sign-extended.\<close>

fun number :: "pvalue \<Rightarrow> nat" where
  "number (PUint n) = n"
| "number (PBool b) = (if b then 1 else 0)"
| "number (PEnum w) = unat (scast w :: 64 word)"
| "number _ = 0"

fun to_wire :: "(string \<Rightarrow> pvalue list list \<Rightarrow> bytes) \<Rightarrow> ftype \<Rightarrow> pvalue \<Rightarrow> wire_value" where
  "to_wire sub (Struct s) (PStruct vs) = WBytes (sub s vs)"
| "to_wire sub _ (PBytes b) = WBytes b"
| "to_wire sub _ v = WVarint (number v)"

fun field_wire :: "(string \<Rightarrow> pvalue list list \<Rightarrow> bytes) \<Rightarrow> sfield \<Rightarrow> pvalue list \<Rightarrow> (nat \<times> wire_value) list" where
  "field_wire sub (_, tag, Plain, ty) xs = (if xs = [default_value ty] then [] else map (\<lambda>x. (tag, to_wire sub ty x)) xs)"
| "field_wire sub (_, tag, Optional, ty) xs = map (\<lambda>x. (tag, to_wire sub ty x)) xs"
| "field_wire sub (_, tag, Repeated, ty) xs =
     (if \<not> numeric ty then map (\<lambda>x. (tag, to_wire sub ty x)) xs
      else if xs = [] then [] else [(tag, WBytes (concat (map (varint \<circ> number) xs)))])"

primrec encode_struct :: "struct_table \<Rightarrow> nat \<Rightarrow> string \<Rightarrow> pvalue list list \<Rightarrow> bytes" where
  "encode_struct table 0 s vs = []"
| "encode_struct table (Suc d) s vs = encode_fields (concat (map2 (field_wire (encode_struct table d)) (struct_fields table s) vs))"


section \<open>Reading\<close>

fun from_number :: "ftype \<Rightarrow> nat \<Rightarrow> pvalue" where
  "from_number UInt32 n = PUint (n mod 2 ^ 32)"
| "from_number Boolean n = PBool (n \<noteq> 0)"
| "from_number (Enumeration _) n = PEnum (of_nat n)"
| "from_number _ n = PUint n"

fun read_varints :: "nat \<Rightarrow> bytes \<Rightarrow> nat list option" where
  "read_varints k [] = Some []"
| "read_varints 0 (b # bs) = None"
| "read_varints (Suc k) (b # bs) = (case read_varint (b # bs) of
      None \<Rightarrow> None
    | Some (n, rest) \<Rightarrow> map_option (Cons n) (read_varints k rest))"

text \<open>One more value for a field that holds \<open>cur\<close>.\<close>

definition add_value :: "label \<Rightarrow> pvalue list \<Rightarrow> pvalue \<Rightarrow> pvalue list" where
  "add_value label cur x = (if label = Repeated then cur @ [x] else [x])"

definition merge_base :: "struct_table \<Rightarrow> label \<Rightarrow> string \<Rightarrow> pvalue list \<Rightarrow> pvalue list list" where
  "merge_base table label s cur =
     (case cur of [PStruct vs] \<Rightarrow> if label = Repeated then empty_struct table s else vs | _ \<Rightarrow> empty_struct table s)"

fun merge_value :: "struct_table \<Rightarrow> (bytes \<Rightarrow> bool) \<Rightarrow> (string \<Rightarrow> pvalue list list \<Rightarrow> bytes \<Rightarrow> pvalue list list option) \<Rightarrow>
    label \<Rightarrow> ftype \<Rightarrow> wire_value \<Rightarrow> pvalue list \<Rightarrow> pvalue list option" where
  "merge_value table utf8 sub label ty (WVarint n) cur = (if numeric ty then Some (add_value label cur (from_number ty n)) else None)"
| "merge_value table utf8 sub label (Struct s) (WBytes b) cur =
     map_option (\<lambda>vs. add_value label cur (PStruct vs)) (sub s (merge_base table label s cur) b)"
| "merge_value table utf8 sub label Text (WBytes b) cur = (if utf8 b then Some (add_value label cur (PBytes b)) else None)"
| "merge_value table utf8 sub label ByteVec (WBytes b) cur = Some (add_value label cur (PBytes b))"
| "merge_value table utf8 sub label ty (WBytes b) cur =
     (if label = Repeated then map_option (\<lambda>ns. cur @ map (from_number ty) ns) (read_varints (length b) b) else None)"
| "merge_value table utf8 sub label ty (WFixed b) cur = None"

fun put_field :: "(label \<Rightarrow> ftype \<Rightarrow> wire_value \<Rightarrow> pvalue list \<Rightarrow> pvalue list option) \<Rightarrow> sfield list \<Rightarrow> nat \<Rightarrow> wire_value \<Rightarrow>
    pvalue list list \<Rightarrow> pvalue list list option" where
  "put_field merge ((_, t, label, ty) # fs) tag w (x # vs) =
     (if t = tag then map_option (\<lambda>x'. x' # vs) (merge label ty w x)
      else map_option (Cons x) (put_field merge fs tag w vs))"
| "put_field merge _ tag w vs = Some vs"

fun put_fields :: "(label \<Rightarrow> ftype \<Rightarrow> wire_value \<Rightarrow> pvalue list \<Rightarrow> pvalue list option) \<Rightarrow> sfield list \<Rightarrow> (nat \<times> wire_value) list \<Rightarrow>
    pvalue list list \<Rightarrow> pvalue list list option" where
  "put_fields merge fs [] vs = Some vs"
| "put_fields merge fs ((tag, w) # ws) vs = Option.bind (put_field merge fs tag w vs) (put_fields merge fs ws)"

primrec merge_struct :: "struct_table \<Rightarrow> (bytes \<Rightarrow> bool) \<Rightarrow> nat \<Rightarrow> string \<Rightarrow> pvalue list list \<Rightarrow> bytes \<Rightarrow> pvalue list list option" where
  "merge_struct table utf8 0 s vs bs = None"
| "merge_struct table utf8 (Suc d) s vs bs = Option.bind (fields (length bs) bs)
     (\<lambda>ws. put_fields (merge_value table utf8 (merge_struct table utf8 d)) (struct_fields table s) ws vs)"

definition decode_struct :: "(bytes \<Rightarrow> bool) \<Rightarrow> struct_table \<Rightarrow> string \<Rightarrow> bytes \<Rightarrow> pvalue list list option" where
  "decode_struct utf8 table s bs = merge_struct table utf8 RECURSION_LIMIT s (empty_struct table s) bs"


section \<open>Numbers\<close>

lemma enum_truncates: "(ucast (scast (w :: 32 word) :: 64 word) :: 32 word) = w"
  by (rule bit_word_eqI) (simp add: bit_simps)

lemma number_bound: "value_typed utf8 sub ty x \<Longrightarrow> numeric ty \<Longrightarrow> number x < 2 ^ 64"
  by (cases "(utf8, sub, ty, x)" rule: value_typed.cases) auto

lemma from_number_number: "value_typed utf8 sub ty x \<Longrightarrow> numeric ty \<Longrightarrow> from_number ty (number x) = x"
  by (cases "(utf8, sub, ty, x)" rule: value_typed.cases) (auto simp: enum_truncates)

lemma numeric_wire: "value_typed utf8 sub ty x \<Longrightarrow> numeric ty \<Longrightarrow> to_wire enc ty x = WVarint (number x)"
  by (cases "(utf8, sub, ty, x)" rule: value_typed.cases) auto

lemma read_varints_write:
  "list_all (\<lambda>n. n < 2 ^ 64) ns \<Longrightarrow> length (concat (map varint ns)) \<le> k \<Longrightarrow> read_varints k (concat (map varint ns)) = Some ns"
proof (induction ns arbitrary: k)
  case (Cons n ns)
  obtain b bs where bytes: "varint n = b # bs" using varint_not_Nil by (cases "varint n") auto
  from Cons.prems(2) obtain k' where k: "k = Suc k'" "length (concat (map varint ns)) \<le> k'" by (cases k) (auto simp: bytes)
  have "read_varint (b # bs @ concat (map varint ns)) = Some (n, concat (map varint ns))"
    using read_varint_varint [of n "concat (map varint ns)"] Cons.prems(1) by (simp add: bytes)
  with Cons.IH [OF _ k(2)] Cons.prems(1) show ?case by (simp add: bytes k(1))
qed simp


section \<open>Reading what was written\<close>

lemma put_field_at:
  "length vs = length fs \<Longrightarrow> tag \<notin> set (map (\<lambda>(_, t, _, _). t) fs) \<Longrightarrow>
     put_field merge (fs @ (name, tag, label, ty) # fs') tag w (vs @ cur # rest) =
       map_option (\<lambda>x. vs @ x # rest) (merge label ty w cur)"
proof (induction vs fs rule: list_induct2)
  case (Cons v vs f fs)
  then show ?case by (cases f) (auto simp: option.map_comp o_def)
qed simp

text \<open>What is needed of nested structures at one level: \<open>enc\<close> writes and \<open>merge\<close> reads back what is typed.\<close>

definition nested_ok :: "struct_table \<Rightarrow> (string \<Rightarrow> pvalue list list \<Rightarrow> bool) \<Rightarrow> (string \<Rightarrow> pvalue list list \<Rightarrow> bytes) \<Rightarrow>
    (string \<Rightarrow> pvalue list list \<Rightarrow> bytes \<Rightarrow> pvalue list list option) \<Rightarrow> bool" where
  "nested_ok table typed enc merge \<longleftrightarrow>
     (\<forall>s vs. typed s vs \<longrightarrow> length (enc s vs) < 2 ^ 64 \<longrightarrow> merge s (empty_struct table s) (enc s vs) = Some vs)"

fun wire_short :: "wire_value \<Rightarrow> bool" where
  "wire_short (WBytes b) \<longleftrightarrow> length b < 2 ^ 64"
| "wire_short _ \<longleftrightarrow> True"

text \<open>A value is added to a field that repeats, or to one that has no value yet or only its default.\<close>

lemma merge_value_wire:
  assumes "nested_ok table typed enc merge" "value_typed utf8 typed ty x" "wire_short (to_wire enc ty x)"
    and "label = Repeated \<or> cur = [] \<or> cur = [default_value ty] \<and> (\<forall>s. ty \<noteq> Struct s)"
  shows "merge_value table utf8 merge label ty (to_wire enc ty x) cur = Some (add_value label cur x)"
proof (cases "numeric ty")
  case True
  with assms(2) show ?thesis by (simp add: numeric_wire from_number_number)
next
  case False
  from assms(2) False consider b where "ty = Text" "x = PBytes b" "utf8 b" | b where "ty = ByteVec" "x = PBytes b"
    | s vs where "ty = Struct s" "x = PStruct vs" "typed s vs"
    by (cases "(utf8, typed, ty, x)" rule: value_typed.cases) auto
  then show ?thesis
  proof cases
    case (3 s vs)
    then have "merge_base table label s cur = empty_struct table s" using assms(4) by (auto simp: merge_base_def split: list.splits pvalue.splits)
    with 3 assms(1,3) show ?thesis by (simp add: nested_ok_def)
  qed simp_all
qed


text \<open>A run of values of a repeated field.\<close>

lemma put_repeated:
  assumes "nested_ok table typed enc merge" "length vs = length fs" "tag \<notin> set (map (\<lambda>(_, t, _, _). t) fs)"
  shows "list_all (value_typed utf8 typed ty) xs \<Longrightarrow> \<forall>x \<in> set xs. wire_short (to_wire enc ty x) \<Longrightarrow>
    put_fields (merge_value table utf8 merge) (fs @ (name, tag, Repeated, ty) # fs') (map (\<lambda>x. (tag, to_wire enc ty x)) xs @ ws) (vs @ cur # rest) =
    put_fields (merge_value table utf8 merge) (fs @ (name, tag, Repeated, ty) # fs') ws (vs @ (cur @ xs) # rest)"
proof (induction xs arbitrary: cur)
  case (Cons x xs)
  then have "merge_value table utf8 merge Repeated ty (to_wire enc ty x) cur = Some (cur @ [x])"
    using merge_value_wire [OF assms(1), of utf8 ty x Repeated cur] by (simp add: add_value_def)
  with Cons show ?case by (simp add: put_field_at [OF assms(2,3)])
qed simp

text \<open>One field, from its initial value to what was written.\<close>

lemma put_one_field:
  assumes "nested_ok table typed enc merge" "length vs = length fs" "tag \<notin> set (map (\<lambda>(_, t, _, _). t) fs)"
    and "field_typed utf8 typed (name, tag, label, ty) xs" "\<forall>(t, w) \<in> set (field_wire enc (name, tag, label, ty) xs). wire_short w"
    and "\<forall>s. ty = Struct s \<longrightarrow> label \<noteq> Plain"
  shows "put_fields (merge_value table utf8 merge) (fs @ (name, tag, label, ty) # fs')
      (field_wire enc (name, tag, label, ty) xs @ ws) (vs @ initial (name, tag, label, ty) # rest) =
    put_fields (merge_value table utf8 merge) (fs @ (name, tag, label, ty) # fs') ws (vs @ xs # rest)"
proof -
  note at = put_field_at [OF assms(2,3)]
  have single: "merge_value table utf8 merge label ty (to_wire enc ty x) (initial (name, tag, label, ty)) = Some [x]"
    if "label \<noteq> Repeated" "value_typed utf8 typed ty x" "wire_short (to_wire enc ty x)" for x
    using merge_value_wire [OF assms(1) that(2,3), of label "initial (name, tag, label, ty)"] that(1) assms(6)
    by (auto simp: add_value_def)
  show ?thesis
  proof (cases label)
    case Plain
    with assms(4) obtain x where x: "xs = [x]" "value_typed utf8 typed ty x" by (auto simp: length_Suc_conv)
    with Plain assms(5) single [of x] show ?thesis by (auto simp: at)
  next
    case Optional
    with assms(4) consider "xs = []" | x where "xs = [x]" "value_typed utf8 typed ty x"
      by (cases xs) auto
    then show ?thesis
    proof cases
      case (2 x)
      with Optional assms(5) single [of x] show ?thesis by (simp add: at)
    qed (simp add: Optional)
  next
    case Repeated
    show ?thesis
    proof (cases "numeric ty \<and> xs \<noteq> []")
      case True
      have typed: "list_all (value_typed utf8 typed ty) xs" using assms(4) by simp
      then have bounds: "list_all (\<lambda>n. n < 2 ^ 64) (map number xs)"
        using True number_bound unfolding list_all_iff set_map by blast
      have whole: "map (from_number ty \<circ> number) xs = xs"
        by (rule map_idI) (use True typed from_number_number in \<open>auto simp: list_all_iff\<close>)
      have packed: "concat (map (varint \<circ> number) xs) = concat (map varint (map number xs))" by simp
      have "merge_value table utf8 merge Repeated ty (WBytes (concat (map (varint \<circ> number) xs))) [] = Some xs"
        using True whole read_varints_write [OF bounds order_refl] unfolding packed by (cases ty) simp_all
      with True Repeated show ?thesis by (simp add: at)
    next
      case False
      with Repeated assms(4,5) put_repeated [OF assms(1-3), of utf8 ty xs name fs' ws "[]" rest] show ?thesis
        by (auto split: if_splits)
    qed
  qed
qed

lemma put_all_fields:
  assumes "nested_ok table typed enc merge"
  shows "list_all2 (field_typed utf8 typed) fs' xs \<Longrightarrow> length vs = length fs \<Longrightarrow> struct_ok (fs @ fs') \<Longrightarrow>
    \<forall>(t, w) \<in> set (concat (map2 (field_wire enc) fs' xs)). wire_short w \<Longrightarrow>
    put_fields (merge_value table utf8 merge) (fs @ fs') (concat (map2 (field_wire enc) fs' xs)) (vs @ map initial fs') = Some (vs @ xs)"
proof (induction fs' xs arbitrary: fs vs rule: list_all2_induct)
  case (Cons f fs' x xs)
  obtain name tag label ty where f: "f = (name, tag, label, ty)" by (cases f)
  have tag: "tag \<notin> set (map (\<lambda>(_, t, _, _). t) fs)" and plain: "\<forall>s. ty = Struct s \<longrightarrow> label \<noteq> Plain"
    using Cons.prems(2) by (auto simp: struct_ok_def f)
  have "put_fields (merge_value table utf8 merge) (fs @ f # fs')
      (field_wire enc f x @ concat (map2 (field_wire enc) fs' xs)) (vs @ initial f # map initial fs') =
    put_fields (merge_value table utf8 merge) (fs @ f # fs') (concat (map2 (field_wire enc) fs' xs)) (vs @ x # map initial fs')"
    unfolding f by (rule put_one_field [OF assms Cons.prems(1) tag _ _ plain]) (use Cons.hyps(1) Cons.prems(3) in \<open>auto simp: f\<close>)
  also have "\<dots> = Some (vs @ x # xs)"
    using Cons.IH [of "vs @ [x]" "fs @ [f]"] Cons.prems by simp
  finally show ?case by simp
qed simp

lemma to_wire_number:
  "value_typed utf8 typed ty x \<Longrightarrow> (\<exists>b. to_wire enc ty x = WBytes b) \<or> (\<exists>n < 2 ^ 64. to_wire enc ty x = WVarint n)"
  by (cases "(utf8, typed, ty, x)" rule: value_typed.cases) auto

lemma field_wire_ok:
  assumes "field_typed utf8 typed (name, tag, label, ty) xs" "(t, w) \<in> set (field_wire enc (name, tag, label, ty) xs)"
  shows "t = tag \<and> ((\<exists>b. w = WBytes b) \<or> (\<exists>n < 2 ^ 64. w = WVarint n))"
  using assms to_wire_number [of utf8 typed ty] by (cases label) (auto simp: list_all_iff split: if_splits)

lemma struct_wire_ok:
  assumes "list_all2 (field_typed utf8 typed) fs xs" "struct_ok fs" "(t, w) \<in> set (concat (map2 (field_wire enc) fs xs))"
  shows "1 \<le> t \<and> t < 0x100 \<and> ((\<exists>b. w = WBytes b) \<or> (\<exists>n < 2 ^ 64. w = WVarint n))"
proof -
  from assms(3) obtain f x where f: "(f, x) \<in> set (zip fs xs)" "(t, w) \<in> set (field_wire enc f x)" by auto
  obtain name tag label ty where f': "f = (name, tag, label, ty)" by (cases f)
  have "field_typed utf8 typed f x" using assms(1) f(1) by (auto simp: list_all2_iff)
  moreover have "1 \<le> tag" "tag < 0x100" using assms(2) f(1) f' by (auto simp: struct_ok_def list_all_iff dest: set_zip_leftD)
  ultimately show ?thesis using field_wire_ok f(2) unfolding f' by blast
qed

lemma struct_fields_ok:
  assumes "list_all (\<lambda>(_, fs). struct_ok fs) table"
  shows "struct_ok (struct_fields table s)"
proof (cases "map_of table s")
  case (Some fs)
  then show ?thesis using assms by (auto simp: struct_fields_def list_all_iff dest: map_of_SomeD)
qed (simp add: struct_fields_def struct_ok_def)

lemma struct_nested_ok:
  assumes "list_all (\<lambda>(_, fs). struct_ok fs) table"
  shows "nested_ok table (struct_typed table utf8 d) (encode_struct table d) (merge_struct table utf8 d)"
proof (induction d)
  case (Suc d)
  show ?case unfolding nested_ok_def
  proof (intro allI impI)
    fix s vs assume typed: "struct_typed table utf8 (Suc d) s vs" and short: "length (encode_struct table (Suc d) s vs) < 2 ^ 64"
    let ?fs = "struct_fields table s"
    let ?ws = "concat (map2 (field_wire (encode_struct table d)) ?fs vs)"
    have fields: "list_all2 (field_typed utf8 (struct_typed table utf8 d)) ?fs vs" using typed by simp
    note wire = struct_wire_ok [OF fields struct_fields_ok [OF assms]]
    have size: "length b < 2 ^ 64" if "(t, WBytes b) \<in> set ?ws" for t b
      using encoded_bytes_length [OF that] short by simp
    have ok: "field_ok (t, w)" if "(t, w) \<in> set ?ws" for t w
    proof -
      from wire [OF that] consider b where "w = WBytes b" "1 \<le> t" "t < 0x100" | n where "w = WVarint n" "n < 2 ^ 64" "1 \<le> t" "t < 0x100" by blast
      then show ?thesis
      proof cases
        case (1 b)
        with size that show ?thesis by simp
      qed simp
    qed
    have "list_all field_ok ?ws" unfolding list_all_iff using ok by (metis surj_pair)
    then have "Protobuf_Reference.fields (length (encode_fields ?ws)) (encode_fields ?ws) = Some ?ws"
      by (intro fields_write) simp_all
    moreover have "put_fields (merge_value table utf8 (merge_struct table utf8 d)) ([] @ ?fs) ?ws ([] @ map initial ?fs) = Some ([] @ vs)"
    proof (rule put_all_fields [OF Suc fields])
      show "\<forall>(t, w) \<in> set ?ws. wire_short w" using wire size by fastforce
    qed (simp_all add: struct_fields_ok [OF assms])
    ultimately show "merge_struct table utf8 (Suc d) s (empty_struct table s) (encode_struct table (Suc d) s vs) = Some vs"
      by (simp add: empty_struct_def)
  qed
qed (simp add: nested_ok_def)

interpretation reference_structs: derived_codec utf8 "\<lambda>table. encode_struct table RECURSION_LIMIT" "decode_struct utf8"
  by unfold_locales (use struct_nested_ok in \<open>auto simp: nested_ok_def decode_struct_def\<close>)


section \<open>The generated tables agree\<close>

fun schema_contents :: "role \<Rightarrow> (string \<times> nat \<times> string) list" where
  "schema_contents Client = host_to_ark_schema"
| "schema_contents Server = ark_to_host_schema"

text \<open>The oneofs of the full and of the opaque schema have the same fields under the same tags, and the payload type of a
  field is that of its message and one of the structures.\<close>

lemma schema_contents_tags: "map (\<lambda>(f, tag, _). (f, tag)) (schema_contents r) = content_tags"
proof (cases r)
  case Client
  show ?thesis unfolding Client by code_simp
next
  case Server
  show ?thesis unfolding Server by code_simp
qed

lemma schema_contents_types:
  "list_all (\<lambda>((f, v), (_, _, s)). map_of messages v = Some s) (zip (contents r) (schema_contents r))"
proof (cases r)
  case Client
  show ?thesis unfolding Client by code_simp
next
  case Server
  show ?thesis unfolding Server by code_simp
qed

lemma schema_content:
  assumes "(f, tag, s) \<in> set (schema_contents r)" "message_from r (Content f p) = Some m"
  shows "type_name m = s" "map_of content_tags f = Some tag"
proof -
  have row: "length (schema_contents r) = length content_tags" "map fst (schema_contents r) = map fst content_tags"
    using arg_cong [OF schema_contents_tags [of r], of length] arg_cong [OF schema_contents_tags [of r], of "map fst"]
    by (simp_all add: o_def case_prod_unfold)
  have rows: "length (schema_contents r) = length (contents r)" "map fst (schema_contents r) = map fst (contents r)"
    using row content_tags_contents [of r] by (metis length_map)+
  obtain i where i: "i < length (schema_contents r)" "schema_contents r ! i = (f, tag, s)" using assms(1) by (metis in_set_conv_nth)
  have "fst (contents r ! i) = f" using arg_cong [OF rows(2), of "\<lambda>xs. xs ! i"] i rows(1) by simp
  then have "(f, snd (contents r ! i)) \<in> set (contents r)" using i(1) rows(1) by (metis nth_mem prod.collapse)
  then have "snd (contents r ! i) = variant m"
    using assms(2) contents_distinct [of r] by (auto simp: message_from_Some dest: eq_key_imp_eq_value)
  moreover have "map_of messages (snd (contents r ! i)) = Some s"
    using schema_contents_types [of r] i rows(1) by (auto simp: list_all_length case_prod_unfold)
  ultimately show "type_name m = s" by (simp add: type_name_def type_of_variant_def)
  have "(f, tag) \<in> set (map (\<lambda>(f, tag, _). (f, tag)) (schema_contents r))" using assms(1) by force
  then have "(f, tag) \<in> set content_tags" by (simp only: schema_contents_tags)
  moreover have "distinct (map fst content_tags)" using contents_distinct [of r] content_tags_contents [of r] by metis
  ultimately show "map_of content_tags f = Some tag" by simp
qed


lemma schema_row:
  assumes "(f, tag, s) \<in> set (schema_contents r)"
  obtains m where "message_from r (Content f p) = Some m" "type_name m = s" "map_of content_tags f = Some tag"
proof -
  have "map fst (schema_contents r) = map fst content_tags"
    using arg_cong [OF schema_contents_tags [of r], of "map fst"] by (simp add: o_def case_prod_unfold)
  then have "set (map fst (schema_contents r)) = set (map fst (contents r))" by (simp only: content_tags_contents [of r])
  then have "content_ok r (Content f p)" using assms by (force simp: content_ok_def)
  then obtain m where m: "message_from r (Content f p) = Some m" using message_from_ok by blast
  from that [OF m schema_content [OF assms m]] show thesis .
qed


section \<open>Property\<close>

text \<open>C23: every message of the schema arrives, whatever codec prost derives for it. For a content field of a direction
  and a value of the type that the full schema gives it, \<^verbatim>\<open>Develop\<close> with its plain bytes included, the field's content
  converts to a message of that type, the opaque schema has the field under the same tag and the logs name it alike, and
  when its envelope is within the limit, the peer reads that name in the header and decodes the envelope to the identifier
  and the message, whose payload decodes to the value.\<close>

theorem schema_roundtrip:
  assumes "prost_codec pb" and "derived_codec utf8 enc dec"
    and "(f, tag, s) \<in> set (schema_contents r)" and "content_typed utf8 s x" and "length (content_bytes enc s x) < 2 ^ 64"
    and "limit < 2 ^ 64"
  shows "\<exists>m. message_from r (Content f (content_bytes enc s x)) = Some m \<and> type_name m = s \<and>
    field_name m = content_name r f \<and> map_of content_tags f = Some tag \<and>
    content_value dec (type_name m) (payload m) = Some x \<and>
    (\<forall>i bs. envelope_encode pb limit r i (Ok m) = Ok bs \<longrightarrow>
       envelope_decode pb (peer r) bs = Ok (i, Ok m) \<and>
       (\<exists>h. decode_header pb (peer r) bs = Some (Ok h) \<and> h_id h = i \<and> h_payload h = Some (content_name r f)))"
proof -
  let ?p = "content_bytes enc s x"
  obtain m where m: "message_from r (Content f ?p) = Some m" and row: "type_name m = s" "map_of content_tags f = Some tag"
    by (rule schema_row [OF assms(3), of ?p])
  have name: "field_name m = content_name r f" using content_name_field_name [OF m] by simp
  have "payload m = ?p" using m by (simp add: message_from_Some)
  then have "content_value dec (type_name m) (payload m) = Some x"
    using derived_codec.content_decodes [OF assms(2,4,5)] row(1) by simp
  moreover have "envelope_decode pb (peer r) bs = Ok (i, Ok m) \<and>
      (\<exists>h. decode_header pb (peer r) bs = Some (Ok h) \<and> h_id h = i \<and> h_payload h = Some (content_name r f))"
    if "envelope_encode pb limit r i (Ok m) = Ok bs" for i bs
    using prost_codec.envelope_roundtrip [OF assms(1) that assms(6)] name by (auto simp: body_name_def)
  ultimately show ?thesis using m row name by blast
qed

lemma demo_repair: "encode_struct structs RECURSION_LIMIT ''SlotRepairRequest'' [[PEnum 2]] = [8, 2]"
  "struct_typed structs (\<lambda>_. True) RECURSION_LIMIT ''SlotRepairRequest'' [[PEnum 2]]"
proof -
  have limit: "RECURSION_LIMIT = Suc 99" by (simp add: RECURSION_LIMIT_def)
  have found: "map_of structs ''SlotRepairRequest'' = Some [(''slot'', 1, Plain, Enumeration ''SlotKind'')]"
    by (simp add: structs_defs)
  then have "struct_fields structs ''SlotRepairRequest'' = [(''slot'', 1, Plain, Enumeration ''SlotKind'')]" by (simp add: struct_fields_def)
  moreover have "unat (scast (2 :: 32 word) :: 64 word) = 2" by simp
  ultimately have "encode_struct structs (Suc d) ''SlotRepairRequest'' [[PEnum 2]] = [8, 2]"
    "struct_typed structs (\<lambda>_. True) (Suc d) ''SlotRepairRequest'' [[PEnum 2]]" for d
    using found by (simp_all add: encode_fields_def varint_short)
  then show "encode_struct structs RECURSION_LIMIT ''SlotRepairRequest'' [[PEnum 2]] = [8, 2]"
    "struct_typed structs (\<lambda>_. True) RECURSION_LIMIT ''SlotRepairRequest'' [[PEnum 2]]" unfolding limit by blast+
qed

theorem schema_roundtrip_witness:
  "(\<exists>bs. envelope_encode protobuf 1000 Client 1 (Ok (Message ''SlotRepairRequest'' [8, 2])) = Ok bs \<and>
      envelope_decode protobuf Server bs = Ok (1, Ok (Message ''SlotRepairRequest'' [8, 2]))) \<and>
   content_value (decode_struct (\<lambda>_. True)) ''SlotRepairRequest'' [8, 2] = Some (PStruct [[PEnum 2]]) \<and>
   (\<exists>m. message_from Server (Content ''Develop'' [1, 2, 3 :: byte]) = Some m \<and> type_name m = ''Vec<u8>'')"
proof -
  have rows: "(''SlotRepair'', 1538, ''SlotRepairRequest'') \<in> set (schema_contents Client)"
    "(''Develop'', 4096, ''Vec<u8>'') \<in> set (schema_contents Server)"
    by (simp_all add: host_to_ark_schema_def ark_to_host_schema_def)
  have travels: "(''SlotRepair'', ''SlotRepairRequest'') \<in> set (contents Client)" by (simp add: host_to_ark_def)
  let ?m = "Message ''SlotRepairRequest'' [8, 2 :: byte]"
  have m: "message_from Client (Content ''SlotRepair'' [8, 2]) = Some ?m" "content_try_from Client ?m = Ok (Content ''SlotRepair'' [8, 2])"
    using travels by (simp_all add: message_from_Some content_try_from_Ok)
  have "content_tag (Content ''SlotRepair'' [8, 2]) = 1538" by (simp add: content_tag_def content_tags_def)
  with m(2) obtain bs where "envelope_encode protobuf 1000 Client 1 (Ok ?m) = Ok bs"
    by (simp add: envelope_encode_def envelope_parts_def protobuf_def reference_encode_def encode_fields_def envelope_fields_def
        uint_field_def varint_short)
  moreover note schema_roundtrip [OF reference.prost_codec_axioms reference_structs.derived_codec_axioms rows(1),
      of "\<lambda>_. True" "PStruct [[PEnum 2]]" 1000]
  moreover have "\<exists>m. message_from Server (Content ''Develop'' [1, 2, 3 :: byte]) = Some m \<and> type_name m = ''Vec<u8>''"
    using schema_roundtrip [OF reference.prost_codec_axioms reference_structs.derived_codec_axioms rows(2),
      of "\<lambda>_. True" "PBytes [1, 2, 3]" 1000] by auto
  ultimately show ?thesis using demo_repair m(1) by (auto simp: peer_def payload_def)
qed

end
