(* ===== verification/Schema_Generator.thy ===== *)
theory Schema_Generator
  imports Schema_Codec "HOL-Library.Monad_Syntax" "HOL-Library.List_Lexorder" "HOL-Library.Product_Lexorder" "HOL-Library.Char_ord"
begin

text \<open>
  The generator of the schema sources, \<^verbatim>\<open>src/generator/src/main.rs\<close>: from the descriptors of the two envelopes it derives the table of messages, the
  direction conversions and the names for log lines, and the opaque view of the envelopes. The descriptors are those
  that protoc reads from \<^verbatim>\<open>src/proto/wire.proto\<close>; files, formatting and the bindings that prost generates are left out. Failed
  assertions are \<open>None\<close>.
\<close>


section \<open>Descriptors\<close>

datatype field_type = TUint64 | TBytes | TMessage string

datatype field_descriptor = Field (fd_name: string) (fd_number: nat) (fd_content: bool) (fd_type: field_type)

type_synonym message_descriptor = "string \<times> field_descriptor list"

definition host_to_ark_proto :: "message_descriptor" where
  "host_to_ark_proto = (''HostToArk'',
    [Field ''id'' 1 False TUint64,
     Field ''err'' 2 False (TMessage ''.darkbio.wire.Error''),
     Field ''onboard'' 0x100 True (TMessage ''.darkbio.wire.OnboardingRequest''),
     Field ''device_info'' 0x101 True (TMessage ''.darkbio.wire.DeviceInfoRequest''),
     Field ''cloud_sync_start'' 0x102 True (TMessage ''.darkbio.wire.CloudSyncStartRequest''),
     Field ''cloud_sync_finish'' 0x103 True (TMessage ''.darkbio.wire.CloudSyncFinishRequest''),
     Field ''genuinity_proof'' 0x104 True (TMessage ''.darkbio.wire.GenuinityProofRequest''),
     Field ''firmware_update_prep'' 0x201 True (TMessage ''.darkbio.wire.FirmwareUpdatePrepRequest''),
     Field ''firmware_update_init'' 0x202 True (TMessage ''.darkbio.wire.FirmwareUpdateInitRequest''),
     Field ''firmware_update_upload'' 0x203 True (TMessage ''.darkbio.wire.FirmwareUpdateUploadRequest''),
     Field ''firmware_update_verify'' 0x204 True (TMessage ''.darkbio.wire.FirmwareUpdateVerifyRequest''),
     Field ''firmware_update_install'' 0x205 True (TMessage ''.darkbio.wire.FirmwareUpdateInstallRequest''),
     Field ''pairing_auth'' 0x301 True (TMessage ''.darkbio.wire.PairingAuthRequest''),
     Field ''pairing_set_app_id'' 0x302 True (TMessage ''.darkbio.wire.PairingSetAppIdentityRequest''),
     Field ''pairing_set_app_storage'' 0x303 True (TMessage ''.darkbio.wire.PairingSetAppStorageRequest''),
     Field ''pairing_ack_ark_storage'' 0x304 True (TMessage ''.darkbio.wire.PairingAckArkStorageRequest''),
     Field ''pairing_accept'' 0x305 True (TMessage ''.darkbio.wire.PairingAcceptanceRequest''),
     Field ''pairing_complete'' 0x306 True (TMessage ''.darkbio.wire.PairingCompletionRequest''),
     Field ''relay_join'' 0x401 True (TMessage ''.darkbio.wire.RelayJoinRequest''),
     Field ''relay_inbound'' 0x402 True (TMessage ''.darkbio.wire.RelayInboundRequest''),
     Field ''relay_outbound'' 0x403 True (TMessage ''.darkbio.wire.RelayOutboundResponse''),
     Field ''unlock'' 0x501 True (TMessage ''.darkbio.wire.UnlockRequest''),
     Field ''exec_create'' 0x502 True (TMessage ''.darkbio.wire.ExecutionCreateRequest''),
     Field ''exec_load'' 0x503 True (TMessage ''.darkbio.wire.ExecutionLoadRequest''),
     Field ''exec_start'' 0x504 True (TMessage ''.darkbio.wire.ExecutionStartRequest''),
     Field ''exec_status'' 0x505 True (TMessage ''.darkbio.wire.ExecutionStatusRequest''),
     Field ''exec_cancel'' 0x506 True (TMessage ''.darkbio.wire.ExecutionCancelRequest''),
     Field ''exec_result'' 0x507 True (TMessage ''.darkbio.wire.ExecutionResultRequest''),
     Field ''exec_output'' 0x508 True (TMessage ''.darkbio.wire.ExecutionOutputRequest''),
     Field ''exec_module_size'' 0x509 True (TMessage ''.darkbio.wire.ExecutionModuleSizeResponse''),
     Field ''exec_module_read'' 0x50a True (TMessage ''.darkbio.wire.ExecutionModuleReadResponse''),
     Field ''slot_list'' 0x601 True (TMessage ''.darkbio.wire.SlotListRequest''),
     Field ''slot_repair'' 0x602 True (TMessage ''.darkbio.wire.SlotRepairRequest''),
     Field ''slot_delete'' 0x603 True (TMessage ''.darkbio.wire.SlotDeleteRequest''),
     Field ''slot_identify'' 0x604 True (TMessage ''.darkbio.wire.SlotIdentifyRequest''),
     Field ''slot_upload_start'' 0x605 True (TMessage ''.darkbio.wire.SlotUploadStartRequest''),
     Field ''slot_upload_chunk'' 0x606 True (TMessage ''.darkbio.wire.SlotUploadChunkRequest''),
     Field ''slot_upload_cancel'' 0x607 True (TMessage ''.darkbio.wire.SlotUploadCancelRequest''),
     Field ''slot_upload_process'' 0x608 True (TMessage ''.darkbio.wire.SlotUploadProcessRequest''),
     Field ''dataset_paths'' 0x701 True (TMessage ''.darkbio.wire.DatasetPathsRequest''),
     Field ''develop'' 0x1000 True TBytes])"

definition ark_to_host_proto :: "message_descriptor" where
  "ark_to_host_proto = (''ArkToHost'',
    [Field ''id'' 1 False TUint64,
     Field ''err'' 2 False (TMessage ''.darkbio.wire.Error''),
     Field ''onboard'' 0x100 True (TMessage ''.darkbio.wire.OnboardingResponse''),
     Field ''device_info'' 0x101 True (TMessage ''.darkbio.wire.DeviceInfoResponse''),
     Field ''cloud_sync_start'' 0x102 True (TMessage ''.darkbio.wire.CloudSyncStartResponse''),
     Field ''cloud_sync_finish'' 0x103 True (TMessage ''.darkbio.wire.CloudSyncFinishResponse''),
     Field ''genuinity_proof'' 0x104 True (TMessage ''.darkbio.wire.GenuinityProofResponse''),
     Field ''firmware_update_prep'' 0x201 True (TMessage ''.darkbio.wire.FirmwareUpdatePrepResponse''),
     Field ''firmware_update_init'' 0x202 True (TMessage ''.darkbio.wire.FirmwareUpdateInitResponse''),
     Field ''firmware_update_upload'' 0x203 True (TMessage ''.darkbio.wire.FirmwareUpdateUploadResponse''),
     Field ''firmware_update_verify'' 0x204 True (TMessage ''.darkbio.wire.FirmwareUpdateVerifyResponse''),
     Field ''firmware_update_install'' 0x205 True (TMessage ''.darkbio.wire.FirmwareUpdateInstallResponse''),
     Field ''pairing_auth'' 0x301 True (TMessage ''.darkbio.wire.PairingAuthResponse''),
     Field ''pairing_set_app_id'' 0x302 True (TMessage ''.darkbio.wire.PairingSetAppIdentityResponse''),
     Field ''pairing_set_app_storage'' 0x303 True (TMessage ''.darkbio.wire.PairingSetAppStorageResponse''),
     Field ''pairing_ack_ark_storage'' 0x304 True (TMessage ''.darkbio.wire.PairingAckArkStorageResponse''),
     Field ''pairing_accept'' 0x305 True (TMessage ''.darkbio.wire.PairingAcceptanceResponse''),
     Field ''pairing_complete'' 0x306 True (TMessage ''.darkbio.wire.PairingCompletionResponse''),
     Field ''relay_join'' 0x401 True (TMessage ''.darkbio.wire.RelayJoinResponse''),
     Field ''relay_inbound'' 0x402 True (TMessage ''.darkbio.wire.RelayInboundResponse''),
     Field ''relay_outbound'' 0x403 True (TMessage ''.darkbio.wire.RelayOutboundRequest''),
     Field ''unlock'' 0x501 True (TMessage ''.darkbio.wire.UnlockResponse''),
     Field ''exec_create'' 0x502 True (TMessage ''.darkbio.wire.ExecutionCreateResponse''),
     Field ''exec_load'' 0x503 True (TMessage ''.darkbio.wire.ExecutionLoadResponse''),
     Field ''exec_start'' 0x504 True (TMessage ''.darkbio.wire.ExecutionStartResponse''),
     Field ''exec_status'' 0x505 True (TMessage ''.darkbio.wire.ExecutionStatusResponse''),
     Field ''exec_cancel'' 0x506 True (TMessage ''.darkbio.wire.ExecutionCancelResponse''),
     Field ''exec_result'' 0x507 True (TMessage ''.darkbio.wire.ExecutionResultResponse''),
     Field ''exec_output'' 0x508 True (TMessage ''.darkbio.wire.ExecutionOutputResponse''),
     Field ''exec_module_size'' 0x509 True (TMessage ''.darkbio.wire.ExecutionModuleSizeRequest''),
     Field ''exec_module_read'' 0x50a True (TMessage ''.darkbio.wire.ExecutionModuleReadRequest''),
     Field ''slot_list'' 0x601 True (TMessage ''.darkbio.wire.SlotListResponse''),
     Field ''slot_repair'' 0x602 True (TMessage ''.darkbio.wire.SlotRepairResponse''),
     Field ''slot_delete'' 0x603 True (TMessage ''.darkbio.wire.SlotDeleteResponse''),
     Field ''slot_identify'' 0x604 True (TMessage ''.darkbio.wire.SlotIdentifyResponse''),
     Field ''slot_upload_start'' 0x605 True (TMessage ''.darkbio.wire.SlotUploadStartResponse''),
     Field ''slot_upload_chunk'' 0x606 True (TMessage ''.darkbio.wire.SlotUploadChunkResponse''),
     Field ''slot_upload_cancel'' 0x607 True (TMessage ''.darkbio.wire.SlotUploadCancelResponse''),
     Field ''slot_upload_process'' 0x608 True (TMessage ''.darkbio.wire.SlotUploadProcessResponse''),
     Field ''dataset_paths'' 0x701 True (TMessage ''.darkbio.wire.DatasetPathsResponse''),
     Field ''develop'' 0x1000 True TBytes])"


section \<open>Generating\<close>

text \<open>\<^verbatim>\<open>str::split\<close> and the first letter of a word in upper case; identifiers are ASCII.\<close>

fun split_on :: "char \<Rightarrow> string \<Rightarrow> string list" where
  "split_on c [] = [[]]"
| "split_on c (x # xs) = (if x = c then [] # split_on c xs else (case split_on c xs of w # ws \<Rightarrow> (x # w) # ws | [] \<Rightarrow> [[x]]))"

definition to_uppercase :: "char \<Rightarrow> char" where
  "to_uppercase c = (let n = of_char c :: nat in if 97 \<le> n \<and> n \<le> 122 then char_of (n - 32) else c)"

fun camel_words :: "string list \<Rightarrow> string option" where
  "camel_words [] = Some []"
| "camel_words ([] # ws) = None"
| "camel_words ((c # cs) # ws) = map_option (\<lambda>rest. to_uppercase c # cs @ rest) (camel_words ws)"

definition field_variant :: "string \<Rightarrow> string option" where
  "field_variant name = camel_words (split_on CHR ''_'' name)"

text \<open>The variant and the payload type of a content field.\<close>

fun body_of :: "field_descriptor \<Rightarrow> (string \<times> string) option" where
  "body_of (Field name _ _ (TMessage type)) = (let t = last (split_on CHR ''.'' type) in Some (t, t))"
| "body_of (Field name _ _ TBytes) = (if name = ''develop'' then Some (''Develop'', ''Vec<u8>'') else None)"
| "body_of (Field name _ _ TUint64) = None"

record generated =
  g_messages :: "(string \<times> string \<times> string) list"
  g_contents :: "(string \<times> (string \<times> string) list) list"
  g_names :: "(string \<times> (string \<times> string) list) list"

text \<open>The rows of one envelope: field variant, message variant, payload type and field name.\<close>

fun envelope_rows :: "field_descriptor list \<Rightarrow> (string \<times> string \<times> string \<times> string) list option" where
  "envelope_rows [] = Some []"
| "envelope_rows (f # fs) =
     (if (fd_number f \<ge> 0x100) \<noteq> fd_content f then None
      else if \<not> fd_content f then envelope_rows fs
      else do { (v, p) \<leftarrow> body_of f;
                fv \<leftarrow> field_variant (fd_name f);
                rows \<leftarrow> envelope_rows fs;
                Some ((fv, v, p, fd_name f) # rows) })"

definition module_of :: "string \<Rightarrow> string option" where
  "module_of name = (if name = ''HostToArk'' then Some ''host_to_ark'' else if name = ''ArkToHost'' then Some ''ark_to_host'' else None)"

text \<open>The loop over the messages of the schema; the ordered set of messages is a sorted list.\<close>

fun generate_from :: "message_descriptor list \<Rightarrow> generated \<Rightarrow> generated option" where
  "generate_from [] g = Some g"
| "generate_from ((name, fs) # ds) g = (case module_of name of
      None \<Rightarrow> generate_from ds g
    | Some module \<Rightarrow>
        do { rows \<leftarrow> envelope_rows fs;
             generate_from ds \<lparr>g_messages = fold (\<lambda>(fv, v, p, n). insort_insert (v, p, n)) rows (g_messages g),
               g_contents = g_contents g @ [(module, map (\<lambda>(fv, v, p, n). (fv, v)) rows)],
               g_names = g_names g @ [(module, map (\<lambda>(fv, v, p, n). (fv, n)) rows)]\<rparr> })"

definition generate :: "message_descriptor list \<Rightarrow> generated option" where
  "generate ds = generate_from ds \<lparr>g_messages = [], g_contents = [], g_names = []\<rparr>"

text \<open>The opaque view: the envelopes alone, with nested messages left as bytes.\<close>

fun opaque_type :: "field_type \<Rightarrow> field_type" where
  "opaque_type (TMessage _) = TBytes"
| "opaque_type t = t"

definition opaque_view :: "message_descriptor list \<Rightarrow> message_descriptor list" where
  "opaque_view ds = map (\<lambda>(name, fs). (name, map (\<lambda>f. Field (fd_name f) (fd_number f) (fd_content f) (opaque_type (fd_type f))) fs))
     (filter (\<lambda>(name, _). module_of name \<noteq> None) ds)"


section \<open>Properties of the generator\<close>

abbreviation insert_message :: "string \<times> string \<times> string \<times> string \<Rightarrow> (string \<times> string \<times> string) list \<Rightarrow> (string \<times> string \<times> string) list" where
  "insert_message \<equiv> \<lambda>(fv, v, p, n). insort_insert (v, p, n)"

lemma insert_messages:
  assumes "sorted ms" "distinct ms"
  shows "sorted (fold insert_message rows ms)" "distinct (fold insert_message rows ms)"
    "set (fold insert_message rows ms) = set ms \<union> snd ` set rows"
proof (atomize (full), use assms in \<open>induction rows arbitrary: ms\<close>)
  case (Cons row rows)
  obtain fv v p n where row: "row = (fv, v, p, n)" by (cases row)
  from Cons.IH [of "insert_message row ms"] Cons.prems show ?case
    by (simp add: row sorted_insort_insert distinct_insort_insert set_insort_insert)
qed simp


section \<open>The sources are what the generator makes\<close>

fun proto :: "role \<Rightarrow> message_descriptor" where
  "proto Client = host_to_ark_proto"
| "proto Server = ark_to_host_proto"

definition proto_rows :: "role \<Rightarrow> (string \<times> string \<times> string \<times> string) list" where
  "proto_rows r = map (\<lambda>((f, v), (_, n), (_, _, s)). (f, v, s, n)) (zip (contents r) (zip (content_names r) (schema_contents r)))"

lemma proto_rows_generated: "envelope_rows (snd (proto r)) = Some (proto_rows r)"
proof (cases r)
  case Client
  show ?thesis unfolding Client by code_simp
next
  case Server
  show ?thesis unfolding Server by code_simp
qed

definition message_rows :: "(string \<times> string \<times> string) list" where
  "message_rows = map (\<lambda>((v, s), (_, n)). (v, s, n)) (zip messages field_names)"

text \<open>The messages are in ascending order, which is checked on neighbours.\<close>

fun ascending :: "string list \<Rightarrow> bool" where
  "ascending (x # y # zs) \<longleftrightarrow> x < y \<and> ascending (y # zs)"
| "ascending _ \<longleftrightarrow> True"

lemma ascending_sorted: "ascending xs \<Longrightarrow> sorted_wrt (<) xs"
proof (induction xs rule: ascending.induct)
  case (1 x y zs)
  then show ?case by (auto intro: less_trans)
qed simp_all

lemma messages_sorted: "sorted_wrt (<) (map fst messages)"
proof (rule ascending_sorted)
  show "ascending (map fst messages)" by code_simp
qed

lemma messages_distinct: "distinct (map fst messages)"
  using messages_sorted by (simp add: strict_sorted_iff)

text \<open>Two tables with the same keys, joined.\<close>

definition join :: "(string \<times> string) list \<Rightarrow> (string \<times> string) list \<Rightarrow> (string \<times> string \<times> string) list" where
  "join xs ys = map (\<lambda>((v, s), (_, n)). (v, s, n)) (zip xs ys)"

lemma join_columns:
  assumes "map fst xs = map fst ys"
  shows "map (\<lambda>(v, s, _). (v, s)) (join xs ys) = xs" "map (\<lambda>(v, _, n). (v, n)) (join xs ys) = ys"
proof -
  have len: "length xs = length ys" using assms by (metis length_map)
  have "fst (xs ! i) = fst (ys ! i)" if "i < length ys" for i using arg_cong [OF assms, of "\<lambda>zs. zs ! i"] that len by simp
  with len show "map (\<lambda>(v, s, _). (v, s)) (join xs ys) = xs" "map (\<lambda>(v, _, n). (v, n)) (join xs ys) = ys"
    by (auto intro!: nth_equalityI simp: join_def case_prod_unfold prod_eq_iff)
qed

lemma join_lookup:
  assumes keys: "map fst xs = map fst ys" "distinct (map fst xs)"
  shows "set (join xs ys) = {(v, s, n). map_of xs v = Some s \<and> map_of ys v = Some n}"
proof -
  note cols = join_columns [OF keys(1)]
  have key: "map fst (join xs ys) = map fst xs" using arg_cong [OF cols(1), of "map fst"] by (simp add: o_def case_prod_unfold)
  have xs: "map_of xs v = Some s \<longleftrightarrow> (\<exists>n. (v, s, n) \<in> set (join xs ys))" for v s
    using keys(2) arg_cong [OF cols(1), of set] by (force simp: map_of_eq_Some_iff)
  have ys: "map_of ys v = Some n \<longleftrightarrow> (\<exists>s. (v, s, n) \<in> set (join xs ys))" for v n
    using keys arg_cong [OF cols(2), of set] by (force simp: map_of_eq_Some_iff)
  have one: "x = y" if "x \<in> set (join xs ys)" "y \<in> set (join xs ys)" "fst x = fst y" for x y
    using keys(2) that unfolding key [symmetric] by (metis distinct_map inj_onD)
  have "(v, s, n) \<in> set (join xs ys) \<longleftrightarrow> map_of xs v = Some s \<and> map_of ys v = Some n" for v s n
  proof
    assume "map_of xs v = Some s \<and> map_of ys v = Some n"
    then obtain n' s' where "(v, s, n') \<in> set (join xs ys)" "(v, s', n) \<in> set (join xs ys)" unfolding xs ys by blast
    with one [of "(v, s, n')" "(v, s', n)"] show "(v, s, n) \<in> set (join xs ys)" by simp
  qed (use xs ys in blast)
  then show ?thesis by blast
qed

lemma message_rows_eq: "message_rows = join messages field_names"
  by (simp add: message_rows_def join_def)

lemma message_rows_sorted: "sorted_wrt (<) message_rows"
proof -
  have "map fst message_rows = map fst messages"
    using arg_cong [OF join_columns(1) [OF field_names_rows [symmetric]], of "map fst"]
    by (simp add: message_rows_eq o_def case_prod_unfold)
  then have "sorted_wrt (\<lambda>a b. fst a < fst b) message_rows" using messages_sorted by (metis sorted_wrt_map)
  then show ?thesis by (rule sorted_wrt_mono_rel [rotated]) (auto simp: less_prod_def)
qed

lemma message_rows_set: "set message_rows = {(v, s, n). map_of messages v = Some s \<and> map_of field_names v = Some n}"
  unfolding message_rows_eq by (rule join_lookup [OF field_names_rows [symmetric] messages_distinct])

lemma proto_rows_lengths: "length (content_names r) = length (contents r)" "length (schema_contents r) = length (contents r)"
  using content_names_rows [of r] arg_cong [OF schema_contents_tags [of r], of length] arg_cong [OF content_tags_contents [of r], of length]
  by (metis length_map, simp)

lemma proto_rows_messages: "snd ` set (proto_rows r) \<subseteq> set message_rows"
proof
  fix x assume "x \<in> snd ` set (proto_rows r)"
  then obtain i where i: "i < length (contents r)" "x = (snd (contents r ! i), snd (snd (schema_contents r ! i)), snd (content_names r ! i))"
    by (auto simp: proto_rows_def in_set_conv_nth proto_rows_lengths case_prod_unfold)
  have "map_of messages (snd (contents r ! i)) = Some (snd (snd (schema_contents r ! i)))"
    using schema_contents_types [of r] i(1) by (auto simp: list_all_length proto_rows_lengths case_prod_unfold)
  moreover have "map_of field_names (snd (contents r ! i)) = Some (snd (content_names r ! i))"
    using field_names_contents [of r] i(1) by (auto simp: list_all_length proto_rows_lengths case_prod_unfold)
  ultimately show "x \<in> set message_rows" by (simp add: message_rows_set i(2))
qed

lemma proto_rows_variants: "fst ` snd ` set (proto_rows r) = snd ` set (contents r)"
proof -
  have "map (fst \<circ> snd) (proto_rows r) = map snd (contents r)"
    by (rule nth_equalityI) (simp_all add: proto_rows_def proto_rows_lengths case_prod_unfold)
  from arg_cong [OF this, of set] show ?thesis by (simp add: image_image o_def)
qed

lemma message_rows_found: "set message_rows = snd ` set (proto_rows Client) \<union> snd ` set (proto_rows Server)"
proof (rule subset_antisym)
  show "set message_rows \<subseteq> snd ` set (proto_rows Client) \<union> snd ` set (proto_rows Server)"
  proof
    fix x assume x: "x \<in> set message_rows"
    then have "fst x \<in> fst ` set messages" by (auto simp: message_rows_set intro: map_of_SomeD rev_image_eqI)
    then obtain r where "fst x \<in> snd ` set (contents r)" unfolding contents_messages by blast
    then obtain y where y: "y \<in> snd ` set (proto_rows r)" "fst y = fst x" by (metis imageE proto_rows_variants)
    have "y = x" using x proto_rows_messages y by (fastforce simp: message_rows_set)
    with y(1) show "x \<in> snd ` set (proto_rows Client) \<union> snd ` set (proto_rows Server)" by (cases r) auto
  qed
qed (use proto_rows_messages in blast)

lemma proto_rows_columns:
  "map (\<lambda>(fv, v, p, n). (fv, v)) (proto_rows r) = contents r" "map (\<lambda>(fv, v, p, n). (fv, n)) (proto_rows r) = content_names r"
proof -
  have "fst (contents r ! i) = fst (content_names r ! i)" if "i < length (contents r)" for i
    using arg_cong [OF content_names_rows [of r], of "\<lambda>xs. xs ! i"] that proto_rows_lengths [of r] by simp
  with proto_rows_lengths [of r] show "map (\<lambda>(fv, v, p, n). (fv, v)) (proto_rows r) = contents r"
    "map (\<lambda>(fv, v, p, n). (fv, n)) (proto_rows r) = content_names r"
    by (auto intro!: nth_equalityI simp: proto_rows_def case_prod_unfold prod_eq_iff)
qed

lemma opaque_tags:
  "list_all (\<lambda>(_, fs). list_all (\<lambda>f. fd_type f \<in> {TUint64, TBytes}) fs \<and>
      map (\<lambda>f. (field_variant (fd_name f), fd_number f)) (filter fd_content fs) = map (\<lambda>(f, tag). (Some f, tag)) content_tags)
    (opaque_view [host_to_ark_proto, ark_to_host_proto])"
  by code_simp

text \<open>C36: the checked-in sources are what the generator makes of the schema: on the envelopes of the protocol definition none of its
  assertions fails, and its output is the table of messages in order and without duplicates with their log names, the
  conversions of both directions, and the names of both envelopes' contents; and the opaque view has no nested messages and
  the tags of the reader of headers, under the same fields.\<close>

theorem generated_sources:
  "\<exists>g. generate [host_to_ark_proto, ark_to_host_proto] = Some g \<and>
    map (\<lambda>(v, p, _). (v, p)) (g_messages g) = messages \<and> map (\<lambda>(v, _, n). (v, n)) (g_messages g) = field_names \<and>
    g_contents g = [(''host_to_ark'', host_to_ark), (''ark_to_host'', ark_to_host)] \<and>
    g_names g = [(''host_to_ark'', host_to_ark_names), (''ark_to_host'', ark_to_host_names)] \<and>
    list_all (\<lambda>(_, fs). list_all (\<lambda>f. fd_type f \<in> {TUint64, TBytes}) fs \<and>
      map (\<lambda>f. (field_variant (fd_name f), fd_number f)) (filter fd_content fs) = map (\<lambda>(f, tag). (Some f, tag)) content_tags)
      (opaque_view [host_to_ark_proto, ark_to_host_proto])"
proof -
  let ?ms = "fold insert_message (proto_rows Server) (fold insert_message (proto_rows Client) [])"
  have sorted: "sorted (fold insert_message (proto_rows Client) [])" "distinct (fold insert_message (proto_rows Client) [])"
    "set (fold insert_message (proto_rows Client) []) = snd ` set (proto_rows Client)" using insert_messages [of "[]"] by auto
  have "?ms = message_rows"
    using insert_messages [OF sorted(1,2), of "proto_rows Server"] sorted(3) message_rows_sorted message_rows_found
    by (intro sorted_distinct_set_unique) (simp_all add: strict_sorted_iff)
  moreover have "map (\<lambda>(v, p, _). (v, p)) message_rows = messages" "map (\<lambda>(v, _, n). (v, n)) message_rows = field_names"
    unfolding message_rows_eq by (rule join_columns [OF field_names_rows [symmetric]])+
  ultimately have rows: "?ms = message_rows" "map (\<lambda>(v, p, _). (v, p)) message_rows = messages"
    "map (\<lambda>(v, _, n). (v, n)) message_rows = field_names" by blast+
  have names: "host_to_ark_proto = (''HostToArk'', snd host_to_ark_proto)" "ark_to_host_proto = (''ArkToHost'', snd ark_to_host_proto)"
    by (simp_all add: host_to_ark_proto_def ark_to_host_proto_def)
  have "generate [(''HostToArk'', snd (proto Client)), (''ArkToHost'', snd (proto Server))] = Some \<lparr>g_messages = ?ms,
      g_contents = [(''host_to_ark'', contents Client), (''ark_to_host'', contents Server)],
      g_names = [(''host_to_ark'', content_names Client), (''ark_to_host'', content_names Server)]\<rparr>"
    by (simp add: generate_def module_of_def proto_rows_generated proto_rows_columns del: proto.simps contents.simps content_names.simps)
  then have gen: "generate [host_to_ark_proto, ark_to_host_proto] = Some \<lparr>g_messages = message_rows,
      g_contents = [(''host_to_ark'', host_to_ark), (''ark_to_host'', ark_to_host)],
      g_names = [(''host_to_ark'', host_to_ark_names), (''ark_to_host'', ark_to_host_names)]\<rparr>"
    using names rows(1) by simp
  show ?thesis by (rule exI, intro conjI, rule gen) (simp_all only: generated.simps rows opaque_tags)
qed

end
