(* ===== verification/Envelope_Fuzz.thy ===== *)
theory Envelope_Fuzz
  imports Schema_Codec
begin

text \<open>
  The oracle of the envelope fuzzer, \<^verbatim>\<open>src/src/protocol/mock/envelope.rs\<close>: decode what a peer may send, compare the header with the
  full decoding, encode the result again and decode that. A failed assertion is \<open>None\<close>. The fuzzer samples
  inputs; here it is shown for all of them that no assertion fails.
\<close>


section \<open>The oracle\<close>

definition fuzz_check :: "'p prost \<Rightarrow> nat \<Rightarrow> bool \<Rightarrow> bytes \<Rightarrow> bool option" where
  "fuzz_check pb limit client bs =
     (let side = (if client then Client else Server)
      in case decode_header pb side bs of
           None \<Rightarrow> None
         | Some (Err _) \<Rightarrow> Some False
         | Some (Ok header) \<Rightarrow> (case envelope_decode pb side bs of
               Err _ \<Rightarrow> Some False
             | Ok (i, b) \<Rightarrow>
                 if h_id header \<noteq> i \<or> h_failed header \<noteq> isl b then None
                 else (case pb_decode pb (peer side) bs of
                     Err _ \<Rightarrow> None
                   | Ok (i', err, content) \<Rightarrow>
                       let n = pb_encoded_len pb (peer side) i' err content;
                           encoded = envelope_encode pb limit (peer side) i b
                       in if n > limit then (if encoded = Err (TooLarge n) then Some True else None)
                          else (case encoded of
                              Err _ \<Rightarrow> None
                            | Ok bs' \<Rightarrow>
                                if length bs' \<noteq> n then None
                                else (case envelope_decode pb side bs' of
                                    Err _ \<Rightarrow> None
                                  | Ok (echoed, echo) \<Rightarrow> if echoed = i \<and> echo = b then Some True else None)))))"

definition fuzz_run :: "'p prost \<Rightarrow> nat \<Rightarrow> bytes \<Rightarrow> bool option" where
  "fuzz_run pb limit input = (case input of
      [] \<Rightarrow> Some False
    | client # bs \<Rightarrow> fuzz_check pb limit (odd (unat client)) bs)"


section \<open>Both views of an envelope\<close>

text \<open>The opaque and the full schema number their fields alike, so that both decoders see the same envelope.\<close>

locale prost_views = prost_codec +
  assumes views: "pb_decode pb r bs = Ok (i, err, content) \<Longrightarrow> pb_outer pb r bs = Ok (i, err \<noteq> None, map_option field content)"
    and decoded_ok: "pb_decode pb r bs = Ok (i, err, Some c) \<Longrightarrow> content_ok r c"
begin

lemma decoded_parts:
  assumes "envelope_decode pb r bs = Ok (i, b)"
  shows "\<exists>err content. pb_decode pb (peer r) bs = Ok (i, err, content) \<and> envelope_parts (peer r) b = Ok (err, content) \<and>
    pb_outer pb (peer r) bs = Ok (i, isl b, map_option field content)"
proof -
  from assms obtain err content where dec: "pb_decode pb (peer r) bs = Ok (i, err, content)"
    by (auto simp: envelope_decode_def split: sum.splits option.splits if_splits)
  note outer = views [OF dec]
  show ?thesis
  proof (cases content)
    case None
    with assms dec outer show ?thesis by (auto simp: envelope_decode_def envelope_parts_def split: option.splits)
  next
    case (Some c)
    then obtain m where m: "message_from (peer r) c = Some m" using decoded_ok dec message_from_ok by blast
    then have "content_try_from (peer r) m = Ok c" by (simp add: content_try_from_Ok message_from_Some)
    with Some m assms dec outer show ?thesis by (auto simp: envelope_decode_def envelope_parts_def split: option.splits)
  qed
qed

lemma header_agrees:
  assumes "decode_header pb r bs = Some (Ok h)" "pb_outer pb (peer r) bs = Ok (i, failed, name)"
  shows "h_id h = i" "h_failed h = failed"
  using assms by (auto simp: decode_header_def split: option.splits if_splits)

lemma fuzz_check_accepts:
  assumes "limit < 2 ^ 64" "decode_header pb (if client then Client else Server) bs = Some (Ok h)"
    and dec: "envelope_decode pb (if client then Client else Server) bs = Ok (i, b)"
  shows "fuzz_check pb limit client bs = Some True"
proof -
  let ?side = "if client then Client else Server"
  obtain err content where full: "pb_decode pb (peer ?side) bs = Ok (i, err, content)" "envelope_parts (peer ?side) b = Ok (err, content)"
    "pb_outer pb (peer ?side) bs = Ok (i, isl b, map_option field content)" using decoded_parts [OF dec] by blast
  let ?n = "pb_encoded_len pb (peer ?side) i err content"
  note agree = header_agrees [OF assms(2) full(3)]
  show ?thesis
  proof (cases "?n > limit")
    case True
    with assms(2) dec full(1,2) agree show ?thesis by (simp add: fuzz_check_def Let_def envelope_encode_def)
  next
    case False
    let ?bs = "pb_encode pb (peer ?side) i err content"
    have enc: "envelope_encode pb limit (peer ?side) i b = Ok ?bs" using False full(2) by (simp add: envelope_encode_def)
    have "envelope_decode pb ?side ?bs = Ok (i, b)" using envelope_roundtrip [OF enc assms(1)] by simp
    with False assms(2) dec full(1) agree enc show ?thesis by (simp add: fuzz_check_def Let_def encoded_len)
  qed
qed

end


section \<open>The reference codec has both views\<close>

lemma get_content_ok: "get_content fs = Some (Some c) \<Longrightarrow> content_ok r c"
proof -
  have known: "content_ok r (Content f b)" if "map_of (map prod.swap content_tags) t = Some f" for t f and b :: bytes
  proof -
    have "f \<in> set (map fst content_tags)" using map_of_SomeD [OF that] by force
    then show ?thesis by (simp add: content_ok_def content_tags_contents [of r])
  qed
  have "foldl (\<lambda>acc (t, v). case map_of (map prod.swap content_tags) t of
      None \<Rightarrow> acc
    | Some f \<Rightarrow> (case v of WBytes b \<Rightarrow> map_option (\<lambda>_. Some (Content f b)) acc | _ \<Rightarrow> None)) acc fs = Some (Some c) \<Longrightarrow>
      (\<forall>c. acc = Some (Some c) \<longrightarrow> content_ok r c) \<Longrightarrow> content_ok r c" for acc
  proof (induction fs arbitrary: acc)
    case (Cons f fs)
    show ?case by (rule Cons.IH [OF Cons.prems(1) [unfolded foldl_Cons]])
      (use Cons.prems(2) known in \<open>auto split: prod.splits option.splits wire_value.splits\<close>)
  qed simp
  then show "get_content fs = Some (Some c) \<Longrightarrow> content_ok r c" unfolding get_content_def by blast
qed

interpretation reference_views: prost_views protobuf
proof
  fix r bs i err content
  assume dec: "pb_decode protobuf r bs = Ok (i, err, content)"
  then show "pb_outer protobuf r bs = Ok (i, err \<noteq> None, map_option field content)"
    by (auto simp: protobuf_def reference_decode_def reference_outer_def split: sum.splits option.splits) metis
next
  fix r bs i err c
  assume dec: "pb_decode protobuf r bs = Ok (i, err, Some c)"
  then have "\<exists>fs. get_content fs = Some (Some c)"
    by (auto simp: protobuf_def reference_decode_def reference_parts_def bind_eq_Some_conv split: sum.splits option.splits)
  then show "content_ok r c" using get_content_ok by blast
qed


section \<open>Envelopes with a broken body\<close>

text \<open>\<^verbatim>\<open>malformed_body\<close>: a valid outer envelope whose nested body or error is truncated, written by the opaque view. The two
  envelopes have the same tags for these fields, so the bytes do not depend on the direction, and there is no argument for it.\<close>

definition malformed_body :: "id \<Rightarrow> bool \<Rightarrow> bytes" where
  "malformed_body i error = encode_fields (uint_field 1 i @ [(if error then 2 else 257, WBytes [0x80])])"

lemma truncated: "fields (Suc 0) [0x80] = None" "decode_error [0x80] = None" "decode_struct utf8 table s [0x80] = None"
proof -
  have "get_varint (Suc (Suc k)) [0x80] = None" for k by simp
  from this [of 8] have "get_varint 10 [0x80] = None" by simp
  then show none: "fields (Suc 0) [0x80] = None" by (simp add: read_key_def read_varint_def)
  then show "decode_error [0x80] = None" by (simp add: decode_error_def)
  from none have "merge_struct table utf8 (Suc d) s vs [0x80] = None" for d vs by simp
  from this [of 99] show "decode_struct utf8 table s [0x80] = None" by (simp add: decode_struct_def RECURSION_LIMIT_def)
qed

lemma malformed_parts:
  "reference_parts (malformed_body i error) =
     Ok (i, if error then Some [0x80] else None, if error then None else Some (Content ''DeviceInfo'' [0x80]))"
proof -
  let ?fs = "uint_field 1 i @ [(if error then 2 else 257, WBytes [0x80 :: byte])]"
  have "fields (length (encode_fields ?fs)) (encode_fields ?fs) = Some ?fs"
    by (rule fields_write) (simp_all add: uint_field_def)
  then show ?thesis
    by (simp add: reference_parts_def malformed_body_def get_uint_def get_bytes_def get_content_def uint_field_def content_tags_def)
qed

text \<open>The header of such an envelope is accepted, whichever side reads it, and only the later decoding of the body refuses it.\<close>

lemma malformed_body_deferred:
  "\<exists>h. decode_header protobuf r (malformed_body i error) = Some (Ok h) \<and> h_id h = i \<and> h_failed h = error"
  "error \<Longrightarrow> isl (envelope_decode protobuf r (malformed_body i error))"
proof -
  show "error \<Longrightarrow> isl (envelope_decode protobuf r (malformed_body i error))"
    by (simp add: envelope_decode_def protobuf_def reference_decode_def malformed_parts truncated)
  have outer: "pb_outer protobuf (peer r) (malformed_body i error) = Ok (i, error, if error then None else Some ''DeviceInfo'')"
    by (simp add: protobuf_def reference_outer_def malformed_parts)
  have "\<not> (\<exists>t \<ge> 0x100. has_field protobuf (malformed_body i error) t)" if error
  proof -
    let ?fs = "uint_field 1 i @ [(2, WBytes [0x80 :: byte])]"
    have "t \<in> fst ` set ?fs" if "has_field protobuf (malformed_body i error) t" for t
      by (rule has_field_encoded [OF that]) (simp_all add: malformed_body_def \<open>error\<close> uint_field_def)
    then show ?thesis by (fastforce simp: uint_field_def split: if_splits)
  qed
  then show "\<exists>h. decode_header protobuf r (malformed_body i error) = Some (Ok h) \<and> h_id h = i \<and> h_failed h = error"
    using outer by (cases error) (simp_all add: decode_header_def reference.unknown_scan_total)
qed


section \<open>Property\<close>

text \<open>C24: the envelope fuzzer can find nothing: on every input no assertion of its oracle fails, so the header and the
  full decoding agree on every accepted envelope, and the peer's encoder reproduces it or refuses it with its
  encoded size. An input is accepted exactly when both decoders accept it.\<close>

theorem fuzz_finds_nothing:
  assumes "prost_views pb" and "limit < 2 ^ 64"
  shows "fuzz_run pb limit [] = Some False \<and>
    fuzz_run pb limit (client # bs) = Some (\<exists>h i b.
      decode_header pb (if odd (unat client) then Client else Server) bs = Some (Ok h) \<and>
      envelope_decode pb (if odd (unat client) then Client else Server) bs = Ok (i, b))"
proof -
  let ?side = "if odd (unat client) then Client else Server"
  obtain res where res: "decode_header pb ?side bs = Some res"
    using prost_codec.decode_header_returns [OF prost_views.axioms(1) [OF assms(1)]] by blast
  show ?thesis
  proof (cases "(\<exists>h. res = Ok h) \<and> (\<exists>i b. envelope_decode pb ?side bs = Ok (i, b))")
    case True
    then obtain h i b where ok: "decode_header pb ?side bs = Some (Ok h)" "envelope_decode pb ?side bs = Ok (i, b)" using res by blast
    from prost_views.fuzz_check_accepts [OF assms this] ok show ?thesis by (auto simp: fuzz_run_def)
  next
    case False
    have "fuzz_check pb limit (odd (unat client)) bs = Some False"
    proof (cases res)
      case (Inr h)
      with False obtain err where "envelope_decode pb ?side bs = Err err" by (cases "envelope_decode pb ?side bs") auto
      with Inr res show ?thesis by (simp add: fuzz_check_def)
    qed (use res in \<open>simp add: fuzz_check_def\<close>)
    with False res show ?thesis by (auto simp: fuzz_run_def)
  qed
qed

theorem fuzz_finds_nothing_witness:
  "fuzz_run protobuf 1000 (0 # unlock_bytes) = Some True"
proof -
  have "envelope_decode protobuf Server unlock_bytes = Ok (1, Ok (Message ''UnlockRequest'' [7]))"
    "\<exists>h. decode_header protobuf Server unlock_bytes = Some (Ok h)"
    using reference.envelope_roundtrip [OF unlock_encoded] by (auto simp: peer_def)
  with fuzz_finds_nothing [OF reference_views.prost_views_axioms, of 1000 0 unlock_bytes] show ?thesis by simp
qed

end
