(* ===== verification/Promise_Delivery.thy ===== *)
theory Promise_Delivery
  imports Envelope_Routing "HOL-Library.Monad_Syntax"
begin

text \<open>
  Promises and the operations that settle them: \<^verbatim>\<open>src/src/protocol/promise.rs\<close> and
  \<^verbatim>\<open>src/src/protocol/operation.rs\<close>.

  A promise and its sender share a channel with one slot and a notification state. Channels are
  entries of a list, and the index of an entry names the channel, the promise and the operation
  key, which the code creates together. \<open>d_taken\<close> holds the envelopes that a caller or a closer has taken out
  of a queue or a channel and whose byte charge is not returned yet; \<open>d_due\<close> holds the
  notification callbacks that a thread has collected and not run yet, \<open>d_called\<close> those that ran.

  A step that would block for ever or panic is \<open>None\<close>: a second result in a full channel, a
  counter below zero, a second registration, an answer for a reply.
\<close>


section \<open>Channels\<close>

datatype promise_result = PResponse incoming | PWritten

datatype holder = Held | Taken | Dropped

text \<open>\<open>p_result\<close> is the published result and stays after the promise took it; the slot of the channel
  is full while the promise is \<open>Held\<close>. The flag \<^verbatim>\<open>done\<close> is set with the result.\<close>

record promise =
  p_result :: "(protocol_error, promise_result) result option"
  p_holder :: holder
  p_hook :: "nat option"
  p_registered :: bool
  p_deadline :: instant
  p_response :: bool

record desk =
  d_promises :: "promise list"
  d_taken :: "incoming list"
  d_retained :: nat
  d_due :: "nat list"
  d_called :: "nat list"

definition promise_pair :: "instant \<Rightarrow> bool \<Rightarrow> promise" where
  "promise_pair deadline response = \<lparr>p_result = None, p_holder = Held, p_hook = None,
     p_registered = False, p_deadline = deadline, p_response = response\<rparr>"

definition release :: "nat \<Rightarrow> 'x desk_scheme \<Rightarrow> 'x desk_scheme option" where
  "release n d = map_option (\<lambda>used. d\<lparr>d_retained := used\<rparr>) (charge_drop (d_retained d) n)"

text \<open>What dropping a result does: an envelope returns its bytes.\<close>

fun result_charge :: "(protocol_error, promise_result) result \<Rightarrow> nat" where
  "result_charge (Inr (PResponse e)) = in_charge e"
| "result_charge _ = 0"

definition set_promise :: "nat \<Rightarrow> promise \<Rightarrow> 'x desk_scheme \<Rightarrow> 'x desk_scheme" where
  "set_promise k p d = d\<lparr>d_promises := (d_promises d)[k := p]\<rparr>"

text \<open>\<^verbatim>\<open>ResultSender::send\<close>: whether the promise still exists, and its callback.\<close>

definition result_send ::
  "nat \<Rightarrow> (protocol_error, promise_result) result \<Rightarrow> 'x desk_scheme \<Rightarrow> ((bool \<times> nat option) \<times> 'x desk_scheme) option" where
  "result_send k r d =
     (if k \<ge> length (d_promises d) then None
      else let p = d_promises d ! k
        in if p_holder p \<noteq> Held
           then do { d' \<leftarrow> release (result_charge r) d;
                     Some ((False, p_hook p), set_promise k (p\<lparr>p_hook := None\<rparr>) d') }
           else if p_result p \<noteq> None then None
           else Some ((True, p_hook p), set_promise k (p\<lparr>p_result := Some r, p_hook := None\<rparr>) d))"

text \<open>\<^verbatim>\<open>Notifications\<close>: the callbacks collected under a lock, which the thread runs one by one once it has released its locks.\<close>

definition note_of :: "nat option \<Rightarrow> nat list" where
  "note_of callback = (case callback of None \<Rightarrow> [] | Some c \<Rightarrow> [c])"

definition defer_notes :: "nat list \<Rightarrow> 'x desk_scheme \<Rightarrow> 'x desk_scheme" where
  "defer_notes cs d = d\<lparr>d_due := d_due d @ cs\<rparr>"

definition run_note :: "nat \<Rightarrow> 'x desk_scheme \<Rightarrow> 'x desk_scheme" where
  "run_note c d = d\<lparr>d_due := remove1 c (d_due d), d_called := d_called d @ [c]\<rparr>"


section \<open>What the owner of a promise does\<close>

definition promise_notify :: "nat \<Rightarrow> nat \<Rightarrow> 'x desk_scheme \<Rightarrow> 'x desk_scheme option" where
  "promise_notify k callback d =
     (let p = d_promises d ! k
      in if p_registered p then None
         else if p_result p \<noteq> None
         then Some (defer_notes [callback] (set_promise k (p\<lparr>p_registered := True\<rparr>) d))
         else Some (set_promise k (p\<lparr>p_registered := True, p_hook := Some callback\<rparr>) d))"

text \<open>The blocking receive of \<^verbatim>\<open>wait_result\<close>: \<open>None\<close> in the result is the wait.\<close>

definition promise_receive ::
  "nat \<Rightarrow> 'x desk_scheme \<Rightarrow> (protocol_error, promise_result) result option \<times> 'x desk_scheme" where
  "promise_receive k d =
     (let p = d_promises d ! k
      in case p_result p of
           None \<Rightarrow> (None, d)
         | Some r \<Rightarrow> (Some r, (set_promise k (p\<lparr>p_holder := Taken, p_hook := None\<rparr>) d)
             \<lparr>d_taken := d_taken d @ (case r of Inr (PResponse e) \<Rightarrow> [e] | _ \<Rightarrow> [])\<rparr>))"

text \<open>\<^verbatim>\<open>Promise::drop\<close>, with the drop of the receiver and of an unread result.\<close>

definition promise_drop :: "nat \<Rightarrow> 'x desk_scheme \<Rightarrow> 'x desk_scheme option" where
  "promise_drop k d =
     (let p = d_promises d ! k
      in do { d' \<leftarrow> release (case p_result p of None \<Rightarrow> 0 | Some r \<Rightarrow> result_charge r) d;
              Some (set_promise k (p\<lparr>p_holder := Dropped, p_hook := None\<rparr>) d') })"

text \<open>The first part of \<^verbatim>\<open>IncomingEnvelope::decode\<close>, the return of the byte charge.\<close>

definition envelope_release :: "incoming \<Rightarrow> 'x desk_scheme \<Rightarrow> 'x desk_scheme option" where
  "envelope_release e d = release (in_charge e) (d\<lparr>d_taken := remove1 e (d_taken d)\<rparr>)"


section \<open>Pending operations\<close>

record pending =
  po_deadline :: instant
  po_response :: bool
  po_log_id :: "id option"

definition operation_fail ::
  "nat \<Rightarrow> pending \<Rightarrow> protocol_error \<Rightarrow> instant \<Rightarrow> 'x desk_scheme \<Rightarrow> ((bool \<times> nat option) \<times> 'x desk_scheme) option" where
  "operation_fail k po err now d = result_send k (Err (if now \<ge> po_deadline po then Timeout else err)) d"

text \<open>\<open>limit\<close> is the session's byte limit, \<open>e\<close> the envelope that \<^verbatim>\<open>retain\<close> would reserve.\<close>

definition complete_response ::
  "nat \<Rightarrow> pending \<Rightarrow> instant \<Rightarrow> incoming \<Rightarrow> nat \<Rightarrow> 'x desk_scheme \<Rightarrow>
   ((nat list \<times> (protocol_error, unit) result) \<times> 'x desk_scheme) option" where
  "complete_response k po now e limit d =
     (if now \<ge> po_deadline po
      then do { ((_, callback), d') \<leftarrow> operation_fail k po Timeout now d; Some ((note_of callback, Ok ()), d') }
      else if \<not> po_response po then None
      else case charge_reserve (d_retained d) (in_charge e) limit of
          Ok used \<Rightarrow>
            do { ((_, callback), d') \<leftarrow> result_send k (Ok (PResponse e)) (d\<lparr>d_retained := used\<rparr>);
                 Some ((note_of callback, Ok ()), d') }
        | Err err \<Rightarrow>
            do { ((delivered, callback), d') \<leftarrow> result_send k (Err err) d;
                 Some ((note_of callback, if delivered then Err err else Ok ()), d') })"

text \<open>Failing a batch of operations, one after the other.\<close>

fun fail_all ::
  "(nat \<times> pending) list \<Rightarrow> protocol_error \<Rightarrow> instant \<Rightarrow> 'x desk_scheme \<Rightarrow> (nat list \<times> 'x desk_scheme) option" where
  "fail_all [] err now d = Some ([], d)"
| "fail_all ((k, po) # ops) err now d =
     do { ((_, callback), d1) \<leftarrow> operation_fail k po err now d;
          (callbacks, d2) \<leftarrow> fail_all ops err now d1;
          Some (note_of callback @ callbacks, d2) }"


section \<open>Accounting\<close>

definition unread_charge :: "promise \<Rightarrow> nat" where
  "unread_charge p = (if p_holder p = Held then (case p_result p of None \<Rightarrow> 0 | Some r \<Rightarrow> result_charge r) else 0)"

definition desk_charge :: "'x desk_scheme \<Rightarrow> nat" where
  "desk_charge d = sum_list (map unread_charge (d_promises d)) + sum_list (map in_charge (d_taken d))"

lemma sum_list_map_update:
  fixes f :: "'a \<Rightarrow> nat"
  assumes "k < length xs"
  shows "sum_list (map f (xs[k := x])) + f (xs ! k) = sum_list (map f xs) + f x"
proof -
  have le: "f (xs ! k) \<le> sum_list (map f xs)"
    by (rule member_le_sum_list) (simp_all add: assms)
  have "sum_list (map f (xs[k := x])) = sum_list (map f xs) + f x - f (xs ! k)"
    using assms by (simp add: map_update sum_list_update)
  with le show ?thesis by simp
qed

lemma set_promise_simps [simp]:
  "d_promises (set_promise k p d) = (d_promises d)[k := p]"
  "d_taken (set_promise k p d) = d_taken d"
  "d_retained (set_promise k p d) = d_retained d"
  "d_due (set_promise k p d) = d_due d"
  "d_called (set_promise k p d) = d_called d"
  "desk.more (set_promise k p d) = desk.more d"
  by (simp_all add: set_promise_def)

lemma defer_notes_simps [simp]:
  "d_promises (defer_notes cs d) = d_promises d"
  "d_taken (defer_notes cs d) = d_taken d"
  "d_retained (defer_notes cs d) = d_retained d"
  "d_due (defer_notes cs d) = d_due d @ cs"
  "d_called (defer_notes cs d) = d_called d"
  "desk.more (defer_notes cs d) = desk.more d"
  by (simp_all add: defer_notes_def)

lemma run_note_simps [simp]:
  "d_promises (run_note c d) = d_promises d"
  "d_taken (run_note c d) = d_taken d"
  "d_retained (run_note c d) = d_retained d"
  "desk.more (run_note c d) = desk.more d"
  by (simp_all add: run_note_def)

lemma desk_charge_set_promise:
  assumes "k < length (d_promises d)"
  shows "desk_charge (set_promise k p d) + unread_charge (d_promises d ! k) = desk_charge d + unread_charge p"
  using sum_list_map_update [OF assms, of unread_charge p] by (simp add: desk_charge_def)

lemma desk_charge_retained [simp]: "desk_charge (d\<lparr>d_retained := u\<rparr>) = desk_charge d"
  by (simp add: desk_charge_def)

lemma desk_charge_defer_notes [simp]: "desk_charge (defer_notes cs d) = desk_charge d"
  by (simp add: desk_charge_def)

lemma release_Some_iff: "release n d = Some d' \<longleftrightarrow> n \<le> d_retained d \<and> d' = d\<lparr>d_retained := d_retained d - n\<rparr>"
  by (auto simp: release_def charge_drop_def split: if_splits)



section \<open>Settling\<close>

text \<open>\<open>open_slot d k\<close>: a result can still be published for \<open>k\<close>.\<close>

definition open_slot :: "'x desk_scheme \<Rightarrow> nat \<Rightarrow> bool" where
  "open_slot d k \<longleftrightarrow> k < length (d_promises d) \<and> (p_holder (d_promises d ! k) = Held \<longrightarrow> p_result (d_promises d ! k) = None)"

text \<open>\<open>settled K d d'\<close>: the operations in \<open>K\<close> were settled and nothing else happened to the
  promises. A promise that still exists has its result; one that is gone gets none.\<close>

definition settled_promise :: "promise \<Rightarrow> promise \<Rightarrow> bool" where
  "settled_promise p p' \<longleftrightarrow> p' = p\<lparr>p_hook := None, p_result := p_result p'\<rparr> \<and>
     (if p_holder p = Held then p_result p' \<noteq> None else p_result p' = p_result p)"

definition settled :: "nat set \<Rightarrow> 'x desk_scheme \<Rightarrow> 'x desk_scheme \<Rightarrow> bool" where
  "settled K d d' \<longleftrightarrow> length (d_promises d') = length (d_promises d) \<and> d_taken d' = d_taken d \<and>
     d_due d' = d_due d \<and> d_called d' = d_called d \<and> desk.more d' = desk.more d \<and>
     (\<forall>i < length (d_promises d). if i \<in> K then settled_promise (d_promises d ! i) (d_promises d' ! i)
        else d_promises d' ! i = d_promises d ! i)"

lemma settled_promiseD:
  assumes "settled_promise p p'"
  shows "p_holder p' = p_holder p" "p_deadline p' = p_deadline p" "p_response p' = p_response p"
    "p_holder p = Held \<Longrightarrow> p_result p' \<noteq> None" "p_holder p \<noteq> Held \<Longrightarrow> p_result p' = p_result p"
proof -
  have "p' = p\<lparr>p_hook := None, p_result := p_result p'\<rparr>" using assms by (simp add: settled_promise_def)
  then have "p_holder p' = p_holder (p\<lparr>p_hook := None, p_result := p_result p'\<rparr>)"
    "p_deadline p' = p_deadline (p\<lparr>p_hook := None, p_result := p_result p'\<rparr>)"
    "p_response p' = p_response (p\<lparr>p_hook := None, p_result := p_result p'\<rparr>)" by metis+
  then show "p_holder p' = p_holder p" "p_deadline p' = p_deadline p" "p_response p' = p_response p" by simp_all
  show "p_holder p = Held \<Longrightarrow> p_result p' \<noteq> None" "p_holder p \<noteq> Held \<Longrightarrow> p_result p' = p_result p"
    using assms by (simp_all add: settled_promise_def)
qed

lemma settled_refl: "settled {} d d"
  by (simp add: settled_def)

lemma settled_insert:
  assumes "settled {k} d d1" "settled K d1 d2" "k \<notin> K"
  shows "settled (insert k K) d d2"
proof -
  have "if i \<in> insert k K then settled_promise (d_promises d ! i) (d_promises d2 ! i)
      else d_promises d2 ! i = d_promises d ! i" if "i < length (d_promises d)" for i
    using assms that unfolding settled_def by (cases "i = k") (metis singleton_iff insert_iff)+
  with assms show ?thesis by (simp add: settled_def)
qed

lemma settled_other: "settled K d d' \<Longrightarrow> i < length (d_promises d) \<Longrightarrow> i \<notin> K \<Longrightarrow> d_promises d' ! i = d_promises d ! i"
  by (simp add: settled_def)

lemma settled_at: "settled K d d' \<Longrightarrow> i < length (d_promises d) \<Longrightarrow> i \<in> K \<Longrightarrow> settled_promise (d_promises d ! i) (d_promises d' ! i)"
  by (simp add: settled_def)

lemma settled_holder: "settled K d d' \<Longrightarrow> i < length (d_promises d) \<Longrightarrow> p_holder (d_promises d' ! i) = p_holder (d_promises d ! i)"
  using settled_promiseD(1) settled_at settled_other by (cases "i \<in> K") fastforce+

lemma settled_length: "settled K d d' \<Longrightarrow> length (d_promises d') = length (d_promises d)"
  by (simp add: settled_def)

lemma settled_open_slot:
  "settled K d d' \<Longrightarrow> open_slot d i \<Longrightarrow> i \<notin> K \<Longrightarrow> open_slot d' i"
  by (auto simp: open_slot_def settled_length settled_other)

lemma settled_retained [simp]: "settled K (d\<lparr>d_retained := u\<rparr>) d' \<longleftrightarrow> settled K d d'"
  by (cases d) (simp add: settled_def)

lemma result_send_Some:
  assumes "result_send k r d = Some ((delivered, callback), d')"
  shows "k < length (d_promises d)" and "delivered \<longleftrightarrow> p_holder (d_promises d ! k) = Held"
    and "callback = p_hook (d_promises d ! k)" and "settled {k} d d'"
    and "delivered \<Longrightarrow> p_result (d_promises d' ! k) = Some r"
    and "d_retained d' + desk_charge d + result_charge r = d_retained d + desk_charge d'"
    and "d_retained d' \<le> d_retained d"
proof -
  let ?p = "d_promises d ! k"
  from assms show k: "k < length (d_promises d)" by (auto simp: result_send_def split: if_splits)
  show "delivered \<longleftrightarrow> p_holder ?p = Held" "callback = p_hook ?p"
    using assms k by (auto simp: result_send_def Let_def bind_eq_Some_conv split: if_splits)
  show "delivered \<Longrightarrow> p_result (d_promises d' ! k) = Some r" "d_retained d' \<le> d_retained d" "settled {k} d d'"
    using assms k
    by (auto simp: result_send_def Let_def bind_eq_Some_conv release_Some_iff settled_def settled_promise_def nth_list_update split: if_splits)
  show "d_retained d' + desk_charge d + result_charge r = d_retained d + desk_charge d'"
  proof (cases "p_holder ?p = Held")
    case True
    with assms k have "p_result ?p = None" and d': "d' = set_promise k (?p\<lparr>p_result := Some r, p_hook := None\<rparr>) d"
      by (auto simp: result_send_def Let_def split: if_splits)
    then show ?thesis
      using True desk_charge_set_promise [OF k, of "?p\<lparr>p_result := Some r, p_hook := None\<rparr>"] by (simp add: unread_charge_def)
  next
    case False
    with assms k have "result_charge r \<le> d_retained d"
      and "d' = set_promise k (?p\<lparr>p_hook := None\<rparr>) (d\<lparr>d_retained := d_retained d - result_charge r\<rparr>)"
      by (auto simp: result_send_def Let_def bind_eq_Some_conv release_Some_iff split: if_splits)
    then show ?thesis
      using False desk_charge_set_promise [of k "d\<lparr>d_retained := d_retained d - result_charge r\<rparr>" "?p\<lparr>p_hook := None\<rparr>"] k
      by (simp add: unread_charge_def)
  qed
qed

lemma result_send_returns:
  assumes "open_slot d k" and "result_charge r \<le> d_retained d"
  obtains delivered callback d' where "result_send k r d = Some ((delivered, callback), d')"
  using assms by (cases "p_holder (d_promises d ! k) = Held")
    (auto simp: result_send_def Let_def open_slot_def release_def charge_drop_def)

text \<open>A failed operation changes no byte count.\<close>

lemma operation_fail_Some:
  assumes "operation_fail k po err now d = Some ((delivered, callback), d')"
  shows "settled {k} d d'" and "d_retained d' + desk_charge d = d_retained d + desk_charge d'"
    and "p_holder (d_promises d ! k) = Held \<Longrightarrow>
      p_result (d_promises d' ! k) = Some (Err (if now \<ge> po_deadline po then Timeout else err))"
    and "d_retained d' \<le> d_retained d"
  using result_send_Some [OF assms [unfolded operation_fail_def]] by auto

lemma fail_all_returns:
  assumes "distinct (map fst ops)" and "\<forall>k \<in> fst ` set ops. open_slot d k"
  obtains callbacks d' where "fail_all ops err now d = Some (callbacks, d')"
  using assms
proof (induction ops arbitrary: d thesis)
  case Nil
  then show ?case by simp
next
  case (Cons op ops)
  obtain k po where op: "op = (k, po)" by fastforce
  have "open_slot d k" using Cons.prems(3) op by simp
  then obtain delivered callback d1 where fail: "operation_fail k po err now d = Some ((delivered, callback), d1)"
    using result_send_returns [of d k "Err (if now \<ge> po_deadline po then Timeout else err)"]
    by (auto simp: operation_fail_def)
  have "\<forall>j \<in> fst ` set ops. open_slot d1 j"
    using Cons.prems(2,3) op by (auto intro!: settled_open_slot [OF operation_fail_Some(1) [OF fail]])
  with Cons.IH [of d1] Cons.prems(2) obtain callbacks d2 where "fail_all ops err now d1 = Some (callbacks, d2)" by auto
  with fail show ?case by (intro Cons.prems(1)) (simp add: op)
qed

lemma fail_all_Some:
  assumes "fail_all ops err now d = Some (callbacks, d')" and "distinct (map fst ops)"
  shows "settled (fst ` set ops) d d' \<and> d_retained d' + desk_charge d = d_retained d + desk_charge d' \<and>
    d_retained d' \<le> d_retained d \<and>
    (\<forall>(k, po) \<in> set ops. k < length (d_promises d) \<and> (p_holder (d_promises d ! k) = Held \<longrightarrow>
       p_result (d_promises d' ! k) = Some (Err (if now \<ge> po_deadline po then Timeout else err))))"
  using assms
proof (induction ops arbitrary: d callbacks)
  case Nil
  then show ?case by (simp add: settled_refl)
next
  case (Cons op ops)
  obtain k po where op: "op = (k, po)" by fastforce
  from Cons.prems(1) obtain delivered callback d1 callbacks'
    where fail: "operation_fail k po err now d = Some ((delivered, callback), d1)"
      and rest: "fail_all ops err now d1 = Some (callbacks', d')"
    by (auto simp: op bind_eq_Some_conv)
  have k: "k \<notin> fst ` set ops" and dist: "distinct (map fst ops)" using Cons.prems(2) op by auto
  note first = operation_fail_Some [OF fail] and others = Cons.IH [OF rest dist]
  have len: "k < length (d_promises d)"
    using fail by (auto simp: operation_fail_def dest: result_send_Some(1))
  have same: "d_promises d1 ! j = d_promises d ! j" if "(j, q) \<in> set ops" for j q
    using that k others by (intro settled_other [OF first(1)]) (force simp: settled_length [OF first(1)])+
  have mine: "d_promises d' ! k = d_promises d1 ! k"
    using others k len by (intro settled_other) (auto simp: settled_length [OF first(1)])
  have "\<forall>(j, q) \<in> set ops. j < length (d_promises d) \<and> (p_holder (d_promises d ! j) = Held \<longrightarrow>
       p_result (d_promises d' ! j) = Some (Err (if now \<ge> po_deadline q then Timeout else err)))"
    using others same settled_length [OF first(1)] by (fastforce split: prod.splits)
  moreover have "d_retained d' + desk_charge d = d_retained d + desk_charge d' \<and> d_retained d' \<le> d_retained d"
    using first(2,4) others by linarith
  ultimately show ?case
    using first(3) len mine settled_insert [OF first(1) conjunct1 [OF others] k] by (simp add: op)
qed

lemma complete_response_Some:
  assumes "complete_response k po now e limit d = Some ((callbacks, res), d')"
  shows "settled {k} d d'" and "d_retained d' + desk_charge d = d_retained d + desk_charge d'"
    and "d_retained d \<le> limit \<Longrightarrow> d_retained d' \<le> limit"
    and "p_holder (d_promises d ! k) = Held \<Longrightarrow> p_result (d_promises d' ! k) =
      Some (if now \<ge> po_deadline po then Err Timeout
            else if isl (charge_reserve (d_retained d) (in_charge e) limit) then Err (InboundByteLimitExceeded limit)
            else Ok (PResponse e))"
    and "res = Err err \<Longrightarrow> err = InboundByteLimitExceeded limit \<and> now < po_deadline po \<and>
      p_holder (d_promises d ! k) = Held \<and> isl (charge_reserve (d_retained d) (in_charge e) limit)"
proof -
  consider (late) delivered callback where "now \<ge> po_deadline po" "res = Ok ()"
      "operation_fail k po Timeout now d = Some ((delivered, callback), d')"
    | (fits) used delivered callback where "now < po_deadline po" "res = Ok ()"
      "charge_reserve (d_retained d) (in_charge e) limit = Ok used"
      "result_send k (Ok (PResponse e)) (d\<lparr>d_retained := used\<rparr>) = Some ((delivered, callback), d')"
    | (full) err' delivered callback where "now < po_deadline po" "res = (if delivered then Err err' else Ok ())"
      "charge_reserve (d_retained d) (in_charge e) limit = Err err'"
      "result_send k (Err err') d = Some ((delivered, callback), d')"
    using assms by (auto simp: complete_response_def bind_eq_Some_conv split: if_splits sum.splits)
  then have "settled {k} d d' \<and> d_retained d' + desk_charge d = d_retained d + desk_charge d' \<and>
    (d_retained d \<le> limit \<longrightarrow> d_retained d' \<le> limit) \<and>
    (p_holder (d_promises d ! k) = Held \<longrightarrow> p_result (d_promises d' ! k) =
      Some (if now \<ge> po_deadline po then Err Timeout
            else if isl (charge_reserve (d_retained d) (in_charge e) limit) then Err (InboundByteLimitExceeded limit)
            else Ok (PResponse e))) \<and>
    (res = Err err \<longrightarrow> err = InboundByteLimitExceeded limit \<and> now < po_deadline po \<and>
      p_holder (d_promises d ! k) = Held \<and> isl (charge_reserve (d_retained d) (in_charge e) limit))"
  proof cases
    case late
    then have "d_retained d' \<le> d_retained d" by (auto simp: operation_fail_def dest: result_send_Some(7))
    with late operation_fail_Some [OF late(3)] show ?thesis by simp
  next
    case fits
    note r = result_send_Some [OF fits(4)] and c = charge_reserve_Ok [OF fits(3)]
    from r(6) c have "d_retained d' + desk_charge d = d_retained d + desk_charge d'" by simp
    with fits(1,2,3) r(2,4,5,7) c show ?thesis by simp
  next
    case full
    note r = result_send_Some [OF full(4)] and c = charge_reserve_Err [OF full(3)]
    from full(1,2,3) r(2,4,5,6,7) c show ?thesis by auto
  qed
  then show "settled {k} d d'" "d_retained d' + desk_charge d = d_retained d + desk_charge d'"
    "d_retained d \<le> limit \<Longrightarrow> d_retained d' \<le> limit"
    "p_holder (d_promises d ! k) = Held \<Longrightarrow> p_result (d_promises d' ! k) =
      Some (if now \<ge> po_deadline po then Err Timeout
            else if isl (charge_reserve (d_retained d) (in_charge e) limit) then Err (InboundByteLimitExceeded limit)
            else Ok (PResponse e))"
    "res = Err err \<Longrightarrow> err = InboundByteLimitExceeded limit \<and> now < po_deadline po \<and>
      p_holder (d_promises d ! k) = Held \<and> isl (charge_reserve (d_retained d) (in_charge e) limit)"
    by blast+
qed

lemma complete_response_returns:
  assumes "open_slot d k" and "po_response po"
  obtains callbacks res d' where "complete_response k po now e limit d = Some ((callbacks, res), d')"
proof -
  have fail: "\<exists>x. result_send k (Err err) d = Some x" for err
    using result_send_returns [OF assms(1), of "Err err"] by fastforce
  have ok: "\<exists>x. result_send k (Ok (PResponse e)) (d\<lparr>d_retained := d_retained d + in_charge e\<rparr>) = Some x"
    using result_send_returns [of "d\<lparr>d_retained := d_retained d + in_charge e\<rparr>" k "Ok (PResponse e)"] assms(1)
    by (fastforce simp: open_slot_def)
  show thesis
  proof (cases "charge_reserve (d_retained d) (in_charge e) limit")
    case (Inl err')
    obtain x y where "result_send k (Err Timeout) d = Some x" "result_send k (Err err') d = Some y"
      using fail by blast
    with Inl assms(2) that show thesis
      by (cases x; cases y; cases "now \<ge> po_deadline po") (auto simp: complete_response_def operation_fail_def)
  next
    case (Inr used)
    obtain x where "result_send k (Err Timeout) d = Some x" using fail by blast
    moreover obtain y where "result_send k (Ok (PResponse e)) (d\<lparr>d_retained := used\<rparr>) = Some y"
      using ok charge_reserve_Ok [OF Inr] by metis
    ultimately show thesis
      using Inr assms(2) that
      by (cases x; cases y; cases "now \<ge> po_deadline po") (auto simp: complete_response_def operation_fail_def)
  qed
qed

end
