(* ===== verification/Session_State.thy ===== *)
theory Session_State
  imports Promise_Delivery
begin

text \<open>
  The session of \<^verbatim>\<open>src/src/protocol/session.rs\<close>: its queues, its pending operations and the critical
  sections of its methods, with \<^verbatim>\<open>responder.rs\<close> and \<^verbatim>\<open>requester.rs\<close>, which call them.

  One definition is one method, or the part of a method between taking and releasing the state
  lock; other threads run between two of them. \<open>s_held\<close> holds the identifiers of the responders
  that exist and of an unknown request the reader is about to answer; \<open>s_writing\<close> is the message
  the writer thread has taken and not reported yet. Hash maps that the code iterates over are
  association lists; the order of the iteration only orders the callbacks.
\<close>


section \<open>State\<close>

datatype 'p outgoing_body = OutRequest "'p message" | OutReply id "'p body"

record 'p outgoing =
  og_body :: "'p outgoing_body"
  og_key :: nat

record 'p queues =
  q_max_requests :: nat
  q_max_bytes :: nat
  q_autoreply :: duration
  q_incoming :: "(id \<times> incoming) list"
  q_reserved :: "id set"
  q_outgoing :: "'p outgoing list"
  q_next_id :: "id option"
  q_outstanding :: "id \<Rightarrow> nat option"
  q_operations :: "(nat \<times> pending) list"

datatype 'p state = StOpen "'p queues" | StClosed protocol_error

record 'p session = desk +
  s_state :: "'p state"
  s_side :: role
  s_clock :: clock
  s_has_stream :: bool
  s_stream_closed :: bool
  s_held :: "id list"
  s_writing :: "(id \<times> 'p outgoing) option"

definition session_new :: "role \<Rightarrow> bool \<Rightarrow> clock \<Rightarrow> 'p session" where
  "session_new side has_stream c =
     \<lparr>d_promises = [], d_taken = [], d_retained = 0, d_due = [], d_called = [],
      s_state = StOpen \<lparr>q_max_requests = DEFAULT_MAX_INBOUND_REQUESTS, q_max_bytes = DEFAULT_MAX_INBOUND_BYTES,
        q_autoreply = DEFAULT_AUTOREPLY_TIMEOUT, q_incoming = [], q_reserved = {}, q_outgoing = [],
        q_next_id = Some (parity_first (parity_from side)), q_outstanding = (\<lambda>_. None), q_operations = []\<rparr>,
      s_side = side, s_clock = c, s_has_stream = has_stream, s_stream_closed = False, s_held = [], s_writing = None\<rparr>"

definition session_now :: "'p session \<Rightarrow> instant \<times> 'p session" where
  "session_now s = (let (t, c) = clock_now (s_clock s) in (t, s\<lparr>s_clock := c\<rparr>))"

abbreviation set_queues :: "'p queues \<Rightarrow> 'p session \<Rightarrow> 'p session" where
  "set_queues q s \<equiv> s\<lparr>s_state := StOpen q\<rparr>"

fun reply_ids :: "'p outgoing list \<Rightarrow> id list" where
  "reply_ids [] = []"
| "reply_ids (og # ogs) = (case og_body og of OutReply i _ \<Rightarrow> i # reply_ids ogs | OutRequest _ \<Rightarrow> reply_ids ogs)"

definition workload :: "'p state \<Rightarrow> nat \<times> nat" where
  "workload st = (case st of
      StOpen q \<Rightarrow> (length (q_operations q), length (q_outgoing q) + length (q_incoming q))
    | StClosed _ \<Rightarrow> (0, 0))"


section \<open>Closing and expiring\<close>

text \<open>\<^verbatim>\<open>State::close\<close>: the callbacks and the removed queues, if the session was open.\<close>

definition state_close :: "protocol_error \<Rightarrow> instant \<Rightarrow> 'p session \<Rightarrow> ((nat list \<times> 'p queues option) \<times> 'p session) option" where
  "state_close err now s = (case s_state s of
      StClosed _ \<Rightarrow> Some (([], None), s)
    | StOpen q \<Rightarrow> do { (callbacks, s') \<leftarrow> fail_all (q_operations q) err now (s\<lparr>s_state := StClosed err\<rparr>);
                     Some ((callbacks, Some q), s') })"

definition incoming_charge :: "(id \<times> incoming) list \<Rightarrow> nat" where
  "incoming_charge xs = sum_list (map (\<lambda>(i, e). in_charge e) xs)"

definition finish_close :: "'p queues option \<Rightarrow> 'p session \<Rightarrow> 'p session option" where
  "finish_close removed s =
     do { s' \<leftarrow> (case removed of None \<Rightarrow> Some s | Some q \<Rightarrow> release (incoming_charge (q_incoming q)) s);
          Some (if s_has_stream s' then s'\<lparr>s_stream_closed := True\<rparr> else s') }"

definition session_close :: "protocol_error \<Rightarrow> 'p session \<Rightarrow> 'p session option" where
  "session_close err s =
     (let (now, s1) = session_now s
      in do { ((callbacks, removed), s2) \<leftarrow> state_close err now s1;
              s3 \<leftarrow> finish_close removed s2;
              Some (defer_notes callbacks s3) })"

text \<open>The critical section of closing alone: the removed queues are in the hands of the closer, which drops their
  envelopes one by one and shuts the stream later, while other threads go on.\<close>

definition take_removed :: "'p queues option \<Rightarrow> 'p session \<Rightarrow> 'p session" where
  "take_removed removed s = (case removed of None \<Rightarrow> s | Some q \<Rightarrow> s\<lparr>d_taken := d_taken s @ map snd (q_incoming q)\<rparr>)"

definition session_close_locked :: "protocol_error \<Rightarrow> 'p session \<Rightarrow> 'p session option" where
  "session_close_locked err s =
     (let (now, s1) = session_now s
      in do { ((callbacks, removed), s2) \<leftarrow> state_close err now s1;
              Some (defer_notes callbacks (take_removed removed s2)) })"

text \<open>\<^verbatim>\<open>Session::close\<close>, also on drop.\<close>

definition session_drop :: "'p session \<Rightarrow> 'p session option" where
  "session_drop s = session_close Closed s"

definition state_expire :: "instant \<Rightarrow> 'p session \<Rightarrow> (nat list \<times> 'p session) option" where
  "state_expire now s = (case s_state s of
      StClosed _ \<Rightarrow> Some ([], s)
    | StOpen q \<Rightarrow>
        let expired = filter (\<lambda>(k, po). now \<ge> po_deadline po) (q_operations q);
            live = filter (\<lambda>(k, po). \<not> now \<ge> po_deadline po) (q_operations q);
            kept = filter (\<lambda>og. og_key og \<in> fst ` set live) (q_outgoing q);
            gone = filter (\<lambda>og. og_key og \<notin> fst ` set live) (q_outgoing q)
        in do { (callbacks, s') \<leftarrow> fail_all expired Timeout now s;
                Some (callbacks, set_queues (q\<lparr>q_operations := live, q_outgoing := kept,
                  q_reserved := q_reserved q - set (reply_ids gone)\<rparr>) s') })"

definition session_expire :: "'p session \<Rightarrow> 'p session option" where
  "session_expire s =
     (let (now, s1) = session_now s
      in do { (callbacks, s2) \<leftarrow> state_expire now s1; Some (defer_notes callbacks s2) })"


section \<open>Configuration\<close>

definition set_autoreply_timeout :: "duration \<Rightarrow> 'p session \<Rightarrow> 'p session" where
  "set_autoreply_timeout timeout s = (case s_state s of
      StOpen q \<Rightarrow> set_queues (q\<lparr>q_autoreply := timeout\<rparr>) s
    | StClosed _ \<Rightarrow> s)"

definition set_inbound_limits :: "nat \<Rightarrow> nat \<Rightarrow> 'p session \<Rightarrow> 'p session option" where
  "set_inbound_limits requests limit s = (case s_state s of
      StClosed _ \<Rightarrow> Some s
    | StOpen q \<Rightarrow>
        let s1 = set_queues (q\<lparr>q_max_requests := requests, q_max_bytes := limit\<rparr>) s;
            err = (if card (q_reserved q) > requests then Some (InboundRequestLimitExceeded requests)
                   else if d_retained s > limit then Some (InboundByteLimitExceeded limit) else None)
        in case err of
             None \<Rightarrow> Some s1
           | Some err \<Rightarrow>
               let (now, s2) = session_now s1
               in do { ((callbacks, removed), s3) \<leftarrow> state_close err now s2;
                       s4 \<leftarrow> finish_close removed s3;
                       Some (defer_notes callbacks s4) })"

text \<open>Its critical section alone, as for closing.\<close>

definition set_inbound_limits_locked :: "nat \<Rightarrow> nat \<Rightarrow> 'p session \<Rightarrow> 'p session option" where
  "set_inbound_limits_locked requests limit s = (case s_state s of
      StClosed _ \<Rightarrow> Some s
    | StOpen q \<Rightarrow>
        let s1 = set_queues (q\<lparr>q_max_requests := requests, q_max_bytes := limit\<rparr>) s;
            err = (if card (q_reserved q) > requests then Some (InboundRequestLimitExceeded requests)
                   else if d_retained s > limit then Some (InboundByteLimitExceeded limit) else None)
        in case err of
             None \<Rightarrow> Some s1
           | Some err \<Rightarrow> session_close_locked err s1)"


section \<open>Submitting\<close>

text \<open>\<^verbatim>\<open>enqueue\<close> with the \<^verbatim>\<open>Promise::pair\<close> of its two callers; the result is the promise. A refused
  submission leaves no promise behind.\<close>

definition enqueue :: "'p outgoing_body \<Rightarrow> instant \<Rightarrow> bool \<Rightarrow> id option \<Rightarrow> 'p session \<Rightarrow>
    ((protocol_error, nat) result \<times> 'p session) option" where
  "enqueue b deadline response log_id s = (case s_state s of
      StClosed err \<Rightarrow> Some (Err err, s)
    | StOpen q \<Rightarrow>
        let (now, s1) = session_now s;
            k = length (d_promises s);
            po = \<lparr>po_deadline = deadline, po_response = response, po_log_id = log_id\<rparr>;
            s2 = s1\<lparr>d_promises := d_promises s @ [promise_pair deadline response]\<rparr>
        in if now \<ge> deadline
           then do { ((_, callback), s3) \<leftarrow> operation_fail k po Timeout now
                       (set_queues (q\<lparr>q_reserved := (case b of OutReply i _ \<Rightarrow> q_reserved q - {i} | OutRequest _ \<Rightarrow> q_reserved q)\<rparr>) s2);
                     Some (Ok k, defer_notes (note_of callback) s3) }
           else Some (Ok k, set_queues (q\<lparr>q_outgoing := q_outgoing q @ [\<lparr>og_body = b, og_key = k\<rparr>],
                              q_operations := q_operations q @ [(k, po)]\<rparr>) s2))"

definition session_request :: "'p message \<Rightarrow> instant \<Rightarrow> 'p session \<Rightarrow> ((protocol_error, nat) result \<times> 'p session) option" where
  "session_request m deadline s = enqueue (OutRequest m) deadline True None s"

definition session_reply :: "id \<Rightarrow> 'p body \<Rightarrow> instant \<Rightarrow> 'p session \<Rightarrow> ((protocol_error, nat) result \<times> 'p session) option" where
  "session_reply i b deadline s =
     do { (r, s') \<leftarrow> enqueue (OutReply i b) deadline False (Some i) s;
          Some (r, s'\<lparr>s_held := remove1 i (s_held s')\<rparr>) }"

text \<open>\<^verbatim>\<open>Requester::request\<close>; \<open>alive\<close> is whether the session object still exists.\<close>

definition requester_request :: "bool \<Rightarrow> 'p message \<Rightarrow> instant \<Rightarrow> 'p session \<Rightarrow> ((protocol_error, nat) result \<times> 'p session) option" where
  "requester_request alive m deadline s = (if alive then session_request m deadline s else Some (Err Closed, s))"

text \<open>The automatic reply of a dropped responder or of an unknown request. Its promise is dropped at
  once.\<close>

definition autoreply :: "id \<Rightarrow> schema_error \<Rightarrow> 'p session \<Rightarrow> 'p session option" where
  "autoreply i err s =
     (let (now, s1) = session_now s
      in case s_state s1 of
           StClosed _ \<Rightarrow> Some (s1\<lparr>s_held := remove1 i (s_held s1)\<rparr>)
         | StOpen q \<Rightarrow>
             let deadline = (case instant_checked_add now (q_autoreply q) of Some t \<Rightarrow> t | None \<Rightarrow> now)
             in do { (r, s2) \<leftarrow> session_reply i (Err err) deadline s1;
                     (case r of Ok k \<Rightarrow> promise_drop k s2 | Err _ \<Rightarrow> Some s2) })"

definition reply_unanswered :: "id \<Rightarrow> 'p session \<Rightarrow> 'p session option" where
  "reply_unanswered i = autoreply i (error_reserved Unanswered ''request left unanswered'')"

definition reply_unknown :: "id \<Rightarrow> 'p session \<Rightarrow> 'p session option" where
  "reply_unknown i = autoreply i (error_reserved Unknown ''request not known'')"

text \<open>\<^verbatim>\<open>Responder::enqueue\<close> and the drop that follows a refusal.\<close>

definition responder_reply :: "id \<Rightarrow> 'p body \<Rightarrow> instant \<Rightarrow> 'p session \<Rightarrow> ((protocol_error, nat) result \<times> 'p session) option" where
  "responder_reply i b deadline s =
     do { (r, s1) \<leftarrow> session_reply i b deadline s;
          (case r of
             Ok k \<Rightarrow> Some (Ok k, s1)
           | Err err \<Rightarrow> do { s2 \<leftarrow> reply_unanswered i s1; Some (Err err, s2) }) }"


section \<open>Routing what arrives\<close>

definition admit_request :: "header \<Rightarrow> bytes \<Rightarrow> 'p session \<Rightarrow> (protocol_error, unit) result \<times> 'p session" where
  "admit_request h bs s = (case s_state s of
      StClosed err \<Rightarrow> (Err err, s)
    | StOpen q \<Rightarrow>
        if h_id h \<in> q_reserved q then (Err Malformed, s)
        else if card (q_reserved q) \<ge> q_max_requests q
        then (Err (InboundRequestLimitExceeded (q_max_requests q)), s)
        else if h_unknown h
        then (Ok (), set_queues (q\<lparr>q_reserved := insert (h_id h) (q_reserved q)\<rparr>) s)
        else case charge_reserve (d_retained s) (length bs) (q_max_bytes q) of
            Err err \<Rightarrow> (Err err, s)
          | Ok used \<Rightarrow> (Ok (), set_queues (q\<lparr>q_reserved := insert (h_id h) (q_reserved q),
                q_incoming := q_incoming q @ [(h_id h, \<lparr>in_bytes = bs, in_header = h\<rparr>)]\<rparr>) (s\<lparr>d_retained := used\<rparr>)))"

text \<open>The response branch of \<^verbatim>\<open>handle_message\<close>: unmatched and late responses are discarded.\<close>

definition admit_response :: "header \<Rightarrow> bytes \<Rightarrow> 'p session \<Rightarrow> ((protocol_error, unit) result \<times> 'p session) option" where
  "admit_response h bs s = (case s_state s of
      StClosed err \<Rightarrow> Some (Err err, s)
    | StOpen q \<Rightarrow>
        (case q_outstanding q (h_id h) of
           None \<Rightarrow> Some (Ok (), s)
         | Some k \<Rightarrow>
             let q1 = q\<lparr>q_outstanding := (q_outstanding q)(h_id h := None)\<rparr>
             in case map_of (q_operations q) k of
                  None \<Rightarrow> Some (Ok (), set_queues q1 s)
                | Some po \<Rightarrow>
                    let (now, s1) = session_now (set_queues (q1\<lparr>q_operations := filter (\<lambda>(j, _). j \<noteq> k) (q_operations q)\<rparr>) s)
                    in do { ((callbacks, r), s2) \<leftarrow>
                              complete_response k po now \<lparr>in_bytes = bs, in_header = h\<rparr> (q_max_bytes q) s1;
                            Some (r, defer_notes callbacks s2) }))"

text \<open>The locked part of \<^verbatim>\<open>handle_message\<close>; its result says which unknown request to answer.\<close>

definition route_message :: "header \<Rightarrow> bytes \<Rightarrow> 'p session \<Rightarrow> ((protocol_error, id option) result \<times> 'p session) option" where
  "route_message h bs s = (case kind_from_id (h_id h) (parity_from (s_side s)) of
      Request \<Rightarrow>
        if h_failed h then Some (Err Malformed, s)
        else (case admit_request h bs s of
            (Err err, s1) \<Rightarrow> Some (Err err, s1)
          | (Ok _, s1) \<Rightarrow>
              if h_unknown h then Some (Ok (Some (h_id h)), s1\<lparr>s_held := s_held s1 @ [h_id h]\<rparr>)
              else Some (Ok None, s1))
    | Response \<Rightarrow>
        do { (r, s1) \<leftarrow> admit_response h bs s;
             Some (case r of Err err \<Rightarrow> (Err err, s1) | Ok _ \<Rightarrow> (Ok None, s1)) })"

definition handle_message :: "'b prost \<Rightarrow> bytes \<Rightarrow> 'p session \<Rightarrow> ((protocol_error, unit) result \<times> 'p session) option" where
  "handle_message pb bs s =
     do { hr \<leftarrow> decode_header pb (s_side s) bs;
          (case hr of
             Err err \<Rightarrow> Some (Err err, s)
           | Ok h \<Rightarrow>
               do { (r, s1) \<leftarrow> route_message h bs s;
                    (case r of
                       Err err \<Rightarrow> Some (Err err, s1)
                     | Ok None \<Rightarrow> Some (Ok (), s1)
                     | Ok (Some i) \<Rightarrow> do { s2 \<leftarrow> reply_unknown i s1; Some (Ok (), s2) }) }) }"


section \<open>Receiving\<close>

datatype 'a waiting = Ready 'a | Wait

text \<open>One pass of \<^verbatim>\<open>recv\<close> under the lock: the request taken, and its responder.\<close>

definition take_request :: "'p session \<Rightarrow> (protocol_error, id \<times> incoming) result waiting \<times> 'p session" where
  "take_request s = (case s_state s of
      StClosed err \<Rightarrow> (Ready (Err err), s)
    | StOpen q \<Rightarrow>
        (case q_incoming q of
           [] \<Rightarrow> (Wait, s)
         | (i, e) # rest \<Rightarrow>
             (Ready (Ok (i, e)), (set_queues (q\<lparr>q_incoming := rest\<rparr>) s)
                \<lparr>d_taken := d_taken s @ [e], s_held := s_held s @ [i]\<rparr>)))"

text \<open>\<^verbatim>\<open>IncomingEnvelope::decode\<close>.\<close>

definition incoming_decode :: "'p prost \<Rightarrow> incoming \<Rightarrow> 'p session \<Rightarrow> ((protocol_error, 'p message) result \<times> 'p session) option" where
  "incoming_decode pb e s =
     do { s1 \<leftarrow> envelope_release e s;
          (case envelope_decode pb (s_side s1) (in_bytes e) of
             Ok (_, Ok m) \<Rightarrow> Some (Ok m, s1)
           | Ok (_, Err err) \<Rightarrow> Some (Err (Remote err), s1)
           | Err _ \<Rightarrow> do { s2 \<leftarrow> session_close Malformed s1; Some (Err Malformed, s2) }) }"

definition session_recv :: "'p prost \<Rightarrow> 'p session \<Rightarrow> ((protocol_error, 'p message \<times> id) result waiting \<times> 'p session) option" where
  "session_recv pb s = (case take_request s of
      (Wait, s1) \<Rightarrow> Some (Wait, s1)
    | (Ready (Err err), s1) \<Rightarrow> Some (Ready (Err err), s1)
    | (Ready (Ok (i, e)), s1) \<Rightarrow>
        do { (r, s2) \<leftarrow> incoming_decode pb e s1;
             (case r of
                Ok m \<Rightarrow> Some (Ready (Ok (m, i)), s2)
              | Err err \<Rightarrow> do { s3 \<leftarrow> reply_unanswered i s2; Some (Ready (Err err), s3) }) })"

text \<open>\<^verbatim>\<open>Promise::wait\<close> of a request, before the conversion to the expected type, and of a reply. A
  result of the other kind is unreachable.\<close>

definition response_wait :: "'p prost \<Rightarrow> nat \<Rightarrow> 'p session \<Rightarrow> ((protocol_error, 'p message) result waiting \<times> 'p session) option" where
  "response_wait pb k s =
     do { s1 \<leftarrow> session_expire s;
          (case promise_receive k s1 of
             (None, s2) \<Rightarrow> Some (Wait, s2)
           | (Some (Err err), s2) \<Rightarrow> Some (Ready (Err err), s2)
           | (Some (Ok (PResponse e)), s2) \<Rightarrow>
               do { (r, s3) \<leftarrow> incoming_decode pb e s2; Some (Ready r, s3) }
           | (Some (Ok PWritten), s2) \<Rightarrow> None) }"

text \<open>\<^verbatim>\<open>Promise::wait\<close> for the payload of the variant \<open>v\<close>.\<close>

definition promise_wait :: "'p prost \<Rightarrow> string \<Rightarrow> nat \<Rightarrow> 'p session \<Rightarrow> ((protocol_error, 'p) result waiting \<times> 'p session) option" where
  "promise_wait pb v k s =
     do { (w, s1) \<leftarrow> response_wait pb k s;
          Some (case w of Wait \<Rightarrow> Wait | Ready (Err err) \<Rightarrow> Ready (Err err) | Ready (Ok m) \<Rightarrow> Ready (payload_try_from v m), s1) }"

definition written_wait :: "nat \<Rightarrow> 'p session \<Rightarrow> ((protocol_error, unit) result waiting \<times> 'p session) option" where
  "written_wait k s =
     do { s1 \<leftarrow> session_expire s;
          (case promise_receive k s1 of
             (None, s2) \<Rightarrow> Some (Wait, s2)
           | (Some (Err err), s2) \<Rightarrow> Some (Ready (Err err), s2)
           | (Some (Ok PWritten), s2) \<Rightarrow> Some (Ready (Ok ()), s2)
           | (Some (Ok (PResponse e)), s2) \<Rightarrow> None) }"


section \<open>Writing\<close>

text \<open>One pass of \<^verbatim>\<open>next_outgoing\<close>. \<open>Again\<close> is the retry after running callbacks outside the lock;
  running out of identifiers is a panic.\<close>

datatype 'p write_turn = Again | Idle | Ended | Took id "'p outgoing"

definition next_outgoing :: "'p session \<Rightarrow> ('p write_turn \<times> 'p session) option" where
  "next_outgoing s =
     (let (now, s1) = session_now s
      in do { (callbacks, s2) \<leftarrow> state_expire now s1;
              (if callbacks \<noteq> [] then Some (Again, defer_notes callbacks s2)
               else case s_state s2 of
                   StClosed _ \<Rightarrow> Some (Ended, s2)
                 | StOpen q \<Rightarrow>
                     (case q_outgoing q of
                        [] \<Rightarrow> Some (Idle, s2)
                      | og # rest \<Rightarrow>
                          (case og_body og of
                             OutRequest _ \<Rightarrow>
                               (case q_next_id q of
                                  None \<Rightarrow> None
                                | Some i \<Rightarrow> Some (Took i og, (set_queues (q\<lparr>q_outgoing := rest, q_next_id := id_checked_add2 i,
                                    q_outstanding := (q_outstanding q)(i \<mapsto> og_key og),
                                    q_operations := map (\<lambda>(k, po). (k, if k = og_key og then po\<lparr>po_log_id := Some i\<rparr> else po))
                                      (q_operations q)\<rparr>) s2)\<lparr>s_writing := Some (i, og)\<rparr>))
                           | OutReply i _ \<Rightarrow> Some (Took i og, (set_queues (q\<lparr>q_outgoing := rest,
                                    q_reserved := q_reserved q - {i}\<rparr>) s2)\<lparr>s_writing := Some (i, og)\<rparr>)))) })"

definition record_write :: "nat \<Rightarrow> (protocol_error, unit) result \<Rightarrow> 'p session \<Rightarrow> 'p session option" where
  "record_write k r s = (case s_state s of
      StClosed _ \<Rightarrow> Some s
    | StOpen q \<Rightarrow>
        (case map_of (q_operations q) k of
           None \<Rightarrow> Some s
         | Some po \<Rightarrow>
             let (now, s1) = session_now s;
                 s2 = set_queues (q\<lparr>q_operations := filter (\<lambda>(j, _). j \<noteq> k) (q_operations q)\<rparr>) s1
             in if now \<ge> po_deadline po \<or> isl r
                then do { ((_, callback), s3) \<leftarrow>
                            operation_fail k po (case r of Err err \<Rightarrow> err | Ok _ \<Rightarrow> Timeout) now s2;
                          Some (defer_notes (note_of callback) s3) }
                else if \<not> po_response po
                then do { ((_, callback), s3) \<leftarrow> result_send k (Ok PWritten) s2;
                          Some (defer_notes (note_of callback) s3) }
                else Some s1))"

text \<open>A request that was never sent keeps no identifier for its answer.\<close>

definition forget_refused :: "id \<Rightarrow> 'p outgoing_body \<Rightarrow> (protocol_error, unit) result \<Rightarrow> 'p session \<Rightarrow> 'p session" where
  "forget_refused i b r s = (case (s_state s, b) of
      (StOpen q, OutRequest _) \<Rightarrow>
        if isl r then set_queues (q\<lparr>q_outstanding := (q_outstanding q)(i := None)\<rparr>) s else s
    | _ \<Rightarrow> s)"

text \<open>One iteration of the loop of \<^verbatim>\<open>run_writer\<close>: what the writer hands to the transport, and what it
  does with the outcome. The result of the second is whether the loop goes on.\<close>

definition outgoing_bytes :: "'p prost \<Rightarrow> nat \<Rightarrow> role \<Rightarrow> id \<Rightarrow> 'p outgoing_body \<Rightarrow> (protocol_error, bytes) result" where
  "outgoing_bytes pb limit r i b =
     envelope_encode pb limit r i (case b of OutRequest m \<Rightarrow> Ok m | OutReply _ res \<Rightarrow> res)"

definition finish_write :: "id \<Rightarrow> 'p outgoing \<Rightarrow> (protocol_error, unit) result \<Rightarrow> 'p session \<Rightarrow> (bool \<times> 'p session) option" where
  "finish_write i og r s = (case r of
      Err (Transport err) \<Rightarrow> do { s1 \<leftarrow> session_close (Transport err) s; Some (False, s1\<lparr>s_writing := None\<rparr>) }
    | _ \<Rightarrow> do { s1 \<leftarrow> record_write (og_key og) r (forget_refused i (og_body og) r s);
                Some (True, s1\<lparr>s_writing := None\<rparr>) })"

text \<open>One pass of \<^verbatim>\<open>run_deadlines\<close>: it ends, retries, or sleeps until the earliest deadline.\<close>

datatype deadline_turn = DRetry | DEnded | DSleep "instant option"

definition deadlines_pass :: "'p session \<Rightarrow> (deadline_turn \<times> 'p session) option" where
  "deadlines_pass s =
     (let (now, s1) = session_now s
      in do { (callbacks, s2) \<leftarrow> state_expire now s1;
              (if callbacks \<noteq> [] then Some (DRetry, defer_notes callbacks s2)
               else case s_state s2 of
                   StClosed _ \<Rightarrow> Some (DEnded, s2)
                 | StOpen q \<Rightarrow> Some (DSleep (if q_operations q = [] then None
                     else Some (Min ((\<lambda>(k, po). po_deadline po) ` set (q_operations q)))), s2)) })"

end
