(* ===== verification/Session_Invariant.thy ===== *)
theory Session_Invariant
  imports Session_State
begin

text \<open>
  The invariant of a session, what every operation keeps of the past (\<open>ok\<close>), and the proofs for closing
  and expiring, which most other operations rest on.

  The invariant says which promise belongs to which operation, that an accepted peer request is
  held in exactly one place, that identifiers have the right parity and order, and that the byte
  counter is the sum of the charges that exist.
\<close>


section \<open>The invariant\<close>

definition is_request :: "'p outgoing \<Rightarrow> bool" where
  "is_request og \<longleftrightarrow> (case og_body og of OutRequest _ \<Rightarrow> True | OutReply _ _ \<Rightarrow> False)"

text \<open>A request promise carries a response, a reply promise the completion of its write.\<close>

fun result_fits :: "(protocol_error, promise_result) result option \<Rightarrow> bool \<Rightarrow> bool" where
  "result_fits (Some (Inr (PResponse e))) response = response"
| "result_fits (Some (Inr PWritten)) response = (\<not> response)"
| "result_fits _ _ = True"

definition typed_inv :: "promise list \<Rightarrow> bool" where
  "typed_inv ps \<longleftrightarrow> (\<forall>p \<in> set ps. result_fits (p_result p) (p_response p))"

definition ops_inv :: "promise list \<Rightarrow> (nat \<times> pending) list \<Rightarrow> bool" where
  "ops_inv ps ops \<longleftrightarrow> distinct (map fst ops) \<and>
     (\<forall>(k, po) \<in> set ops. k < length ps \<and> p_result (ps ! k) = None \<and>
        p_response (ps ! k) = po_response po \<and> p_deadline (ps ! k) = po_deadline po) \<and>
     (\<forall>k < length ps. p_holder (ps ! k) = Held \<longrightarrow> p_result (ps ! k) = None \<longrightarrow> k \<in> fst ` set ops)"

definition outgoing_inv :: "'p outgoing list \<Rightarrow> (nat \<times> pending) list \<Rightarrow> bool" where
  "outgoing_inv ogs ops \<longleftrightarrow> distinct (map og_key ogs) \<and>
     (\<forall>og \<in> set ogs. \<exists>po. (og_key og, po) \<in> set ops \<and> (po_response po \<longleftrightarrow> is_request og))"

text \<open>Every accepted peer request is queued, held by a responder, or answered in the queue.\<close>

definition request_places :: "'p session \<Rightarrow> 'p queues \<Rightarrow> id list" where
  "request_places s q = map fst (q_incoming q) @ s_held s @ reply_ids (q_outgoing q)"

definition reserved_inv :: "'p session \<Rightarrow> 'p queues \<Rightarrow> bool" where
  "reserved_inv s q \<longleftrightarrow> distinct (request_places s q) \<and> q_reserved q = set (request_places s q) \<and>
     card (q_reserved q) \<le> q_max_requests q \<and>
     (\<forall>i \<in> q_reserved q. kind_from_id i (parity_from (s_side s)) = Request)"

definition ids_inv :: "'p session \<Rightarrow> 'p queues \<Rightarrow> bool" where
  "ids_inv s q \<longleftrightarrow>
     (\<forall>n. q_next_id q = Some n \<longrightarrow> parity_of n = parity_from (s_side s)) \<and>
     (\<forall>i k. q_outstanding q i = Some k \<longrightarrow> k < length (d_promises s) \<and> p_response (d_promises s ! k) \<and>
        parity_of i = parity_from (s_side s) \<and> (\<forall>n. q_next_id q = Some n \<longrightarrow> unat i < unat n) \<and>
        k \<notin> og_key ` set (q_outgoing q)) \<and>
     (\<forall>i j k. q_outstanding q i = Some k \<longrightarrow> q_outstanding q j = Some k \<longrightarrow> i = j)"

definition writing_inv :: "'p session \<Rightarrow> 'p queues \<Rightarrow> bool" where
  "writing_inv s q \<longleftrightarrow> (\<forall>i og. s_writing s = Some (i, og) \<longrightarrow> og_key og < length (d_promises s) \<and>
     og_key og \<notin> og_key ` set (q_outgoing q) \<and> (p_response (d_promises s ! og_key og) \<longleftrightarrow> is_request og))"

definition open_inv :: "'p session \<Rightarrow> 'p queues \<Rightarrow> bool" where
  "open_inv s q \<longleftrightarrow> d_retained s = desk_charge s + incoming_charge (q_incoming q) \<and> d_retained s \<le> q_max_bytes q \<and>
     ops_inv (d_promises s) (q_operations q) \<and> outgoing_inv (q_outgoing q) (q_operations q) \<and>
     reserved_inv s q \<and> ids_inv s q \<and> writing_inv s q"

definition closed_inv :: "'p session \<Rightarrow> bool" where
  "closed_inv s \<longleftrightarrow> d_retained s = desk_charge s \<and>
     (\<forall>p \<in> set (d_promises s). p_holder p = Held \<longrightarrow> p_result p \<noteq> None)"

definition session_inv :: "'p session \<Rightarrow> bool" where
  "session_inv s \<longleftrightarrow> typed_inv (d_promises s) \<and>
     (case s_state s of StOpen q \<Rightarrow> open_inv s q | StClosed _ \<Rightarrow> closed_inv s)"

text \<open>What every operation keeps of what happened before: promises stay, a published result never
  changes, one that its owner gave up stays given up, the side stays, and a closed session stays
  closed with its reason.\<close>

definition promise_kept :: "promise \<Rightarrow> promise \<Rightarrow> bool" where
  "promise_kept p p' \<longleftrightarrow> p_deadline p' = p_deadline p \<and> p_response p' = p_response p \<and>
     (p_result p \<noteq> None \<longrightarrow> p_result p' = p_result p) \<and>
     (p_holder p \<noteq> Held \<longrightarrow> p_holder p' = p_holder p \<and> p_result p' = p_result p)"

definition promises_kept :: "promise list \<Rightarrow> promise list \<Rightarrow> bool" where
  "promises_kept ps ps' \<longleftrightarrow> length ps \<le> length ps' \<and> (\<forall>k < length ps. promise_kept (ps ! k) (ps' ! k))"

definition history_kept :: "'p session \<Rightarrow> 'p session \<Rightarrow> bool" where
  "history_kept s s' \<longleftrightarrow> promises_kept (d_promises s) (d_promises s') \<and> s_side s' = s_side s \<and>
     (\<forall>err. s_state s = StClosed err \<longrightarrow> s_state s' = StClosed err) \<and>
     (\<forall>q. s_state s = StOpen q \<longrightarrow> (\<exists>err. s_state s' = StClosed err) \<or>
        (\<exists>q'. s_state s' = StOpen q' \<and> (q_next_id q' = q_next_id q \<or> (\<exists>n. q_next_id q = Some n \<and>
           (\<forall>n'. q_next_id q' = Some n' \<longrightarrow> unat n < unat n'))) \<and> (q_next_id q = None \<longrightarrow> q_next_id q' = None)))"

lemma promise_kept_refl: "promise_kept p p"
  by (simp add: promise_kept_def)

lemma promise_kept_trans: "promise_kept p q \<Longrightarrow> promise_kept q r \<Longrightarrow> promise_kept p r"
  by (auto simp: promise_kept_def)

lemma promises_kept_refl: "promises_kept ps ps"
  by (simp add: promises_kept_def promise_kept_refl)

lemma promises_kept_trans: "promises_kept ps qs \<Longrightarrow> promises_kept qs rs \<Longrightarrow> promises_kept ps rs"
  unfolding promises_kept_def by (meson order_less_le_trans order_trans promise_kept_trans)

lemma promises_kept_append: "promises_kept ps (ps @ qs)"
  by (simp add: promises_kept_def nth_append promise_kept_refl)

lemma promises_kept_update: "promise_kept (ps ! k) p \<Longrightarrow> promises_kept ps (ps[k := p])"
  by (simp add: promises_kept_def) (metis nth_list_update_eq nth_list_update_neq promise_kept_refl)

lemma history_kept_refl: "history_kept s s"
  by (auto simp: history_kept_def promises_kept_refl)

lemma history_kept_trans:
  assumes st: "history_kept s t" and tu: "history_kept t u"
  shows "history_kept s u"
proof -
  have "promises_kept (d_promises s) (d_promises u)" "s_side u = s_side s"
    using st tu promises_kept_trans unfolding history_kept_def by (blast, simp)
  moreover have "s_state s = StClosed err \<Longrightarrow> s_state u = StClosed err" for err
    using st tu by (simp add: history_kept_def)
  moreover have "(\<exists>err. s_state u = StClosed err) \<or>
        (\<exists>q'. s_state u = StOpen q' \<and> (q_next_id q' = q_next_id q \<or> (\<exists>n. q_next_id q = Some n \<and>
           (\<forall>n'. q_next_id q' = Some n' \<longrightarrow> unat n < unat n'))) \<and> (q_next_id q = None \<longrightarrow> q_next_id q' = None))"
    if q: "s_state s = StOpen q" for q
  proof (cases "s_state t")
    case (StClosed err)
    with tu show ?thesis by (simp add: history_kept_def)
  next
    case (StOpen q1)
    show ?thesis
    proof (cases "s_state u")
      case (StClosed err)
      then show ?thesis by simp
    next
      case (StOpen q2)
      with q \<open>s_state t = StOpen q1\<close> st tu show ?thesis
        by (cases "q_next_id q1") (fastforce simp: history_kept_def)+
    qed
  qed
  ultimately show ?thesis by (simp add: history_kept_def)
qed

text \<open>The identifiers not used yet only shrink.\<close>

lemma history_next_id:
  assumes "history_kept s t" "s_state s = StOpen q" "s_state t = StOpen q'" "q_next_id q' = Some n'"
  obtains n where "q_next_id q = Some n" "unat n \<le> unat n'"
  using assms unfolding history_kept_def
  by (metis less_imp_le_nat option.distinct(1) option.exhaust order_refl state.distinct(1) state.inject(1))

text \<open>\<open>ok s s'\<close>: what is proved of every operation.\<close>

definition ok :: "'p session \<Rightarrow> 'p session \<Rightarrow> bool" where
  "ok s s' \<longleftrightarrow> session_inv s' \<and> history_kept s s'"

lemma ok_trans: "ok s t \<Longrightarrow> ok t u \<Longrightarrow> ok s u"
  by (auto simp: ok_def intro: history_kept_trans)

lemma ok_refl: "session_inv s \<Longrightarrow> ok s s"
  by (simp add: ok_def history_kept_refl)

lemma ok_inv: "ok s s' \<Longrightarrow> session_inv s'"
  by (simp add: ok_def)



section \<open>What does not matter to the invariant\<close>

lemma desk_charge_more [simp]: "desk_charge (s\<lparr>s_state := st\<rparr>) = desk_charge s"
  "desk_charge (s\<lparr>s_clock := c\<rparr>) = desk_charge s" "desk_charge (s\<lparr>s_held := held\<rparr>) = desk_charge s"
  "desk_charge (s\<lparr>s_writing := w\<rparr>) = desk_charge s" "desk_charge (s\<lparr>s_stream_closed := b\<rparr>) = desk_charge s"
  by (simp_all add: desk_charge_def)

lemmas inv_defs = open_inv_def reserved_inv_def request_places_def ids_inv_def writing_inv_def closed_inv_def

lemma open_inv_clock [simp]: "open_inv (s\<lparr>s_clock := c\<rparr>) q = open_inv s q"
  by (simp add: inv_defs)

lemma open_inv_defer_notes [simp]: "open_inv (defer_notes cs s) q = open_inv s q"
  by (simp add: inv_defs defer_notes_def desk_charge_def)

lemma open_inv_state [simp]: "open_inv (s\<lparr>s_state := st\<rparr>) q = open_inv s q"
  by (simp add: inv_defs)

lemma closed_inv_frames [simp]: "closed_inv (s\<lparr>s_clock := c\<rparr>) = closed_inv s"
  "closed_inv (s\<lparr>s_held := held\<rparr>) = closed_inv s" "closed_inv (s\<lparr>s_writing := w\<rparr>) = closed_inv s"
  "closed_inv (s\<lparr>s_state := st\<rparr>) = closed_inv s" "closed_inv (s\<lparr>s_stream_closed := b\<rparr>) = closed_inv s"
  by (simp_all add: closed_inv_def)

lemma closed_inv_defer_notes [simp]: "closed_inv (defer_notes cs s) = closed_inv s"
  by (simp add: closed_inv_def)

lemma defer_notes_session [simp]: "s_state (defer_notes cs s) = s_state s" "s_side (defer_notes cs s) = s_side s"
  "s_held (defer_notes cs s) = s_held s" "s_writing (defer_notes cs s) = s_writing s"
  "s_clock (defer_notes cs s) = s_clock s" "s_has_stream (defer_notes cs s) = s_has_stream s"
  by (simp_all add: defer_notes_def)

lemma set_promise_session [simp]: "s_state (set_promise k p s) = s_state s" "s_side (set_promise k p s) = s_side s"
  "s_held (set_promise k p s) = s_held s" "s_writing (set_promise k p s) = s_writing s"
  "s_clock (set_promise k p s) = s_clock s"
  by (simp_all add: set_promise_def)

lemma session_inv_frames [simp]: "session_inv (s\<lparr>s_clock := c\<rparr>) = session_inv s"
  "session_inv (defer_notes cs s) = session_inv s"
  by (simp_all add: session_inv_def split: state.splits)

lemma ok_clock [simp]: "ok (s\<lparr>s_clock := c\<rparr>) s' = ok s s'" "ok s (s'\<lparr>s_clock := c\<rparr>) = ok s s'"
  by (simp_all add: ok_def history_kept_def)

lemma ok_defer_notes [simp]: "ok s (defer_notes cs s') = ok s s'"
  by (simp add: ok_def history_kept_def)

lemma session_inv_run_note [simp]: "session_inv (run_note c s) = session_inv s"
  by (simp add: session_inv_def inv_defs run_note_def desk_charge_def split: state.splits)

lemma ok_run_note: "ok s s' \<Longrightarrow> ok s (run_note c s')"
  by (simp add: ok_def history_kept_def) (simp add: run_note_def)

lemma session_nowE:
  assumes "session_now s = (t, s')" obtains c where "s' = s\<lparr>s_clock := c\<rparr>" "t = fst (clock_now (s_clock s))"
  using assms by (auto simp: session_now_def split: prod.splits)

lemma session_more:
  assumes "desk.more s' = desk.more s"
  shows "s_state s' = s_state s" "s_side s' = s_side s" "s_held s' = s_held s" "s_writing s' = s_writing s"
    "s_clock s' = s_clock s" "s_has_stream s' = s_has_stream s"
  using assms by (cases s; cases s'; simp)+


section \<open>Settling operations\<close>

lemma settled_kept:
  assumes "settled K d d'" and "\<forall>k \<in> K. open_slot d k"
  shows "promises_kept (d_promises d) (d_promises d')"
proof -
  have "promise_kept (d_promises d ! k) (d_promises d' ! k)" if k: "k < length (d_promises d)" for k
  proof (cases "k \<in> K")
    case True
    have "p_holder (d_promises d ! k) = Held \<Longrightarrow> p_result (d_promises d ! k) = None"
      using assms(2) True by (simp add: open_slot_def)
    with settled_promiseD [OF settled_at [OF assms(1) k True]] show ?thesis
      unfolding promise_kept_def by metis
  next
    case False
    with settled_other [OF assms(1) k] show ?thesis by (simp add: promise_kept_refl)
  qed
  with settled_length [OF assms(1)] show ?thesis by (simp add: promises_kept_def)
qed

lemma ops_inv_open_slot: "ops_inv (d_promises d) ops \<Longrightarrow> k \<in> fst ` set ops \<Longrightarrow> open_slot d k"
  by (fastforce simp: ops_inv_def open_slot_def)

lemma ops_inv_settled:
  assumes inv: "ops_inv (d_promises d) ops" and set: "settled K d d'" and K: "K \<subseteq> fst ` set ops"
  shows "ops_inv (d_promises d') (filter (\<lambda>(k, _). k \<notin> K) ops)"
proof -
  let ?ops = "filter (\<lambda>(k, _). k \<notin> K) ops"
  have "distinct (map fst ?ops)" using inv by (simp add: ops_inv_def distinct_map_filter)
  moreover have "k < length (d_promises d') \<and> p_result (d_promises d' ! k) = None \<and>
      p_response (d_promises d' ! k) = po_response po \<and> p_deadline (d_promises d' ! k) = po_deadline po"
    if "(k, po) \<in> set ?ops" for k po
    using that inv settled_other [OF set, of k] settled_length [OF set] by (auto simp: ops_inv_def)
  moreover have "k \<in> fst ` set ?ops"
    if k: "k < length (d_promises d')" "p_holder (d_promises d' ! k) = Held" "p_result (d_promises d' ! k) = None" for k
  proof -
    have len: "k < length (d_promises d)" using k(1) settled_length [OF set] by simp
    have "k \<notin> K"
    proof
      assume "k \<in> K"
      from settled_promiseD [OF settled_at [OF set len this]] k(2,3) show False by metis
    qed
    moreover from this have "k \<in> fst ` set ops"
      using inv len k(2,3) settled_other [OF set len] by (simp add: ops_inv_def)
    ultimately show ?thesis by force
  qed
  ultimately show ?thesis by (auto simp: ops_inv_def)
qed

lemma filter_not_keys:
  assumes "distinct (map fst ops)"
  shows "filter (\<lambda>(k, _). k \<notin> fst ` set (filter (\<lambda>(k, po). P k po) ops)) ops = filter (\<lambda>(k, po). \<not> P k po) ops"
proof (rule filter_cong)
  fix op assume "op \<in> set ops"
  with assms show "(case op of (k, _) \<Rightarrow> k \<notin> fst ` set (filter (\<lambda>(k, po). P k po) ops)) = (case op of (k, po) \<Rightarrow> \<not> P k po)"
    by (cases op) (force simp: image_iff dest: eq_key_imp_eq_value)
qed simp

lemma filter_keys_single: "filter (\<lambda>(k, _). k \<notin> {j}) ops = filter (\<lambda>(k, _). k \<noteq> j) ops"
  by simp

lemma typed_inv_result_send:
  assumes "typed_inv (d_promises d)" "result_send k r d = Some (x, d')"
    and "result_fits (Some r) (p_response (d_promises d ! k))"
  shows "typed_inv (d_promises d')"
proof -
  have k: "k < length (d_promises d)" using assms(2) by (cases x) (auto dest: result_send_Some(1))
  then have old: "result_fits (p_result (d_promises d ! k)) (p_response (d_promises d ! k))"
    using assms(1) by (auto simp: typed_inv_def)
  have "d_promises d' = (d_promises d)[k := d_promises d' ! k] \<and>
      result_fits (p_result (d_promises d' ! k)) (p_response (d_promises d' ! k))"
    using assms(2,3) old k
    by (auto simp: result_send_def Let_def bind_eq_Some_conv release_Some_iff split: if_splits)
  with assms(1) show ?thesis
    unfolding typed_inv_def by (metis in_set_conv_nth length_list_update nth_list_update_eq nth_list_update_neq)
qed

lemma typed_inv_fail_all:
  "fail_all ops err now d = Some (callbacks, d') \<Longrightarrow> typed_inv (d_promises d) \<Longrightarrow> typed_inv (d_promises d')"
proof (induction ops err now d arbitrary: callbacks rule: fail_all.induct)
  case (2 k po ops err now d)
  from 2(2) obtain x d1 cs where "operation_fail k po err now d = Some (x, d1)" "fail_all ops err now d1 = Some (cs, d')"
    by (auto simp: bind_eq_Some_conv)
  moreover from this(1) 2(3) have "typed_inv (d_promises d1)"
    by (auto simp: operation_fail_def intro: typed_inv_result_send)
  ultimately show ?case using 2(1) by (cases x) blast
qed simp



section \<open>Closing\<close>

lemma release_session [simp]:
  "n \<le> d_retained s \<Longrightarrow> release n s = Some (s\<lparr>d_retained := d_retained s - n\<rparr>)"
  by (simp add: release_Some_iff)

lemma ops_inv_Nil: "ops_inv ps [] \<Longrightarrow> p \<in> set ps \<Longrightarrow> p_holder p = Held \<Longrightarrow> p_result p \<noteq> None"
  by (auto simp: ops_inv_def in_set_conv_nth)

lemma fail_all_keys: "filter (\<lambda>(k, _). k \<notin> fst ` set ops) ops = []"
  by (force simp: filter_empty_conv)

text \<open>What closing does: pending operations fail with the reason, or with a timeout when their deadline
  has passed; a closed session keeps its first reason; the stream of a client is shut down.\<close>

definition closed_by :: "protocol_error \<Rightarrow> instant \<Rightarrow> 'p session \<Rightarrow> 'p session \<Rightarrow> bool" where
  "closed_by err now s s' \<longleftrightarrow> ok s s' \<and> (s_has_stream s \<longrightarrow> s_stream_closed s') \<and>
     s_state s' = (case s_state s of StOpen q \<Rightarrow> StClosed err | StClosed e \<Rightarrow> StClosed e) \<and>
     (\<forall>q k po. s_state s = StOpen q \<longrightarrow> (k, po) \<in> set (q_operations q) \<longrightarrow> p_holder (d_promises s ! k) = Held \<longrightarrow>
       p_result (d_promises s' ! k) = Some (Err (if now \<ge> po_deadline po then Timeout else err)))"

lemma closed_by_frames [simp]: "closed_by err now (s\<lparr>s_clock := c\<rparr>) s' = closed_by err now s s'"
  "closed_by err now s (defer_notes cs s') = closed_by err now s s'"
  by (simp_all add: closed_by_def defer_notes_def [of _ "_ :: 'a session"] ok_def history_kept_def session_inv_def
      inv_defs desk_charge_def split: state.splits)

lemma close_ok:
  assumes inv: "session_inv s"
  obtains callbacks removed s2 s3 where "state_close err now s = Some ((callbacks, removed), s2)"
    and "finish_close removed s2 = Some s3" and "closed_by err now s s3"
proof (cases "s_state s")
  case (StClosed e)
  with inv show thesis
    by (intro that [of "[]" None s "if s_has_stream s then s\<lparr>s_stream_closed := True\<rparr> else s"])
      (auto simp: state_close_def finish_close_def closed_by_def ok_def session_inv_def history_kept_def promises_kept_refl)
next
  case (StOpen q)
  let ?ops = "q_operations q" and ?s1 = "s\<lparr>s_state := StClosed err\<rparr>"
  from inv StOpen have o: "open_inv s q" and typed: "typed_inv (d_promises s)" by (simp_all add: session_inv_def)
  then have ops: "ops_inv (d_promises s) ?ops" and charge: "d_retained s = desk_charge s + incoming_charge (q_incoming q)"
    by (simp_all add: open_inv_def)
  have dist: "distinct (map fst ?ops)" using ops by (simp add: ops_inv_def)
  have slots: "\<forall>k \<in> fst ` set ?ops. open_slot ?s1 k"
    using ops_inv_open_slot [of ?s1 ?ops] ops by simp
  obtain callbacks s2 where fail: "fail_all ?ops err now ?s1 = Some (callbacks, s2)"
    using fail_all_returns [OF dist slots] by blast
  note settle = fail_all_Some [OF fail dist]
  then have set: "settled (fst ` set ?ops) ?s1 s2" by blast
  have more: "s_state s2 = StClosed err" "s_side s2 = s_side s" "s_has_stream s2 = s_has_stream s"
    using session_more [of s2 ?s1] set by (simp_all add: settled_def)
  have charge2: "d_retained s2 = desk_charge s2 + incoming_charge (q_incoming q)"
    using settle charge by simp
  let ?s3 = "s2\<lparr>d_retained := desk_charge s2, s_stream_closed := s_has_stream s2 \<or> s_stream_closed s2\<rparr>"
  have "ops_inv (d_promises s2) []"
    using ops_inv_settled [of ?s1 ?ops "fst ` set ?ops" s2] ops set by (simp add: fail_all_keys)
  then have closed: "session_inv ?s3"
    using typed_inv_fail_all [OF fail] typed more(1)
    by (auto simp: session_inv_def closed_inv_def desk_charge_def dest: ops_inv_Nil)
  have "promises_kept (d_promises s) (d_promises s2)"
    using settled_kept [OF set slots] by simp
  then have "ok s ?s3" using closed StOpen more by (simp add: ok_def history_kept_def)
  moreover have "finish_close (Some q) s2 = Some ?s3"
    using charge2 by (simp add: finish_close_def)
  moreover have "state_close err now s = Some ((callbacks, Some q), s2)"
    using StOpen fail by (simp add: state_close_def)
  ultimately show thesis
    using settle more StOpen by (intro that) (auto simp: closed_by_def)
qed

lemma session_close_ok:
  assumes "session_inv s"
  obtains s' where "session_close err s = Some s'" and "closed_by err (fst (clock_now (s_clock s))) s s'"
proof -
  obtain now c where clock: "session_now s = (now, s\<lparr>s_clock := c\<rparr>)" "now = fst (clock_now (s_clock s))"
    by (metis session_nowE surj_pair)
  have "session_inv (s\<lparr>s_clock := c\<rparr>)" using assms by simp
  then obtain callbacks removed s2 s3 where "state_close err now (s\<lparr>s_clock := c\<rparr>) = Some ((callbacks, removed), s2)"
    and "finish_close removed s2 = Some s3" and "closed_by err now (s\<lparr>s_clock := c\<rparr>) s3"
    by (rule close_ok)
  with clock show thesis
    by (intro that [of "defer_notes callbacks s3"]) (simp_all add: session_close_def)
qed

lemma closed_by_ok: "closed_by err now s s' \<Longrightarrow> ok s s'"
  by (simp add: closed_by_def)

text \<open>The critical section of closing: until the closer has dropped the removed envelopes, they are counted.\<close>

lemma take_removed_session [simp]: "d_promises (take_removed removed s) = d_promises s" "s_state (take_removed removed s) = s_state s"
  "s_side (take_removed removed s) = s_side s" "d_retained (take_removed removed s) = d_retained s" "s_writing (take_removed removed s) = s_writing s"
  "d_due (take_removed removed s) = d_due s" "d_called (take_removed removed s) = d_called s"
  by (simp_all add: take_removed_def split: option.splits)

lemma take_removed_charge:
  "desk_charge (take_removed removed s) = desk_charge s + (case removed of None \<Rightarrow> 0 | Some q \<Rightarrow> incoming_charge (q_incoming q))"
  by (simp add: take_removed_def desk_charge_def incoming_charge_def comp_def case_prod_unfold split: option.splits)

lemma take_removed_ok:
  assumes "finish_close removed s2 = Some s3" "closed_by err now s s3"
  shows "ok s (take_removed removed s2)"
proof -
  let ?n = "case removed of None \<Rightarrow> 0 | Some q \<Rightarrow> incoming_charge (q_incoming q)"
  have same: "d_promises s3 = d_promises s2" "d_taken s3 = d_taken s2" "s_state s3 = s_state s2" "s_side s3 = s_side s2"
    "d_retained s2 = d_retained s3 + ?n"
    using assms(1) by (auto simp: finish_close_def bind_eq_Some_conv release_Some_iff split: option.splits if_splits)
  obtain e where closed: "s_state s3 = StClosed e" using assms(2) by (auto simp: closed_by_def split: state.splits)
  have ok: "ok s s3" using assms(2) by (simp add: closed_by_def)
  then have "d_retained s3 = desk_charge s2" using closed same(1,2) by (simp add: ok_def session_inv_def closed_inv_def desk_charge_def)
  moreover have "s_state s2 = StClosed e" using closed same(3) by simp
  moreover have "typed_inv (d_promises s2)" "\<forall>p \<in> set (d_promises s2). p_holder p = Held \<longrightarrow> p_result p \<noteq> None" "history_kept s s3"
    using ok closed same(1) by (simp_all add: ok_def session_inv_def closed_inv_def)
  ultimately show ?thesis using same closed
    by (simp add: ok_def history_kept_def session_inv_def closed_inv_def take_removed_charge)
qed

lemma session_close_locked_ok:
  assumes "session_inv s"
  obtains s' where "session_close_locked err s = Some s'" and "ok s s'"
proof -
  obtain now c where clock: "session_now s = (now, s\<lparr>s_clock := c\<rparr>)" by (metis session_nowE surj_pair)
  have "session_inv (s\<lparr>s_clock := c\<rparr>)" using assms by simp
  then obtain callbacks removed s2 s3 where "state_close err now (s\<lparr>s_clock := c\<rparr>) = Some ((callbacks, removed), s2)"
    and "finish_close removed s2 = Some s3" and "closed_by err now (s\<lparr>s_clock := c\<rparr>) s3"
    by (rule close_ok)
  with clock take_removed_ok show thesis
    by (intro that [of "defer_notes callbacks (take_removed removed s2)"]) (simp_all add: session_close_locked_def)
qed

lemma stop_stream_ok: "session_inv s \<Longrightarrow> s_state s = StClosed err \<Longrightarrow> ok s (s\<lparr>s_stream_closed := b\<rparr>)"
  by (simp add: ok_def history_kept_def session_inv_def promises_kept_refl)



section \<open>Expiring\<close>

lemma reply_ids_append [simp]: "reply_ids (xs @ ys) = reply_ids xs @ reply_ids ys"
  by (induction xs) (simp_all split: outgoing_body.splits)

lemma set_reply_ids_split: "set (reply_ids ogs) = set (reply_ids (filter P ogs)) \<union> set (reply_ids (filter (\<lambda>x. \<not> P x) ogs))"
  by (induction ogs) (auto split: outgoing_body.splits)

lemma distinct_reply_ids_split:
  "distinct (reply_ids ogs) \<Longrightarrow> distinct (reply_ids (filter P ogs)) \<and>
     set (reply_ids (filter P ogs)) \<inter> set (reply_ids (filter (\<lambda>x. \<not> P x) ogs)) = {}"
proof (induction ogs)
  case (Cons og ogs)
  then show ?case using set_reply_ids_split [of ogs P] by (auto split: outgoing_body.splits)
qed simp

lemma promises_keptD:
  assumes "promises_kept ps ps'" "k < length ps"
  shows "k < length ps'" "p_response (ps' ! k) = p_response (ps ! k)" "p_deadline (ps' ! k) = p_deadline (ps ! k)"
  using assms by (auto simp: promises_kept_def promise_kept_def)

lemma ids_inv_mono:
  assumes "ids_inv s q" "promises_kept (d_promises s) (d_promises s')" "s_side s' = s_side s"
    and "q_next_id q' = q_next_id q" "q_outstanding q' \<subseteq>\<^sub>m q_outstanding q"
    and "og_key ` set (q_outgoing q') \<subseteq> og_key ` set (q_outgoing q) \<union> {length (d_promises s)..}"
  shows "ids_inv s' q'"
proof -
  have sub: "q_outstanding q i = Some k" if "q_outstanding q' i = Some k" for i k
    using that assms(5) by (metis domI map_le_def)
  have "k < length (d_promises s') \<and> p_response (d_promises s' ! k) \<and> parity_of i = parity_from (s_side s') \<and>
      (\<forall>n. q_next_id q' = Some n \<longrightarrow> unat i < unat n) \<and> k \<notin> og_key ` set (q_outgoing q')"
    if "q_outstanding q' i = Some k" for i k
  proof -
    have old: "k < length (d_promises s)" "p_response (d_promises s ! k)" "parity_of i = parity_from (s_side s)"
      "\<forall>n. q_next_id q = Some n \<longrightarrow> unat i < unat n" "k \<notin> og_key ` set (q_outgoing q)"
      using assms(1) sub [OF that] by (simp_all add: ids_inv_def)
    with promises_keptD [OF assms(2) old(1)] assms(3,4,6) show ?thesis by auto
  qed
  moreover have "i = j" if "q_outstanding q' i = Some k" "q_outstanding q' j = Some k" for i j k
    using assms(1) sub that unfolding ids_inv_def by blast
  ultimately show ?thesis using assms(1,3,4) by (auto simp: ids_inv_def)
qed

lemma writing_inv_mono:
  assumes "writing_inv s q" "promises_kept (d_promises s) (d_promises s')" "s_writing s' = s_writing s"
    and "og_key ` set (q_outgoing q') \<subseteq> og_key ` set (q_outgoing q) \<union> {length (d_promises s)..}"
  shows "writing_inv s' q'"
proof -
  have "og_key og < length (d_promises s') \<and> og_key og \<notin> og_key ` set (q_outgoing q') \<and>
      (p_response (d_promises s' ! og_key og) \<longleftrightarrow> is_request og)" if "s_writing s = Some (i, og)" for i og
  proof -
    have old: "og_key og < length (d_promises s)" "og_key og \<notin> og_key ` set (q_outgoing q)"
      "p_response (d_promises s ! og_key og) \<longleftrightarrow> is_request og"
      using assms(1) that by (simp_all add: writing_inv_def)
    with promises_keptD [OF assms(2) old(1)] assms(4) show ?thesis by auto
  qed
  with assms(3) show ?thesis by (simp add: writing_inv_def)
qed

lemma outgoing_inv_live:
  assumes "outgoing_inv ogs ops" "distinct (map fst ops)" "set live \<subseteq> set ops"
  shows "outgoing_inv (filter (\<lambda>og. og_key og \<in> fst ` set live) ogs) live"
proof -
  have "\<exists>po. (og_key og, po) \<in> set live \<and> po_response po = is_request og"
    if og: "og \<in> set ogs" "og_key og \<in> fst ` set live" for og
  proof -
    obtain po po' where "(og_key og, po) \<in> set ops" "po_response po = is_request og" "(og_key og, po') \<in> set live"
      using assms(1) og by (auto simp: outgoing_inv_def)
    with assms(2,3) show ?thesis by (metis eq_key_imp_eq_value subsetD)
  qed
  with assms(1) show ?thesis by (auto simp: outgoing_inv_def distinct_map_filter)
qed

text \<open>What expiring does to an open session.\<close>

definition expired_by :: "instant \<Rightarrow> 'p session \<Rightarrow> 'p session \<Rightarrow> bool" where
  "expired_by now s s' \<longleftrightarrow> ok s s' \<and> s_held s' = s_held s \<and> s_writing s' = s_writing s \<and> d_taken s' = d_taken s \<and>
     length (d_promises s') = length (d_promises s) \<and> s_has_stream s' = s_has_stream s \<and>
     (\<forall>k < length (d_promises s). p_holder (d_promises s' ! k) = p_holder (d_promises s ! k)) \<and>
     (case s_state s of
        StClosed err \<Rightarrow> s' = s
      | StOpen q \<Rightarrow> \<exists>q'. s_state s' = StOpen q' \<and>
          q_operations q' = filter (\<lambda>(k, po). \<not> now \<ge> po_deadline po) (q_operations q) \<and>
          q_outgoing q' = filter (\<lambda>og. og_key og \<in> fst ` set (q_operations q')) (q_outgoing q) \<and>
          q_incoming q' = q_incoming q \<and> q_outstanding q' = q_outstanding q \<and> q_next_id q' = q_next_id q \<and>
          (\<forall>(k, po) \<in> set (q_operations q). now \<ge> po_deadline po \<longrightarrow> p_holder (d_promises s ! k) = Held \<longrightarrow>
             p_result (d_promises s' ! k) = Some (Err Timeout)))"

lemma state_expire_ok:
  assumes inv: "session_inv s"
  obtains callbacks s' where "state_expire now s = Some (callbacks, s')" and "expired_by now s s'"
proof (cases "s_state s")
  case (StClosed err)
  with inv show thesis
    by (intro that [of "[]" s]) (simp_all add: state_expire_def expired_by_def ok_refl)
next
  case (StOpen q)
  let ?P = "\<lambda>k po. now \<ge> po_deadline po" and ?ops = "q_operations q"
  define expired where "expired = filter (\<lambda>(k, po). ?P k po) ?ops"
  define live where "live = filter (\<lambda>(k, po). \<not> ?P k po) ?ops"
  define kept where "kept = filter (\<lambda>og. og_key og \<in> fst ` set live) (q_outgoing q)"
  define gone where "gone = filter (\<lambda>og. og_key og \<notin> fst ` set live) (q_outgoing q)"
  define q' where "q' = q\<lparr>q_operations := live, q_outgoing := kept, q_reserved := q_reserved q - set (reply_ids gone)\<rparr>"
  from inv StOpen have o: "open_inv s q" and typed: "typed_inv (d_promises s)" by (simp_all add: session_inv_def)
  then have ops: "ops_inv (d_promises s) ?ops" and charge: "d_retained s = desk_charge s + incoming_charge (q_incoming q)"
    by (simp_all add: open_inv_def)
  have dist: "distinct (map fst ?ops)" "distinct (map fst expired)"
    using ops by (simp_all add: ops_inv_def expired_def distinct_map_filter)
  have sub: "fst ` set expired \<subseteq> fst ` set ?ops" by (auto simp: expired_def)
  have slots: "\<forall>k \<in> fst ` set expired. open_slot s k"
    using ops_inv_open_slot [OF ops] sub by blast
  obtain callbacks s1 where fail: "fail_all expired Timeout now s = Some (callbacks, s1)"
    using fail_all_returns [OF dist(2) slots] by blast
  note settle = fail_all_Some [OF fail dist(2)]
  then have set: "settled (fst ` set expired) s s1" by blast
  note more = session_more [of s1 s]
  have more: "s_state s1 = s_state s" "s_side s1 = s_side s" "s_held s1 = s_held s" "s_writing s1 = s_writing s"
    "s_has_stream s1 = s_has_stream s"
    using more set by (simp_all add: settled_def)
  have kept: "promises_kept (d_promises s) (d_promises s1)" by (rule settled_kept [OF set slots])
  have ops': "ops_inv (d_promises s1) live"
    using ops_inv_settled [OF ops set sub] filter_not_keys [OF dist(1), of ?P] by (simp add: expired_def live_def)
  have retained: "d_retained s1 = desk_charge s1 + incoming_charge (q_incoming q)" "d_retained s1 \<le> q_max_bytes q"
  proof -
    show "d_retained s1 = desk_charge s1 + incoming_charge (q_incoming q)" using settle charge by linarith
    have "d_retained s \<le> q_max_bytes q" using o by (simp add: open_inv_def)
    with settle show "d_retained s1 \<le> q_max_bytes q" by linarith
  qed
  have keys: "og_key ` set (q_outgoing q') \<subseteq> og_key ` set (q_outgoing q) \<union> {length (d_promises s)..}"
    by (auto simp: q'_def kept_def)
  have ids: "ids_inv s1 q'"
    by (rule ids_inv_mono [OF _ kept more(2) _ _ keys]) (use o in \<open>simp_all add: open_inv_def q'_def\<close>)
  have writing: "writing_inv s1 q'"
    by (rule writing_inv_mono [OF _ kept more(4) keys]) (use o in \<open>simp add: open_inv_def\<close>)
  have reserved: "reserved_inv s1 q'"
  proof -
    have res: "reserved_inv s q" using o by (simp add: open_inv_def)
    then have "distinct (reply_ids (q_outgoing q))" by (simp add: reserved_inv_def request_places_def)
    then have split: "distinct (reply_ids kept)" "set (reply_ids kept) \<inter> set (reply_ids gone) = {}"
      "set (reply_ids (q_outgoing q)) = set (reply_ids kept) \<union> set (reply_ids gone)"
      using distinct_reply_ids_split [of "q_outgoing q" "\<lambda>og. og_key og \<in> fst ` set live"]
        set_reply_ids_split [of "q_outgoing q" "\<lambda>og. og_key og \<in> fst ` set live"]
      by (simp_all add: kept_def gone_def)
    have "distinct (request_places s1 q') \<and> q_reserved q' = set (request_places s1 q')"
      using res more(3) split by (simp add: reserved_inv_def request_places_def q'_def) blast
    moreover have "card (q_reserved q') \<le> q_max_requests q'"
      using res card_mono [of "q_reserved q" "q_reserved q'"] by (auto simp: reserved_inv_def q'_def)
    ultimately show ?thesis using res more by (auto simp: reserved_inv_def q'_def)
  qed
  have out: "outgoing_inv kept live"
    using o dist(1) outgoing_inv_live [of "q_outgoing q" ?ops live] by (auto simp: open_inv_def kept_def live_def)
  have "open_inv s1 q'"
    using retained ops' out reserved ids writing by (simp add: open_inv_def q'_def)
  then have "session_inv (set_queues q' s1)"
    using typed_inv_fail_all [OF fail typed] by (simp add: session_inv_def)
  then have "ok s (set_queues q' s1)"
    using kept more StOpen by (simp add: ok_def history_kept_def q'_def)
  moreover have "\<forall>(k, po) \<in> set ?ops. now \<ge> po_deadline po \<longrightarrow> p_holder (d_promises s ! k) = Held \<longrightarrow>
      p_result (d_promises s1 ! k) = Some (Err Timeout)"
    using settle by (auto simp: expired_def)
  moreover have "d_taken s1 = d_taken s" using set by (simp add: settled_def)
  ultimately have "expired_by now s (set_queues q' s1)"
    using more StOpen settled_holder [OF set] settled_length [OF set]
    by (simp add: expired_by_def q'_def live_def kept_def)
  moreover have "state_expire now s = Some (callbacks, set_queues q' s1)"
    using StOpen fail by (simp add: state_expire_def Let_def expired_def live_def kept_def gone_def q'_def)
  ultimately show thesis by (intro that)
qed

end
