(* ===== verification/Session_Operations.thy ===== *)
theory Session_Operations
  imports Session_Invariant
begin

text \<open>
  The application's side of a session: owners of promises and envelopes, configuration, and the
  submission of requests, replies and automatic replies. Each operation returns and is \<open>ok\<close>.
\<close>


section \<open>Owners of promises\<close>

text \<open>The owner changes who holds a promise and its callback, never its result.\<close>

definition owner_change :: "promise list \<Rightarrow> promise list \<Rightarrow> bool" where
  "owner_change ps ps' \<longleftrightarrow> length ps' = length ps \<and> (\<forall>j < length ps. p_result (ps' ! j) = p_result (ps ! j) \<and>
     p_response (ps' ! j) = p_response (ps ! j) \<and> p_deadline (ps' ! j) = p_deadline (ps ! j) \<and>
     (p_holder (ps ! j) \<noteq> Held \<longrightarrow> p_holder (ps' ! j) = p_holder (ps ! j)))"

lemma owner_change_refl: "owner_change ps ps"
  by (simp add: owner_change_def)

lemma owner_change_update:
  assumes "p_result p = p_result (ps ! k)" "p_response p = p_response (ps ! k)" "p_deadline p = p_deadline (ps ! k)"
    and "p_holder (ps ! k) = Held \<or> p_holder p = p_holder (ps ! k)"
  shows "owner_change ps (ps[k := p])"
proof -
  have "p_result (ps[k := p] ! j) = p_result (ps ! j) \<and> p_response (ps[k := p] ! j) = p_response (ps ! j) \<and>
      p_deadline (ps[k := p] ! j) = p_deadline (ps ! j) \<and>
      (p_holder (ps ! j) \<noteq> Held \<longrightarrow> p_holder (ps[k := p] ! j) = p_holder (ps ! j))" if "j < length ps" for j
    using assms that by (cases "j = k") auto
  then show ?thesis by (simp add: owner_change_def)
qed

lemma owner_change_kept: "owner_change ps ps' \<Longrightarrow> promises_kept ps ps'"
  by (simp add: owner_change_def promises_kept_def promise_kept_def)

lemma owner_change_ops: "owner_change ps ps' \<Longrightarrow> ops_inv ps ops \<Longrightarrow> ops_inv ps' ops"
  unfolding owner_change_def ops_inv_def by fastforce

lemma owner_change_typed: "owner_change ps ps' \<Longrightarrow> typed_inv ps \<Longrightarrow> typed_inv ps'"
  by (simp add: owner_change_def typed_inv_def all_set_conv_all_nth)

lemma owner_ok:
  assumes inv: "session_inv s" and change: "owner_change (d_promises s) (d_promises s')"
    and more: "desk.more s' = desk.more s"
    and charge: "d_retained s' + desk_charge s = d_retained s + desk_charge s'" and less: "d_retained s' \<le> d_retained s"
  shows "ok s s'"
proof -
  note more = session_more [OF more] and kept = owner_change_kept [OF change]
  have typed: "typed_inv (d_promises s')" using inv owner_change_typed [OF change] by (simp add: session_inv_def)
  have "session_inv s'"
  proof (cases "s_state s")
    case (StClosed err)
    with inv have "closed_inv s" by (simp add: session_inv_def)
    then have "closed_inv s'"
      using change charge unfolding closed_inv_def owner_change_def by (auto simp: in_set_conv_nth) (metis nth_mem)
    with typed more StClosed show ?thesis by (simp add: session_inv_def)
  next
    case (StOpen q)
    with inv have o: "open_inv s q" by (simp add: session_inv_def)
    have "ids_inv s' q" by (rule ids_inv_mono [OF _ kept more(2)]) (use o in \<open>auto simp: open_inv_def\<close>)
    moreover have "writing_inv s' q" by (rule writing_inv_mono [OF _ kept more(4)]) (use o in \<open>auto simp: open_inv_def\<close>)
    moreover have "reserved_inv s q" using o by (simp add: open_inv_def)
    then have "reserved_inv s' q" unfolding reserved_inv_def request_places_def more .
    moreover have "ops_inv (d_promises s') (q_operations q)"
      using o owner_change_ops [OF change] by (simp add: open_inv_def)
    ultimately have "open_inv s' q" using o charge less by (simp add: open_inv_def)
    with typed more StOpen show ?thesis by (simp add: session_inv_def)
  qed
  with kept more show ?thesis by (cases "s_state s") (simp_all add: ok_def history_kept_def)
qed

lemma promise_notify_ok:
  assumes inv: "session_inv s" and k: "k < length (d_promises s)"
    and fresh: "\<not> p_registered (d_promises s ! k)"
  obtains s' where "promise_notify k callback s = Some s'" and "ok s s'"
proof -
  let ?p = "d_promises s ! k"
  define p' where "p' = (if p_result ?p \<noteq> None then ?p\<lparr>p_registered := True\<rparr> else ?p\<lparr>p_registered := True, p_hook := Some callback\<rparr>)"
  have change: "owner_change (d_promises s) ((d_promises s)[k := p'])"
    by (rule owner_change_update) (simp_all add: p'_def)
  have "desk_charge (set_promise k p' s) = desk_charge s"
    using desk_charge_set_promise [OF k, of p'] by (simp add: p'_def unread_charge_def split: if_splits)
  then have "ok s (set_promise k p' s)"
    using change by (intro owner_ok [OF inv]) simp_all
  moreover have "promise_notify k callback s =
      Some (if p_result ?p \<noteq> None then defer_notes [callback] (set_promise k p' s) else set_promise k p' s)"
    using fresh by (simp add: promise_notify_def Let_def p'_def)
  ultimately show thesis using that by (cases "p_result ?p") simp_all
qed

lemma unread_le_retained:
  assumes "session_inv s" "k < length (d_promises s)"
  shows "unread_charge (d_promises s ! k) \<le> d_retained s"
proof -
  have "unread_charge (d_promises s ! k) \<le> sum_list (map unread_charge (d_promises s))"
    using assms(2) by (intro member_le_sum_list) auto
  also have "\<dots> \<le> d_retained s"
    using assms(1) by (auto simp: session_inv_def open_inv_def closed_inv_def desk_charge_def split: state.splits)
  finally show ?thesis .
qed

lemma promise_drop_ok:
  assumes inv: "session_inv s" and k: "k < length (d_promises s)" and held: "p_holder (d_promises s ! k) = Held"
  obtains s' where "promise_drop k s = Some s'" and "ok s s'" and "s_held s' = s_held s" and "s_writing s' = s_writing s"
proof -
  let ?p = "d_promises s ! k" and ?p' = "(d_promises s ! k)\<lparr>p_holder := Dropped, p_hook := None\<rparr>"
  define n where "n = unread_charge ?p"
  let ?s' = "set_promise k ?p' (s\<lparr>d_retained := d_retained s - n\<rparr>)"
  have n: "(case p_result ?p of None \<Rightarrow> 0 | Some r \<Rightarrow> result_charge r) = n"
    using held by (simp add: n_def unread_charge_def)
  have le: "n \<le> d_retained s" using unread_le_retained [OF inv k] by (simp add: n_def)
  have change: "owner_change (d_promises s) ((d_promises s)[k := ?p'])"
    by (rule owner_change_update) (simp_all add: held)
  have "unread_charge ?p' = 0" by (simp add: unread_charge_def)
  then have "desk_charge ?s' + n = desk_charge s"
    using desk_charge_set_promise [of k "s\<lparr>d_retained := d_retained s - n\<rparr>" ?p'] k by (simp add: n_def)
  then have "ok s ?s'" using change le by (intro owner_ok [OF inv]) simp_all
  moreover have "promise_drop k s = Some ?s'"
    unfolding promise_drop_def Let_def n using le by simp
  ultimately show thesis by (intro that [of ?s']) simp_all
qed

lemma promise_receive_ok:
  assumes inv: "session_inv s" and k: "k < length (d_promises s)" and held: "p_holder (d_promises s ! k) = Held"
    and recv: "promise_receive k s = (r, s')"
  shows "ok s s'" and "r = p_result (d_promises s ! k)"
    and "r = Some (Ok (PResponse e)) \<Longrightarrow> p_response (d_promises s ! k) \<and> e \<in> set (d_taken s')"
    and "r = Some (Ok PWritten) \<Longrightarrow> \<not> p_response (d_promises s ! k)"
proof -
  let ?p = "d_promises s ! k" and ?p' = "(d_promises s ! k)\<lparr>p_holder := Taken, p_hook := None\<rparr>"
  show res: "r = p_result ?p" using recv by (auto simp: promise_receive_def Let_def split: option.splits)
  have "result_fits (p_result ?p) (p_response ?p)"
    using inv k by (auto simp: session_inv_def typed_inv_def)
  then show "r = Some (Ok (PResponse e)) \<Longrightarrow> p_response ?p \<and> e \<in> set (d_taken s')"
    and "r = Some (Ok PWritten) \<Longrightarrow> \<not> p_response ?p"
    using res recv by (auto simp: promise_receive_def Let_def)
  show "ok s s'"
  proof (cases "p_result ?p")
    case None
    with recv inv show ?thesis by (simp add: promise_receive_def ok_refl)
  next
    case (Some x)
    define es where "es = (case x of Inr (PResponse e) \<Rightarrow> [e] | _ \<Rightarrow> [])"
    have s': "s' = (set_promise k ?p' s)\<lparr>d_taken := d_taken s @ es\<rparr>"
      using recv Some by (simp add: promise_receive_def Let_def es_def)
    have "sum_list (map in_charge es) = unread_charge ?p"
      using Some held by (auto simp: es_def unread_charge_def split: sum.splits promise_result.splits)
    moreover have "desk_charge s' = desk_charge (set_promise k ?p' s) + sum_list (map in_charge es)"
      by (simp add: s' desk_charge_def)
    ultimately have "desk_charge s' = desk_charge s"
      using desk_charge_set_promise [OF k, of ?p'] by (simp add: unread_charge_def)
    moreover have "owner_change (d_promises s) ((d_promises s)[k := ?p'])"
      by (rule owner_change_update) (simp_all add: held)
    ultimately show ?thesis by (intro owner_ok [OF inv]) (simp_all add: s')
  qed
qed

lemma envelope_release_ok:
  assumes inv: "session_inv s" and e: "e \<in> set (d_taken s)"
  obtains s' where "envelope_release e s = Some s'" and "ok s s'" and "s_held s' = s_held s" and "s_side s' = s_side s"
    and "d_promises s' = d_promises s" and "s_state s' = s_state s"
proof -
  let ?s1 = "s\<lparr>d_taken := remove1 e (d_taken s)\<rparr>"
  let ?s' = "s\<lparr>d_taken := remove1 e (d_taken s), d_retained := d_retained s - in_charge e\<rparr>"
  have sum: "sum_list (map in_charge (d_taken s)) = in_charge e + sum_list (map in_charge (remove1 e (d_taken s)))"
    using e by (simp add: sum_list_map_remove1)
  have "desk_charge s \<le> d_retained s"
    using inv by (auto simp: session_inv_def open_inv_def closed_inv_def split: state.splits)
  with sum have le: "in_charge e \<le> d_retained s" by (simp add: desk_charge_def)
  have "ok s ?s'" using sum le by (intro owner_ok [OF inv]) (simp_all add: owner_change_refl desk_charge_def)
  with le show thesis by (intro that [of ?s']) (simp_all add: envelope_release_def release_Some_iff)
qed



section \<open>Configuration\<close>

lemma open_inv_autoreply [simp]: "open_inv s (q\<lparr>q_autoreply := t\<rparr>) = open_inv s q"
  by (simp add: inv_defs)

lemma set_autoreply_timeout_ok: "session_inv s \<Longrightarrow> ok s (set_autoreply_timeout t s)"
  by (cases "s_state s")
    (simp_all add: set_autoreply_timeout_def ok_def session_inv_def history_kept_def promises_kept_refl)

lemma set_inbound_limits_ok:
  assumes inv: "session_inv s"
  obtains s' where "set_inbound_limits requests limit s = Some s'" and "ok s s'"
    and "\<And>q'. s_state s' = StOpen q' \<Longrightarrow> q_max_requests q' = requests \<and> q_max_bytes q' = limit"
proof (cases "s_state s")
  case (StClosed err)
  with inv show thesis by (intro that [of s]) (simp_all add: set_inbound_limits_def ok_refl)
next
  case (StOpen q)
  let ?q = "q\<lparr>q_max_requests := requests, q_max_bytes := limit\<rparr>"
  from inv StOpen have o: "open_inv s q" and typed: "typed_inv (d_promises s)" by (simp_all add: session_inv_def)
  define err where "err = (if card (q_reserved q) > requests then Some (InboundRequestLimitExceeded requests)
     else if d_retained s > limit then Some (InboundByteLimitExceeded limit) else None)"
  show thesis
  proof (cases err)
    case None
    then have "card (q_reserved q) \<le> requests" "d_retained s \<le> limit" by (simp_all add: err_def split: if_splits)
    with o have "open_inv s ?q" by (simp add: inv_defs)
    with typed StOpen have "ok s (set_queues ?q s)"
      by (simp add: ok_def session_inv_def history_kept_def promises_kept_refl)
    moreover have "set_inbound_limits requests limit s = Some (set_queues ?q s)"
      unfolding set_inbound_limits_def StOpen state.case Let_def err_def [symmetric] None by simp
    ultimately show thesis by (intro that) auto
  next
    case (Some e)
    obtain now c where clock: "session_now (set_queues ?q s) = (now, (set_queues ?q s)\<lparr>s_clock := c\<rparr>)"
      by (metis session_nowE surj_pair)
    have "session_inv (s\<lparr>s_clock := c\<rparr>)" using inv by simp
    then obtain callbacks removed s2 s3 where s2: "state_close e now (s\<lparr>s_clock := c\<rparr>) = Some ((callbacks, removed), s2)"
      and s3: "finish_close removed s2 = Some s3" and closing: "closed_by e now (s\<lparr>s_clock := c\<rparr>) s3"
      by (rule close_ok)
    have removed: "removed = Some q" using s2 StOpen by (auto simp: state_close_def bind_eq_Some_conv)
    have "state_close e now ((set_queues ?q s)\<lparr>s_clock := c\<rparr>) = Some ((callbacks, Some ?q), s2)"
      using s2 StOpen by (auto simp: state_close_def bind_eq_Some_conv)
    moreover have "finish_close (Some ?q) s2 = Some s3" using s3 removed by (simp add: finish_close_def)
    ultimately have "set_inbound_limits requests limit s = Some (defer_notes callbacks s3)"
      unfolding set_inbound_limits_def StOpen state.case Let_def err_def [symmetric] Some option.case clock prod.case by simp
    with closing StOpen show thesis by (intro that [of "defer_notes callbacks s3"]) (simp_all add: closed_by_def)
  qed
qed

lemma set_inbound_limits_locked_ok:
  assumes inv: "session_inv s" and step: "set_inbound_limits_locked requests limit s = Some s'"
  shows "ok s s'"
proof (cases "s_state s")
  case (StClosed err)
  with step inv show ?thesis by (simp add: set_inbound_limits_locked_def ok_refl)
next
  case (StOpen q)
  let ?q = "q\<lparr>q_max_requests := requests, q_max_bytes := limit\<rparr>"
  define err where "err = (if card (q_reserved q) > requests then Some (InboundRequestLimitExceeded requests)
     else if d_retained s > limit then Some (InboundByteLimitExceeded limit) else None)"
  have step': "(case err of None \<Rightarrow> Some (set_queues ?q s) | Some e \<Rightarrow> session_close_locked e (set_queues ?q s)) = Some s'"
    using step unfolding set_inbound_limits_locked_def StOpen state.case Let_def err_def .
  show ?thesis
  proof (cases err)
    case None
    with step' have "set_inbound_limits requests limit s = Some s'"
      unfolding set_inbound_limits_def StOpen state.case Let_def err_def [symmetric] by simp
    then show ?thesis using set_inbound_limits_ok [OF inv] by (metis option.inject)
  next
    case (Some e)
    have "session_close_locked e (set_queues ?q s) = session_close_locked e s"
      using StOpen by (cases "fail_all (q_operations q) e (fst (clock_now (s_clock s)))
          (s\<lparr>s_clock := snd (clock_now (s_clock s)), s_state := StClosed e\<rparr>)")
        (auto simp: session_close_locked_def state_close_def session_now_def take_removed_def split: prod.splits)
    with step' Some show ?thesis using session_close_locked_ok [OF inv, of e] by (metis option.inject option.simps(5))
  qed
qed


section \<open>Submitting\<close>

lemma desk_charge_append: "desk_charge (s\<lparr>d_promises := d_promises s @ [p]\<rparr>) = desk_charge s + unread_charge p"
  by (simp add: desk_charge_def)

lemma typed_inv_append: "typed_inv (ps @ [p]) \<longleftrightarrow> typed_inv ps \<and> result_fits (p_result p) (p_response p)"
  by (auto simp: typed_inv_def)

lemma ops_inv_append:
  assumes "ops_inv ps ops" "p_result p \<noteq> None"
  shows "ops_inv (ps @ [p]) ops"
  using assms unfolding ops_inv_def by (auto simp: nth_append less_Suc_eq)

lemma ops_inv_append_pending:
  assumes "ops_inv ps ops" "p_result p = None" "p_response p = po_response po" "p_deadline p = po_deadline po"
  shows "ops_inv (ps @ [p]) (ops @ [(length ps, po)])"
  using assms unfolding ops_inv_def by (auto simp: nth_append less_Suc_eq)

lemma outgoing_inv_append:
  assumes "outgoing_inv ogs ops" "ops_inv ps ops" "po_response po \<longleftrightarrow> is_request og" "og_key og = length ps"
  shows "outgoing_inv (ogs @ [og]) (ops @ [(length ps, po)])"
proof -
  have "og_key og \<notin> og_key ` set ogs"
  proof
    assume "og_key og \<in> og_key ` set ogs"
    then obtain o' where o': "o' \<in> set ogs" "og_key o' = og_key og" by auto
    with assms(1) obtain po' where "(og_key o', po') \<in> set ops" unfolding outgoing_inv_def by blast
    with o' assms(2,4) show False by (auto simp: ops_inv_def)
  qed
  with assms show ?thesis by (auto simp: outgoing_inv_def)
qed

text \<open>The identifier of a reply leaves the responder and goes to the queue, or goes free.\<close>

definition held_after :: "'p outgoing_body \<Rightarrow> id list \<Rightarrow> id list" where
  "held_after b held = (case b of OutReply i _ \<Rightarrow> remove1 i held | OutRequest _ \<Rightarrow> held)"

definition reserved_after :: "'p outgoing_body \<Rightarrow> id set \<Rightarrow> id set" where
  "reserved_after b ids = (case b of OutReply i _ \<Rightarrow> ids - {i} | OutRequest _ \<Rightarrow> ids)"

lemma reserved_inv_discard:
  assumes inv: "reserved_inv s q" and held: "\<And>i r. b = OutReply i r \<Longrightarrow> i \<in> set (s_held s)"
    and s': "s_held s' = held_after b (s_held s)" "s_side s' = s_side s"
  shows "reserved_inv s' (q\<lparr>q_reserved := reserved_after b (q_reserved q)\<rparr>)"
proof -
  have fin: "finite (q_reserved q)" using inv by (simp add: reserved_inv_def)
  then have "card (reserved_after b (q_reserved q)) \<le> card (q_reserved q)"
    by (intro card_mono) (auto simp: reserved_after_def split: outgoing_body.splits)
  with inv held s' show ?thesis
    unfolding reserved_inv_def request_places_def
    by (cases b) (auto simp: held_after_def reserved_after_def distinct_remove1 set_remove1_eq)
qed

lemma reserved_inv_queue:
  assumes inv: "reserved_inv s q" and held: "\<And>i r. og_body og = OutReply i r \<Longrightarrow> i \<in> set (s_held s)"
    and s': "s_held s' = held_after (og_body og) (s_held s)" "s_side s' = s_side s"
    and q': "q_outgoing q' = q_outgoing q @ [og]" "q_incoming q' = q_incoming q" "q_reserved q' = q_reserved q"
      "q_max_requests q' = q_max_requests q"
  shows "reserved_inv s' q'"
proof (cases "og_body og")
  case (OutRequest m)
  with assms show ?thesis by (auto simp: reserved_inv_def request_places_def held_after_def)
next
  case (OutReply i r)
  have "distinct (s_held s)" "i \<in> set (s_held s)" using inv held OutReply by (auto simp: reserved_inv_def request_places_def)
  then have "distinct (request_places s' q')" "set (request_places s' q') = set (request_places s q)"
    using inv OutReply s' q' by (auto simp: reserved_inv_def request_places_def held_after_def)
  with inv s' q' show ?thesis by (auto simp: reserved_inv_def)
qed

text \<open>A reply needs its responder, in an open session.\<close>

definition may_send :: "'p outgoing_body \<Rightarrow> 'p session \<Rightarrow> bool" where
  "may_send b s \<longleftrightarrow> (\<forall>i r q. s_state s = StOpen q \<longrightarrow> b = OutReply i r \<longrightarrow> i \<in> set (s_held s))"

abbreviation may_reply :: "id \<Rightarrow> 'p session \<Rightarrow> bool" where
  "may_reply i s \<equiv> \<forall>q. s_state s = StOpen q \<longrightarrow> i \<in> set (s_held s)"

text \<open>The outcome of a submission: the reason of a closed session, or a new promise.\<close>

definition submitted :: "'p session \<Rightarrow> (protocol_error, nat) result \<Rightarrow> 'p session \<Rightarrow> bool" where
  "submitted s r s' \<longleftrightarrow> (case s_state s of
      StClosed err \<Rightarrow> r = Err err
    | StOpen q \<Rightarrow> r = Ok (length (d_promises s)) \<and> length (d_promises s') = Suc (length (d_promises s)) \<and>
        p_holder (d_promises s' ! length (d_promises s)) = Held)"

lemma enqueue_ok:
  assumes inv: "session_inv s" and resp: "response \<longleftrightarrow> (\<exists>m. b = OutRequest m)" and may: "may_send b s"
  shows "\<exists>r s'. enqueue b deadline response log_id s = Some (r, s') \<and>
    ok s (s'\<lparr>s_held := held_after b (s_held s)\<rparr>) \<and> s_held s' = s_held s \<and> submitted s r s'"
proof (cases "s_state s")
  case (StClosed err)
  with inv show ?thesis
    by (simp add: enqueue_def submitted_def ok_def session_inv_def history_kept_def promises_kept_refl)
next
  case (StOpen q)
  have held: "\<And>i r. b = OutReply i r \<Longrightarrow> i \<in> set (s_held s)" using may StOpen by (simp add: may_send_def)
  let ?k = "length (d_promises s)" and ?ps = "d_promises s"
  let ?po = "\<lparr>po_deadline = deadline, po_response = response, po_log_id = log_id\<rparr>" and ?p = "promise_pair deadline response"
  obtain now c where clock: "session_now s = (now, s\<lparr>s_clock := c\<rparr>)" by (metis session_nowE surj_pair)
  from inv StOpen have o: "open_inv s q" and typed: "typed_inv ?ps" by (simp_all add: session_inv_def)
  then have ops: "ops_inv ?ps (q_operations q)" by (simp add: open_inv_def)
  have p: "p_result ?p = None" "p_holder ?p = Held" "p_hook ?p = None" "p_response ?p = response" "p_deadline ?p = deadline"
    by (simp_all add: promise_pair_def)
  show ?thesis
  proof (cases "now \<ge> deadline")
    case True
    let ?p' = "?p\<lparr>p_result := Some (Err Timeout), p_hook := None\<rparr>"
    let ?q = "q\<lparr>q_reserved := reserved_after b (q_reserved q)\<rparr>"
    let ?s' = "s\<lparr>s_clock := c, s_state := StOpen ?q, d_promises := ?ps @ [?p']\<rparr>"
    have "enqueue b deadline response log_id s = Some (Ok ?k, defer_notes [] ?s')"
      using StOpen True p
      by (simp add: enqueue_def clock operation_fail_def result_send_def Let_def nth_append set_promise_def note_of_def
          reserved_after_def)
    moreover have "ok s (?s'\<lparr>s_held := held_after b (s_held s)\<rparr>)"
    proof -
      let ?t = "?s'\<lparr>s_held := held_after b (s_held s)\<rparr>"
      have kept: "promises_kept ?ps (d_promises ?t)" by (simp add: promises_kept_append)
      have "ops_inv (d_promises ?t) (q_operations ?q)" using ops by (simp add: ops_inv_append)
      moreover have "reserved_inv ?t ?q"
        using o StOpen held by (intro reserved_inv_discard [of s]) (auto simp: open_inv_def)
      moreover have "ids_inv ?t ?q" by (rule ids_inv_mono [OF _ kept]) (use o in \<open>auto simp: open_inv_def\<close>)
      moreover have "writing_inv ?t ?q" by (rule writing_inv_mono [OF _ kept]) (use o in \<open>auto simp: open_inv_def\<close>)
      moreover have "desk_charge ?t = desk_charge s" by (simp add: desk_charge_def unread_charge_def)
      ultimately have "open_inv ?t ?q" using o by (simp add: open_inv_def)
      moreover have "typed_inv (d_promises ?t)" using typed by (simp add: typed_inv_append)
      ultimately show ?thesis using kept StOpen by (simp add: ok_def session_inv_def history_kept_def)
    qed
    ultimately show ?thesis
      using StOpen by (intro exI [of _ "Ok ?k"] exI [of _ "defer_notes [] ?s'"])
        (simp add: defer_notes_def submitted_def nth_append promise_pair_def)
  next
    case False
    let ?og = "\<lparr>og_body = b, og_key = ?k\<rparr>"
    let ?q = "q\<lparr>q_outgoing := q_outgoing q @ [?og], q_operations := q_operations q @ [(?k, ?po)]\<rparr>"
    let ?s' = "s\<lparr>s_clock := c, d_promises := ?ps @ [?p], s_state := StOpen ?q\<rparr>"
    have "enqueue b deadline response log_id s = Some (Ok ?k, ?s')"
      using StOpen False by (simp add: enqueue_def clock Let_def)
    moreover have "ok s (?s'\<lparr>s_held := held_after b (s_held s)\<rparr>)"
    proof -
      let ?t = "?s'\<lparr>s_held := held_after b (s_held s)\<rparr>"
      have kept: "promises_kept ?ps (d_promises ?t)" by (simp add: promises_kept_append)
      have "ops_inv (d_promises ?t) (q_operations ?q)" using ops p by (simp add: ops_inv_append_pending)
      moreover have "outgoing_inv (q_outgoing ?q) (q_operations ?q)"
        using outgoing_inv_append [of "q_outgoing q" "q_operations q" ?ps ?po ?og] o ops resp
        by (cases b) (simp_all add: open_inv_def is_request_def)
      moreover have "reserved_inv ?t ?q"
        by (rule reserved_inv_queue [where s = s and q = q and og = ?og])
          (use o StOpen held in \<open>simp_all add: open_inv_def\<close>)
      moreover have "ids_inv ?t ?q" by (rule ids_inv_mono [OF _ kept]) (use o in \<open>auto simp: open_inv_def\<close>)
      moreover have "writing_inv ?t ?q" by (rule writing_inv_mono [OF _ kept]) (use o in \<open>auto simp: open_inv_def\<close>)
      moreover have "desk_charge ?t = desk_charge s" using p by (simp add: desk_charge_def unread_charge_def)
      ultimately have "open_inv ?t ?q" using o by (simp add: open_inv_def)
      moreover have "typed_inv (d_promises ?t)" using typed p by (simp add: typed_inv_append)
      ultimately show ?thesis using kept StOpen by (simp add: ok_def session_inv_def history_kept_def)
    qed
    ultimately show ?thesis
      using StOpen p by (intro exI [of _ "Ok ?k"] exI [of _ ?s']) (simp add: submitted_def nth_append)
  qed
qed


lemma session_request_ok:
  assumes "session_inv s"
  shows "\<exists>r s'. session_request m deadline s = Some (r, s') \<and> ok s s' \<and> submitted s r s'"
proof -
  obtain r s' where e: "enqueue (OutRequest m) deadline True None s = Some (r, s')" "submitted s r s'"
    and o: "ok s (s'\<lparr>s_held := held_after (OutRequest m) (s_held s)\<rparr>)" and h: "s_held s' = s_held s"
    using enqueue_ok [OF assms, where b = "OutRequest m" and response = True and deadline = deadline and log_id = None]
    by (auto simp: may_send_def)
  have "s'\<lparr>s_held := held_after (OutRequest m) (s_held s)\<rparr> = s'" using h by (simp add: held_after_def)
  with e o show ?thesis by (simp add: session_request_def)
qed

lemma session_reply_ok:
  assumes "session_inv s" and "may_reply i s"
  shows "\<exists>r s'. session_reply i b deadline s = Some (r, s') \<and> ok s s' \<and> s_held s' = remove1 i (s_held s) \<and> submitted s r s'"
proof -
  obtain r s' where e: "enqueue (OutReply i b) deadline False (Some i) s = Some (r, s')" "submitted s r s'"
    and o: "ok s (s'\<lparr>s_held := held_after (OutReply i b) (s_held s)\<rparr>)" and h: "s_held s' = s_held s"
    using enqueue_ok [OF assms(1), where b = "OutReply i b" and response = False and deadline = deadline and log_id = "Some i"]
      assms(2) by (auto simp: may_send_def)
  let ?s' = "s'\<lparr>s_held := remove1 i (s_held s)\<rparr>"
  have "session_reply i b deadline s = Some (r, ?s')" by (simp add: session_reply_def e h)
  moreover have "ok s ?s'" using o by (simp add: held_after_def)
  moreover have "submitted s r ?s'" using e(2) by (simp add: submitted_def split: state.splits)
  ultimately show ?thesis by simp
qed

lemma ok_closed_held:
  assumes "session_inv s" "s_state s = StClosed err"
  shows "ok s (s\<lparr>s_held := held\<rparr>)"
  using assms by (simp add: ok_def session_inv_def history_kept_def promises_kept_refl)

lemma autoreply_ok:
  assumes inv: "session_inv s" and held: "may_reply i s"
  shows "\<exists>s'. autoreply i err s = Some s' \<and> ok s s' \<and> s_held s' = remove1 i (s_held s)"
proof -
  obtain now c where clock: "session_now s = (now, s\<lparr>s_clock := c\<rparr>)" by (metis session_nowE surj_pair)
  let ?s1 = "s\<lparr>s_clock := c\<rparr>"
  have inv1: "session_inv ?s1" using inv by simp
  show ?thesis
  proof (cases "s_state s")
    case (StClosed e)
    with ok_closed_held [OF inv1] show ?thesis by (simp add: autoreply_def clock)
  next
    case (StOpen q)
    define deadline where "deadline = (case instant_checked_add now (q_autoreply q) of Some t \<Rightarrow> t | None \<Rightarrow> now)"
    have "may_reply i ?s1" using held by simp
    then obtain r s2 where reply: "session_reply i (Err err) deadline ?s1 = Some (r, s2)" and ok2: "ok ?s1 s2"
      and held2: "s_held s2 = remove1 i (s_held ?s1)" and sub: "submitted ?s1 r s2"
      using session_reply_ok [OF inv1] by blast
    have r: "r = Ok (length (d_promises s))" and k: "length (d_promises s) < length (d_promises s2)"
      "p_holder (d_promises s2 ! length (d_promises s)) = Held"
      using sub StOpen by (simp_all add: submitted_def)
    obtain s3 where drop: "promise_drop (length (d_promises s)) s2 = Some s3" and ok3: "ok s2 s3" and "s_held s3 = s_held s2"
      using promise_drop_ok [OF ok_inv [OF ok2] k] by blast
    moreover have "ok s s3" using ok_trans [OF ok2 ok3] by simp
    moreover have "autoreply i err s = Some s3"
      using StOpen by (simp add: autoreply_def clock reply deadline_def [symmetric] r drop)
    ultimately show ?thesis using held2 by simp
  qed
qed

lemma reply_unanswered_ok:
  "session_inv s \<Longrightarrow> may_reply i s \<Longrightarrow> \<exists>s'. reply_unanswered i s = Some s' \<and> ok s s' \<and> s_held s' = remove1 i (s_held s)"
  unfolding reply_unanswered_def by (rule autoreply_ok)

lemma reply_unknown_ok:
  "session_inv s \<Longrightarrow> may_reply i s \<Longrightarrow> \<exists>s'. reply_unknown i s = Some s' \<and> ok s s' \<and> s_held s' = remove1 i (s_held s)"
  unfolding reply_unknown_def by (rule autoreply_ok)

lemma ok_closed: "ok s s' \<Longrightarrow> s_state s = StClosed err \<Longrightarrow> s_state s' = StClosed err"
  by (simp add: ok_def history_kept_def)

lemma responder_reply_ok:
  assumes inv: "session_inv s" and held: "may_reply i s"
  shows "\<exists>r s'. responder_reply i b deadline s = Some (r, s') \<and> ok s s' \<and> (isl r \<longleftrightarrow> (\<exists>err. s_state s = StClosed err))"
proof -
  obtain r s1 where reply: "session_reply i b deadline s = Some (r, s1)" and ok1: "ok s s1" and sub: "submitted s r s1"
    using session_reply_ok [OF inv held] by blast
  show ?thesis
  proof (cases "s_state s")
    case (StOpen q)
    with reply ok1 sub show ?thesis by (simp add: responder_reply_def submitted_def)
  next
    case (StClosed err)
    then have "may_reply i s1" using ok_closed [OF ok1] by simp
    then obtain s2 where "reply_unanswered i s1 = Some s2" "ok s1 s2"
      using reply_unanswered_ok [OF ok_inv [OF ok1]] by blast
    with StClosed reply ok_trans [OF ok1] sub show ?thesis
      by (simp add: responder_reply_def submitted_def)
  qed
qed

end
