(* ===== verification/Session_Exchange.thy ===== *)
theory Session_Exchange
  imports Session_Operations
begin

text \<open>
  The reader's and the receiver's side of a session: routing what arrives, handing requests to the
  application and waiting on promises. Each lemma says that the operation returns, that it is \<open>ok\<close>, and
  what it does.
\<close>


section \<open>Routing\<close>

lemma state_clock_commute: "s\<lparr>s_state := st, s_clock := c\<rparr> = s\<lparr>s_clock := c, s_state := st\<rparr>"
  by (cases s) simp

lemma map_le_forget: "m(i := None) \<subseteq>\<^sub>m m"
  by (auto simp: map_le_def)

lemma session_now_reads: "\<exists>c. session_now s = (fst (clock_now (s_clock s)), s\<lparr>s_clock := c\<rparr>)"
  by (auto simp: session_now_def split: prod.splits)

text \<open>What admission does to an open session.\<close>

definition admitted :: "header \<Rightarrow> bytes \<Rightarrow> 'p session \<Rightarrow> (protocol_error, unit) result \<Rightarrow> 'p session \<Rightarrow> bool" where
  "admitted h bs s r s' \<longleftrightarrow> (case s_state s of
      StClosed err \<Rightarrow> r = Err err \<and> s' = s
    | StOpen q \<Rightarrow>
        (case r of
           Err err \<Rightarrow> s' = s \<and> (err = Malformed \<and> h_id h \<in> q_reserved q \<or>
             err = InboundRequestLimitExceeded (q_max_requests q) \<and> q_max_requests q \<le> card (q_reserved q) \<or>
             err = InboundByteLimitExceeded (q_max_bytes q) \<and> isl (charge_reserve (d_retained s) (length bs) (q_max_bytes q)))
         | Ok _ \<Rightarrow> \<exists>q'. s_state s' = StOpen q' \<and> h_id h \<notin> q_reserved q \<and> card (q_reserved q) < q_max_requests q \<and>
             q_reserved q' = insert (h_id h) (q_reserved q) \<and> q_incoming q' = q_incoming q @
               (if h_unknown h then [] else [(h_id h, \<lparr>in_bytes = bs, in_header = h\<rparr>)])))"

lemma admit_request_admitted: "admit_request h bs s = (r, s') \<Longrightarrow> admitted h bs s r s'"
  by (auto simp: admit_request_def admitted_def charge_reserve_def split: state.splits if_splits sum.splits)

lemma admit_request_ok:
  assumes inv: "session_inv s" and kind: "kind_from_id (h_id h) (parity_from (s_side s)) = Request"
    and admit: "admit_request h bs s = (r, s')"
  shows "isl r \<Longrightarrow> s' = s"
    and "\<not> isl r \<Longrightarrow> \<not> h_unknown h \<Longrightarrow> ok s s'"
    and "\<not> isl r \<Longrightarrow> h_unknown h \<Longrightarrow> ok s (s'\<lparr>s_held := s_held s @ [h_id h]\<rparr>)"
proof -
  show "isl r \<Longrightarrow> s' = s"
    using admit by (auto simp: admit_request_def split: state.splits if_splits sum.splits)
  assume ok: "\<not> isl r"
  then obtain q where q: "s_state s = StOpen q" using admit by (auto simp: admit_request_def split: state.splits)
  with inv have o: "open_inv s q" and typed: "typed_inv (d_promises s)" by (simp_all add: session_inv_def)
  have new: "h_id h \<notin> q_reserved q" "card (q_reserved q) < q_max_requests q"
    using admit ok q by (auto simp: admit_request_def split: if_splits)
  have res: "reserved_inv s q" using o by (simp add: open_inv_def)
  have fin: "finite (q_reserved q)" using res by (simp add: reserved_inv_def)
  show "ok s s'" if known: "\<not> h_unknown h"
  proof -
    let ?e = "\<lparr>in_bytes = bs, in_header = h\<rparr>"
    let ?q = "q\<lparr>q_reserved := insert (h_id h) (q_reserved q), q_incoming := q_incoming q @ [(h_id h, ?e)]\<rparr>"
    obtain used where used: "charge_reserve (d_retained s) (length bs) (q_max_bytes q) = Ok used"
      and s': "s' = set_queues ?q (s\<lparr>d_retained := used\<rparr>)"
      using admit ok q known new by (auto simp: admit_request_def split: sum.splits)
    note charge = charge_reserve_Ok [OF used]
    have "reserved_inv s' ?q"
      using res new kind fin by (auto simp: reserved_inv_def request_places_def s')
    moreover have "incoming_charge (q_incoming ?q) = incoming_charge (q_incoming q) + length bs"
      by (simp add: incoming_charge_def in_charge_def)
    moreover have "ids_inv s' ?q" "writing_inv s' ?q" using o by (simp_all add: open_inv_def ids_inv_def writing_inv_def s')
    moreover have "ops_inv (d_promises s') (q_operations ?q)" "outgoing_inv (q_outgoing ?q) (q_operations ?q)"
      "d_retained s = desk_charge s + incoming_charge (q_incoming q)" using o by (simp_all add: open_inv_def s')
    moreover have "desk_charge s' = desk_charge s" "d_retained s' = used" "d_promises s' = d_promises s" by (simp_all add: s' desk_charge_def)
    ultimately have "open_inv s' ?q" using charge by (simp add: open_inv_def)
    with typed q show "ok s s'" by (simp add: ok_def session_inv_def history_kept_def promises_kept_refl s')
  qed
  show "ok s (s'\<lparr>s_held := s_held s @ [h_id h]\<rparr>)" if unknown: "h_unknown h"
  proof -
    let ?q = "q\<lparr>q_reserved := insert (h_id h) (q_reserved q)\<rparr>"
    have s': "s' = set_queues ?q s" using admit ok q unknown new by (auto simp: admit_request_def)
    let ?t = "s'\<lparr>s_held := s_held s @ [h_id h]\<rparr>"
    have "reserved_inv ?t ?q"
      using res new kind fin by (auto simp: reserved_inv_def request_places_def s')
    moreover have "ids_inv ?t ?q" "writing_inv ?t ?q" using o by (simp_all add: open_inv_def ids_inv_def writing_inv_def s')
    ultimately have "open_inv ?t ?q" using o by (simp add: open_inv_def s')
    with typed q show ?thesis by (simp add: ok_def session_inv_def history_kept_def promises_kept_refl s')
  qed
qed

lemma ops_inv_pending:
  assumes "ops_inv ps ops" "(k, po) \<in> set ops"
  shows "k < length ps" "p_result (ps ! k) = None" "p_response (ps ! k) = po_response po" "p_deadline (ps ! k) = po_deadline po"
proof -
  have "\<forall>(k, po) \<in> set ops. k < length ps \<and> p_result (ps ! k) = None \<and> p_response (ps ! k) = po_response po \<and>
      p_deadline (ps ! k) = po_deadline po" using assms(1) by (simp add: ops_inv_def)
  with assms(2) show "k < length ps" "p_result (ps ! k) = None" "p_response (ps ! k) = po_response po"
    "p_deadline (ps ! k) = po_deadline po" by auto
qed

lemma ops_inv_lookup:
  assumes "ops_inv (d_promises s) ops" "map_of ops k = Some po"
  shows "open_slot s k" "p_response (d_promises s ! k) = po_response po" "(k, po) \<in> set ops" "k < length (d_promises s)"
    "p_result (d_promises s ! k) = None"
  using assms map_of_SomeD [OF assms(2)] by (auto simp: ops_inv_def open_slot_def)

lemma reserved_inv_cong:
  assumes "reserved_inv s q" "s_held s' = s_held s" "s_side s' = s_side s" "q_incoming q' = q_incoming q"
    "reply_ids (q_outgoing q') = reply_ids (q_outgoing q)" "q_reserved q' = q_reserved q" "q_max_requests q' = q_max_requests q"
  shows "reserved_inv s' q'"
  using assms(1) unfolding reserved_inv_def request_places_def assms(2-7) .

lemma settled_state: "settled K (s\<lparr>s_state := st\<rparr>) s' \<Longrightarrow> settled K s (s'\<lparr>s_state := s_state s\<rparr>)"
proof -
  assume set: "settled K (s\<lparr>s_state := st\<rparr>) s'"
  have "desk.more (s'\<lparr>s_state := s_state s\<rparr>) = desk.more s" if "desk.more s' = desk.more (s\<lparr>s_state := st\<rparr>)"
    using that by (cases s; cases s') simp
  moreover have "d_promises (s\<lparr>s_state := st\<rparr>) = d_promises s" "d_promises (s'\<lparr>s_state := s_state s\<rparr>) = d_promises s'"
    "d_taken (s\<lparr>s_state := st\<rparr>) = d_taken s" "d_taken (s'\<lparr>s_state := s_state s\<rparr>) = d_taken s'"
    "d_due (s\<lparr>s_state := st\<rparr>) = d_due s" "d_due (s'\<lparr>s_state := s_state s\<rparr>) = d_due s'"
    "d_called (s\<lparr>s_state := st\<rparr>) = d_called s" "d_called (s'\<lparr>s_state := s_state s\<rparr>) = d_called s'" by simp_all
  ultimately show ?thesis using set unfolding settled_def by metis
qed

text \<open>Settling one operation that is not in the queue keeps the rest of an open session.\<close>

lemma settle_one_ok:
  assumes inv: "session_inv s" and q: "s_state s = StOpen q"
    and q': "q' = q\<lparr>q_outstanding := out, q_operations := filter (\<lambda>(j, _). j \<noteq> k) (q_operations q)\<rparr>" "out \<subseteq>\<^sub>m q_outstanding q"
    and k: "k \<in> fst ` set (q_operations q)" "k \<notin> og_key ` set (q_outgoing q)"
    and set: "settled {k} (set_queues q' s) s'" and typed: "typed_inv (d_promises s')"
    and charge: "d_retained s' + desk_charge s = d_retained s + desk_charge s'" "d_retained s' \<le> q_max_bytes q"
  shows "ok s s'"
proof -
  have o: "open_inv s q" using inv q by (simp add: session_inv_def)
  then have ops: "ops_inv (d_promises s) (q_operations q)" by (simp add: open_inv_def)
  note set' = settled_state [OF set]
  have more: "s_state s' = StOpen q'" "s_side s' = s_side s" "s_held s' = s_held s" "s_writing s' = s_writing s"
    using session_more [of s' "set_queues q' s"] set by (simp_all add: settled_def)
  have kept: "promises_kept (d_promises s) (d_promises s')"
    using settled_kept [OF set'] ops_inv_open_slot [OF ops k(1)] by simp
  have "ops_inv (d_promises s') (q_operations q')"
    using ops_inv_settled [OF ops set'] k(1) by (simp add: q')
  moreover have "outgoing_inv (q_outgoing q') (q_operations q')"
  proof -
    have out: "outgoing_inv (q_outgoing q) (q_operations q)" using o by (simp add: open_inv_def)
    have "\<exists>po. (og_key og, po) \<in> set (q_operations q') \<and> po_response po = is_request og" if "og \<in> set (q_outgoing q)" for og
    proof -
      have "og_key og \<noteq> k" using that k(2) by auto
      moreover have "\<exists>po. (og_key og, po) \<in> set (q_operations q) \<and> po_response po = is_request og"
        using out that by (simp add: outgoing_inv_def)
      moreover have "set (q_operations q') = {op \<in> set (q_operations q). fst op \<noteq> k}" by (auto simp: q'(1))
      ultimately show ?thesis by auto
    qed
    then show ?thesis using out by (simp add: outgoing_inv_def q')
  qed
  moreover have "ids_inv s' q'"
    by (rule ids_inv_mono [OF _ kept more(2)]) (use o q' in \<open>auto simp: open_inv_def\<close>)
  moreover have "writing_inv s' q'"
    by (rule writing_inv_mono [OF _ kept more(4)]) (use o q' in \<open>auto simp: open_inv_def\<close>)
  moreover have "reserved_inv s q" using o by (simp add: open_inv_def)
  then have "reserved_inv s' q'" by (rule reserved_inv_cong) (simp_all add: more q'(1))
  moreover have "d_retained s = desk_charge s + incoming_charge (q_incoming q)" using o by (simp add: open_inv_def)
  ultimately have "open_inv s' q'" using charge by (simp add: open_inv_def q')
  with typed kept more q q' show ?thesis by (simp add: ok_def session_inv_def history_kept_def)
qed


text \<open>What a response does: it is discarded unless it answers a request that is still pending, and then
  it settles that request's promise and no other.\<close>

definition answer :: "pending \<Rightarrow> instant \<Rightarrow> nat \<Rightarrow> nat \<Rightarrow> incoming \<Rightarrow> (protocol_error, promise_result) result" where
  "answer po now used limit e =
     (if now \<ge> po_deadline po then Err Timeout
      else if isl (charge_reserve used (in_charge e) limit) then Err (InboundByteLimitExceeded limit)
      else Ok (PResponse e))"

definition responded :: "header \<Rightarrow> bytes \<Rightarrow> 'p session \<Rightarrow> (protocol_error, unit) result \<Rightarrow> 'p session \<Rightarrow> bool" where
  "responded h bs s r s' \<longleftrightarrow> (case s_state s of
      StClosed err \<Rightarrow> r = Err err \<and> s' = s
    | StOpen q \<Rightarrow>
        (case q_outstanding q (h_id h) of
           None \<Rightarrow> r = Ok () \<and> s' = s
         | Some k \<Rightarrow> \<exists>q'. s_state s' = StOpen q' \<and> q_outstanding q' = (q_outstanding q)(h_id h := None) \<and>
             k \<notin> fst ` set (q_operations q') \<and>
             (\<forall>j < length (d_promises s). j \<noteq> k \<longrightarrow> d_promises s' ! j = d_promises s ! j) \<and>
             (case map_of (q_operations q) k of
                None \<Rightarrow> r = Ok () \<and> d_promises s' = d_promises s
              | Some po \<Rightarrow>
                  let a = answer po (fst (clock_now (s_clock s))) (d_retained s) (q_max_bytes q) \<lparr>in_bytes = bs, in_header = h\<rparr>
                  in p_holder (d_promises s' ! k) = p_holder (d_promises s ! k) \<and>
                     (p_holder (d_promises s ! k) = Held \<longrightarrow> p_result (d_promises s' ! k) = Some a) \<and>
                     (\<forall>err. r = Err err \<longrightarrow> a = Err err))))"

lemma typed_inv_complete_response:
  assumes typed: "typed_inv (d_promises d)" and complete: "complete_response k po now e limit d = Some (x, d')"
    and response: "p_response (d_promises d ! k)"
  shows "typed_inv (d_promises d')"
proof -
  consider y err where "result_send k (Err err) d = Some (y, d')"
    | y used where "result_send k (Ok (PResponse e)) (d\<lparr>d_retained := used\<rparr>) = Some (y, d')"
    using complete by (auto simp: complete_response_def operation_fail_def bind_eq_Some_conv split: if_splits sum.splits)
  then show ?thesis
  proof cases
    case 1
    then show ?thesis by (rule typed_inv_result_send [OF typed]) simp
  next
    case 2
    then show ?thesis by (rule typed_inv_result_send [rotated]) (use typed response in simp_all)
  qed
qed

lemma ops_filter_keys: "k \<notin> fst ` set (filter (\<lambda>(j, _). j \<noteq> k) ops)"
  by auto

lemma admit_response_ok:
  assumes inv: "session_inv s"
  shows "\<exists>r s'. admit_response h bs s = Some (r, s') \<and> ok s s' \<and> responded h bs s r s'"
proof (cases "s_state s")
  case (StClosed err)
  with inv show ?thesis by (simp add: admit_response_def ok_refl responded_def)
next
  case (StOpen q)
  with inv have o: "open_inv s q" and typed: "typed_inv (d_promises s)" by (simp_all add: session_inv_def)
  then have ops: "ops_inv (d_promises s) (q_operations q)" by (simp add: open_inv_def)
  show ?thesis
  proof (cases "q_outstanding q (h_id h)")
    case None
    with inv StOpen show ?thesis by (simp add: admit_response_def ok_refl responded_def)
  next
    case (Some k)
    let ?out = "(q_outstanding q)(h_id h := None)"
    have k: "k \<notin> og_key ` set (q_outgoing q)" "k < length (d_promises s)" "p_response (d_promises s ! k)"
      using o Some unfolding open_inv_def ids_inv_def by blast+
    show ?thesis
    proof (cases "map_of (q_operations q) k")
      case None
      let ?q = "q\<lparr>q_outstanding := ?out\<rparr>"
      have "ids_inv (set_queues ?q s) ?q"
        by (rule ids_inv_mono [where s = s and q = q])
          (use o in \<open>auto simp: open_inv_def promises_kept_refl map_le_def\<close>)
      moreover have "writing_inv (set_queues ?q s) ?q" using o by (simp add: open_inv_def writing_inv_def)
      moreover have "reserved_inv (set_queues ?q s) ?q"
        by (rule reserved_inv_cong [where s = s and q = q]) (use o in \<open>simp_all add: open_inv_def\<close>)
      ultimately have "open_inv (set_queues ?q s) ?q" using o unfolding open_inv_def by simp
      with typed StOpen have "ok s (set_queues ?q s)"
        by (simp add: ok_def session_inv_def history_kept_def promises_kept_refl)
      moreover have "k \<notin> fst ` set (q_operations q)" using None by (simp add: map_of_eq_None_iff)
      ultimately show ?thesis
        using StOpen Some None by (simp add: admit_response_def responded_def)
    next
      case op: (Some po)
      note look = ops_inv_lookup [OF ops op]
      let ?q = "q\<lparr>q_outstanding := ?out, q_operations := filter (\<lambda>(j, _). j \<noteq> k) (q_operations q)\<rparr>"
      let ?e = "\<lparr>in_bytes = bs, in_header = h\<rparr>"
      obtain now c where clock: "session_now (set_queues ?q s) = (now, (set_queues ?q s)\<lparr>s_clock := c\<rparr>)"
        and now: "now = fst (clock_now (s_clock s))" using session_now_reads [of "set_queues ?q s"] by auto
      let ?s1 = "(set_queues ?q s)\<lparr>s_clock := c\<rparr>"
      have "open_slot ?s1 k" "po_response po" using look k(3) by (simp_all add: open_slot_def)
      then obtain callbacks r s2 where complete: "complete_response k po now ?e (q_max_bytes q) ?s1 = Some ((callbacks, r), s2)"
        by (rule complete_response_returns)
      note outcome = complete_response_Some [OF complete]
      have typed2: "typed_inv (d_promises s2)"
        by (rule typed_inv_complete_response [OF _ complete]) (use typed k(3) in simp_all)
      have set: "settled {k} (set_queues ?q (s\<lparr>s_clock := c\<rparr>)) s2"
        using outcome(1) unfolding state_clock_commute .
      have "ok (s\<lparr>s_clock := c\<rparr>) s2"
      proof (rule settle_one_ok [OF _ _ _ _ _ k(1) set typed2])
        show "k \<in> fst ` set (q_operations q)" using look(3) by force
        show "d_retained s2 \<le> q_max_bytes q" using outcome(3) o by (simp add: open_inv_def)
        show "?out \<subseteq>\<^sub>m q_outstanding q" by (rule map_le_forget)
      qed (use inv StOpen outcome(2) in simp_all)
      then have "ok s s2" by simp
      moreover have "admit_response h bs s = Some (r, defer_notes callbacks s2)"
        using StOpen Some op clock complete by (simp add: admit_response_def)
      moreover have "responded h bs s r (defer_notes callbacks s2)"
      proof -
        have "s_state s2 = StOpen ?q" using session_more(1) [of s2 ?s1] outcome(1) by (simp add: settled_def)
        moreover have "\<forall>j < length (d_promises s). j \<noteq> k \<longrightarrow> d_promises s2 ! j = d_promises s ! j"
          using settled_other [OF outcome(1)] by simp
        moreover have "\<forall>err. r = Err err \<longrightarrow> answer po now (d_retained s) (q_max_bytes q) ?e = Err err"
          using outcome(4,5) by (auto simp: answer_def)
        moreover have "p_holder (d_promises s2 ! k) = p_holder (d_promises s ! k)"
          using settled_holder [OF outcome(1)] k(2) by simp
        ultimately show ?thesis
          using StOpen Some op outcome(4) ops_filter_keys [of k] now by (auto simp: responded_def answer_def Let_def)
      qed
      ultimately show ?thesis by simp
    qed
  qed
qed


lemma route_message_ok:
  assumes inv: "session_inv s"
  shows "\<exists>r s'. route_message h bs s = Some (r, s') \<and> ok s s' \<and> (\<forall>i. r = Ok (Some i) \<longrightarrow> may_reply i s')"
proof (cases "kind_from_id (h_id h) (parity_from (s_side s))")
  case Response
  obtain r s' where "admit_response h bs s = Some (r, s')" "ok s s'" using admit_response_ok [OF inv] by blast
  with Response show ?thesis by (cases r) (simp_all add: route_message_def)
next
  case Request
  show ?thesis
  proof (cases "h_failed h")
    case True
    with Request inv show ?thesis by (simp add: route_message_def ok_refl)
  next
    case False
    obtain r s1 where admit: "admit_request h bs s = (r, s1)" by fastforce
    have held: "s_held s1 = s_held s"
      using admit by (auto simp: admit_request_def split: state.splits if_splits sum.splits)
    show ?thesis
      using admit_request_ok [OF inv Request admit] Request False admit held ok_refl [OF inv]
      by (cases r; cases "h_unknown h") (simp_all add: route_message_def)
  qed
qed

lemma handle_message_ok:
  assumes codec: "prost_codec pb" and inv: "session_inv s"
  shows "\<exists>r s'. handle_message pb bs s = Some (r, s') \<and> ok s s'"
proof -
  obtain hr where hr: "decode_header pb (s_side s) bs = Some hr"
    using prost_codec.decode_header_returns [OF codec] by blast
  show ?thesis
  proof (cases hr)
    case (Inl err)
    with hr inv show ?thesis by (simp add: handle_message_def ok_refl)
  next
    case (Inr h)
    obtain r s1 where route: "route_message h bs s = Some (r, s1)" and ok1: "ok s s1"
      and may: "\<forall>i. r = Ok (Some i) \<longrightarrow> may_reply i s1"
      using route_message_ok [OF inv] by blast
    consider err where "r = Err err" | "r = Ok None" | i where "r = Ok (Some i)" by (cases r) auto
    then show ?thesis
    proof cases
      case (3 i)
      with may obtain s2 where "reply_unknown i s1 = Some s2" "ok s1 s2"
        using reply_unknown_ok [OF ok_inv [OF ok1]] by blast
      with 3 hr Inr route ok_trans [OF ok1] show ?thesis by (simp add: handle_message_def)
    qed (use hr Inr route ok1 in \<open>simp_all add: handle_message_def\<close>)
  qed
qed


section \<open>Receiving\<close>

lemma incoming_charge_Cons: "incoming_charge ((i, e) # xs) = in_charge e + incoming_charge xs"
  by (simp add: incoming_charge_def)

lemma take_request_ok:
  assumes inv: "session_inv s" and take: "take_request s = (r, s')"
  shows "ok s s'" and "r = Ready (Ok (i, e)) \<Longrightarrow> e \<in> set (d_taken s') \<and> i \<in> set (s_held s')"
proof -
  show "r = Ready (Ok (i, e)) \<Longrightarrow> e \<in> set (d_taken s') \<and> i \<in> set (s_held s')"
    using take by (auto simp: take_request_def split: state.splits list.splits)
  show "ok s s'"
  proof (cases "s_state s")
    case (StClosed err)
    with take inv show ?thesis by (simp add: take_request_def ok_refl)
  next
    case (StOpen q)
    show ?thesis
    proof (cases "q_incoming q")
      case Nil
      with StOpen take inv show ?thesis by (simp add: take_request_def ok_refl)
    next
      case (Cons x rest)
      obtain i e where x: "x = (i, e)" by fastforce
      let ?q = "q\<lparr>q_incoming := rest\<rparr>"
      have s': "s' = (set_queues ?q s)\<lparr>d_taken := d_taken s @ [e], s_held := s_held s @ [i]\<rparr>"
        using StOpen Cons x take by (simp add: take_request_def)
      have o: "open_inv s q" and typed: "typed_inv (d_promises s)" using inv StOpen by (simp_all add: session_inv_def)
      have "reserved_inv s' ?q"
        using o Cons x unfolding open_inv_def reserved_inv_def request_places_def s' by auto
      moreover have "ids_inv s' ?q" "writing_inv s' ?q" using o by (simp_all add: open_inv_def ids_inv_def writing_inv_def s')
      moreover have "desk_charge s' = desk_charge s + in_charge e" by (simp add: desk_charge_def s')
      moreover have "incoming_charge (q_incoming q) = in_charge e + incoming_charge rest"
        unfolding Cons x by (rule incoming_charge_Cons)
      moreover have "d_retained s' = d_retained s" "d_promises s' = d_promises s" by (simp_all add: s')
      ultimately have "open_inv s' ?q" using o by (simp add: open_inv_def)
      with typed StOpen show ?thesis by (simp add: ok_def session_inv_def history_kept_def promises_kept_refl s')
    qed
  qed
qed

lemma incoming_decode_ok:
  assumes inv: "session_inv s" and e: "e \<in> set (d_taken s)"
  shows "\<exists>r s'. incoming_decode pb e s = Some (r, s') \<and> ok s s' \<and> (may_reply i s \<longrightarrow> may_reply i s')"
proof -
  obtain s1 where rel: "envelope_release e s = Some s1" and ok1: "ok s s1" and same: "s_held s1 = s_held s" "s_state s1 = s_state s"
    using envelope_release_ok [OF inv e] by blast
  obtain s2 where close: "session_close Malformed s1 = Some s2" and by2: "closed_by Malformed (fst (clock_now (s_clock s1))) s1 s2"
    using session_close_ok [OF ok_inv [OF ok1]] by blast
  have closed: "may_reply i s2" using by2 by (auto simp: closed_by_def split: state.splits)
  have ok2: "ok s s2" using ok_trans [OF ok1 closed_by_ok [OF by2]] .
  show ?thesis
  proof (cases "envelope_decode pb (s_side s1) (in_bytes e)")
    case (Inl err)
    with rel close ok2 closed show ?thesis by (simp add: incoming_decode_def)
  next
    case (Inr b)
    with rel ok1 same show ?thesis by (cases "snd b"; cases b) (simp_all add: incoming_decode_def)
  qed
qed

lemma session_recv_ok:
  assumes inv: "session_inv s"
  shows "\<exists>r s'. session_recv pb s = Some (r, s') \<and> ok s s'"
proof -
  obtain w s1 where take: "take_request s = (w, s1)" by fastforce
  have ok1: "ok s s1" by (rule take_request_ok [OF inv take])
  consider "w = Wait" | err where "w = Ready (Err err)" | i e where "w = Ready (Ok (i, e))"
    by (metis waiting.exhaust sum.exhaust surj_pair)
  then show ?thesis
  proof cases
    case (3 i e)
    have held: "e \<in> set (d_taken s1)" "may_reply i s1" using take_request_ok(2) [OF inv take 3] by simp_all
    obtain r s2 where decode: "incoming_decode pb e s1 = Some (r, s2)" and ok2: "ok s1 s2" and may: "may_reply i s2"
      using incoming_decode_ok [OF ok_inv [OF ok1] held(1), of pb i] held(2) by blast
    obtain s3 where "reply_unanswered i s2 = Some s3" "ok s2 s3"
      using reply_unanswered_ok [OF ok_inv [OF ok2] may] by blast
    with 3 take decode ok_trans [OF ok1 ok2] ok_trans [OF ok_trans [OF ok1 ok2]] show ?thesis
      by (cases r) (simp_all add: session_recv_def)
  qed (use take ok1 in \<open>simp_all add: session_recv_def\<close>)
qed

lemma session_expire_ok:
  assumes inv: "session_inv s"
  shows "\<exists>s'. session_expire s = Some s' \<and> ok s s' \<and> length (d_promises s') = length (d_promises s) \<and>
    (\<forall>k < length (d_promises s). p_holder (d_promises s' ! k) = p_holder (d_promises s ! k))"
proof -
  obtain now c where clock: "session_now s = (now, s\<lparr>s_clock := c\<rparr>)" by (metis session_nowE surj_pair)
  have "session_inv (s\<lparr>s_clock := c\<rparr>)" using inv by simp
  then obtain callbacks s' where "state_expire now (s\<lparr>s_clock := c\<rparr>) = Some (callbacks, s')" "expired_by now (s\<lparr>s_clock := c\<rparr>) s'"
    by (rule state_expire_ok)
  then show ?thesis by (simp add: session_expire_def clock expired_by_def)
qed

lemma promise_kept_response: "ok s s' \<Longrightarrow> k < length (d_promises s) \<Longrightarrow> p_response (d_promises s' ! k) = p_response (d_promises s ! k)"
  by (auto simp: ok_def history_kept_def promises_kept_def promise_kept_def)

lemma response_wait_ok:
  assumes inv: "session_inv s" and k: "k < length (d_promises s)" "p_holder (d_promises s ! k) = Held" "p_response (d_promises s ! k)"
  shows "\<exists>r s'. response_wait pb k s = Some (r, s') \<and> ok s s'"
proof -
  obtain s1 where exp: "session_expire s = Some s1" and ok1: "ok s s1" and len: "length (d_promises s1) = length (d_promises s)"
    and hold: "p_holder (d_promises s1 ! k) = Held" using session_expire_ok [OF inv] k by auto
  obtain x s2 where recv: "promise_receive k s1 = (x, s2)" by fastforce
  have k1: "k < length (d_promises s1)" "p_response (d_promises s1 ! k)"
    using k len promise_kept_response [OF ok1] by simp_all
  note got = promise_receive_ok [OF ok_inv [OF ok1] k1(1) hold recv]
  have ok2: "ok s s2" using ok_trans [OF ok1 got(1)] .
  consider "x = None" | err where "x = Some (Err err)" | e where "x = Some (Ok (PResponse e))" | "x = Some (Ok PWritten)"
    by (metis not_Some_eq sum.exhaust promise_result.exhaust)
  then show ?thesis
  proof cases
    case (3 e)
    obtain r s3 where "incoming_decode pb e s2 = Some (r, s3)" "ok s2 s3"
      using incoming_decode_ok [OF ok_inv [OF ok2]] got(3) [OF 3] by blast
    with 3 exp recv ok_trans [OF ok2] show ?thesis by (simp add: response_wait_def)
  qed (use exp recv ok2 k1(2) got(4) in \<open>simp_all add: response_wait_def\<close>)
qed

lemma written_wait_ok:
  assumes inv: "session_inv s" and k: "k < length (d_promises s)" "p_holder (d_promises s ! k) = Held" "\<not> p_response (d_promises s ! k)"
  shows "\<exists>r s'. written_wait k s = Some (r, s') \<and> ok s s'"
proof -
  obtain s1 where exp: "session_expire s = Some s1" and ok1: "ok s s1" and len: "length (d_promises s1) = length (d_promises s)"
    and hold: "p_holder (d_promises s1 ! k) = Held" using session_expire_ok [OF inv] k by auto
  obtain x s2 where recv: "promise_receive k s1 = (x, s2)" by fastforce
  have k1: "k < length (d_promises s1)" "\<not> p_response (d_promises s1 ! k)"
    using k len promise_kept_response [OF ok1] by simp_all
  note got = promise_receive_ok [OF ok_inv [OF ok1] k1(1) hold recv]
  have ok2: "ok s s2" using ok_trans [OF ok1 got(1)] .
  consider "x = None" | err where "x = Some (Err err)" | e where "x = Some (Ok (PResponse e))" | "x = Some (Ok PWritten)"
    by (metis not_Some_eq sum.exhaust promise_result.exhaust)
  then show ?thesis
    using exp recv ok2 k1(2) got(3) by cases (simp_all add: written_wait_def)
qed

end
