(* ===== verification/Session_Writer.thy ===== *)
theory Session_Writer
  imports Session_Exchange
begin

text \<open>
  The writer and the deadline thread of a session: taking the next message, giving it its
  identifier, reporting the fate of the write, and expiring what nobody waits for.
\<close>


section \<open>Taking a message\<close>

text \<open>The log identifier of an operation is no part of the invariant.\<close>

definition relabel :: "nat \<Rightarrow> id \<Rightarrow> (nat \<times> pending) list \<Rightarrow> (nat \<times> pending) list" where
  "relabel k i ops = map (\<lambda>(j, po). (j, if j = k then po\<lparr>po_log_id := Some i\<rparr> else po)) ops"

lemma relabel_keys [simp]: "map fst (relabel k i ops) = map fst ops" "fst ` set (relabel k i ops) = fst ` set ops"
  by (force simp: relabel_def)+

lemma relabelD:
  assumes "(j, po) \<in> set (relabel k i ops)"
  obtains po' where "(j, po') \<in> set ops" "po_response po = po_response po'" "po_deadline po = po_deadline po'"
proof -
  from assms obtain po' where "(j, po') \<in> set ops" "po = (if j = k then po'\<lparr>po_log_id := Some i\<rparr> else po')"
    by (auto simp: relabel_def)
  then show thesis by (intro that [of po']) simp_all
qed

lemma relabelI:
  assumes "(j, po) \<in> set ops"
  obtains po' where "(j, po') \<in> set (relabel k i ops)" "po_response po' = po_response po"
proof
  show "(j, if j = k then po\<lparr>po_log_id := Some i\<rparr> else po) \<in> set (relabel k i ops)"
    using assms by (force simp: relabel_def)
qed simp

lemma ops_inv_relabel:
  assumes "ops_inv ps ops"
  shows "ops_inv ps (relabel k i ops)"
proof -
  have "j < length ps \<and> p_result (ps ! j) = None \<and> p_response (ps ! j) = po_response po \<and> p_deadline (ps ! j) = po_deadline po"
    if relabelled: "(j, po) \<in> set (relabel k i ops)" for j po
  proof -
    obtain po' where po': "(j, po') \<in> set ops" "po_response po = po_response po'" "po_deadline po = po_deadline po'"
      using relabelled by (rule relabelD)
    with ops_inv_pending [OF assms po'(1)] show ?thesis by simp
  qed
  with assms show ?thesis by (auto simp: ops_inv_def)
qed

lemma outgoing_inv_relabel:
  assumes "outgoing_inv ogs ops"
  shows "outgoing_inv ogs (relabel k i ops)"
proof -
  have "\<exists>po. (og_key og, po) \<in> set (relabel k i ops) \<and> po_response po = is_request og" if og: "og \<in> set ogs" for og
  proof -
    obtain po where "(og_key og, po) \<in> set ops" "po_response po = is_request og"
      using assms og by (auto simp: outgoing_inv_def)
    then show ?thesis by (metis relabelI)
  qed
  with assms show ?thesis by (simp add: outgoing_inv_def)
qed

lemma outgoing_inv_tl: "outgoing_inv (og # ogs) ops \<Longrightarrow> outgoing_inv ogs ops \<and> og_key og \<notin> og_key ` set ogs"
  by (auto simp: outgoing_inv_def)

text \<open>The message at the head of the queue belongs to a pending operation of its own kind.\<close>

lemma queue_head:
  assumes "open_inv s q" "q_outgoing q = og # rest"
  shows "og_key og < length (d_promises s)" "p_response (d_promises s ! og_key og) \<longleftrightarrow> is_request og"
    "og_key og \<notin> og_key ` set rest" "outgoing_inv rest (q_operations q)"
    "\<exists>po. (og_key og, po) \<in> set (q_operations q) \<and> po_deadline po = p_deadline (d_promises s ! og_key og)"
    "\<And>i. q_outstanding q i \<noteq> Some (og_key og)"
proof -
  have out: "outgoing_inv (og # rest) (q_operations q)" using assms by (simp add: open_inv_def)
  then obtain po where po: "(og_key og, po) \<in> set (q_operations q)" "po_response po = is_request og"
    by (auto simp: outgoing_inv_def)
  have "ops_inv (d_promises s) (q_operations q)" using assms(1) by (simp add: open_inv_def)
  from ops_inv_pending [OF this po(1)] po show "og_key og < length (d_promises s)" "p_response (d_promises s ! og_key og) \<longleftrightarrow> is_request og"
    "\<exists>po. (og_key og, po) \<in> set (q_operations q) \<and> po_deadline po = p_deadline (d_promises s ! og_key og)" by auto
  show "og_key og \<notin> og_key ` set rest" "outgoing_inv rest (q_operations q)"
    using outgoing_inv_tl [OF out] by simp_all
  show "q_outstanding q i \<noteq> Some (og_key og)" for i
    using assms by (auto simp: open_inv_def ids_inv_def)
qed

lemma take_head_request_ok:
  assumes inv: "session_inv s" and q: "s_state s = StOpen q" "q_outgoing q = og # rest" "og_body og = OutRequest m" "q_next_id q = Some i"
    and q': "q' = q\<lparr>q_outgoing := rest, q_next_id := id_checked_add2 i, q_outstanding := (q_outstanding q)(i \<mapsto> og_key og),
      q_operations := relabel (og_key og) i (q_operations q)\<rparr>"
  shows "ok s ((set_queues q' s)\<lparr>s_writing := Some (i, og)\<rparr>)"
proof -
  let ?s' = "(set_queues q' s)\<lparr>s_writing := Some (i, og)\<rparr>"
  have o: "open_inv s q" and typed: "typed_inv (d_promises s)" using inv q(1) by (simp_all add: session_inv_def)
  note head = queue_head [OF o q(2)]
  have req: "is_request og" by (simp add: is_request_def q(3))
  have ids: "ids_inv s q" using o by (simp add: open_inv_def)
  have below: "unat j < unat i" "k < length (d_promises s)" "p_response (d_promises s ! k)" "parity_of j = parity_from (s_side s)"
    "k \<notin> og_key ` set rest" if "q_outstanding q j = Some k" for j k
    using ids that q(2,4) by (auto simp: ids_inv_def)
  have "ids_inv ?s' q'"
  proof -
    have next_id: "parity_of n = parity_from (s_side s) \<and> unat n = unat i + 2" if "id_checked_add2 i = Some n" for n
      using ids q(4) id_checked_add2_Some [OF that] by (simp add: ids_inv_def)
    have "k < length (d_promises s) \<and> p_response (d_promises s ! k) \<and> parity_of j = parity_from (s_side s) \<and>
        (\<forall>n. id_checked_add2 i = Some n \<longrightarrow> unat j < unat n) \<and> k \<notin> og_key ` set rest"
      if "((q_outstanding q)(i \<mapsto> og_key og)) j = Some k" for j k
    proof (cases "j = i")
      case True
      with that head req ids q(4) next_id show ?thesis by (auto simp: ids_inv_def)
    next
      case False
      with that have old: "q_outstanding q j = Some k" by simp
      show ?thesis using below [OF old] next_id by auto
    qed
    moreover have "j = j'" if "((q_outstanding q)(i \<mapsto> og_key og)) j = Some k" "((q_outstanding q)(i \<mapsto> og_key og)) j' = Some k" for j j' k
    proof -
      have inj: "j = j'" if "q_outstanding q j = Some k" "q_outstanding q j' = Some k"
        using ids that unfolding ids_inv_def by blast
      show ?thesis using that inj head(6) [of j] head(6) [of j'] by (simp split: if_splits)
    qed
    ultimately have "(\<forall>n. id_checked_add2 i = Some n \<longrightarrow> parity_of n = parity_from (s_side s)) \<and>
        (\<forall>j k. ((q_outstanding q)(i \<mapsto> og_key og)) j = Some k \<longrightarrow> k < length (d_promises s) \<and> p_response (d_promises s ! k) \<and>
          parity_of j = parity_from (s_side s) \<and> (\<forall>n. id_checked_add2 i = Some n \<longrightarrow> unat j < unat n) \<and> k \<notin> og_key ` set rest) \<and>
        (\<forall>j j' k. ((q_outstanding q)(i \<mapsto> og_key og)) j = Some k \<longrightarrow> ((q_outstanding q)(i \<mapsto> og_key og)) j' = Some k \<longrightarrow> j = j')"
      using next_id by blast
    moreover have "q_next_id q' = id_checked_add2 i" "q_outstanding q' = (q_outstanding q)(i \<mapsto> og_key og)" "q_outgoing q' = rest"
      "s_side ?s' = s_side s" "d_promises ?s' = d_promises s" by (simp_all add: q')
    ultimately show ?thesis unfolding ids_inv_def by presburger
  qed
  moreover have "writing_inv ?s' q'" using head by (simp add: writing_inv_def q')
  moreover have "reserved_inv ?s' q'"
  proof (rule reserved_inv_cong [where s = s and q = q])
    show "reserved_inv s q" using o by (simp add: open_inv_def)
    show "reply_ids (q_outgoing q') = reply_ids (q_outgoing q)" by (simp add: q q')
  qed (simp_all add: q')
  moreover have "outgoing_inv (q_outgoing q') (q_operations q')"
    using outgoing_inv_relabel [OF head(4)] by (simp add: q')
  moreover have "ops_inv (d_promises s) (q_operations q')"
    using o ops_inv_relabel by (simp add: open_inv_def q')
  ultimately have "open_inv ?s' q'" using o by (simp add: open_inv_def q')
  moreover have "q_next_id q' = q_next_id q \<or> (\<exists>n. q_next_id q = Some n \<and> (\<forall>n'. q_next_id q' = Some n' \<longrightarrow> unat n < unat n'))"
    using q(4) id_checked_add2_Some(1) [of i] by (simp add: q')
  ultimately show ?thesis
    using typed q(1,4) by (simp add: ok_def session_inv_def history_kept_def promises_kept_refl)
qed

lemma take_head_reply_ok:
  assumes inv: "session_inv s" and q: "s_state s = StOpen q" "q_outgoing q = og # rest" "og_body og = OutReply i b"
    and q': "q' = q\<lparr>q_outgoing := rest, q_reserved := q_reserved q - {i}\<rparr>"
  shows "ok s ((set_queues q' s)\<lparr>s_writing := Some (i, og)\<rparr>)" "i \<in> q_reserved q"
    "kind_from_id i (parity_from (s_side s)) = Request"
proof -
  let ?s' = "(set_queues q' s)\<lparr>s_writing := Some (i, og)\<rparr>"
  have o: "open_inv s q" and typed: "typed_inv (d_promises s)" using inv q(1) by (simp_all add: session_inv_def)
  note head = queue_head [OF o q(2)]
  have res: "reserved_inv s q" using o by (simp add: open_inv_def)
  have places: "set (request_places s q) = insert i (set (request_places ?s' q'))" "distinct (request_places ?s' q')"
    "i \<notin> set (request_places ?s' q')"
    using res unfolding reserved_inv_def request_places_def by (auto simp: q q')
  show mem: "i \<in> q_reserved q" using res places(1) by (auto simp: reserved_inv_def)
  then show "kind_from_id i (parity_from (s_side s)) = Request" using res by (simp add: reserved_inv_def)
  have fin: "finite (q_reserved q)" using res by (simp add: reserved_inv_def)
  have "reserved_inv ?s' q'"
  proof -
    have "q_reserved q' = set (request_places ?s' q')" using res places unfolding reserved_inv_def by (auto simp: q')
    moreover have "card (q_reserved q') \<le> q_max_requests q'"
    proof -
      have "card (q_reserved q - {i}) \<le> card (q_reserved q)" using fin by (simp add: card_mono)
      also have "\<dots> \<le> q_max_requests q" using res unfolding reserved_inv_def by blast
      finally show ?thesis by (simp add: q')
    qed
    moreover have "\<forall>j \<in> q_reserved q'. kind_from_id j (parity_from (s_side ?s')) = Request"
      using res by (auto simp: reserved_inv_def q')
    ultimately show ?thesis using places(2) unfolding reserved_inv_def by blast
  qed
  moreover have "ids_inv ?s' q'"
    by (rule ids_inv_mono [where s = s and q = q]) (use o q in \<open>auto simp: open_inv_def q' promises_kept_refl\<close>)
  moreover have "writing_inv ?s' q'" using head by (simp add: writing_inv_def q')
  moreover have "outgoing_inv (q_outgoing q') (q_operations q')" using head(4) by (simp add: q')
  ultimately have "open_inv ?s' q'" using o by (simp add: open_inv_def q')
  then show "ok s ?s'"
    using typed q(1) by (simp add: ok_def session_inv_def history_kept_def promises_kept_refl q')
qed


text \<open>What one pass of the writer takes: the first message whose deadline has not passed, a request
  under the next identifier of its own parity, a reply under the identifier it answers.\<close>

definition taken :: "'p session \<Rightarrow> 'p write_turn \<Rightarrow> 'p session \<Rightarrow> bool" where
  "taken s t s' \<longleftrightarrow> (case t of
      Again \<Rightarrow> True
    | Idle \<Rightarrow> \<exists>q. s_state s' = StOpen q \<and> q_outgoing q = []
    | Ended \<Rightarrow> s' = s\<lparr>s_clock := s_clock s'\<rparr> \<and> (\<exists>err. s_state s = StClosed err)
    | Took i og \<Rightarrow> s_writing s' = Some (i, og) \<and> (\<exists>q q'. s_state s = StOpen q \<and> s_state s' = StOpen q' \<and>
        (let live = (\<lambda>og. fst (clock_now (s_clock s)) < p_deadline (d_promises s ! og_key og))
         in filter live (q_outgoing q) = og # q_outgoing q') \<and>
        (case og_body og of
           OutRequest _ \<Rightarrow> q_next_id q = Some i \<and> q_next_id q' = id_checked_add2 i \<and>
             q_outstanding q' = (q_outstanding q)(i \<mapsto> og_key og) \<and> q_outstanding q i = None \<and>
             kind_from_id i (parity_from (s_side s)) = Response
         | OutReply j _ \<Rightarrow> i = j \<and> i \<in> q_reserved q \<and> i \<notin> q_reserved q' \<and>
             kind_from_id i (parity_from (s_side s)) = Request)))"

lemma live_queue:
  assumes "open_inv s q"
  shows "filter (\<lambda>og. og_key og \<in> fst ` set (filter (\<lambda>(k, po). \<not> now \<ge> po_deadline po) (q_operations q))) (q_outgoing q) =
    filter (\<lambda>og. now < p_deadline (d_promises s ! og_key og)) (q_outgoing q)"
proof (rule filter_cong [OF refl])
  fix og assume og: "og \<in> set (q_outgoing q)"
  let ?k = "og_key og" and ?ops = "q_operations q"
  have ops: "ops_inv (d_promises s) ?ops" and out: "outgoing_inv (q_outgoing q) ?ops" using assms by (simp_all add: open_inv_def)
  have dist: "distinct (map fst ?ops)" using ops by (simp add: ops_inv_def)
  obtain po where po: "(?k, po) \<in> set ?ops" using out og by (auto simp: outgoing_inv_def)
  have "po_deadline po = p_deadline (d_promises s ! ?k)" using ops_inv_pending [OF ops po] by simp
  moreover have "?k \<in> fst ` set (filter (\<lambda>(k, po). \<not> now \<ge> po_deadline po) ?ops) \<longleftrightarrow> \<not> now \<ge> po_deadline po"
  proof
    assume "?k \<in> fst ` set (filter (\<lambda>(k, po). \<not> now \<ge> po_deadline po) ?ops)"
    then obtain po' where po': "(?k, po') \<in> set ?ops" "\<not> now \<ge> po_deadline po'" by auto
    then show "\<not> now \<ge> po_deadline po" using eq_key_imp_eq_value [OF dist po'(1) po] by simp
  next
    assume "\<not> now \<ge> po_deadline po"
    with po show "?k \<in> fst ` set (filter (\<lambda>(k, po). \<not> now \<ge> po_deadline po) ?ops)" by force
  qed
  ultimately show "?k \<in> fst ` set (filter (\<lambda>(k, po). \<not> now \<ge> po_deadline po) ?ops) \<longleftrightarrow> now < p_deadline (d_promises s ! ?k)"
    by (simp add: not_le)
qed

lemma expired_by_open:
  assumes "expired_by now s s'" "s_state s = StOpen q"
  obtains q' where "s_state s' = StOpen q'" "q_outgoing q' = filter (\<lambda>og. og_key og \<in> fst ` set (q_operations q')) (q_outgoing q)"
    "q_operations q' = filter (\<lambda>(k, po). \<not> now \<ge> po_deadline po) (q_operations q)"
    "q_outstanding q' = q_outstanding q" "q_next_id q' = q_next_id q" "ok s s'" "s_side s' = s_side s"
  using assms by (auto simp: expired_by_def ok_def history_kept_def)

lemma session_inv_open: "session_inv s \<Longrightarrow> s_state s = StOpen q \<Longrightarrow> open_inv s q"
  by (simp add: session_inv_def)

lemma reserved_shrinks:
  assumes "state_expire now s = Some (cs, s')" "s_state s = StOpen q" "s_state s' = StOpen q'"
  shows "q_reserved q' \<subseteq> q_reserved q"
  using assms by (auto simp: state_expire_def Let_def bind_eq_Some_conv)

lemma next_outgoing_ok:
  assumes inv: "session_inv s" and ids: "\<forall>q. s_state s = StOpen q \<longrightarrow> q_next_id q \<noteq> None"
  shows "\<exists>t s'. next_outgoing s = Some (t, s') \<and> ok s s' \<and> taken s t s'"
proof -
  obtain now c where clock: "session_now s = (now, s\<lparr>s_clock := c\<rparr>)" and now: "now = fst (clock_now (s_clock s))"
    using session_now_reads by blast
  let ?s1 = "s\<lparr>s_clock := c\<rparr>"
  have inv1: "session_inv ?s1" using inv by simp
  obtain callbacks s2 where expire: "state_expire now ?s1 = Some (callbacks, s2)" and by2: "expired_by now ?s1 s2"
    using state_expire_ok [OF inv1] by blast
  have ok2: "ok s s2" using by2 by (simp add: expired_by_def)
  show ?thesis
  proof (cases "callbacks = [] \<and> (\<exists>q. s_state s = StOpen q)")
    case False
    then consider "callbacks \<noteq> []" | err where "callbacks = []" "s_state s = StClosed err" by (metis state.exhaust)
    then show ?thesis
    proof cases
      case 2
      have "s2 = ?s1" using 2 by2 by (simp add: expired_by_def)
      then show ?thesis using 2 clock expire ok2 by (simp add: next_outgoing_def taken_def)
    qed (use clock expire ok2 in \<open>simp add: next_outgoing_def taken_def\<close>)
  next
    case True
    then obtain q where q: "s_state s = StOpen q" and none: "callbacks = []" by blast
    have q1: "s_state ?s1 = StOpen q" using q by simp
    obtain q2 where q2: "s_state s2 = StOpen q2" and out: "q_outgoing q2 = filter (\<lambda>og. og_key og \<in> fst ` set (q_operations q2)) (q_outgoing q)"
      and ops: "q_operations q2 = filter (\<lambda>(k, po). \<not> now \<ge> po_deadline po) (q_operations q)"
      and same: "q_outstanding q2 = q_outstanding q" "q_next_id q2 = q_next_id q" "s_side s2 = s_side s"
      using expired_by_open [OF by2 q1] by (metis session.select_convs(2) session.surjective session.update_convs(3))
    have live: "q_outgoing q2 = filter (\<lambda>og. now < p_deadline (d_promises s ! og_key og)) (q_outgoing q)"
      unfolding out ops by (rule live_queue [OF session_inv_open [OF inv q]])
    have inv2: "session_inv s2" by (rule ok_inv [OF ok2])
    show ?thesis
    proof (cases "q_outgoing q2")
      case Nil
      then show ?thesis using clock expire none q2 ok2 by (simp add: next_outgoing_def taken_def)
    next
      case (Cons og rest)
      show ?thesis
      proof (cases "og_body og")
        case (OutRequest m)
        obtain i where i: "q_next_id q2 = Some i" using ids q same(2) by force
        define q3 where "q3 = q2\<lparr>q_outgoing := rest, q_next_id := id_checked_add2 i, q_outstanding := (q_outstanding q2)(i \<mapsto> og_key og),
          q_operations := relabel (og_key og) i (q_operations q2)\<rparr>"
        let ?s3 = "(set_queues q3 s2)\<lparr>s_writing := Some (i, og)\<rparr>"
        have "ok s2 ?s3" by (rule take_head_request_ok [OF inv2 q2 Cons OutRequest i q3_def])
        moreover have "ids_inv s2 q2" using session_inv_open [OF inv2 q2] by (simp add: open_inv_def)
        then have "\<forall>j k. q_outstanding q2 j = Some k \<longrightarrow> unat j < unat i" "parity_of i = parity_from (s_side s2)"
          using i by (simp_all add: ids_inv_def)
        then have "q_outstanding q i = None" "parity_of i = parity_from (s_side s)"
          unfolding same by (metis less_irrefl not_None_eq, simp)
        moreover have "next_outgoing s = Some (Took i og, ?s3)"
          using clock expire none q2 Cons OutRequest i by (simp add: next_outgoing_def q3_def relabel_def)
        ultimately show ?thesis
          using OutRequest q i same live Cons ok_trans [OF ok2] now by (simp add: taken_def q3_def kind_from_id_def)
      next
        case (OutReply i b)
        define q3 where "q3 = q2\<lparr>q_outgoing := rest, q_reserved := q_reserved q2 - {i}\<rparr>"
        let ?s3 = "(set_queues q3 s2)\<lparr>s_writing := Some (i, og)\<rparr>"
        note reply = take_head_reply_ok [OF inv2 q2 Cons OutReply q3_def]
        have "i \<in> q_reserved q" using reserved_shrinks [OF expire q1 q2] reply(2) by blast
        moreover have "next_outgoing s = Some (Took i og, ?s3)"
          using clock expire none q2 Cons OutReply by (simp add: next_outgoing_def q3_def)
        ultimately show ?thesis
          using OutReply q same live Cons ok_trans [OF ok2 reply(1)] reply(3) now by (simp add: taken_def q3_def)
      qed
    qed
  qed
qed


section \<open>Reporting a write\<close>

text \<open>The operation whose write is reported is not in the queue.\<close>

abbreviation unqueued :: "nat \<Rightarrow> 'p session \<Rightarrow> bool" where
  "unqueued k s \<equiv> \<forall>q. s_state s = StOpen q \<longrightarrow> k \<notin> og_key ` set (q_outgoing q)"

text \<open>What reporting does: a failed or late write fails its operation, a written reply is done, a
  written request goes on waiting, and an operation settled meanwhile is left alone.\<close>

definition reported :: "nat \<Rightarrow> (protocol_error, unit) result \<Rightarrow> 'p session \<Rightarrow> 'p session \<Rightarrow> bool" where
  "reported k r s s' \<longleftrightarrow> (case s_state s of
      StClosed _ \<Rightarrow> s' = s
    | StOpen q \<Rightarrow>
        (case map_of (q_operations q) k of
           None \<Rightarrow> s' = s
         | Some po \<Rightarrow> (\<forall>j < length (d_promises s). j \<noteq> k \<longrightarrow> d_promises s' ! j = d_promises s ! j) \<and>
             (p_holder (d_promises s ! k) = Held \<longrightarrow> p_result (d_promises s' ! k) =
                (if fst (clock_now (s_clock s)) \<ge> po_deadline po then Some (Err Timeout)
                 else case r of Err err \<Rightarrow> Some (Err err)
                   | Ok _ \<Rightarrow> if po_response po then None else Some (Ok PWritten)))))"

lemma record_write_ok:
  assumes inv: "session_inv s" and k: "unqueued k s"
  shows "\<exists>s'. record_write k r s = Some s' \<and> ok s s' \<and> reported k r s s'"
proof (cases "\<exists>q po. s_state s = StOpen q \<and> map_of (q_operations q) k = Some po")
  case False
  then have "record_write k r s = Some s \<and> reported k r s s"
    by (auto simp: record_write_def reported_def split: state.splits option.splits)
  with ok_refl [OF inv] show ?thesis by blast
next
  case True
  then obtain q po where q: "s_state s = StOpen q" and po: "map_of (q_operations q) k = Some po" by blast
  have o: "open_inv s q" and typed: "typed_inv (d_promises s)" using inv q by (simp_all add: session_inv_def)
  then have ops: "ops_inv (d_promises s) (q_operations q)" by (simp add: open_inv_def)
  note look = ops_inv_lookup [OF ops po]
  obtain now c where clock: "session_now s = (now, s\<lparr>s_clock := c\<rparr>)" and now: "now = fst (clock_now (s_clock s))"
    using session_now_reads by blast
  define q' where "q' = q\<lparr>q_outstanding := q_outstanding q, q_operations := filter (\<lambda>(j, _). j \<noteq> k) (q_operations q)\<rparr>"
  let ?s1 = "s\<lparr>s_clock := c\<rparr>"
  have q'': "q\<lparr>q_operations := filter (\<lambda>(j, _). j \<noteq> k) (q_operations q)\<rparr> = q'" by (cases q) (simp add: q'_def)
  have settle: "ok s s'" "\<forall>j < length (d_promises s). j \<noteq> k \<longrightarrow> d_promises s' ! j = d_promises s ! j"
      "p_holder (d_promises s ! k) = Held \<Longrightarrow> p_result (d_promises s' ! k) = Some res"
    if send: "result_send k res (set_queues q' ?s1) = Some ((delivered, callback), s')" and fits: "result_fits (Some res) (po_response po)"
      and free: "result_charge res = 0" for res delivered callback s'
  proof -
    note sent = result_send_Some [OF send]
    have typed': "typed_inv (d_promises s')"
      by (rule typed_inv_result_send [OF _ send]) (use typed fits look(2) in simp_all)
    have "ok ?s1 s'"
    proof (rule settle_one_ok [OF _ _ q'_def _ _ _ sent(4) typed'])
      show "k \<in> fst ` set (q_operations q)" using look(3) by force
      show "k \<notin> og_key ` set (q_outgoing q)" using k q by blast
      show "d_retained s' \<le> q_max_bytes q" using sent(7) o by (simp add: open_inv_def)
      show "d_retained s' + desk_charge ?s1 = d_retained ?s1 + desk_charge s'" using sent(6) free by simp
    qed (use inv q in simp_all)
    then show "ok s s'" by simp
    show "\<forall>j < length (d_promises s). j \<noteq> k \<longrightarrow> d_promises s' ! j = d_promises s ! j" using settled_other [OF sent(4)] by simp
    show "p_holder (d_promises s ! k) = Held \<Longrightarrow> p_result (d_promises s' ! k) = Some res" using sent(2,5) by simp
  qed
  have slot: "open_slot (set_queues q' ?s1) k" using look(1) by (simp add: open_slot_def)
  have returns: "\<exists>d c s'. result_send k res (set_queues q' ?s1) = Some ((d, c), s')" if "result_charge res = 0" for res
    by (rule result_send_returns [OF slot, of res]) (use that in auto)
  consider (fail) "now \<ge> po_deadline po \<or> isl r" | (written) "now < po_deadline po" "\<not> isl r" "\<not> po_response po"
    | (sent) "now < po_deadline po" "\<not> isl r" "po_response po" by force
  then show ?thesis
  proof cases
    case fail
    let ?err = "case r of Err err \<Rightarrow> err | Ok _ \<Rightarrow> Timeout"
    let ?res = "Err (if now \<ge> po_deadline po then Timeout else ?err) :: (protocol_error, promise_result) result"
    obtain d cb s' where send: "result_send k ?res (set_queues q' ?s1) = Some ((d, cb), s')" using returns [of ?res] by auto
    have "record_write k r s = Some (defer_notes (note_of cb) s')"
      using q po clock fail send by (simp add: record_write_def q'' operation_fail_def)
    with settle [OF send] q po now fail look(1) show ?thesis
      by (cases r) (auto simp: reported_def)
  next
    case written
    obtain d cb s' where send: "result_send k (Ok PWritten) (set_queues q' ?s1) = Some ((d, cb), s')" using returns [of "Ok PWritten"] by auto
    have "record_write k r s = Some (defer_notes (note_of cb) s')"
      using q po clock written send by (simp add: record_write_def q'')
    with settle [OF send] q po now written look(1) show ?thesis by (cases r) (auto simp: reported_def)
  next
    case sent
    have "record_write k r s = Some ?s1" using q po clock sent by (simp add: record_write_def)
    moreover have "reported k r s ?s1" using q po now sent look(5) by (cases r) (simp_all add: reported_def)
    ultimately show ?thesis using ok_refl [OF inv] by simp
  qed
qed

lemma forget_refused_ok:
  assumes inv: "session_inv s"
  shows "ok s (forget_refused i b r s)"
proof (cases "\<exists>q m. s_state s = StOpen q \<and> b = OutRequest m \<and> isl r")
  case False
  then have "forget_refused i b r s = s" by (auto simp: forget_refused_def split: state.splits outgoing_body.splits)
  with ok_refl [OF inv] show ?thesis by simp
next
  case True
  then obtain q m where q: "s_state s = StOpen q" "b = OutRequest m" "isl r" by blast
  let ?q = "q\<lparr>q_outstanding := (q_outstanding q)(i := None)\<rparr>"
  have o: "open_inv s q" and typed: "typed_inv (d_promises s)" using inv q by (simp_all add: session_inv_def)
  have "ids_inv (set_queues ?q s) ?q"
    by (rule ids_inv_mono [where s = s and q = q]) (use o in \<open>auto simp: open_inv_def promises_kept_refl map_le_def\<close>)
  moreover have "writing_inv (set_queues ?q s) ?q" using o by (simp add: open_inv_def writing_inv_def)
  moreover have "reserved_inv (set_queues ?q s) ?q"
    by (rule reserved_inv_cong [where s = s and q = q]) (use o in \<open>simp_all add: open_inv_def\<close>)
  ultimately have "open_inv (set_queues ?q s) ?q" using o unfolding open_inv_def by simp
  then show ?thesis using typed q by (simp add: forget_refused_def ok_def session_inv_def history_kept_def promises_kept_refl)
qed

lemma idle_writer_ok: "ok s s' \<Longrightarrow> ok s (s'\<lparr>s_writing := None\<rparr>)"
proof -
  assume ok: "ok s s'"
  have "open_inv (s'\<lparr>s_writing := None\<rparr>) q" if o: "open_inv s' q" for q
  proof -
    have "reserved_inv (s'\<lparr>s_writing := None\<rparr>) q" "ids_inv (s'\<lparr>s_writing := None\<rparr>) q"
      by (rule reserved_inv_cong [where s = s' and q = q], use o in \<open>simp_all add: open_inv_def\<close>)
        (use o in \<open>simp add: open_inv_def ids_inv_def\<close>)
    then show ?thesis using o by (simp add: open_inv_def writing_inv_def)
  qed
  then have "session_inv (s'\<lparr>s_writing := None\<rparr>)"
    using ok by (cases "s_state s'") (simp_all add: ok_def session_inv_def)
  then show ?thesis using ok by (simp add: ok_def history_kept_def)
qed

lemma writing_unqueued: "session_inv s \<Longrightarrow> s_writing s = Some (i, og) \<Longrightarrow> unqueued (og_key og) s"
  by (auto simp: session_inv_def open_inv_def writing_inv_def)

lemma finish_write_ok:
  assumes inv: "session_inv s" and w: "s_writing s = Some (i, og)"
  shows "\<exists>on s'. finish_write i og r s = Some (on, s') \<and> ok s s' \<and> s_writing s' = None \<and>
    (on \<longleftrightarrow> (\<forall>err. r \<noteq> Err (Transport err))) \<and> (\<not> on \<longrightarrow> (\<exists>err. s_state s' = StClosed err))"
proof (cases "\<exists>err. r = Err (Transport err)")
  case True
  then obtain err where r: "r = Err (Transport err)" by blast
  obtain s1 where close: "session_close (Transport err) s = Some s1" and by1: "closed_by (Transport err) (fst (clock_now (s_clock s))) s s1"
    by (rule session_close_ok [OF inv])
  with r show ?thesis
    using idle_writer_ok [OF closed_by_ok [OF by1]] by (auto simp: finish_write_def closed_by_def split: state.splits)
next
  case False
  let ?s1 = "forget_refused i (og_body og) r s"
  have ok1: "ok s ?s1" by (rule forget_refused_ok [OF inv])
  have "unqueued (og_key og) ?s1"
    using writing_unqueued [OF inv w] by (auto simp: forget_refused_def split: state.splits outgoing_body.splits if_splits)
  then obtain s2 where rec: "record_write (og_key og) r ?s1 = Some s2" and ok2: "ok ?s1 s2"
    using record_write_ok [OF ok_inv [OF ok1]] by blast
  have "finish_write i og r s = Some (True, s2\<lparr>s_writing := None\<rparr>)"
    using False rec by (auto simp: finish_write_def split: sum.splits protocol_error.splits)
  with False idle_writer_ok [OF ok_trans [OF ok1 ok2]] show ?thesis
    by (intro exI [of _ True] exI [of _ "s2\<lparr>s_writing := None\<rparr>"]) simp
qed


section \<open>Deadlines\<close>

text \<open>A pass of the deadline thread leaves no expired operation behind, and sleeps no longer than until
  the next deadline.\<close>

lemma deadlines_pass_ok:
  assumes inv: "session_inv s"
  shows "\<exists>t s'. deadlines_pass s = Some (t, s') \<and> ok s s' \<and>
    (\<forall>k < length (d_promises s). p_holder (d_promises s' ! k) = p_holder (d_promises s ! k)) \<and>
    (\<forall>q k po. s_state s' = StOpen q \<longrightarrow> (k, po) \<in> set (q_operations q) \<longrightarrow> fst (clock_now (s_clock s)) < po_deadline po \<and>
       (\<forall>d. t = DSleep d \<longrightarrow> (\<exists>e. d = Some e \<and> e \<le> po_deadline po)))"
proof -
  obtain now c where clock: "session_now s = (now, s\<lparr>s_clock := c\<rparr>)" and now: "now = fst (clock_now (s_clock s))"
    using session_now_reads by blast
  let ?s1 = "s\<lparr>s_clock := c\<rparr>"
  have inv1: "session_inv ?s1" using inv by simp
  obtain callbacks s2 where expire: "state_expire now ?s1 = Some (callbacks, s2)" and by2: "expired_by now ?s1 s2"
    using state_expire_ok [OF inv1] by blast
  have ok2: "ok s s2" using by2 by (simp add: expired_by_def)
  have same: "\<forall>k < length (d_promises s). p_holder (d_promises s2 ! k) = p_holder (d_promises s ! k)"
    using by2 by (simp add: expired_by_def)
  have live: "now < po_deadline po" if "s_state s2 = StOpen q2" "(k, po) \<in> set (q_operations q2)" for q2 k po
    using that by2 by (auto simp: expired_by_def split: state.splits)
  have least: "Min ((\<lambda>(k, po). po_deadline po) ` set ops) \<le> po_deadline po" if "(k, po) \<in> set ops" for ops :: "(nat \<times> pending) list" and k po
    using that by (intro Min_le) force+
  show ?thesis
    using clock expire ok2 same live least now by (cases "s_state s2") (auto simp: deadlines_pass_def)
qed

end
