(* ===== verification/Session_Machine.thy ===== *)
theory Session_Machine
  imports Session_Writer
begin

text \<open>
  A session as a machine: the threads of the application, the reader, the writer and the deadline
  thread interleave its critical sections in any order. Every reachable state satisfies the
  invariant, and the properties of the session are read off it.
\<close>


section \<open>The step relation\<close>

text \<open>One rule is one critical section, with what the type system or the caller guarantees as its
  guard: a promise is waited for or dropped by its only owner, a reply comes from the responder
  that holds the identifier. \<open>autoreply\<close> is its reply and the drop of its promise. A promise accepts one callback,
  which is named after it; the callbacks that a step collected run later, between the steps of any thread. What closing does after
  its critical section may follow at once or later: \<open>decode\<close> then also stands for the drop of a removed envelope. First the steps of
  the threads other than the writer: the application's, the reader's and the deadline thread's.\<close>

inductive other_step :: "'p session \<Rightarrow> 'p session \<Rightarrow> bool" where
  request: "session_request m deadline s = Some (r, s') \<Longrightarrow> other_step s s'"
| reply: "i \<in> set (s_held s) \<Longrightarrow> session_reply i b deadline s = Some (r, s') \<Longrightarrow> other_step s s'"
| notify: "k < length (d_promises s) \<Longrightarrow> p_holder (d_promises s ! k) = Held \<Longrightarrow> promise_notify k k s = Some s' \<Longrightarrow>
    other_step s s'"
| receive: "k < length (d_promises s) \<Longrightarrow> p_holder (d_promises s ! k) = Held \<Longrightarrow> promise_receive k s = (r, s') \<Longrightarrow>
    other_step s s'"
| drop: "k < length (d_promises s) \<Longrightarrow> p_holder (d_promises s ! k) = Held \<Longrightarrow> promise_drop k s = Some s' \<Longrightarrow>
    other_step s s'"
| decode: "e \<in> set (d_taken s) \<Longrightarrow> envelope_release e s = Some s' \<Longrightarrow> other_step s s'"
| autoreply_timeout: "other_step s (set_autoreply_timeout timeout s)"
| limits: "set_inbound_limits requests limit s = Some s' \<Longrightarrow> other_step s s'"
| route: "route_message h bs s = Some (r, s') \<Longrightarrow> other_step s s'"
| recv: "take_request s = (r, s') \<Longrightarrow> other_step s s'"
| close: "session_close err s = Some s' \<Longrightarrow> other_step s s'"
| expire: "session_expire s = Some s' \<Longrightarrow> other_step s s'"
| deadlines: "deadlines_pass s = Some (t, s') \<Longrightarrow> other_step s s'"
| close_locked: "session_close_locked err s = Some s' \<Longrightarrow> other_step s s'"
| limits_locked: "set_inbound_limits_locked requests limit s = Some s' \<Longrightarrow> other_step s s'"
| stop_stream: "s_state s = StClosed err \<Longrightarrow> s_has_stream s \<Longrightarrow> other_step s (s\<lparr>s_stream_closed := True\<rparr>)"
| callback: "c \<in> set (d_due s) \<Longrightarrow> other_step s (run_note c s)"

text \<open>The writer takes one message at a time and reports it before the next; a session that ran out of
  identifiers has no writer step: the writer thread panicked.\<close>

inductive session_step :: "'p session \<Rightarrow> 'p session \<Rightarrow> bool" where
  other: "other_step s s' \<Longrightarrow> session_step s s'"
| take_out: "s_writing s = None \<Longrightarrow> next_outgoing s = Some (t, s') \<Longrightarrow> session_step s s'"
| refused: "s_writing s = Some (i, og) \<Longrightarrow> session_step s (forget_refused i (og_body og) r s)"
| report: "s_writing s = Some (i, og) \<Longrightarrow> record_write (og_key og) r s = Some s' \<Longrightarrow> session_step s (s'\<lparr>s_writing := None\<rparr>)"
| stop_writer: "s_state s = StClosed err \<Longrightarrow> session_step s (s\<lparr>s_writing := None\<rparr>)"

abbreviation session_run :: "'p session \<Rightarrow> 'p session \<Rightarrow> bool" where
  "session_run \<equiv> session_step\<^sup>*\<^sup>*"

lemma next_outgoing_exhausted:
  assumes inv: "session_inv s" and took: "next_outgoing s = Some (t, s')" and q: "s_state s = StOpen q" "q_next_id q = None"
  shows "ok s s'"
proof -
  obtain now c where clock: "session_now s = (now, s\<lparr>s_clock := c\<rparr>)" using session_now_reads by blast
  have inv1: "session_inv (s\<lparr>s_clock := c\<rparr>)" and q1: "s_state (s\<lparr>s_clock := c\<rparr>) = StOpen q" using inv q by simp_all
  obtain callbacks s2 where expire: "state_expire now (s\<lparr>s_clock := c\<rparr>) = Some (callbacks, s2)" and by2: "expired_by now (s\<lparr>s_clock := c\<rparr>) s2"
    using state_expire_ok [OF inv1] by blast
  have ok2: "ok s s2" using by2 by (simp add: expired_by_def)
  obtain q2 where q2: "s_state s2 = StOpen q2" "q_next_id q2 = None" using expired_by_open [OF by2 q1] q(2) by metis
  consider "s' = defer_notes callbacks s2" | "s' = s2"
    | og rest i b where "q_outgoing q2 = og # rest" "og_body og = OutReply i b"
      "s' = (set_queues (q2\<lparr>q_outgoing := rest, q_reserved := q_reserved q2 - {i}\<rparr>) s2)\<lparr>s_writing := Some (i, og)\<rparr>"
    using took clock expire q2 by (auto simp: next_outgoing_def split: if_splits list.splits outgoing_body.splits)
  then show ?thesis
  proof cases
    case 3
    show ?thesis unfolding 3(3)
      by (rule ok_trans [OF ok2 take_head_reply_ok(1) [OF ok_inv [OF ok2] q2(1) 3(1,2) refl]])
  qed (use ok2 in simp_all)
qed

lemma took_next_id:
  assumes inv: "session_inv s" and took: "next_outgoing s = Some (Took i og, s')" and body: "og_body og = OutRequest m"
    and q: "s_state s = StOpen q"
  shows "q_next_id q \<noteq> None"
proof
  assume none: "q_next_id q = None"
  obtain now c where clock: "session_now s = (now, s\<lparr>s_clock := c\<rparr>)" using session_now_reads by blast
  have inv1: "session_inv (s\<lparr>s_clock := c\<rparr>)" and q1: "s_state (s\<lparr>s_clock := c\<rparr>) = StOpen q" using inv q by simp_all
  obtain callbacks s2 where expire: "state_expire now (s\<lparr>s_clock := c\<rparr>) = Some (callbacks, s2)" and by2: "expired_by now (s\<lparr>s_clock := c\<rparr>) s2"
    using state_expire_ok [OF inv1] by blast
  obtain q2 where "s_state s2 = StOpen q2" "q_next_id q2 = None" using expired_by_open [OF by2 q1] none by metis
  with took body clock expire show False
    by (auto simp: next_outgoing_def split: if_splits list.splits outgoing_body.splits)
qed

lemma took_request_taken:
  assumes "session_inv s" "next_outgoing s = Some (Took i og, s')" "og_body og = OutRequest m"
  shows "taken s (Took i og) s'"
  using next_outgoing_ok [OF assms(1)] took_next_id [OF assms] assms(2) by auto

lemma next_outgoing_kept: "session_inv s \<Longrightarrow> next_outgoing s = Some (t, s') \<Longrightarrow> ok s s'"
  using next_outgoing_ok [of s] next_outgoing_exhausted [of s t s'] by (metis option.inject prod.inject)

lemma other_step_ok:
  assumes "other_step s s'" "session_inv s"
  shows "ok s s'"
  using assms
proof (cases rule: other_step.cases)
  case (request m deadline r)
  with session_request_ok [OF assms(2), of m deadline] show ?thesis by auto
next
  case (reply i b deadline r)
  with session_reply_ok [OF assms(2), of i b deadline] show ?thesis by auto
next
  case (notify k)
  then have "\<not> p_registered (d_promises s ! k)" by (auto simp: promise_notify_def Let_def split: if_splits)
  from promise_notify_ok [OF assms(2) notify(1) this] notify(3) show ?thesis by (metis option.inject)
next
  case (receive k r)
  show ?thesis by (rule promise_receive_ok(1) [OF assms(2) receive])
next
  case (drop k)
  from promise_drop_ok [OF assms(2) drop(1,2)] drop(3) show ?thesis by (metis option.inject)
next
  case (decode e)
  from envelope_release_ok [OF assms(2) decode(1)] decode(2) show ?thesis by (metis option.inject)
next
  case (autoreply_timeout timeout)
  then show ?thesis using set_autoreply_timeout_ok [OF assms(2)] by simp
next
  case (limits requests limit)
  from set_inbound_limits_ok [OF assms(2)] limits show ?thesis by (metis option.inject)
next
  case (route h bs r)
  with route_message_ok [OF assms(2), of h bs] show ?thesis by auto
next
  case (recv r)
  show ?thesis by (rule take_request_ok(1) [OF assms(2) recv])
next
  case (close err)
  from session_close_ok [OF assms(2), of err] close closed_by_ok show ?thesis by (metis option.inject)
next
  case expire
  with session_expire_ok [OF assms(2)] show ?thesis by auto
next
  case (deadlines t)
  with deadlines_pass_ok [OF assms(2)] show ?thesis by auto
next
  case (close_locked err)
  from session_close_locked_ok [OF assms(2), of err] close_locked show ?thesis by (metis option.inject)
next
  case (limits_locked requests limit)
  show ?thesis by (rule set_inbound_limits_locked_ok [OF assms(2) limits_locked])
next
  case (stop_stream err)
  then show ?thesis using stop_stream_ok [OF assms(2)] by simp
next
  case (callback c)
  then show ?thesis using ok_run_note [OF ok_refl [OF assms(2)]] by simp
qed

lemma session_step_ok:
  assumes "session_step s s'" "session_inv s"
  shows "ok s s'"
  using assms
proof (cases rule: session_step.cases)
  case other
  then show ?thesis using other_step_ok assms(2) by blast
next
  case (take_out t)
  then show ?thesis using next_outgoing_kept [OF assms(2)] by simp
next
  case (refused i og r)
  then show ?thesis using forget_refused_ok [OF assms(2)] by simp
next
  case (report i og r s1)
  with record_write_ok [OF assms(2) writing_unqueued [OF assms(2) report(2)], of r] idle_writer_ok show ?thesis by auto
next
  case (stop_writer err)
  then show ?thesis using idle_writer_ok [OF ok_refl [OF assms(2)]] by simp
qed

lemma session_new_inv: "session_inv (session_new side has_stream c)"
  by (simp add: session_new_def session_inv_def open_inv_def typed_inv_def ops_inv_def outgoing_inv_def reserved_inv_def
      request_places_def ids_inv_def writing_inv_def desk_charge_def incoming_charge_def DEFAULT_MAX_INBOUND_REQUESTS_def)

interpretation protocol_session: transition_system "\<lambda>s. \<exists>side has_stream c. s = session_new side has_stream c"
  session_step session_inv
  by unfold_locales (auto simp: session_new_inv intro: ok_inv session_step_ok)

lemma run_inv: "session_run (session_new side has_stream c) s \<Longrightarrow> session_inv s"
  using protocol_session.inv_reachable by blast

lemma session_run_ok: "session_run s s' \<Longrightarrow> session_inv s \<Longrightarrow> ok s s'"
  by (induction rule: rtranclp_induct) (auto intro: ok_refl ok_trans session_step_ok ok_inv)

end
