(* ===== verification/Session_Properties.thy ===== *)
theory Session_Properties
  imports Session_Machine
begin

text \<open>
  The properties of a session, over every interleaving of its threads.
\<close>


section \<open>Accounting and ownership\<close>

text \<open>C12: the byte counter of a session is at all times the sum of the sizes of the envelopes that
  exist: unread responses of promises that still exist, envelopes a caller has taken and not decoded or a closer
  has not dropped yet, and queued requests. It never exceeds the configured limit while the session is open, and neither
  does the number of accepted requests.\<close>

theorem session_accounting:
  assumes "session_run (session_new side has_stream c) s"
  shows "d_retained s = sum_list (map unread_charge (d_promises s)) + sum_list (map in_charge (d_taken s)) +
      (case s_state s of StOpen q \<Rightarrow> incoming_charge (q_incoming q) | StClosed _ \<Rightarrow> 0) \<and>
    (\<forall>q. s_state s = StOpen q \<longrightarrow> d_retained s \<le> q_max_bytes q \<and> card (q_reserved q) \<le> q_max_requests q)"
proof (cases "s_state s")
  case (StOpen q)
  have o: "open_inv s q" using run_inv assms StOpen session_inv_open by blast
  then have "reserved_inv s q" by (simp add: open_inv_def)
  then have "card (q_reserved q) \<le> q_max_requests q" unfolding reserved_inv_def by blast
  with o StOpen show ?thesis by (simp add: open_inv_def desk_charge_def)
next
  case (StClosed err)
  with run_inv [OF assms] have "closed_inv s" by (simp add: session_inv_def)
  with StClosed show ?thesis by (simp add: closed_inv_def desk_charge_def)
qed

text \<open>C13: an accepted request of the peer is in exactly one place: waiting for the application, held by
  a responder, or answered in the outgoing queue. So its identifier is free again exactly when the
  answer leaves, is given up, or the session closes, and no request is answered twice.\<close>

theorem request_held_once:
  assumes "session_run (session_new side has_stream c) s" and "s_state s = StOpen q"
  shows "distinct (map fst (q_incoming q) @ s_held s @ reply_ids (q_outgoing q)) \<and>
    q_reserved q = set (map fst (q_incoming q) @ s_held s @ reply_ids (q_outgoing q)) \<and>
    (\<forall>i \<in> q_reserved q. kind_from_id i (parity_from (s_side s)) = Request)"
proof -
  have "open_inv s q" using run_inv assms session_inv_open by blast
  then have "reserved_inv s q" by (simp add: open_inv_def)
  then show ?thesis unfolding reserved_inv_def request_places_def by blast
qed


section \<open>Promises\<close>

text \<open>C4: no promise is lost: as long as its owner holds it and no result has come, the session is open
  and exactly one pending operation, with the promise's deadline, will deliver the result. Hence a
  promise of a closed session always has its result.\<close>

theorem promise_never_lost:
  assumes "session_run (session_new side has_stream c) s" and "k < length (d_promises s)"
    and "p_holder (d_promises s ! k) = Held" and "p_result (d_promises s ! k) = None"
  shows "\<exists>q. s_state s = StOpen q \<and> (\<exists>!po. (k, po) \<in> set (q_operations q) \<and>
    po_deadline po = p_deadline (d_promises s ! k) \<and> po_response po = p_response (d_promises s ! k))"
proof (cases "s_state s")
  case (StClosed err)
  with run_inv [OF assms(1)] have "closed_inv s" by (simp add: session_inv_def)
  with assms(2-4) show ?thesis by (auto simp: closed_inv_def)
next
  case (StOpen q)
  have "open_inv s q" using run_inv assms(1) StOpen session_inv_open by blast
  then have ops: "ops_inv (d_promises s) (q_operations q)" by (simp add: open_inv_def)
  then have dist: "distinct (map fst (q_operations q))" by (simp add: ops_inv_def)
  obtain po where po: "(k, po) \<in> set (q_operations q)" using ops assms(2-4) by (auto simp: ops_inv_def)
  have "po_deadline po = p_deadline (d_promises s ! k) \<and> po_response po = p_response (d_promises s ! k)"
    using ops_inv_pending [OF ops po] by simp
  with StOpen po show ?thesis by (auto dest: eq_key_imp_eq_value [OF dist])
qed

text \<open>The identifier of a request is below that of every request taken later in the run.\<close>

lemma later_request_id:
  assumes inv: "session_inv s" and first: "next_outgoing s = Some (Took i og, s')" "og_body og = OutRequest m"
    and run: "session_run s' t" and later: "next_outgoing t = Some (Took j og', t')" "og_body og' = OutRequest m'"
  shows "unat i < unat j"
proof -
  obtain q' where q': "s_state s' = StOpen q'" "q_next_id q' = id_checked_add2 i"
    using took_request_taken [OF inv first] first(2) by (auto simp: taken_def)
  have inv': "session_inv s'" using next_outgoing_kept [OF inv first(1)] by (simp add: ok_def)
  have kept: "ok s' t" using session_run_ok [OF run inv'] .
  obtain p where p: "s_state t = StOpen p" "q_next_id p = Some j"
    using took_request_taken [OF ok_inv [OF kept] later] later(2) by (auto simp: taken_def)
  obtain n where "q_next_id q' = Some n" "unat n \<le> unat j"
    using history_next_id [OF _ q'(1) p] kept by (auto simp: ok_def)
  with q'(2) id_checked_add2_Some(1) [of i n] show ?thesis by simp
qed

text \<open>C14: what the other side of a promise sees is final: once published, a result never changes, a
  dropped promise never gets one, and the deadline and the kind of the operation stay. A closed
  session stays closed for its first reason. Request identifiers are never reused: the next one
  never decreases, and the identifier the writer gives to a request is below the one it gives to any
  request it takes later in the run.\<close>

theorem promise_settled_once:
  assumes "session_run (session_new side has_stream c) s" and "session_run s t" and "k < length (d_promises s)"
  shows "k < length (d_promises t) \<and> promise_kept (d_promises s ! k) (d_promises t ! k) \<and>
    (\<forall>err. s_state s = StClosed err \<longrightarrow> s_state t = StClosed err) \<and>
    (\<forall>q q' n'. s_state s = StOpen q \<longrightarrow> s_state t = StOpen q' \<longrightarrow> q_next_id q' = Some n' \<longrightarrow>
       (\<exists>n. q_next_id q = Some n \<and> unat n \<le> unat n')) \<and>
    (\<forall>i og m s' j og' m' t'. next_outgoing s = Some (Took i og, s') \<longrightarrow> og_body og = OutRequest m \<longrightarrow>
       session_run s' t \<longrightarrow> next_outgoing t = Some (Took j og', t') \<longrightarrow> og_body og' = OutRequest m' \<longrightarrow>
       unat i < unat j)"
proof -
  have inv: "session_inv s" using run_inv assms(1) by blast
  from session_run_ok [OF assms(2) inv] have h: "history_kept s t" by (simp add: ok_def)
  have "k < length (d_promises t) \<and> promise_kept (d_promises s ! k) (d_promises t ! k)"
    using h assms(3) by (auto simp: history_kept_def promises_kept_def)
  moreover have "\<exists>n. q_next_id q = Some n \<and> unat n \<le> unat n'"
    if "s_state s = StOpen q" "s_state t = StOpen q'" "q_next_id q' = Some n'" for q q' n'
    using history_next_id [OF h that] by blast
  moreover have "unat i < unat j"
    if "next_outgoing s = Some (Took i og, s')" "og_body og = OutRequest m" "session_run s' t"
      "next_outgoing t = Some (Took j og', t')" "og_body og' = OutRequest m'" for i og m s' j og' m' t'
    using later_request_id [OF inv that] .
  ultimately show ?thesis using h unfolding history_kept_def by blast
qed

text \<open>The result of a promise whose operation has expired.\<close>

lemma settled_unless_pending:
  assumes inv: "session_inv s" and k: "k < length (d_promises s)" "p_holder (d_promises s ! k) = Held"
    and live: "\<And>q po. s_state s = StOpen q \<Longrightarrow> (k, po) \<in> set (q_operations q) \<Longrightarrow> now < po_deadline po"
    and late: "p_deadline (d_promises s ! k) \<le> now"
  shows "p_result (d_promises s ! k) \<noteq> None"
proof (cases "s_state s")
  case (StClosed err)
  with inv k show ?thesis by (auto simp: session_inv_def closed_inv_def)
next
  case (StOpen q)
  have ops: "ops_inv (d_promises s) (q_operations q)" using session_inv_open [OF inv StOpen] by (simp add: open_inv_def)
  show ?thesis
  proof
    assume "p_result (d_promises s ! k) = None"
    then obtain po where po: "(k, po) \<in> set (q_operations q)" using ops k by (auto simp: ops_inv_def)
    then have "po_deadline po = p_deadline (d_promises s ! k)" using ops_inv_pending [OF ops po] by simp
    with live [OF StOpen po] late show False by simp
  qed
qed

lemma expired_settled:
  assumes inv: "session_inv s" and k: "k < length (d_promises s)" "p_holder (d_promises s ! k) = Held"
    and late: "p_deadline (d_promises s ! k) \<le> fst (clock_now (s_clock s))"
  obtains s1 where "session_expire s = Some s1" "p_result (d_promises s1 ! k) \<noteq> None"
proof -
  obtain now c where clock: "session_now s = (now, s\<lparr>s_clock := c\<rparr>)" and now: "now = fst (clock_now (s_clock s))"
    using session_now_reads by blast
  have "session_inv (s\<lparr>s_clock := c\<rparr>)" using inv by simp
  then obtain cs s1 where expire: "state_expire now (s\<lparr>s_clock := c\<rparr>) = Some (cs, s1)" and by1: "expired_by now (s\<lparr>s_clock := c\<rparr>) s1"
    by (rule state_expire_ok)
  have live: "now < po_deadline po" if "s_state s1 = StOpen q" "(k, po) \<in> set (q_operations q)" for q po
    using that by1 by (auto simp: expired_by_def split: state.splits)
  have kept: "session_inv s1" "k < length (d_promises s1)" "p_holder (d_promises s1 ! k) = Held"
    "p_deadline (d_promises s1 ! k) = p_deadline (d_promises s ! k)"
    using by1 k by (auto simp: expired_by_def ok_def history_kept_def promises_kept_def promise_kept_def)
  have "p_result (d_promises s1 ! k) \<noteq> None"
    by (rule settled_unless_pending [OF kept(1-3) live]) (use late now kept(4) in simp_all)
  then show thesis using clock expire by (intro that [of "defer_notes cs s1"]) (simp_all add: session_expire_def defer_notes_def)
qed

text \<open>Only a promise without a result makes its owner wait.\<close>

lemma wait_unsettled:
  assumes "session_expire s = Some s1"
  shows "response_wait pb k s = Some (Wait, s') \<Longrightarrow> p_result (d_promises s1 ! k) = None"
    "written_wait k s = Some (Wait, s') \<Longrightarrow> p_result (d_promises s1 ! k) = None"
  using assms by (auto simp: response_wait_def written_wait_def promise_receive_def Let_def bind_eq_Some_conv
      split: option.splits sum.splits promise_result.splits)

text \<open>C7: no promise outlives its deadline. A caller that waits at or after the deadline gets a result and does not
  block, and where nobody waits, one pass of the deadline thread settles every promise whose deadline has come; when
  the thread then goes to sleep, it sleeps no longer than until the earliest deadline of those left.\<close>

theorem deadline_settles:
  assumes "session_run (session_new side has_stream c) s" and "k < length (d_promises s)" and "p_holder (d_promises s ! k) = Held"
  shows "(p_deadline (d_promises s ! k) \<le> fst (clock_now (s_clock s)) \<longrightarrow>
      (if p_response (d_promises s ! k) then \<exists>r s'. response_wait pb k s = Some (Ready r, s')
       else \<exists>r s'. written_wait k s = Some (Ready r, s'))) \<and>
    (\<exists>t s'. deadlines_pass s = Some (t, s') \<and>
      (p_deadline (d_promises s ! k) \<le> fst (clock_now (s_clock s)) \<longrightarrow> p_result (d_promises s' ! k) \<noteq> None) \<and>
      (\<forall>d. t = DSleep d \<longrightarrow> p_result (d_promises s' ! k) = None \<longrightarrow> (\<exists>e. d = Some e \<and> e \<le> p_deadline (d_promises s ! k))))"
proof (intro conjI)
  have inv: "session_inv s" using run_inv assms(1) by blast
  let ?late = "p_deadline (d_promises s ! k) \<le> fst (clock_now (s_clock s))"
  show "?late \<longrightarrow> (if p_response (d_promises s ! k) then \<exists>r s'. response_wait pb k s = Some (Ready r, s')
       else \<exists>r s'. written_wait k s = Some (Ready r, s'))"
  proof
    assume ?late
    with inv assms(2,3) obtain s1 where s1: "session_expire s = Some s1" "p_result (d_promises s1 ! k) \<noteq> None" by (rule expired_settled)
    show "if p_response (d_promises s ! k) then \<exists>r s'. response_wait pb k s = Some (Ready r, s')
       else \<exists>r s'. written_wait k s = Some (Ready r, s')"
      using response_wait_ok [OF inv assms(2,3), of pb] written_wait_ok [OF inv assms(2,3)] wait_unsettled [OF s1(1)] s1(2)
      by (metis waiting.exhaust)
  qed
  obtain t s' where pass: "deadlines_pass s = Some (t, s')" "ok s s'"
    and same: "\<forall>k < length (d_promises s). p_holder (d_promises s' ! k) = p_holder (d_promises s ! k)"
    and live: "\<forall>q k po. s_state s' = StOpen q \<longrightarrow> (k, po) \<in> set (q_operations q) \<longrightarrow> fst (clock_now (s_clock s)) < po_deadline po \<and>
       (\<forall>d. t = DSleep d \<longrightarrow> (\<exists>e. d = Some e \<and> e \<le> po_deadline po))" using deadlines_pass_ok [OF inv] by blast
  show "\<exists>t s'. deadlines_pass s = Some (t, s') \<and> (?late \<longrightarrow> p_result (d_promises s' ! k) \<noteq> None) \<and>
      (\<forall>d. t = DSleep d \<longrightarrow> p_result (d_promises s' ! k) = None \<longrightarrow> (\<exists>e. d = Some e \<and> e \<le> p_deadline (d_promises s ! k)))"
  proof (intro exI [of _ t] exI [of _ s'] conjI impI allI)
    have kept: "session_inv s'" "k < length (d_promises s')" "p_holder (d_promises s' ! k) = Held"
      "p_deadline (d_promises s' ! k) = p_deadline (d_promises s ! k)"
      using pass(2) same assms(2,3) by (auto simp: ok_def history_kept_def promises_kept_def promise_kept_def)
    show "deadlines_pass s = Some (t, s')" by (rule pass(1))
    show "p_result (d_promises s' ! k) \<noteq> None" if ?late
      by (rule settled_unless_pending [OF kept(1-3)]) (use live that kept(4) in auto)
    show "\<exists>e. d = Some e \<and> e \<le> p_deadline (d_promises s ! k)" if d: "t = DSleep d" "p_result (d_promises s' ! k) = None" for d
    proof (cases "s_state s'")
      case (StClosed err)
      with kept d(2) show ?thesis by (auto simp: session_inv_def closed_inv_def)
    next
      case (StOpen q)
      have ops: "ops_inv (d_promises s') (q_operations q)" using session_inv_open [OF kept(1) StOpen] by (simp add: open_inv_def)
      then obtain po where po: "(k, po) \<in> set (q_operations q)" using kept(2,3) d(2) by (auto simp: ops_inv_def)
      then have "po_deadline po = p_deadline (d_promises s ! k)" using ops_inv_pending [OF ops po] kept(4) by simp
      with live StOpen po d(1) show ?thesis by metis
    qed
  qed
qed

text \<open>C32: a promise carries a result of its own kind: a request's promise an envelope, a reply's promise
  the completion of its write, so neither wait meets the result of the other.\<close>

theorem promise_result_type:
  assumes "session_run (session_new side has_stream c) s" and "p \<in> set (d_promises s)" and "p_result p = Some (Ok x)"
  shows "p_response p \<longleftrightarrow> (\<exists>e. x = PResponse e)"
proof -
  have "typed_inv (d_promises s)" using run_inv [OF assms(1)] by (simp add: session_inv_def)
  with assms(2,3) show ?thesis by (cases x) (force simp: typed_inv_def)+
qed


section \<open>Every operation returns\<close>

text \<open>C3: whatever happened before and whatever the peer sends, no operation of a session panics or
  blocks for ever on its own state: submitting, answering, routing, receiving, waiting, dropping,
  reconfiguring, closing, expiring and the turns of the writer and of the deadline thread all
  return, as long as request identifiers last. A second callback on one promise is a misuse.\<close>

theorem session_no_panic:
  assumes codec: "prost_codec pb" and run: "session_run (session_new side has_stream c) s"
  shows "(\<exists>r s'. session_request m deadline s = Some (r, s')) \<and>
    (i \<in> set (s_held s) \<longrightarrow> (\<exists>r s'. responder_reply i b deadline s = Some (r, s')) \<and> (\<exists>s'. reply_unanswered i s = Some s')) \<and>
    (\<exists>r s'. handle_message pb bs s = Some (r, s')) \<and> (\<exists>r s'. session_recv pb s = Some (r, s')) \<and>
    (k < length (d_promises s) \<and> p_holder (d_promises s ! k) = Held \<longrightarrow>
       (p_response (d_promises s ! k) \<longrightarrow> (\<exists>r s'. response_wait pb k s = Some (r, s'))) \<and>
       (\<not> p_response (d_promises s ! k) \<longrightarrow> (\<exists>r s'. written_wait k s = Some (r, s'))) \<and>
       (\<exists>s'. promise_drop k s = Some s') \<and>
       (\<not> p_registered (d_promises s ! k) \<longrightarrow> (\<exists>s'. promise_notify k callback s = Some s'))) \<and>
    (\<exists>s'. set_inbound_limits requests limit s = Some s') \<and> (\<exists>s'. session_close err s = Some s') \<and>
    (\<exists>s'. session_expire s = Some s') \<and> (\<exists>t s'. deadlines_pass s = Some (t, s')) \<and>
    ((\<forall>q. s_state s = StOpen q \<longrightarrow> q_next_id q \<noteq> None) \<longrightarrow> (\<exists>t s'. next_outgoing s = Some (t, s'))) \<and>
    (\<forall>i og. s_writing s = Some (i, og) \<longrightarrow> (\<exists>on s'. finish_write i og r s = Some (on, s')))"
proof (intro conjI impI allI)
  have inv: "session_inv s" using run_inv run by blast
  show "\<exists>r s'. session_request m deadline s = Some (r, s')" using session_request_ok [OF inv] by blast
  show "\<exists>r s'. responder_reply i b deadline s = Some (r, s')" "\<exists>s'. reply_unanswered i s = Some s'" if "i \<in> set (s_held s)"
    using responder_reply_ok [OF inv] reply_unanswered_ok [OF inv] that by blast+
  show "\<exists>r s'. handle_message pb bs s = Some (r, s')" using handle_message_ok [OF codec inv] by blast
  show "\<exists>r s'. session_recv pb s = Some (r, s')" using session_recv_ok [OF inv] by blast
  show "\<exists>s'. set_inbound_limits requests limit s = Some s'" using set_inbound_limits_ok [OF inv] by metis
  show "\<exists>s'. session_close err s = Some s'" using session_close_ok [OF inv] by metis
  show "\<exists>s'. session_expire s = Some s'" using session_expire_ok [OF inv] by blast
  show "\<exists>t s'. deadlines_pass s = Some (t, s')" using deadlines_pass_ok [OF inv] by blast
  show "\<exists>t s'. next_outgoing s = Some (t, s')" if "\<forall>q. s_state s = StOpen q \<longrightarrow> q_next_id q \<noteq> None"
    using next_outgoing_ok [OF inv that] by blast
  show "\<exists>on s'. finish_write j og r s = Some (on, s')" if "s_writing s = Some (j, og)" for j og
    using finish_write_ok [OF inv that] by blast
  assume k: "k < length (d_promises s) \<and> p_holder (d_promises s ! k) = Held"
  show "\<exists>r s'. response_wait pb k s = Some (r, s')" if "p_response (d_promises s ! k)"
    using response_wait_ok [OF inv] k that by blast
  show "\<exists>r s'. written_wait k s = Some (r, s')" if "\<not> p_response (d_promises s ! k)"
    using written_wait_ok [OF inv] k that by blast
  show "\<exists>s'. promise_drop k s = Some s'" using promise_drop_ok [OF inv] k by metis
  show "\<exists>s'. promise_notify k callback s = Some s'" if "\<not> p_registered (d_promises s ! k)"
    using promise_notify_ok [OF inv] k that by metis
qed


section \<open>Answers, closing, writing\<close>

text \<open>C29: a response settles the promise of the request it answers and no other. A response nobody
  asked for, or to a request that has timed out, is discarded without any effect but forgetting the
  identifier; one past its deadline settles as a timeout, and one that does not fit the byte limit
  settles as that error and ends the session through its reader, unless nobody waits for it.\<close>

theorem response_routing:
  assumes "session_run (session_new side has_stream c) s" and "kind_from_id (h_id h) (parity_from (s_side s)) = Response"
  shows "\<exists>r s'. route_message h bs s = Some ((case r of Err err \<Rightarrow> Err err | Ok _ \<Rightarrow> Ok None), s') \<and> responded h bs s r s'"
proof -
  obtain r s' where "admit_response h bs s = Some (r, s')" "responded h bs s r s'"
    using admit_response_ok run_inv assms(1) by blast
  with assms(2) show ?thesis by (cases r) (force simp: route_message_def)+
qed

text \<open>C28: closing settles everything: the session is closed for the first reason it ever got, every
  promise that still exists has a result, which for the operations pending until now is the
  reason, or a timeout when the deadline had passed; the queues return their bytes, and the stream of a
  client session is shut down.\<close>

theorem close_settles_all:
  assumes "session_run (session_new side has_stream c) s"
  shows "\<exists>s'. session_close err s = Some s' \<and>
    s_state s' = (case s_state s of StOpen q \<Rightarrow> StClosed err | StClosed e \<Rightarrow> StClosed e) \<and>
    (s_has_stream s \<longrightarrow> s_stream_closed s') \<and>
    (\<forall>p \<in> set (d_promises s'). p_holder p = Held \<longrightarrow> p_result p \<noteq> None) \<and>
    (\<forall>q k po. s_state s = StOpen q \<longrightarrow> (k, po) \<in> set (q_operations q) \<longrightarrow> p_holder (d_promises s ! k) = Held \<longrightarrow>
       p_result (d_promises s' ! k) = Some (Err (if fst (clock_now (s_clock s)) \<ge> po_deadline po then Timeout else err))) \<and>
    d_retained s' = sum_list (map unread_charge (d_promises s')) + sum_list (map in_charge (d_taken s'))"
proof -
  have inv: "session_inv s" using run_inv assms by blast
  obtain s' where close: "session_close err s = Some s'" and by': "closed_by err (fst (clock_now (s_clock s))) s s'"
    by (rule session_close_ok [OF inv])
  have "session_inv s'" "\<exists>e. s_state s' = StClosed e" using by' by (auto simp: closed_by_def ok_def split: state.splits)
  then have "closed_inv s'" by (auto simp: session_inv_def)
  with close by' show ?thesis by (simp add: closed_by_def closed_inv_def desk_charge_def)
qed

lemma closed_wait:
  assumes inv: "session_inv s" and closed: "s_state s = StClosed err" and k: "k < length (d_promises s)" "p_holder (d_promises s ! k) = Held"
  shows "if p_response (d_promises s ! k) then \<exists>r s'. response_wait pb k s = Some (Ready r, s')
    else \<exists>r s'. written_wait k s = Some (Ready r, s')"
proof -
  obtain s1 where s1: "session_expire s = Some s1" "d_promises s1 = d_promises s"
    using closed session_now_reads [of s] by (auto simp: session_expire_def state_expire_def defer_notes_def)
  have "closed_inv s" using inv closed by (simp add: session_inv_def)
  then have "p_result (d_promises s1 ! k) \<noteq> None" using k s1(2) by (simp add: closed_inv_def)
  then show ?thesis
    using response_wait_ok [OF inv k, of pb] written_wait_ok [OF inv k] wait_unsettled [OF s1(1)] by (metis waiting.exhaust)
qed

text \<open>C31: a closed session stays closed for its reason and nothing blocks in it any more: requests and receiving return the
  reason, every message of the peer is refused, the writer and the deadline thread end, and waiting on a promise
  returns.\<close>

theorem closed_never_blocks:
  assumes "session_run (session_new side has_stream c) s" and "s_state s = StClosed err" and "session_run s u" and "prost_codec pb"
  shows "s_state u = StClosed err \<and> session_request m deadline u = Some (Err err, u) \<and> session_recv pb u = Some (Ready (Err err), u) \<and>
    (\<exists>err'. handle_message pb bs u = Some (Err err', u)) \<and>
    (\<exists>u'. next_outgoing u = Some (Ended, u')) \<and> (\<exists>u'. deadlines_pass u = Some (DEnded, u')) \<and>
    (\<forall>k < length (d_promises u). p_holder (d_promises u ! k) = Held \<longrightarrow>
       (if p_response (d_promises u ! k) then \<exists>r u'. response_wait pb k u = Some (Ready r, u')
        else \<exists>r u'. written_wait k u = Some (Ready r, u')))"
proof -
  have inv: "session_inv u" using run_inv assms(1,3) by (meson rtranclp_trans)
  have closed: "s_state u = StClosed err" using session_run_ok [OF assms(3)] run_inv [OF assms(1)] assms(2) by (simp add: ok_def history_kept_def)
  obtain now c' where clock: "session_now u = (now, u\<lparr>s_clock := c'\<rparr>)" using session_now_reads by blast
  obtain hr where hr: "decode_header pb (s_side u) bs = Some hr" using prost_codec.decode_header_returns [OF assms(4)] by blast
  have refused: "\<exists>err'. route_message h bs u = Some (Err err', u)" for h
    using closed by (auto simp: route_message_def admit_request_def admit_response_def split: message_kind.splits)
  have "\<exists>err'. handle_message pb bs u = Some (Err err', u)"
  proof (cases hr)
    case (Inr h)
    with hr refused [of h] show ?thesis by (auto simp: handle_message_def)
  qed (simp add: handle_message_def hr)
  with closed clock closed_wait [OF inv closed] show ?thesis
    by (simp add: session_request_def enqueue_def session_recv_def take_request_def next_outgoing_def deadlines_pass_def state_expire_def)
qed

text \<open>The writer takes the oldest message whose deadline has not passed. A request goes out under
  the next unused identifier, which is one of this side, is no pending request's, and is remembered
  before anything is written; a reply goes out under the identifier of the request it answers, which the
  peer may reuse from then on.\<close>

theorem writer_takes:
  assumes "session_run (session_new side has_stream c) s" and "\<forall>q. s_state s = StOpen q \<longrightarrow> q_next_id q \<noteq> None"
  shows "\<exists>t s'. next_outgoing s = Some (t, s') \<and> taken s t s'"
  using next_outgoing_ok run_inv assms by blast

text \<open>The fate of a write reaches its promise and no other: a failure as that error, a write that
  ends past the deadline as a timeout, a written reply as done, while a written request goes on waiting
  for its answer. An operation that was answered or timed out during the write is left alone.\<close>

theorem write_reported:
  assumes "session_run (session_new side has_stream c) s" and "s_writing s = Some (i, og)"
  shows "\<exists>s'. record_write (og_key og) r s = Some s' \<and> reported (og_key og) r s s'"
proof -
  have inv: "session_inv s" using run_inv assms(1) by blast
  from record_write_ok [OF inv writing_unqueued [OF inv assms(2)]] show ?thesis by blast
qed

end
