(* ===== verification/Session_Queue.thy ===== *)
theory Session_Queue
  imports Session_Machine
begin

text \<open>
  The queue of incoming requests refines a first-in first-out queue: only admission adds to it and
  only receiving takes from it.
\<close>


section \<open>What leaves the queue alone\<close>

definition incoming_of :: "'p session \<Rightarrow> (id \<times> incoming) list option" where
  "incoming_of s = (case s_state s of StOpen q \<Rightarrow> Some (q_incoming q) | StClosed _ \<Rightarrow> None)"

text \<open>\<open>quiet s s'\<close>: the queue is as it was, or the session is closed.\<close>

definition quiet :: "'p session \<Rightarrow> 'p session \<Rightarrow> bool" where
  "quiet s s' \<longleftrightarrow> incoming_of s' = incoming_of s \<or> incoming_of s' = None"

lemma incoming_of_frames [simp]: "incoming_of (s\<lparr>s_clock := c\<rparr>) = incoming_of s" "incoming_of (s\<lparr>s_held := held\<rparr>) = incoming_of s"
  "incoming_of (s\<lparr>s_writing := w\<rparr>) = incoming_of s" "incoming_of (defer_notes cs s) = incoming_of s"
  "incoming_of (s\<lparr>s_stream_closed := b\<rparr>) = incoming_of s" "incoming_of (s\<lparr>d_promises := ps\<rparr>) = incoming_of s"
  "incoming_of (s\<lparr>d_taken := es\<rparr>) = incoming_of s" "incoming_of (s\<lparr>d_retained := n\<rparr>) = incoming_of s"
  "incoming_of (set_promise k p s) = incoming_of s" "incoming_of (s\<lparr>s_state := StClosed err\<rparr>) = None"
  "incoming_of (s\<lparr>s_state := StOpen q\<rparr>) = Some (q_incoming q)" "incoming_of (run_note k s) = incoming_of s"
  by (simp_all add: incoming_of_def defer_notes_def run_note_def set_promise_def)

lemma incoming_of_open: "s_state s = StOpen q \<Longrightarrow> incoming_of s = Some (q_incoming q)"
  by (simp add: incoming_of_def)

lemma incoming_of_closed: "s_state s = StClosed err \<Longrightarrow> incoming_of s = None"
  by (simp add: incoming_of_def)

lemma incoming_of_result_send: "result_send k r s = Some (x, s') \<Longrightarrow> incoming_of s' = incoming_of s"
  by (auto simp: result_send_def Let_def bind_eq_Some_conv release_Some_iff split: if_splits)

lemma incoming_of_fail: "operation_fail k po err now s = Some (x, s') \<Longrightarrow> incoming_of s' = incoming_of s"
  by (auto simp: operation_fail_def dest: incoming_of_result_send)

lemma incoming_of_fail_all: "fail_all ops err now s = Some (cs, s') \<Longrightarrow> incoming_of s' = incoming_of s"
  by (induction ops err now s arbitrary: cs rule: fail_all.induct) (auto simp: bind_eq_Some_conv dest: incoming_of_fail)

lemma incoming_of_complete: "complete_response k po now e limit s = Some (x, s') \<Longrightarrow> incoming_of s' = incoming_of s"
  by (auto simp: complete_response_def bind_eq_Some_conv dest: incoming_of_fail incoming_of_result_send split: if_splits sum.splits)

lemma incoming_of_now: "session_now s = (t, s') \<Longrightarrow> incoming_of s' = incoming_of s"
  by (auto simp: session_now_def split: prod.splits)

lemma incoming_of_close:
  assumes "state_close err now s = Some ((cs, removed), s1)"
  shows "incoming_of s1 = None"
  using assms by (auto simp: state_close_def bind_eq_Some_conv incoming_of_closed dest: incoming_of_fail_all split: state.splits)

lemma incoming_of_finish: "finish_close removed s = Some s' \<Longrightarrow> incoming_of s' = incoming_of s"
  by (auto simp: finish_close_def bind_eq_Some_conv release_Some_iff split: option.splits if_splits)

lemma incoming_of_expire: "state_expire now s = Some (cs, s') \<Longrightarrow> incoming_of s' = incoming_of s"
  by (auto simp: state_expire_def Let_def bind_eq_Some_conv incoming_of_open split: state.splits)

lemma enqueue_quiet: "enqueue b deadline response log_id s = Some (r, s') \<Longrightarrow> incoming_of s' = incoming_of s"
  by (auto simp: enqueue_def session_now_def bind_eq_Some_conv incoming_of_open Let_def dest: incoming_of_fail
      split: state.splits prod.splits if_splits)

lemma limits_quiet: "set_inbound_limits requests limit s = Some s' \<Longrightarrow> quiet s s'"
  by (auto simp: set_inbound_limits_def quiet_def session_now_def bind_eq_Some_conv incoming_of_open Let_def
      dest!: incoming_of_close incoming_of_finish split: state.splits prod.splits if_splits option.splits)

lemma close_locked_quiet: "session_close_locked err s = Some s' \<Longrightarrow> quiet s s'"
  by (auto simp: session_close_locked_def quiet_def session_now_def bind_eq_Some_conv take_removed_def dest!: incoming_of_close
      split: prod.splits option.splits)

lemma limits_locked_quiet: "set_inbound_limits_locked requests limit s = Some s' \<Longrightarrow> quiet s s'"
  by (auto simp: set_inbound_limits_locked_def quiet_def incoming_of_open Let_def dest!: close_locked_quiet
      split: state.splits if_splits option.splits)

lemma response_quiet: "admit_response h bs s = Some (r, s') \<Longrightarrow> incoming_of s' = incoming_of s"
  by (auto simp: admit_response_def session_now_def bind_eq_Some_conv incoming_of_open Let_def dest!: incoming_of_complete
      split: state.splits prod.splits option.splits)

lemma take_out_quiet:
  assumes "next_outgoing s = Some (t, s')"
  shows "incoming_of s' = incoming_of s"
proof -
  obtain now s1 where clock: "session_now s = (now, s1)" by fastforce
  obtain cs s2 where expire: "state_expire now s1 = Some (cs, s2)"
    using assms clock by (auto simp: next_outgoing_def bind_eq_Some_conv)
  have same: "incoming_of s2 = incoming_of s" using incoming_of_now [OF clock] incoming_of_expire [OF expire] by simp
  show ?thesis
  proof (cases "s_state s2")
    case (StOpen q)
    with assms clock expire same show ?thesis
      by (auto simp: next_outgoing_def incoming_of_open split: if_splits list.splits outgoing_body.splits option.splits)
  qed (use assms clock expire same in \<open>auto simp: next_outgoing_def split: if_splits\<close>)
qed

lemma record_write_quiet: "record_write k r s = Some s' \<Longrightarrow> incoming_of s' = incoming_of s"
  by (auto simp: record_write_def session_now_def bind_eq_Some_conv incoming_of_open Let_def dest!: incoming_of_fail incoming_of_result_send
      split: state.splits prod.splits option.splits if_splits)

lemma forget_quiet: "incoming_of (forget_refused i b r s) = incoming_of s"
  by (auto simp: forget_refused_def incoming_of_open split: state.splits outgoing_body.splits)

lemma deadlines_quiet:
  assumes "deadlines_pass s = Some (t, s')"
  shows "incoming_of s' = incoming_of s"
proof -
  obtain now s1 where clock: "session_now s = (now, s1)" by fastforce
  obtain cs s2 where expire: "state_expire now s1 = Some (cs, s2)"
    using assms clock by (auto simp: deadlines_pass_def bind_eq_Some_conv)
  have "incoming_of s2 = incoming_of s" using incoming_of_now [OF clock] incoming_of_expire [OF expire] by simp
  then show ?thesis
    using assms clock expire by (cases "s_state s2") (auto simp: deadlines_pass_def split: if_splits)
qed

lemma close_quiet: "session_close err s = Some s' \<Longrightarrow> incoming_of s' = None"
  by (auto simp: session_close_def session_now_def bind_eq_Some_conv dest!: incoming_of_close incoming_of_finish split: prod.splits)

lemma expire_quiet: "session_expire s = Some s' \<Longrightarrow> incoming_of s' = incoming_of s"
  by (auto simp: session_expire_def session_now_def bind_eq_Some_conv dest!: incoming_of_expire split: prod.splits)


section \<open>The queue\<close>

text \<open>What admission and receiving do to the abstract queue.\<close>

definition queue_step :: "'p session \<Rightarrow> 'p session \<Rightarrow> bool" where
  "queue_step s s' \<longleftrightarrow> quiet s s' \<or>
     (\<exists>q q' i e. s_state s = StOpen q \<and> s_state s' = StOpen q' \<and> i \<notin> q_reserved q \<and> q_incoming q' = q_incoming q @ [(i, e)]) \<or>
     (\<exists>q q' i e. s_state s = StOpen q \<and> s_state s' = StOpen q' \<and> q_incoming q = (i, e) # q_incoming q' \<and>
        s_held s' = s_held s @ [i] \<and> d_taken s' = d_taken s @ [e])"

lemma quiet_queue: "incoming_of s' = incoming_of s \<Longrightarrow> queue_step s s'" "incoming_of s' = None \<Longrightarrow> queue_step s s'" "quiet s s' \<Longrightarrow> queue_step s s'"
  by (simp_all add: queue_step_def quiet_def)

lemma admit_queue:
  assumes "admit_request h bs s = (r, s1)"
  shows "queue_step s (s1\<lparr>s_held := held\<rparr>)" "queue_step s s1"
  using assms by (auto simp: admit_request_def queue_step_def quiet_def incoming_of_open incoming_of_closed
      split: state.splits if_splits sum.splits)

lemma route_queue:
  assumes "route_message h bs s = Some (r, s')"
  shows "queue_step s s'"
proof (cases "kind_from_id (h_id h) (parity_from (s_side s))")
  case Response
  then obtain x s1 where admit: "admit_response h bs s = Some (x, s1)"
    using assms by (cases "admit_response h bs s") (auto simp: route_message_def)
  then have "s' = s1" using assms Response by (cases x) (simp_all add: route_message_def)
  then show ?thesis using quiet_queue(1) [OF response_quiet [OF admit]] by simp
next
  case Request
  obtain x s1 where admit: "admit_request h bs s = (x, s1)" by fastforce
  note queue = admit_queue [OF admit]
  show ?thesis
  proof (cases "h_failed h")
    case True
    with Request assms show ?thesis by (auto simp: route_message_def quiet_queue)
  next
    case False
    with Request assms admit queue show ?thesis by (cases x) (auto simp: route_message_def split: if_splits)
  qed
qed

lemma take_queue: "take_request s = (r, s') \<Longrightarrow> queue_step s s'"
  by (auto simp: take_request_def queue_step_def quiet_def split: state.splits list.splits)

lemma other_step_queue: "other_step s s' \<Longrightarrow> queue_step s s'"
proof (induction rule: other_step.induct)
  case (request m deadline s r s')
  then show ?case by (auto simp: session_request_def intro: quiet_queue dest: enqueue_quiet)
next
  case (reply i s b deadline r s')
  then show ?case by (auto simp: session_reply_def bind_eq_Some_conv intro!: quiet_queue(1) dest: enqueue_quiet)
next
  case (notify k s s')
  then show ?case by (auto simp: promise_notify_def Let_def intro: quiet_queue split: if_splits)
next
  case (receive k s r s')
  then show ?case by (auto simp: promise_receive_def Let_def intro: quiet_queue split: option.splits)
next
  case (drop k s s')
  then show ?case by (auto simp: promise_drop_def Let_def bind_eq_Some_conv release_Some_iff intro: quiet_queue)
next
  case (decode e s s')
  then show ?case by (auto simp: envelope_release_def release_Some_iff intro: quiet_queue)
next
  case (autoreply_timeout s timeout)
  then show ?case by (auto simp: set_autoreply_timeout_def incoming_of_open intro!: quiet_queue(1) split: state.splits)
next
  case (stop_stream s err)
  show ?case by (rule quiet_queue(1)) (simp add: quiet_def)
next
  case (callback c s)
  show ?case by (rule quiet_queue(1)) (simp add: quiet_def)
qed (auto intro: quiet_queue route_queue take_queue dest: limits_quiet limits_locked_quiet close_quiet close_locked_quiet expire_quiet deadlines_quiet)

lemma session_step_queue: "session_step s s' \<Longrightarrow> queue_step s s'"
proof (induction rule: session_step.induct)
  case (other s s')
  then show ?case by (rule other_step_queue)
qed (auto simp: forget_quiet record_write_quiet take_out_quiet intro: quiet_queue(1))

text \<open>C15: the requests of the peer are handed to the application in the order they were accepted: whatever
  thread runs, the queue of an open session stays, or one request with a free identifier is added at
  its end, or its first request is taken out, together with its responder.\<close>

theorem requests_fifo:
  assumes "session_step s s'" and "s_state s = StOpen q" and "s_state s' = StOpen q'"
  shows "q_incoming q' = q_incoming q \<or>
    (\<exists>i e. i \<notin> q_reserved q \<and> q_incoming q' = q_incoming q @ [(i, e)]) \<or>
    (\<exists>i e. q_incoming q = (i, e) # q_incoming q' \<and> s_held s' = s_held s @ [i] \<and> d_taken s' = d_taken s @ [e])"
  using session_step_queue [OF assms(1)] assms(2,3) by (auto simp: queue_step_def quiet_def incoming_of_open)

end
