(* ===== verification/Session_Calls.thy ===== *)
theory Session_Calls
  imports Session_Machine
begin

text \<open>
  The requests a session waits for. An identifier that was given to a pending request belongs to it
  until the request is settled, whatever the other threads do; so an answer to a request that was
  written finds its promise as long as there is one to be found.
\<close>


section \<open>What the desk leaves alone\<close>

text \<open>Operations on promises and envelopes do not touch the session around them.\<close>

lemma desk_more_fields:
  assumes "desk.more s' = desk.more (s :: 'p session)"
  shows "s_state s' = s_state s \<and> s_writing s' = s_writing s \<and> s_side s' = s_side s \<and> s_held s' = s_held s"
  using assms by (cases s; cases s'; simp)

lemma release_more: "release n s = Some s' \<Longrightarrow> desk.more s' = desk.more s"
  by (auto simp: release_Some_iff)

lemma set_promise_more [simp]: "desk.more (set_promise k p s) = desk.more s"
  by (simp add: set_promise_def)

lemma defer_notes_more [simp]: "desk.more (defer_notes cs s) = desk.more s"
  by (simp add: defer_notes_def)

lemma result_send_more: "result_send k r s = Some (x, s') \<Longrightarrow> desk.more s' = desk.more s"
  by (auto simp: result_send_def Let_def bind_eq_Some_conv release_Some_iff split: if_splits)

lemma operation_fail_more: "operation_fail k po err now s = Some (x, s') \<Longrightarrow> desk.more s' = desk.more s"
  by (auto simp: operation_fail_def dest: result_send_more)

lemma fail_all_more: "fail_all ops err now s = Some (cs, s') \<Longrightarrow> desk.more s' = desk.more s"
  by (induction ops err now s arbitrary: cs rule: fail_all.induct) (auto simp: bind_eq_Some_conv dest: operation_fail_more)

lemma complete_response_more: "complete_response k po now e limit s = Some (x, s') \<Longrightarrow> desk.more s' = desk.more s"
  by (auto simp: complete_response_def bind_eq_Some_conv dest: operation_fail_more result_send_more split: if_splits sum.splits)

lemma promise_ops_more:
  "promise_notify k c s = Some s' \<Longrightarrow> desk.more s' = desk.more s"
  "promise_receive k s = (r, s') \<Longrightarrow> desk.more s' = desk.more s"
  "promise_drop k s = Some s' \<Longrightarrow> desk.more s' = desk.more s"
  "envelope_release e s = Some s' \<Longrightarrow> desk.more s' = desk.more s"
  by (auto simp: promise_notify_def promise_receive_def promise_drop_def envelope_release_def Let_def bind_eq_Some_conv
      release_Some_iff split: if_splits option.splits)


section \<open>Identifiers and operations\<close>

definition pending_keys :: "'p queues \<Rightarrow> nat set" where
  "pending_keys q = fst ` set (q_operations q)"

lemma pending_keys_frames [simp]: "pending_keys (q\<lparr>q_outgoing := ogs\<rparr>) = pending_keys q"
  "pending_keys (q\<lparr>q_reserved := ids\<rparr>) = pending_keys q" "pending_keys (q\<lparr>q_incoming := xs\<rparr>) = pending_keys q"
  "pending_keys (q\<lparr>q_autoreply := d\<rparr>) = pending_keys q" "pending_keys (q\<lparr>q_outstanding := out\<rparr>) = pending_keys q"
  "pending_keys (q\<lparr>q_next_id := n\<rparr>) = pending_keys q" "pending_keys (q\<lparr>q_max_requests := m\<rparr>) = pending_keys q"
  "pending_keys (q\<lparr>q_max_bytes := l\<rparr>) = pending_keys q"
  by (simp_all add: pending_keys_def)

text \<open>\<open>calls_kept n st st'\<close>: from one state to the next no operation numbered below \<open>n\<close> becomes pending, and
  an identifier stays with its operation as long as that one is pending.\<close>

definition calls_kept :: "nat \<Rightarrow> 'p state \<Rightarrow> 'p state \<Rightarrow> bool" where
  "calls_kept n st st' \<longleftrightarrow> (\<forall>q'. st' = StOpen q' \<longrightarrow> (\<exists>q. st = StOpen q \<and>
     (\<forall>k \<in> pending_keys q'. k < n \<longrightarrow> k \<in> pending_keys q) \<and>
     (\<forall>i k. q_outstanding q i = Some k \<longrightarrow> k \<in> pending_keys q' \<longrightarrow> q_outstanding q' i = Some k)))"

lemma calls_kept_cong:
  "calls_kept n st (StOpen q) \<Longrightarrow> pending_keys q' = pending_keys q \<Longrightarrow> q_outstanding q' = q_outstanding q \<Longrightarrow>
    calls_kept n st (StOpen q')"
  by (simp add: calls_kept_def)

lemma calls_kept_refl [simp]: "calls_kept n st st"
  by (cases st) (simp_all add: calls_kept_def)

lemma calls_kept_closed [simp]: "calls_kept n st (StClosed err)"
  by (simp add: calls_kept_def)

lemma calls_kept_open [simp]:
  "calls_kept n (StOpen q) (StOpen q') \<longleftrightarrow>
     (\<forall>k \<in> pending_keys q'. k < n \<longrightarrow> k \<in> pending_keys q) \<and>
     (\<forall>i k. q_outstanding q i = Some k \<longrightarrow> k \<in> pending_keys q' \<longrightarrow> q_outstanding q' i = Some k)"
  by (simp add: calls_kept_def)

text \<open>What is proved of each step: the calls are kept, and the message in the writer's hands is still there.\<close>

definition calls_ok :: "'p session \<Rightarrow> 'p session \<Rightarrow> bool" where
  "calls_ok s s' \<longleftrightarrow> calls_kept (length (d_promises s)) (s_state s) (s_state s') \<and> s_writing s' = s_writing s"

lemma calls_ok_more: "desk.more s' = desk.more s \<Longrightarrow> calls_ok s s'"
  by (drule desk_more_fields) (simp add: calls_ok_def)

lemma calls_ok_now: "session_now s = (t, s') \<Longrightarrow> s_state s' = s_state s \<and> s_writing s' = s_writing s \<and> d_promises s' = d_promises s"
  by (auto simp: session_now_def split: prod.splits)

lemma enqueue_calls: "enqueue b deadline response log_id s = Some (r, s') \<Longrightarrow> calls_ok s s'"
  by (auto simp: enqueue_def calls_ok_def pending_keys_def session_now_def bind_eq_Some_conv Let_def dest!: operation_fail_more desk_more_fields
      split: state.splits prod.splits if_splits)

lemma close_calls:
  assumes "state_close err now s = Some ((cs, removed), s1)" "finish_close removed s1 = Some s2"
  shows "(\<exists>e. s_state s2 = StClosed e) \<and> s_writing s2 = s_writing s"
proof -
  have "(\<exists>e. s_state s1 = StClosed e) \<and> s_writing s1 = s_writing s"
    using assms(1) by (cases "s_state s") (auto simp: state_close_def bind_eq_Some_conv dest!: fail_all_more desk_more_fields)
  moreover have "s_state s2 = s_state s1" "s_writing s2 = s_writing s1"
    using assms(2) by (auto simp: finish_close_def bind_eq_Some_conv dest!: release_more desk_more_fields split: option.splits if_splits)
  ultimately show ?thesis by simp
qed

lemma session_close_calls: "session_close err s = Some s' \<Longrightarrow> calls_ok s s'"
  by (auto simp: session_close_def bind_eq_Some_conv calls_ok_def defer_notes_def dest!: close_calls calls_ok_now split: prod.splits)

lemma limits_calls: "set_inbound_limits requests limit s = Some s' \<Longrightarrow> calls_ok s s'"
  by (auto simp: set_inbound_limits_def bind_eq_Some_conv calls_ok_def Let_def defer_notes_def dest!: close_calls calls_ok_now
      split: state.splits prod.splits if_splits option.splits)

lemma close_locked_calls:
  assumes "session_close_locked err s = Some s'"
  shows "(\<exists>e. s_state s' = StClosed e) \<and> s_writing s' = s_writing s"
proof -
  obtain now s1 where clock: "session_now s = (now, s1)" by fastforce
  with assms obtain cs removed s2 where close: "state_close err now s1 = Some ((cs, removed), s2)" "s' = defer_notes cs (take_removed removed s2)"
    by (auto simp: session_close_locked_def bind_eq_Some_conv)
  have "(\<exists>e. s_state s2 = StClosed e) \<and> s_writing s2 = s_writing s1"
    using close(1) by (cases "s_state s1") (auto simp: state_close_def bind_eq_Some_conv dest!: fail_all_more desk_more_fields)
  then show ?thesis using close(2) calls_ok_now [OF clock] by simp
qed

lemma limits_locked_calls: "set_inbound_limits_locked requests limit s = Some s' \<Longrightarrow> calls_ok s s'"
  by (auto simp: set_inbound_limits_locked_def calls_ok_def Let_def dest!: close_locked_calls split: state.splits if_splits option.splits)

lemma expire_calls: "state_expire now s = Some (cs, s') \<Longrightarrow> calls_ok s s'"
  by (cases "s_state s") (auto simp: state_expire_def bind_eq_Some_conv calls_ok_def Let_def pending_keys_def dest!: fail_all_more desk_more_fields)

lemma session_expire_calls:
  assumes "session_expire s = Some s'"
  shows "calls_ok s s'"
proof -
  obtain now s1 where clock: "session_now s = (now, s1)" by fastforce
  with assms obtain cs s2 where "state_expire now s1 = Some (cs, s2)" "s' = defer_notes cs s2"
    by (auto simp: session_expire_def bind_eq_Some_conv)
  with expire_calls [of now s1] calls_ok_now [OF clock] show ?thesis by (simp add: calls_ok_def defer_notes_def)
qed

lemma response_calls:
  assumes "session_inv s" and "admit_response h bs s = Some (r, s')"
  shows "calls_ok s s'"
proof (cases "\<exists>q k. s_state s = StOpen q \<and> q_outstanding q (h_id h) = Some k")
  case False
  with assms(2) show ?thesis by (auto simp: admit_response_def calls_ok_def split: state.splits option.splits)
next
  case True
  then obtain q k where q: "s_state s = StOpen q" "q_outstanding q (h_id h) = Some k" by blast
  show ?thesis
  proof (cases "map_of (q_operations q) k")
    case None
    then have "k \<notin> pending_keys q" by (simp add: map_of_eq_None_iff pending_keys_def)
    with assms(2) q None show ?thesis by (auto simp: admit_response_def calls_ok_def)
  next
    case (Some po)
    with assms(2) q show ?thesis
      by (auto simp: admit_response_def calls_ok_def pending_keys_def session_now_def Let_def bind_eq_Some_conv defer_notes_def
          dest!: complete_response_more desk_more_fields split: prod.splits)
  qed
qed

lemma route_calls:
  assumes "session_inv s" "route_message h bs s = Some (r, s')"
  shows "calls_ok s s'"
proof (cases "kind_from_id (h_id h) (parity_from (s_side s))")
  case Request
  have "calls_ok s s1" if "admit_request h bs s = (x, s1)" for x s1
    using that by (auto simp: admit_request_def calls_ok_def split: state.splits if_splits sum.splits)
  with Request assms(2) show ?thesis
    by (auto simp: route_message_def calls_ok_def split: if_splits sum.splits prod.splits)
next
  case Response
  then obtain x s1 where admit: "admit_response h bs s = Some (x, s1)"
    using assms(2) by (cases "admit_response h bs s") (auto simp: route_message_def)
  then have "s' = s1" using assms(2) Response by (cases x) (simp_all add: route_message_def)
  with response_calls [OF assms(1) admit] show ?thesis by simp
qed

lemma deadlines_calls:
  assumes "deadlines_pass s = Some (t, s')"
  shows "calls_ok s s'"
proof -
  obtain now s1 where clock: "session_now s = (now, s1)" by fastforce
  with assms obtain cs s2 where expire: "state_expire now s1 = Some (cs, s2)"
    by (auto simp: deadlines_pass_def bind_eq_Some_conv)
  have "calls_ok s s2" using expire_calls [OF expire] calls_ok_now [OF clock] by (simp add: calls_ok_def)
  moreover have "desk.more s' = desk.more s2"
    using assms clock expire by (auto simp: deadlines_pass_def split: if_splits state.splits)
  ultimately show ?thesis using desk_more_fields [of s' s2] by (simp add: calls_ok_def)
qed

lemma other_step_calls:
  assumes "other_step s s'" "session_inv s"
  shows "calls_ok s s'"
  using assms
proof (induction rule: other_step.induct)
  case (request m deadline s r s')
  then show ?case by (auto simp: session_request_def intro: enqueue_calls)
next
  case (reply i s b deadline r s')
  then show ?case by (auto simp: session_reply_def bind_eq_Some_conv calls_ok_def dest!: enqueue_calls)
next
  case (autoreply_timeout s timeout)
  then show ?case by (auto simp: set_autoreply_timeout_def calls_ok_def split: state.splits)
next
  case (recv s r s')
  then show ?case by (auto simp: take_request_def calls_ok_def split: state.splits list.splits)
next
  case (close_locked err s s')
  then show ?case by (auto simp: calls_ok_def dest!: close_locked_calls)
next
  case (stop_stream s err)
  then show ?case by (simp add: calls_ok_def)
qed (auto intro: calls_ok_more promise_ops_more limits_locked_calls limits_calls route_calls session_close_calls session_expire_calls deadlines_calls)

end
