(* ===== verification/Session_Callbacks.thy ===== *)
theory Session_Callbacks
  imports Session_Calls
begin

text \<open>
  The completion callbacks of \<^verbatim>\<open>Promise::notify\<close>: a callback is named after its promise, which accepts one. Callbacks
  are taken out of the notification state under the session's lock and run after it, while other threads go on; here it
  is shown that none is lost on the way and none runs twice or too early.
\<close>


section \<open>The state of a callback\<close>

text \<open>\<open>n\<close> is how often the callback of promise \<open>k\<close> has run or is due.\<close>

definition hook_ok :: "nat \<Rightarrow> nat \<Rightarrow> promise \<Rightarrow> bool" where
  "hook_ok n k p \<longleftrightarrow> (case p_hook p of
      Some c \<Rightarrow> c = k \<and> p_registered p \<and> p_result p = None \<and> p_holder p = Held \<and> n = 0
    | None \<Rightarrow> n \<le> 1 \<and> (n = 1 \<longrightarrow> p_registered p \<and> p_result p \<noteq> None) \<and>
        (p_holder p = Held \<longrightarrow> p_registered p \<longrightarrow> p_result p \<noteq> None \<and> n = 1))"

abbreviation noted :: "'x desk_scheme \<Rightarrow> nat list" where
  "noted d \<equiv> d_called d @ d_due d"

definition hooks_ok :: "nat set \<Rightarrow> 'x desk_scheme \<Rightarrow> bool" where
  "hooks_ok B d \<longleftrightarrow> B \<subseteq> set (noted d) \<and> set (noted d) \<subseteq> {..<length (d_promises d)} \<and>
     (\<forall>k < length (d_promises d). hook_ok (count_list (noted d) k) k (d_promises d ! k))"

lemma hooks_ok_cong:
  "d_promises d' = d_promises d \<Longrightarrow> noted d' = noted d \<Longrightarrow> hooks_ok B d \<Longrightarrow> hooks_ok B d'"
  by (simp add: hooks_ok_def)

lemma hooks_ok_frames [simp]: "hooks_ok B (s\<lparr>s_state := st\<rparr>) = hooks_ok B s" "hooks_ok B (s\<lparr>s_clock := c\<rparr>) = hooks_ok B s"
  "hooks_ok B (s\<lparr>s_held := held\<rparr>) = hooks_ok B s" "hooks_ok B (s\<lparr>s_writing := w\<rparr>) = hooks_ok B s"
  "hooks_ok B (s\<lparr>s_stream_closed := b\<rparr>) = hooks_ok B s" "hooks_ok B (s\<lparr>d_retained := n\<rparr>) = hooks_ok B s"
  "hooks_ok B (s\<lparr>d_taken := es\<rparr>) = hooks_ok B s" "hooks_ok B (defer_notes [] s) = hooks_ok B s"
  by (simp_all add: hooks_ok_def defer_notes_def)

lemma hooks_ok_release: "release n d = Some d' \<Longrightarrow> hooks_ok B d' = hooks_ok B d"
  by (auto simp: release_Some_iff hooks_ok_def)

text \<open>Changing one promise and running some callbacks of it.\<close>

lemma hooks_ok_update:
  assumes "hooks_ok B d" "k < length (d_promises d)"
    and "hook_ok (count_list (noted d) k + n) k p" "n = 0 \<and> cs = [] \<or> n = 1 \<and> cs = [k]"
  shows "hooks_ok B (defer_notes cs (set_promise k p d))"
  using assms by (auto simp: hooks_ok_def defer_notes_def set_promise_def nth_list_update)

lemma hooks_ok_settle:
  assumes "hooks_ok B d" "result_send k r d = Some ((delivered, callback), d')"
  shows "hooks_ok B (defer_notes (note_of callback) d')"
proof -
  let ?p = "d_promises d ! k"
  have k: "k < length (d_promises d)" using assms(2) by (auto simp: result_send_def split: if_splits)
  have hook: "hook_ok (count_list (noted d) k) k ?p" using assms(1) k by (simp add: hooks_ok_def)
  show ?thesis
  proof (cases "p_holder ?p = Held")
    case True
    with assms(2) k have d': "d' = set_promise k (?p\<lparr>p_result := Some r, p_hook := None\<rparr>) d" "callback = p_hook ?p" "p_result ?p = None"
      by (auto simp: result_send_def Let_def split: if_splits)
    show ?thesis unfolding d'(1,2)
      by (rule hooks_ok_update [OF assms(1) k, where n = "if p_hook ?p = None then 0 else 1"])
        (use hook d'(3) True in \<open>auto simp: hook_ok_def note_of_def split: option.splits\<close>)
  next
    case False
    with assms(2) k obtain d1 where d': "release (result_charge r) d = Some d1" "d' = set_promise k (?p\<lparr>p_hook := None\<rparr>) d1"
      "callback = p_hook ?p" by (auto simp: result_send_def Let_def bind_eq_Some_conv)
    have none: "p_hook ?p = None" using hook False by (auto simp: hook_ok_def split: option.splits)
    have same: "d_promises d1 = d_promises d" "noted d1 = noted d" using d'(1) by (auto simp: release_Some_iff)
    have "hooks_ok B d1" using assms(1) same by (rule hooks_ok_cong [rotated 2])
    from hooks_ok_update [OF this, of k 0 "?p\<lparr>p_hook := None\<rparr>" "[]"] k hook none same show ?thesis
      unfolding d'(2,3) by (simp add: note_of_def hook_ok_def)
  qed
qed


section \<open>Batches\<close>

lemma defer_notes_twice: "defer_notes bs (defer_notes as d) = defer_notes (as @ bs) d"
  by (simp add: defer_notes_def)

lemma release_notes: "release n (defer_notes cs d) = map_option (defer_notes cs) (release n d)"
  by (cases d) (simp add: release_def defer_notes_def option.map_comp comp_def)

lemma set_promise_notes: "set_promise k p (defer_notes cs d) = defer_notes cs (set_promise k p d)"
  by (simp add: set_promise_def defer_notes_def)

lemma result_send_notes: "result_send k r (defer_notes cs d) = map_option (\<lambda>(x, d'). (x, defer_notes cs d')) (result_send k r d)"
  by (simp add: result_send_def Let_def release_notes set_promise_notes)
    (auto simp: release_notes set_promise_notes defer_notes_def split: option.splits bind_splits)

lemma fail_all_hooks:
  assumes "fail_all ops err now d = Some (cs, d')" "hooks_ok B (defer_notes bs d)"
  shows "hooks_ok B (defer_notes (bs @ cs) d')"
  using assms
proof (induction ops err now d arbitrary: bs cs rule: fail_all.induct)
  case (2 k po ops err now d)
  then obtain x callback d1 cs1 where one: "operation_fail k po err now d = Some ((x, callback), d1)"
    and rest: "fail_all ops err now d1 = Some (cs1, d')" and cs: "cs = note_of callback @ cs1"
    by (auto simp: bind_eq_Some_conv)
  have "result_send k (Err (if now \<ge> po_deadline po then Timeout else err)) (defer_notes bs d) = Some ((x, callback), defer_notes bs d1)"
    using one by (simp add: operation_fail_def result_send_notes)
  from hooks_ok_settle [OF "2.prems"(2) this] have "hooks_ok B (defer_notes (bs @ note_of callback) d1)"
    by (simp add: defer_notes_twice)
  from "2.IH" [OF one refl refl rest this] cs show ?case by simp
qed simp

lemma operation_fail_hooks:
  "hooks_ok B d \<Longrightarrow> operation_fail k po err now d = Some ((x, callback), d') \<Longrightarrow> hooks_ok B (defer_notes (note_of callback) d')"
  by (auto simp: operation_fail_def dest: hooks_ok_settle)

lemma complete_response_hooks:
  assumes "hooks_ok B s" "complete_response k po now e limit s = Some ((cs, r), s')"
  shows "hooks_ok B (defer_notes cs (s' :: 'p session))"
  using assms
  by (auto simp: complete_response_def bind_eq_Some_conv dest: operation_fail_hooks hooks_ok_settle
      hooks_ok_settle [where d = "s\<lparr>d_retained := _\<rparr>", simplified] split: if_splits sum.splits)



section \<open>Every step\<close>

lemma enqueue_hooks:
  assumes "enqueue b deadline response log_id s = Some (r, s')" "hooks_ok B s"
  shows "hooks_ok B s'"
proof (cases "s_state s")
  case (StClosed err)
  with assms show ?thesis by (simp add: enqueue_def)
next
  case (StOpen q)
  obtain now c where clock: "session_now s = (now, s\<lparr>s_clock := c\<rparr>)" using session_now_reads by blast
  have new: "hooks_ok B (s\<lparr>s_clock := c, d_promises := d_promises s @ [promise_pair deadline response]\<rparr>)"
  proof -
    have bound: "set (noted s) \<subseteq> {..<length (d_promises s)}" using assms(2) by (simp add: hooks_ok_def)
    then have "count_list (noted s) (length (d_promises s)) = 0" by (auto simp: count_list_0_iff)
    then have "hook_ok (count_list (noted s) (length (d_promises s))) (length (d_promises s)) (promise_pair deadline response)"
      by (simp add: hook_ok_def promise_pair_def)
    with assms(2) bound show ?thesis by (auto simp: hooks_ok_def nth_append less_Suc_eq)
  qed
  then show ?thesis
    using assms(1) StOpen clock
    by (auto simp: enqueue_def Let_def bind_eq_Some_conv dest!: operation_fail_hooks [rotated] split: if_splits)
qed

lemma state_close_hooks:
  assumes "state_close err now s = Some ((cs, removed), s1)" "hooks_ok B s"
  shows "hooks_ok B (defer_notes cs s1)"
proof (cases "s_state s")
  case (StOpen q)
  with assms(1) obtain s' where "fail_all (q_operations q) err now (s\<lparr>s_state := StClosed err\<rparr>) = Some (cs, s')" "s1 = s'"
    by (auto simp: state_close_def bind_eq_Some_conv)
  with fail_all_hooks [of _ err now _ cs s' B "[]"] assms(2) show ?thesis by simp
qed (use assms in \<open>auto simp: state_close_def\<close>)

lemma close_hooks:
  assumes "state_close err now s = Some ((cs, removed), s1)" "finish_close removed s1 = Some s2" "hooks_ok B s"
  shows "hooks_ok B (defer_notes cs s2)"
proof -
  note state_close_hooks [OF assms(1,3)]
  moreover have "d_promises s2 = d_promises s1" "d_called s2 = d_called s1" "d_due s2 = d_due s1"
    using assms(2) by (auto simp: finish_close_def bind_eq_Some_conv release_Some_iff split: option.splits if_splits)
  ultimately show ?thesis by (simp add: hooks_ok_def defer_notes_def)
qed

lemma expire_hooks:
  assumes "state_expire now s = Some (cs, s')" "hooks_ok B s"
  shows "hooks_ok B (defer_notes cs s')"
proof (cases "s_state s")
  case (StOpen q)
  with assms(1) obtain s1 ops st where "fail_all ops Timeout now s = Some (cs, s1)" "s' = s1\<lparr>s_state := st\<rparr>"
    by (auto simp: state_expire_def Let_def bind_eq_Some_conv)
  with fail_all_hooks [of ops Timeout now s cs s1 B "[]"] assms(2) show ?thesis by (simp add: hooks_ok_def defer_notes_def)
qed (use assms in \<open>auto simp: state_expire_def\<close>)

lemma session_now_hooks: "session_now s = (t, s1) \<Longrightarrow> hooks_ok B s1 = hooks_ok B s"
  using session_now_reads [of s] by auto

lemma session_close_hooks: "session_close err s = Some s' \<Longrightarrow> hooks_ok B s \<Longrightarrow> hooks_ok B s'"
  by (auto simp: session_close_def bind_eq_Some_conv dest!: session_now_hooks close_hooks split: prod.splits)

lemma limits_hooks: "set_inbound_limits requests limit s = Some s' \<Longrightarrow> hooks_ok B s \<Longrightarrow> hooks_ok B s'"
  by (auto simp: set_inbound_limits_def bind_eq_Some_conv Let_def dest!: session_now_hooks close_hooks
      split: state.splits prod.splits if_splits option.splits)

lemma close_locked_hooks:
  assumes "session_close_locked err s = Some s'" "hooks_ok B s"
  shows "hooks_ok B s'"
proof -
  obtain now s1 where clock: "session_now s = (now, s1)" by fastforce
  with assms(1) obtain cs removed s2 where close: "state_close err now s1 = Some ((cs, removed), s2)" "s' = defer_notes cs (take_removed removed s2)"
    by (auto simp: session_close_locked_def bind_eq_Some_conv)
  have "hooks_ok B (defer_notes cs s2)" by (rule state_close_hooks [OF close(1)]) (simp add: session_now_hooks [OF clock] assms(2))
  then show ?thesis by (simp add: hooks_ok_def close(2))
qed

lemma limits_locked_hooks: "set_inbound_limits_locked requests limit s = Some s' \<Longrightarrow> hooks_ok B s \<Longrightarrow> hooks_ok B s'"
  by (auto simp: set_inbound_limits_locked_def Let_def dest!: close_locked_hooks split: state.splits if_splits option.splits)

lemma session_expire_hooks: "session_expire s = Some s' \<Longrightarrow> hooks_ok B s \<Longrightarrow> hooks_ok B s'"
  by (auto simp: session_expire_def bind_eq_Some_conv dest!: session_now_hooks expire_hooks split: prod.splits)

lemma response_hooks: "admit_response h bs s = Some (r, s') \<Longrightarrow> hooks_ok B s \<Longrightarrow> hooks_ok B s'"
  by (auto simp: admit_response_def bind_eq_Some_conv Let_def dest!: session_now_hooks complete_response_hooks [rotated]
      split: state.splits prod.splits option.splits)

lemma route_hooks:
  assumes "route_message h bs s = Some (r, s')" "hooks_ok B s"
  shows "hooks_ok B s'"
proof (cases "kind_from_id (h_id h) (parity_from (s_side s))")
  case Request
  have "hooks_ok B s1" if "admit_request h bs s = (x, s1)" for x s1
    using that assms(2) by (auto simp: admit_request_def split: state.splits if_splits sum.splits)
  with Request assms show ?thesis by (auto simp: route_message_def split: if_splits sum.splits prod.splits)
next
  case Response
  then obtain x s1 where admit: "admit_response h bs s = Some (x, s1)"
    using assms(1) by (cases "admit_response h bs s") (auto simp: route_message_def)
  then have "s' = s1" using assms(1) Response by (cases x) (simp_all add: route_message_def)
  with response_hooks [OF admit assms(2)] show ?thesis by simp
qed

lemma record_write_hooks: "record_write k r s = Some s' \<Longrightarrow> hooks_ok B s \<Longrightarrow> hooks_ok B s'"
  by (auto simp: record_write_def bind_eq_Some_conv Let_def dest!: session_now_hooks operation_fail_hooks [rotated] hooks_ok_settle [rotated]
      split: state.splits prod.splits option.splits if_splits)

lemma forget_hooks [simp]: "hooks_ok B (forget_refused i b r s) = hooks_ok B s"
  by (simp add: forget_refused_def split: state.splits outgoing_body.splits)

text \<open>The two threads that expire operations run the callbacks before they do anything else.\<close>

lemma take_out_hooks:
  assumes "next_outgoing s = Some (t, s')" "hooks_ok B s"
  shows "hooks_ok B s'"
proof -
  obtain now s1 where clock: "session_now s = (now, s1)" by fastforce
  with assms(1) obtain cs s2 where expire: "state_expire now s1 = Some (cs, s2)" by (auto simp: next_outgoing_def bind_eq_Some_conv)
  have "hooks_ok B (defer_notes cs s2)" using expire_hooks [OF expire] session_now_hooks [OF clock] assms(2) by simp
  with assms(1) clock expire show ?thesis
    by (auto simp: next_outgoing_def split: if_splits state.splits list.splits outgoing_body.splits option.splits)
qed

lemma deadlines_hooks:
  assumes "deadlines_pass s = Some (t, s')" "hooks_ok B s"
  shows "hooks_ok B s'"
proof -
  obtain now s1 where clock: "session_now s = (now, s1)" by fastforce
  with assms(1) obtain cs s2 where expire: "state_expire now s1 = Some (cs, s2)" by (auto simp: deadlines_pass_def bind_eq_Some_conv)
  have "hooks_ok B (defer_notes cs s2)" using expire_hooks [OF expire] session_now_hooks [OF clock] assms(2) by simp
  with assms(1) clock expire show ?thesis by (auto simp: deadlines_pass_def split: if_splits state.splits)
qed

lemma promise_hooks:
  assumes "hooks_ok B s" "k < length (d_promises s)" "p_holder (d_promises s ! k) = Held"
  shows "promise_notify k k s = Some s' \<Longrightarrow> hooks_ok B s'" "promise_receive k s = (r, s') \<Longrightarrow> hooks_ok B s'"
    "promise_drop k s = Some s' \<Longrightarrow> hooks_ok B (s' :: 'p session)"
proof -
  let ?p = "d_promises s ! k"
  have hook: "hook_ok (count_list (noted s) k) k ?p" using assms(1,2) by (simp add: hooks_ok_def)
  note quiet = hooks_ok_update [OF assms(1,2), where n = 0 and cs = "[]", simplified, folded count_list_append]
  show "promise_notify k k s = Some s' \<Longrightarrow> hooks_ok B s'"
  proof (cases "p_result ?p")
    case None
    assume "promise_notify k k s = Some s'"
    then have s': "s' = set_promise k (?p\<lparr>p_registered := True, p_hook := Some k\<rparr>) s" and fresh: "\<not> p_registered ?p"
      using None by (simp_all add: promise_notify_def Let_def split: if_splits)
    have "hook_ok (count_list (noted s) k) k (?p\<lparr>p_registered := True, p_hook := Some k\<rparr>)"
      using hook fresh None assms(3) by (cases "p_hook ?p") (auto simp: hook_ok_def)
    then show ?thesis unfolding s' by (rule quiet)
  next
    case (Some r)
    assume "promise_notify k k s = Some s'"
    then have s': "s' = defer_notes [k] (set_promise k (?p\<lparr>p_registered := True\<rparr>) s)" and fresh: "\<not> p_registered ?p"
      using Some by (simp_all add: promise_notify_def Let_def split: if_splits)
    have "hook_ok (count_list (noted s) k + 1) k (?p\<lparr>p_registered := True\<rparr>)"
      using hook fresh Some by (cases "p_hook ?p") (auto simp: hook_ok_def)
    then show ?thesis unfolding s' by (intro hooks_ok_update [OF assms(1,2), where n = 1]) simp_all
  qed
  show "promise_receive k s = (r, s') \<Longrightarrow> hooks_ok B s'"
  proof (cases "p_result ?p")
    case (Some x)
    assume "promise_receive k s = (r, s')"
    moreover have "hook_ok (count_list (noted s) k) k (?p\<lparr>p_holder := Taken, p_hook := None\<rparr>)"
      using hook Some by (cases "p_hook ?p") (auto simp: hook_ok_def)
    then have "hooks_ok B (set_promise k (?p\<lparr>p_holder := Taken, p_hook := None\<rparr>) s)" by (rule quiet)
    ultimately show ?thesis using Some by (auto simp: promise_receive_def Let_def)
  qed (use assms(1) in \<open>simp add: promise_receive_def Let_def\<close>)
  show "promise_drop k s = Some s' \<Longrightarrow> hooks_ok B s'"
  proof -
    assume "promise_drop k s = Some s'"
    then obtain d where d: "release (case p_result ?p of None \<Rightarrow> 0 | Some r \<Rightarrow> result_charge r) s = Some d"
      "s' = set_promise k (?p\<lparr>p_holder := Dropped, p_hook := None\<rparr>) d" by (auto simp: promise_drop_def Let_def bind_eq_Some_conv)
    have same: "d_promises d = d_promises s" "noted d = noted s" using d(1) by (auto simp: release_Some_iff)
    have "hooks_ok B (set_promise k (?p\<lparr>p_holder := Dropped, p_hook := None\<rparr>) s)"
      by (rule quiet) (use hook in \<open>auto simp: hook_ok_def split: option.splits\<close>)
    with same show ?thesis unfolding d(2) by (simp add: hooks_ok_def set_promise_def)
  qed
qed


lemma run_note_hooks:
  assumes "c \<in> set (d_due s)" "hooks_ok B s"
  shows "hooks_ok B (run_note c s)"
proof -
  have same: "count_list (noted (run_note c s)) k = count_list (noted s) k" for k
    using assms(1) count_list_0_iff [of "d_due s" c] by (auto simp: run_note_def)
  then have "set (noted (run_note c s)) = set (noted s)" unfolding set_eq_iff by (metis count_list_0_iff)
  with same assms(2) show ?thesis unfolding hooks_ok_def by simp
qed

lemma reply_hooks: "session_reply i b deadline s = Some (r, s') \<Longrightarrow> hooks_ok B s \<Longrightarrow> hooks_ok B s'"
  by (auto simp: session_reply_def bind_eq_Some_conv dest!: enqueue_hooks)

lemma take_request_hooks: "take_request s = (r, s') \<Longrightarrow> hooks_ok B s \<Longrightarrow> hooks_ok B s'"
  by (auto simp: take_request_def split: state.splits list.splits)

lemma other_step_hooks:
  assumes "other_step s s'" "hooks_ok B s"
  shows "hooks_ok B s'"
  using assms(1)
proof cases
  case (request m deadline r)
  then show ?thesis unfolding session_request_def by (rule enqueue_hooks) (rule assms(2))
next
  case (reply i b deadline r)
  show ?thesis by (rule reply_hooks [OF reply(2) assms(2)])
next
  case (notify k)
  show ?thesis by (rule promise_hooks(1) [OF assms(2) notify])
next
  case (receive k r)
  show ?thesis by (rule promise_hooks(2) [OF assms(2) receive])
next
  case (drop k)
  show ?thesis by (rule promise_hooks(3) [OF assms(2) drop])
next
  case (decode e)
  then show ?thesis using hooks_ok_release [of _ _ s' B] assms(2) by (simp add: envelope_release_def)
next
  case (autoreply_timeout timeout)
  then show ?thesis using assms(2) by (cases "s_state s") (simp_all add: set_autoreply_timeout_def)
next
  case (recv r)
  show ?thesis by (rule take_request_hooks [OF recv assms(2)])
next
  case (callback c)
  then show ?thesis using run_note_hooks assms(2) by simp
next
  case (limits requests limit)
  show ?thesis by (rule limits_hooks [OF limits assms(2)])
next
  case (close_locked err)
  show ?thesis by (rule close_locked_hooks [OF close_locked assms(2)])
next
  case (limits_locked requests limit)
  show ?thesis by (rule limits_locked_hooks [OF limits_locked assms(2)])
next
  case (stop_stream err)
  then show ?thesis using assms(2) by simp
next
  case (route h bs r)
  show ?thesis by (rule route_hooks [OF route assms(2)])
next
  case (close err)
  show ?thesis by (rule session_close_hooks [OF close assms(2)])
next
  case expire
  show ?thesis by (rule session_expire_hooks [OF expire assms(2)])
next
  case (deadlines t)
  show ?thesis by (rule deadlines_hooks [OF deadlines assms(2)])
qed

lemma session_step_hooks: "session_step s s' \<Longrightarrow> hooks_ok B s \<Longrightarrow> hooks_ok B s'"
  by (induction rule: session_step.induct) (simp_all add: other_step_hooks take_out_hooks record_write_hooks)

lemma hooks_ok_new: "hooks_ok {} (session_new side has_stream c)"
  by (simp add: session_new_def hooks_ok_def)

interpretation callbacks: transition_system "\<lambda>s. \<exists>side has_stream c. s = session_new side has_stream c" session_step "hooks_ok {}"
  by unfold_locales (blast intro: hooks_ok_new session_step_hooks)+

lemma hook_ok_facts:
  assumes "hook_ok n k p"
  shows "n \<le> 1 \<and> (n \<noteq> 0 \<longrightarrow> p_registered p \<and> p_result p \<noteq> None) \<and>
    (p_holder p = Held \<longrightarrow> p_registered p \<longrightarrow> (n \<noteq> 0 \<longleftrightarrow> p_result p \<noteq> None))"
proof (cases "p_hook p")
  case None
  then have "n \<le> 1" "n = 1 \<longrightarrow> p_registered p \<and> p_result p \<noteq> None"
    "p_holder p = Held \<longrightarrow> p_registered p \<longrightarrow> p_result p \<noteq> None \<and> n = 1" using assms by (simp_all add: hook_ok_def)
  moreover from this(1) have "n = 0 \<or> n = 1" by linarith
  ultimately show ?thesis by auto
next
  case (Some c)
  with assms show ?thesis by (simp add: hook_ok_def)
qed

text \<open>C8: the callback of a promise runs at most once, never before the promise has its result, and only if it was
  registered; and as soon as a promise that still exists is settled, whether by an answer, a write, an expiry or the end of the
  session, its registered callback has run or is due, which means that it is the next thing its thread does after its lock.
  Whatever else happens, a callback that is due stays so until it runs.\<close>

theorem callback_once:
  assumes "session_run (session_new side has_stream c) s" and "k < length (d_promises s)"
  shows "count_list (d_called s) k + count_list (d_due s) k \<le> 1 \<and>
    (k \<in> set (d_called s) \<union> set (d_due s) \<longrightarrow> p_registered (d_promises s ! k) \<and> p_result (d_promises s ! k) \<noteq> None) \<and>
    (p_holder (d_promises s ! k) = Held \<longrightarrow> p_registered (d_promises s ! k) \<longrightarrow>
       (k \<in> set (d_called s) \<union> set (d_due s) \<longleftrightarrow> p_result (d_promises s ! k) \<noteq> None)) \<and>
    (k \<in> set (d_due s) \<longrightarrow> (\<forall>s'. session_run s s' \<longrightarrow> k \<in> set (d_called s') \<union> set (d_due s')))"
proof -
  let ?n = "count_list (d_called s) k + count_list (d_due s) k"
  have hooks: "hooks_ok {} s" using callbacks.inv_reachable assms(1) by blast
  then have hook: "hook_ok ?n k (d_promises s ! k)" using assms(2) by (simp add: hooks_ok_def)
  have mem: "k \<in> set (d_called s) \<union> set (d_due s) \<longleftrightarrow> ?n \<noteq> 0" by (simp add: count_list_0_iff)
  have kept: "k \<in> set (d_called s') \<union> set (d_due s')" if "k \<in> set (d_due s)" "session_run s s'" for s'
  proof -
    have "hooks_ok {k} s" using hooks that(1) by (simp add: hooks_ok_def)
    with that(2) have "hooks_ok {k} s'" by (induction rule: rtranclp_induct) (blast intro: session_step_hooks)+
    then show ?thesis by (simp add: hooks_ok_def)
  qed
  note facts = hook_ok_facts [OF hook, folded mem]
  show ?thesis
  proof (intro conjI)
    show "k \<in> set (d_due s) \<longrightarrow> (\<forall>s'. session_run s s' \<longrightarrow> k \<in> set (d_called s') \<union> set (d_due s'))" using kept by blast
  qed (rule facts [THEN conjunct1] facts [THEN conjunct2, THEN conjunct1] facts [THEN conjunct2, THEN conjunct2])+
qed

end
