(* ===== verification/Session_Pair.thy ===== *)
theory Session_Pair
  imports Session_Machine
begin

text \<open>
  Two sessions across a wire: the request that one side's writer takes reaches the other side's
  application, and the answer reaches the promise of the request. The wire in between is any
  transport that delivers the bytes; the transport's own properties are in its theories.
\<close>


lemma run_side: "session_run s t \<Longrightarrow> session_inv s \<Longrightarrow> s_side t = s_side s"
  using session_run_ok [of s t] by (simp add: ok_def history_kept_def)

lemma run_new_side: "session_run (session_new side has_stream c) s \<Longrightarrow> s_side s = side"
  using run_side [OF _ session_new_inv] by (force simp: session_new_def)

lemma kind_peer: "kind_from_id i (parity_from r) = Response \<Longrightarrow> kind_from_id i (parity_from (peer r)) = Request"
  using parity_from_peer [of r] by (auto simp: kind_from_id_def split: if_splits)


section \<open>Requests\<close>

lemma incoming_decode_result:
  assumes inv: "session_inv s" and e: "e \<in> set (d_taken s)" and dec: "envelope_decode pb (s_side s) (in_bytes e) = Ok (i, b)"
  shows "\<exists>s'. incoming_decode pb e s = Some ((case b of Ok m \<Rightarrow> Ok m | Err err \<Rightarrow> Err (Remote err)), s') \<and> s_held s' = s_held s"
proof -
  obtain s1 where "envelope_release e s = Some s1" "s_side s1 = s_side s" "s_held s1 = s_held s"
    using envelope_release_ok [OF inv e] by metis
  with dec show ?thesis by (cases b) (simp_all add: incoming_decode_def)
qed

lemma recv_head:
  assumes inv: "session_inv t" and q: "s_state t = StOpen q" "q_incoming q = (i, e) # rest"
    and dec: "envelope_decode pb (s_side t) (in_bytes e) = Ok (i, Ok m)"
  shows "\<exists>t'. session_recv pb t = Some (Ready (Ok (m, i)), t') \<and> i \<in> set (s_held t')"
proof -
  obtain t1 where take: "take_request t = (Ready (Ok (i, e)), t1)" and side: "s_side t1 = s_side t"
    using q by (simp add: take_request_def)
  note held = take_request_ok(2) [OF inv take refl]
  have inv1: "session_inv t1" by (rule ok_inv [OF take_request_ok(1) [OF inv take]])
  obtain t2 where "incoming_decode pb e t1 = Some (Ok m, t2)" "s_held t2 = s_held t1"
    using incoming_decode_result [OF inv1, of e pb i "Ok m"] held dec side by auto
  with take held show ?thesis by (simp add: session_recv_def)
qed

text \<open>The bytes of a request under an identifier of the other side: provided this side is open and has room,
  handling them succeeds and appends the request to the queue under the same identifier, and
  whenever it has come to the head of the queue, receiving yields the very message, with a responder
  for that identifier.\<close>

lemma request_handled:
  assumes codec: "prost_codec pb" and limit: "limit < 2 ^ 64"
    and own: "kind_from_id i (parity_from side) = Response" and enc: "envelope_encode pb limit side i (Ok m) = Ok bs"
    and run: "session_run (session_new (peer side) has_stream c) t" and q: "s_state t = StOpen q"
    and room: "i \<notin> q_reserved q" "card (q_reserved q) < q_max_requests q"
      "d_retained t + length bs < 2 ^ 64" "d_retained t + length bs \<le> q_max_bytes q"
  shows "\<exists>t' q' e. handle_message pb bs t = Some (Ok (), t') \<and> s_state t' = StOpen q' \<and>
    q_incoming q' = q_incoming q @ [(i, e)] \<and> q_reserved q' = insert i (q_reserved q) \<and>
    (\<forall>u qu rest. session_run t' u \<longrightarrow> s_state u = StOpen qu \<longrightarrow> q_incoming qu = (i, e) # rest \<longrightarrow>
       (\<exists>u'. session_recv pb u = Some (Ready (Ok (m, i)), u') \<and> i \<in> set (s_held u')))"
proof -
  have inv: "session_inv t" using run_inv run by blast
  have side: "s_side t = peer side" using run_new_side run by blast
  obtain h where decode: "envelope_decode pb (peer side) bs = Ok (i, Ok m)"
    and header: "decode_header pb (peer side) bs = Some (Ok h)" "h_id h = i" "\<not> h_failed h" "\<not> h_unknown h"
    using prost_codec.envelope_roundtrip [OF codec enc limit] by auto
  have kind: "kind_from_id i (parity_from (peer side)) = Request" by (rule kind_peer [OF own])
  let ?e = "\<lparr>in_bytes = bs, in_header = h\<rparr>"
  let ?q = "q\<lparr>q_reserved := insert i (q_reserved q), q_incoming := q_incoming q @ [(i, ?e)]\<rparr>"
  let ?t = "set_queues ?q (t\<lparr>d_retained := d_retained t + length bs\<rparr>)"
  have admit: "admit_request h bs t = (Ok (), ?t)"
    using q room header by (simp add: admit_request_def charge_reserve_def)
  have handle: "handle_message pb bs t = Some (Ok (), ?t)"
    using header kind admit side by (simp add: handle_message_def route_message_def)
  have inv': "session_inv ?t"
    by (rule ok_inv [OF admit_request_ok(2) [OF inv _ admit]]) (use kind header side in simp_all)
  have "\<exists>u'. session_recv pb u = Some (Ready (Ok (m, i)), u') \<and> i \<in> set (s_held u')"
    if "session_run ?t u" "s_state u = StOpen qu" "q_incoming qu = (i, ?e) # rest" for u qu rest
  proof (rule recv_head [OF _ that(2,3)])
    show "session_inv u" by (rule ok_inv [OF session_run_ok [OF that(1) inv']])
    show "envelope_decode pb (s_side u) (in_bytes ?e) = Ok (i, Ok m)"
      using run_side [OF that(1) inv'] decode side by simp
  qed
  with handle show ?thesis by (intro exI [of _ ?t] exI [of _ ?q] exI [of _ ?e]) simp
qed


section \<open>Answers\<close>

lemma wait_result:
  assumes inv: "session_inv s" and k: "k < length (d_promises s)" "p_holder (d_promises s ! k) = Held"
    and res: "p_result (d_promises s ! k) = Some (Ok (PResponse e))" and dec: "envelope_decode pb (s_side s) (in_bytes e) = Ok (i, b)"
  shows "\<exists>s'. response_wait pb k s = Some (Ready (case b of Ok m \<Rightarrow> Ok m | Err err \<Rightarrow> Err (Remote err)), s')"
proof -
  obtain s1 where exp: "session_expire s = Some s1" and ok1: "ok s s1" and len: "length (d_promises s1) = length (d_promises s)"
    and hold: "p_holder (d_promises s1 ! k) = Held" using session_expire_ok [OF inv] k by auto
  have kept: "p_result (d_promises s1 ! k) = Some (Ok (PResponse e))" "s_side s1 = s_side s"
    using ok1 res k(1) by (auto simp: ok_def history_kept_def promises_kept_def promise_kept_def)
  obtain x s2 where recv: "promise_receive k s1 = (x, s2)" by fastforce
  have k1: "k < length (d_promises s1)" using k len by simp
  note got = promise_receive_ok [OF ok_inv [OF ok1] k1 hold recv]
  have x: "x = Some (Ok (PResponse e))" using got(2) kept by simp
  have side: "s_side s2 = s_side s" using got(1) kept by (simp add: ok_def history_kept_def)
  obtain s3 where "incoming_decode pb e s2 = Some ((case b of Ok m \<Rightarrow> Ok m | Err err \<Rightarrow> Err (Remote err)), s3)"
    using incoming_decode_result [OF ok_inv [OF got(1)], of e pb i b] got(3) [OF x] dec side by auto
  with exp recv x show ?thesis by (simp add: response_wait_def)
qed

text \<open>The answer that the other side encodes reaches the promise of the request it answers: as long
  as the request is pending, its deadline has not passed and the bytes fit, handling the bytes
  succeeds, and from then on, whatever else happens to the session, even its closing, waiting on the
  promise yields the message or the error that the peer's application answered with. Waiting for
  the payload of another variant than the message's is reported as such.\<close>

lemma response_arrives:
  assumes codec: "prost_codec pb" and limit: "limit < 2 ^ 64"
    and sent: "outgoing_bytes pb limit (peer side) i (OutReply i b) = Ok bs"
    and run: "session_run (session_new side has_stream c) s" and q: "s_state s = StOpen q"
    and out: "q_outstanding q i = Some k" and pending: "map_of (q_operations q) k = Some po"
    and held: "p_holder (d_promises s ! k) = Held" and early: "fst (clock_now (s_clock s)) < po_deadline po"
    and room: "d_retained s + length bs < 2 ^ 64" "d_retained s + length bs \<le> q_max_bytes q"
  shows "\<exists>s'. handle_message pb bs s = Some (Ok (), s') \<and> p_holder (d_promises s' ! k) = Held \<and>
    (\<forall>u. session_run s' u \<longrightarrow> p_holder (d_promises u ! k) = Held \<longrightarrow>
       (\<exists>u'. promise_wait pb v k u = Some (Ready (case b of Ok m \<Rightarrow> payload_try_from v m | Err err \<Rightarrow> Err (Remote err)), u')))"
proof -
  have inv: "session_inv s" and side: "s_side s = side" using run_inv run_new_side run by blast+
  have enc: "envelope_encode pb limit (peer side) i b = Ok bs" using sent by (simp add: outgoing_bytes_def)
  obtain h where decode: "envelope_decode pb side bs = Ok (i, b)"
    and header: "decode_header pb side bs = Some (Ok h)" "h_id h = i"
    using prost_codec.envelope_roundtrip [OF codec enc limit] by auto
  have o: "open_inv s q" by (rule session_inv_open [OF inv q])
  then have "ids_inv s q" "ops_inv (d_promises s) (q_operations q)" by (simp_all add: open_inv_def)
  then have kind: "kind_from_id i (parity_from side) = Response" and k: "k < length (d_promises s)"
    using out side ops_inv_lookup(4) [OF _ pending] by (auto simp: ids_inv_def kind_from_id_def)
  let ?e = "\<lparr>in_bytes = bs, in_header = h\<rparr>"
  obtain r s' where admit: "admit_response h bs s = Some (r, s')" "ok s s'" "responded h bs s r s'"
    using admit_response_ok [OF inv] by blast
  have fits: "answer po (fst (clock_now (s_clock s))) (d_retained s) (q_max_bytes q) ?e = Ok (PResponse ?e)"
    using early room by (simp add: answer_def charge_reserve_def in_charge_def)
  have r: "r = Ok ()" and res: "p_result (d_promises s' ! k) = Some (Ok (PResponse ?e))" "p_holder (d_promises s' ! k) = Held"
    using admit(3) q out pending held header(2) fits by (cases r; auto simp: responded_def Let_def)+
  have handle: "handle_message pb bs s = Some (Ok (), s')"
    using header kind side admit(1) r by (simp add: handle_message_def route_message_def)
  have "\<exists>u'. promise_wait pb v k u = Some (Ready (case b of Ok m \<Rightarrow> payload_try_from v m | Err err \<Rightarrow> Err (Remote err)), u')"
    if u: "session_run s' u" "p_holder (d_promises u ! k) = Held" for u
  proof -
    have ok': "ok s' u" by (rule session_run_ok [OF u(1) ok_inv [OF admit(2)]])
    then have kept: "k < length (d_promises u)" "p_result (d_promises u ! k) = Some (Ok (PResponse ?e))" "s_side u = side"
      using admit(2) k res(1) side by (auto simp: ok_def history_kept_def promises_kept_def promise_kept_def)
    have "envelope_decode pb (s_side u) (in_bytes ?e) = Ok (i, b)" by (simp add: kept(3) decode)
    from wait_result [OF ok_inv [OF ok'] kept(1) u(2) kept(2) this] show ?thesis
      by (cases b) (auto simp: promise_wait_def)
  qed
  with handle res(2) show ?thesis by blast
qed

end
