(* ===== verification/Session_Transport.thy ===== *)
theory Session_Transport
  imports Session_Calls Session_Pair Transport_Endpoint
begin

text \<open>
  The writer thread of a session over its transport: \<^verbatim>\<open>run_writer\<close> of \<^verbatim>\<open>src/src/protocol/session.rs\<close> with
  the \<^verbatim>\<open>Sender\<close> it owns. The thread is a state machine of its own, whose steps interleave with those of all
  other threads of the session and with whatever else happens on the transport: other sessions being
  bound, ended or written, contexts released, the owner dropped, the stream read.
\<close>


section \<open>The writer thread\<close>

text \<open>Encoding and sending one message, with the limit of the transport.\<close>

definition write_message :: "'p prost \<Rightarrow> cobs \<Rightarrow> 'k hpke \<Rightarrow> nat \<Rightarrow> role \<Rightarrow> id \<Rightarrow> 'p outgoing_body \<Rightarrow>
    ('k wire \<times> env, protocol_error, unit) run" where
  "write_message pb c h sealer side i b = (\<lambda>(w, e).
     case MAX_MESSAGE_SIZE (cobs_encode_buffer c) of
       None \<Rightarrow> None
     | Some limit \<Rightarrow>
         (case outgoing_bytes pb limit side i b of
            Err err \<Rightarrow> fail err (w, e)
          | Ok bs \<Rightarrow> map_option (\<lambda>(r, s). (case r of Err err \<Rightarrow> Err (Transport err) | Ok u \<Rightarrow> Ok u, s))
              (sender_send c h sealer bs (w, e))))"

text \<open>Where the thread is: before \<^verbatim>\<open>next_outgoing\<close>, with a message in its hands, before \<^verbatim>\<open>close\<close> after a transport
  error, before the two critical sections after any other result, before \<^verbatim>\<open>disconnect\<close>, and finished.\<close>

datatype 'p writer_phase =
    Looking
  | Holding id "'p outgoing"
  | Failing transport_error
  | Refusing id "'p outgoing" "(protocol_error, unit) result"
  | Reporting id "'p outgoing" "(protocol_error, unit) result"
  | Leaving
  | Gone

text \<open>\<open>l_sent\<close> is a ghost: the messages the transport accepted, in that order.\<close>

record ('p, 'k) link =
  l_session :: "'p session"
  l_wire :: "'k wire"
  l_env :: env
  l_phase :: "'p writer_phase"
  l_sent :: "(id \<times> 'p outgoing) list"

fun after_look :: "'p write_turn \<Rightarrow> 'p writer_phase" where
  "after_look (Took i og) = Holding i og"
| "after_look Ended = Leaving"
| "after_look _ = Looking"

fun after_send :: "id \<Rightarrow> 'p outgoing \<Rightarrow> (protocol_error, unit) result \<Rightarrow> 'p writer_phase" where
  "after_send i og (Inl (Transport err)) = Failing err"
| "after_send i og r = Refusing i og r"

inductive writer_step :: "'p prost \<Rightarrow> cobs \<Rightarrow> 'k hpke \<Rightarrow> nat \<Rightarrow> ('p, 'k) link \<Rightarrow> ('p, 'k) link \<Rightarrow> bool"
  for pb c h sealer where
  look: "l_phase x = Looking \<Longrightarrow> next_outgoing (l_session x) = Some (t, s) \<Longrightarrow>
    writer_step pb c h sealer x (x\<lparr>l_session := s, l_phase := after_look t\<rparr>)"
| send: "l_phase x = Holding i og \<Longrightarrow>
    write_message pb c h sealer (s_side (l_session x)) i (og_body og) (l_wire x, l_env x) = Some (r, w, e) \<Longrightarrow>
    writer_step pb c h sealer x (x\<lparr>l_wire := w, l_env := e, l_phase := after_send i og r,
      l_sent := l_sent x @ (if isl r then [] else [(i, og)])\<rparr>)"
| fail: "l_phase x = Failing err \<Longrightarrow> session_close (Transport err) (l_session x) = Some s \<Longrightarrow>
    writer_step pb c h sealer x (x\<lparr>l_session := s\<lparr>s_writing := None\<rparr>, l_phase := Leaving\<rparr>)"
| refuse: "l_phase x = Refusing i og r \<Longrightarrow>
    writer_step pb c h sealer x (x\<lparr>l_session := forget_refused i (og_body og) r (l_session x), l_phase := Reporting i og r\<rparr>)"
| report: "l_phase x = Reporting i og r \<Longrightarrow> record_write (og_key og) r (l_session x) = Some s \<Longrightarrow>
    writer_step pb c h sealer x (x\<lparr>l_session := s\<lparr>s_writing := None\<rparr>, l_phase := Looking\<rparr>)"
| leave: "l_phase x = Leaving \<Longrightarrow> sender_disconnect sealer (l_wire x, l_env x) = Some (r, w, e) \<Longrightarrow>
    writer_step pb c h sealer x (x\<lparr>l_wire := w, l_env := e, l_phase := Gone\<rparr>)"
| thread: "other_step (l_session x) s \<Longrightarrow> writer_step pb c h sealer x (x\<lparr>l_session := s\<rparr>)"
| transport: "run_ob_op c op (w_outbound (l_wire x), l_env x) = Some (r, ob, e) \<Longrightarrow> op \<noteq> ObBind sealer \<Longrightarrow>
    (\<And>p. op \<noteq> ObSend sealer p) \<Longrightarrow>
    writer_step pb c h sealer x (x\<lparr>l_wire := (l_wire x)\<lparr>w_outbound := ob\<rparr>, l_env := e\<rparr>)"
| contexts: "sealers sealer \<in> {w_sealers (l_wire x) sealer, None} \<Longrightarrow>
    writer_step pb c h sealer x (x\<lparr>l_wire := (l_wire x)\<lparr>w_sealers := sealers\<rparr>\<rparr>)"
| owner: "writer_step pb c h sealer x (x\<lparr>l_wire := (l_wire x)\<lparr>w_alive := False\<rparr>\<rparr>)"
| reading: "e_output e = e_output (l_env x) \<Longrightarrow> writer_step pb c h sealer x (x\<lparr>l_env := e\<rparr>)"

text \<open>\<^verbatim>\<open>Session::start\<close>: a new session with its writer, on a transport where its context is bound.\<close>

definition started :: "role \<Rightarrow> bool \<Rightarrow> clock \<Rightarrow> 'k wire \<Rightarrow> env \<Rightarrow> ('p, 'k) link" where
  "started side has_stream cl w e = \<lparr>l_session = session_new side has_stream cl, l_wire = w, l_env = e,
     l_phase = Looking, l_sent = []\<rparr>"


section \<open>Invariant\<close>

abbreviation side_of :: "('p, 'k) link \<Rightarrow> role" where
  "side_of x \<equiv> s_side (l_session x)"

text \<open>The message in hand that the transport has not accepted.\<close>

fun carried :: "'p writer_phase \<Rightarrow> (id \<times> 'p outgoing) list" where
  "carried (Holding i og) = [(i, og)]"
| "carried (Refusing i og (Inl err)) = [(i, og)]"
| "carried _ = []"

definition request_ids :: "(id \<times> 'p outgoing) list \<Rightarrow> id list" where
  "request_ids xs = map fst (filter (\<lambda>(i, og). is_request og) xs)"

text \<open>A sender that can no longer send.\<close>

definition cut_off :: "nat \<Rightarrow> 'k wire \<Rightarrow> bool" where
  "cut_off sealer w \<longleftrightarrow> \<not> w_alive w \<or> w_sealers w sealer = None \<or> ob_binding (w_outbound w) \<noteq> Some sealer"

fun phase_ok :: "nat \<Rightarrow> 'p session \<Rightarrow> 'k wire \<Rightarrow> 'p writer_phase \<Rightarrow> bool" where
  "phase_ok sealer s w Looking \<longleftrightarrow> s_writing s = None"
| "phase_ok sealer s w (Holding i og) \<longleftrightarrow> s_writing s = Some (i, og)"
| "phase_ok sealer s w (Failing err) \<longleftrightarrow> True"
| "phase_ok sealer s w (Refusing i og r) \<longleftrightarrow> s_writing s = Some (i, og)"
| "phase_ok sealer s w (Reporting i og r) \<longleftrightarrow> s_writing s = Some (i, og)"
| "phase_ok sealer s w Leaving \<longleftrightarrow> (\<exists>err. s_state s = StClosed err)"
| "phase_ok sealer s w Gone \<longleftrightarrow> (\<exists>err. s_state s = StClosed err) \<and> cut_off sealer w"

text \<open>The request identifiers in use are all different, in increasing order, of this side and below the
  next one.\<close>

definition order_ok :: "'p session \<Rightarrow> (id \<times> 'p outgoing) list \<Rightarrow> bool" where
  "order_ok s xs \<longleftrightarrow> sorted_wrt (<) (map unat (request_ids xs)) \<and>
     (\<forall>i \<in> set (request_ids xs). parity_of i = parity_from (s_side s) \<and>
        (\<forall>q n. s_state s = StOpen q \<longrightarrow> q_next_id q = Some n \<longrightarrow> unat i < unat n))"

text \<open>The identifier of a pending request leads to it.\<close>

definition leads_to :: "'p session \<Rightarrow> id \<Rightarrow> nat \<Rightarrow> bool" where
  "leads_to s i k \<longleftrightarrow> k < length (d_promises s) \<and>
     (\<forall>q. s_state s = StOpen q \<longrightarrow> k \<in> pending_keys q \<longrightarrow> q_outstanding q i = Some k)"

definition answerable :: "'p session \<Rightarrow> (id \<times> 'p outgoing) list \<Rightarrow> bool" where
  "answerable s xs \<longleftrightarrow> (\<forall>m \<in> set xs. is_request (snd m) \<longrightarrow> leads_to s (fst m) (og_key (snd m)))"

text \<open>The frame of a message: its envelope, sealed with some context, encoded.\<close>

definition frame_for :: "'p prost \<Rightarrow> cobs \<Rightarrow> 'k hpke \<Rightarrow> role \<Rightarrow> id \<times> 'p outgoing \<Rightarrow> bytes \<Rightarrow> bool" where
  "frame_for pb c h side m f \<longleftrightarrow> (\<exists>limit bs ctx packet ctx'.
     MAX_MESSAGE_SIZE (cobs_encode_buffer c) = Some limit \<and> outgoing_bytes pb limit side (fst m) (og_body (snd m)) = Ok bs \<and>
     seal c h ctx bs = Some (Ok (packet, ctx')) \<and> cobs_encode c packet MAX_FRAME_SIZE = Some f)"

definition frames_ok :: "'p prost \<Rightarrow> cobs \<Rightarrow> 'k hpke \<Rightarrow> role \<Rightarrow> (id \<times> 'p outgoing) list \<Rightarrow> env \<Rightarrow> bool" where
  "frames_ok pb c h side ms e \<longleftrightarrow> (\<exists>fs. list_all2 (frame_for pb c h side) ms fs \<and> subseq fs (segments (e_output e)))"

definition link_inv :: "'p prost \<Rightarrow> cobs \<Rightarrow> 'k hpke \<Rightarrow> nat \<Rightarrow> ('p, 'k) link \<Rightarrow> bool" where
  "link_inv pb c h sealer x \<longleftrightarrow> session_inv (l_session x) \<and>
     link_ok legal_frames (ob_writer (w_outbound (l_wire x)), l_env x) \<and>
     phase_ok sealer (l_session x) (l_wire x) (l_phase x) \<and>
     order_ok (l_session x) (l_sent x @ carried (l_phase x)) \<and>
     answerable (l_session x) (l_sent x @ carried (l_phase x)) \<and>
     frames_ok pb c h (side_of x) (l_sent x) (l_env x)"

lemma request_ids_append [simp]: "request_ids (xs @ ys) = request_ids xs @ request_ids ys"
  by (simp add: request_ids_def)

lemma answerable_append [simp]: "answerable s (xs @ ys) \<longleftrightarrow> answerable s xs \<and> answerable s ys"
  by (auto simp: answerable_def)

lemma answerable_small [simp]: "answerable s []"
  "answerable s [(i, og)] \<longleftrightarrow> (is_request og \<longrightarrow> leads_to s i (og_key og))"
  by (simp_all add: answerable_def)

lemma order_ok_ok:
  assumes "ok s s'" "order_ok s xs"
  shows "order_ok s' xs"
proof -
  have side: "s_side s' = s_side s" using assms(1) by (simp add: ok_def history_kept_def)
  have "unat i < unat n" if i: "i \<in> set (request_ids xs)" and next_id: "s_state s' = StOpen q'" "q_next_id q' = Some n" for i q' n
  proof (cases "s_state s")
    case (StClosed err)
    with assms(1) next_id(1) show ?thesis by (simp add: ok_def history_kept_def)
  next
    case (StOpen q)
    have "history_kept s s'" using assms(1) by (simp add: ok_def)
    then obtain m where m: "q_next_id q = Some m" "unat m \<le> unat n"
      using StOpen next_id by (rule history_next_id)
    have "unat i < unat m" using assms(2) i StOpen m(1) unfolding order_ok_def by blast
    with m(2) show ?thesis by simp
  qed
  with assms(2) side show ?thesis by (auto simp: order_ok_def)
qed

lemma leads_to_kept:
  assumes kept: "calls_kept (length (d_promises s)) (s_state s) (s_state s')" and len: "length (d_promises s) \<le> length (d_promises s')"
    and lead: "leads_to s i k"
  shows "leads_to s' i k"
proof -
  have k: "k < length (d_promises s)" using lead by (simp add: leads_to_def)
  have "q_outstanding q' i = Some k" if q': "s_state s' = StOpen q'" "k \<in> pending_keys q'" for q'
  proof -
    obtain q where q: "s_state s = StOpen q" using kept q'(1) by (auto simp: calls_kept_def)
    have "k \<in> pending_keys q" and stays: "q_outstanding q i = Some k \<longrightarrow> q_outstanding q' i = Some k"
      using kept q q' k by auto
    then have "q_outstanding q i = Some k" using lead q by (simp add: leads_to_def)
    with stays show ?thesis by simp
  qed
  with k len show ?thesis by (simp add: leads_to_def)
qed

lemma answerable_kept:
  assumes "calls_kept (length (d_promises s)) (s_state s) (s_state s')" "length (d_promises s) \<le> length (d_promises s')"
    and "answerable s xs"
  shows "answerable s' xs"
  using assms leads_to_kept unfolding answerable_def by blast

lemma frames_ok_more:
  assumes "frames_ok pb c h side ms e" "prefix (segments (e_output e)) (segments (e_output e'))"
  shows "frames_ok pb c h side ms e'"
proof -
  obtain fs where fs: "list_all2 (frame_for pb c h side) ms fs" "subseq fs (segments (e_output e))"
    using assms(1) by (auto simp: frames_ok_def)
  moreover have "subseq fs (segments (e_output e'))"
    using fs(2) assms(2) by (auto elim!: prefixE intro: subseq_rev_drop_many)
  ultimately show ?thesis by (auto simp: frames_ok_def)
qed



section \<open>The writer's own steps\<close>

lemma ok_promises: "ok s s' \<Longrightarrow> length (d_promises s) \<le> length (d_promises s')"
  by (simp add: ok_def history_kept_def promises_kept_def)

lemma next_outgoing_turns:
  assumes "next_outgoing s = Some (t, s')"
  obtains (stay) "t = Again \<or> t = Idle" "s_writing s' = s_writing s" "calls_kept (length (d_promises s)) (s_state s) (s_state s')"
  | (ended) err where "t = Ended" "s_state s' = StClosed err"
  | (request) i og m q q' where "t = Took i og" "og_body og = OutRequest m" "s_writing s' = Some (i, og)"
      "calls_kept (length (d_promises s)) (s_state s) (StOpen q)" "q_next_id q = Some i" "s_state s' = StOpen q'"
      "q_outstanding q' = (q_outstanding q)(i \<mapsto> og_key og)" "pending_keys q' = pending_keys q"
  | (reply) i og b where "t = Took i og" "og_body og = OutReply i b" "s_writing s' = Some (i, og)"
      "calls_kept (length (d_promises s)) (s_state s) (s_state s')"
proof -
  obtain now s1 where clock: "session_now s = (now, s1)" by fastforce
  with assms obtain cs s2 where expire: "state_expire now s1 = Some (cs, s2)"
    by (auto simp: next_outgoing_def bind_eq_Some_conv)
  have kept: "calls_kept (length (d_promises s)) (s_state s) (s_state s2)" "s_writing s2 = s_writing s"
    using expire_calls [OF expire] calls_ok_now [OF clock] by (simp_all add: calls_ok_def)
  show thesis
  proof (cases "cs = []")
    case False
    then show thesis
      using assms clock expire kept by (intro stay) (auto simp: next_outgoing_def defer_notes_def)
  next
    case True
    show thesis
    proof (cases "s_state s2")
      case (StClosed err)
      with True assms clock expire show thesis by (intro ended) (auto simp: next_outgoing_def)
    next
      case q: (StOpen q)
      show thesis
      proof (cases "q_outgoing q")
        case Nil
        with True q assms clock expire kept show thesis by (intro stay) (auto simp: next_outgoing_def)
      next
        case (Cons og rest)
        show thesis
        proof (cases "og_body og")
          case (OutReply i b)
          let ?q = "q\<lparr>q_outgoing := rest, q_reserved := q_reserved q - {i}\<rparr>"
          have "t = Took i og" "s' = (set_queues ?q s2)\<lparr>s_writing := Some (i, og)\<rparr>"
            using True q Cons OutReply assms clock expire by (simp_all add: next_outgoing_def)
          then show thesis using OutReply kept(1) q calls_kept_cong [of _ _ q ?q] by (intro reply) simp_all
        next
          case (OutRequest m)
          show thesis
          proof (cases "q_next_id q")
            case None
            with True q Cons OutRequest assms clock expire show thesis by (auto simp: next_outgoing_def)
          next
            case (Some i)
            let ?q = "q\<lparr>q_outgoing := rest, q_next_id := id_checked_add2 i, q_outstanding := (q_outstanding q)(i \<mapsto> og_key og),
              q_operations := relabel (og_key og) i (q_operations q)\<rparr>"
            have "t = Took i og" "s' = (set_queues ?q s2)\<lparr>s_writing := Some (i, og)\<rparr>"
              using True q Cons OutRequest Some assms clock expire by (simp_all add: next_outgoing_def relabel_def)
            then show thesis using OutRequest Some kept(1) q by (intro request [where q = q and q' = ?q]) (simp_all add: pending_keys_def)
          qed
        qed
      qed
    qed
  qed
qed

lemma expired_ids_free:
  assumes "session_inv s" "next_outgoing s = Some (Took i og, s')" "og_body og = OutRequest m" "s_state s = StOpen q"
  shows "q_outstanding q i = None"
  using took_request_taken [OF assms(1-3)] assms(3,4) by (auto simp: taken_def)

lemma take_out_calls:
  assumes inv: "session_inv s" and took: "next_outgoing s = Some (t, s')"
  shows "calls_kept (length (d_promises s)) (s_state s) (s_state s')"
  using took
proof (cases rule: next_outgoing_turns)
  case (ended err)
  then show ?thesis by simp
next
  case (request i og m q q')
  obtain q0 where q0: "s_state s = StOpen q0" using request(4) by (auto simp: calls_kept_def)
  have "q_outstanding q0 i = None" using expired_ids_free [OF inv _ request(2) q0] took request(1) by simp
  with request q0 show ?thesis by auto
qed auto

lemma look_answerable:
  assumes inv: "session_inv s" and took: "next_outgoing s = Some (t, s')" and old: "answerable s xs"
  shows "answerable s' (xs @ carried (after_look t))"
proof -
  have "ok s s'" by (rule next_outgoing_kept [OF inv took])
  note now = answerable_kept [OF take_out_calls [OF inv took] ok_promises [OF this] old]
  have inv': "session_inv s'" by (rule ok_inv) fact
  from took show ?thesis
  proof (cases rule: next_outgoing_turns)
    case (request i og m q q')
    have "ids_inv s' q'" using session_inv_open [OF inv' request(6)] by (simp add: open_inv_def)
    moreover have "q_outstanding q' i = Some (og_key og)" using request(7) by simp
    ultimately have "og_key og < length (d_promises s')" unfolding ids_inv_def by blast
    then have "leads_to s' i (og_key og)" using request(6,7) by (simp add: leads_to_def)
    with now request(1) show ?thesis by simp
  next
    case (reply i og b)
    then have "\<not> is_request og" by (simp add: is_request_def)
    with now reply(1) show ?thesis by simp
  next
    case stay
    with now show ?thesis by (elim disjE) simp_all
  next
    case (ended err)
    with now show ?thesis by simp
  qed
qed

lemma look_order:
  assumes inv: "session_inv s" and took: "next_outgoing s = Some (t, s')" and old: "order_ok s xs"
  shows "order_ok s' (xs @ carried (after_look t))"
proof -
  have ok: "ok s s'" by (rule next_outgoing_kept [OF inv took])
  note now = order_ok_ok [OF ok old]
  from took show ?thesis
  proof (cases rule: next_outgoing_turns)
    case (request i og m q1 q1')
    have "taken s t s'" using took_request_taken [OF inv _ request(2)] took request(1) by simp
    then obtain q q' where q: "s_state s = StOpen q" "s_state s' = StOpen q'" "q_next_id q = Some i" "q_next_id q' = id_checked_add2 i"
      and kind: "kind_from_id i (parity_from (s_side s)) = Response"
      using request(1,2) by (auto simp: taken_def)
    have "parity_of i = parity_from (s_side s')" using kind ok by (auto simp: kind_from_id_def ok_def history_kept_def split: if_splits)
    moreover have "\<forall>j \<in> set (request_ids xs). unat j < unat i" using old q(1,3) by (simp add: order_ok_def)
    moreover have "\<forall>n. q_next_id q' = Some n \<longrightarrow> unat i < unat n" using id_checked_add2_Some(1) [of i] q(4) by simp
    moreover have "request_ids (carried (after_look t)) = [i]" using request by (simp add: request_ids_def is_request_def)
    ultimately show ?thesis using now q(2) by (auto simp: order_ok_def sorted_wrt_append)
  next
    case (reply i og b)
    with now show ?thesis by (simp add: request_ids_def is_request_def order_ok_def)
  qed (use now in auto)
qed

lemma look_phase:
  assumes "next_outgoing s = Some (t, s')" "s_writing s = None"
  shows "phase_ok sealer s' w (after_look t)"
  using assms(1) by (cases rule: next_outgoing_turns) (use assms(2) in auto)


lemma sender_send_wire:
  assumes c: "cobs_codec c" and run: "sender_send c h sealer bs (w, e) = Some (r, w', e')"
    and ok: "link_ok legal_frames (ob_writer (w_outbound w), e)"
  shows "link_ok legal_frames (ob_writer (w_outbound w'), e') \<and> prefix (segments (e_output e)) (segments (e_output e')) \<and>
    (r = Ok () \<longrightarrow> (\<exists>ctx packet ctx' f ys. seal c h ctx bs = Some (Ok (packet, ctx')) \<and> cobs_encode c packet MAX_FRAME_SIZE = Some f \<and>
       segments (e_output e') = segments (e_output e) @ ys @ [f]))"
proof (cases "w_alive w \<and> (\<exists>ctx packet ctx'. w_sealers w sealer = Some ctx \<and> seal c h ctx bs = Some (Ok (packet, ctx')))")
  case False
  then have "w' = w \<and> e' = e \<and> r \<noteq> Ok ()"
    using run by (auto simp: sender_send_def refuse_oversized_def split: if_splits option.splits sum.splits transport_error.splits)
  with ok show ?thesis by simp
next
  case True
  then obtain ctx packet ctx' where ctx: "w_alive w" "w_sealers w sealer = Some ctx" "seal c h ctx bs = Some (Ok (packet, ctx'))"
    by blast
  then obtain ob where ob: "writer_send c sealer packet (w_outbound w, e) = Some (r, ob, e')" "w_outbound w' = ob"
    using run by (auto simp: sender_send_def on_outbound_def)
  have inv: "fw_inv (ob_writer (w_outbound w))" using ok by (simp add: link_ok_def)
  have kept: "wire_kept (w_outbound w, e) (ob, e')" by (rule keepsD [OF keeps_writer_send [OF c] ob(1)])
  have "\<exists>f ys. cobs_encode c packet MAX_FRAME_SIZE = Some f \<and> segments (e_output e') = segments (e_output e) @ ys @ [f]" if r: "r = Ok ()"
  proof -
    obtain f where f: "cobs_encode c packet MAX_FRAME_SIZE = Some f"
      "e_output e' = e_output e @ recovery (ob_writer (w_outbound w)) @ f @ [0]"
      using writer_send_outcome [OF c ob(1) inv] r by (auto simp: send_outcome_def split: if_splits)
    let ?lead = "recovery (ob_writer (w_outbound w))" and ?p = "recovery (ob_writer (w_outbound w)) @ f @ [0]"
    have lead: "?lead = [] \<or> ?lead = [0]" "?lead = [] \<Longrightarrow> unfinished (e_output e) = []"
      using ok by (auto simp: link_ok_def split: if_splits)
    have "0 \<notin> set f" using cobs_codec.encode_frame [OF c f(1)] by simp
    from sent_segments [of ?p, OF prefix_order.refl lead(1) this lead(2)]
    have "segments (e_output e') = segments (e_output e) @ (if ?lead = [] then [] else [unfinished (e_output e)]) @ [f]"
      unfolding f(2) by blast
    with f(1) show ?thesis by blast
  qed
  with kept ok ob(2) ctx(3) show ?thesis by (auto simp: wire_kept_def)
qed

lemma write_message_wire:
  assumes c: "cobs_codec c" and run: "write_message pb c h sealer side i (og_body og) (w, e) = Some (r, w', e')"
    and ok: "link_ok legal_frames (ob_writer (w_outbound w), e)" and frames: "frames_ok pb c h side ms e"
  shows "link_ok legal_frames (ob_writer (w_outbound w'), e')" "frames_ok pb c h side (ms @ (if isl r then [] else [(i, og)])) e'"
proof -
  obtain limit where limit: "MAX_MESSAGE_SIZE (cobs_encode_buffer c) = Some limit"
    using run by (auto simp: write_message_def split: option.splits)
  have "link_ok legal_frames (ob_writer (w_outbound w'), e') \<and> frames_ok pb c h side (ms @ (if isl r then [] else [(i, og)])) e'"
  proof (cases "outgoing_bytes pb limit side i (og_body og)")
    case (Inl err)
    then show ?thesis using run limit ok frames by (simp add: write_message_def)
  next
    case (Inr bs)
    with run limit obtain q where send: "sender_send c h sealer bs (w, e) = Some (q, w', e')"
      and r: "r = (case q of Err err \<Rightarrow> Err (Transport err) | Ok u \<Rightarrow> Ok u)" by (auto simp: write_message_def)
    note wire = sender_send_wire [OF c send ok]
    show ?thesis
    proof (cases q)
      case Inl
      with r wire frames_ok_more [OF frames] show ?thesis by simp
    next
      case ok_q: (Inr u)
      then obtain ctx packet ctx' f ys where f: "seal c h ctx bs = Some (Ok (packet, ctx'))" "cobs_encode c packet MAX_FRAME_SIZE = Some f"
        "segments (e_output e') = segments (e_output e) @ ys @ [f]" using wire by auto
      obtain fs where fs: "list_all2 (frame_for pb c h side) ms fs" "subseq fs (segments (e_output e))"
        using frames by (auto simp: frames_ok_def)
      have "frame_for pb c h side (i, og) f" using limit Inr f(1,2) by (auto simp: frame_for_def)
      with fs(1) have "list_all2 (frame_for pb c h side) (ms @ [(i, og)]) (fs @ [f])" by (simp add: list_all2_appendI)
      moreover have "subseq (fs @ [f]) (segments (e_output e'))"
        unfolding f(3) using fs(2) by (intro list_emb_append_mono) (simp_all add: subseq_drop_many)
      ultimately have "frames_ok pb c h side (ms @ [(i, og)]) e'" by (auto simp: frames_ok_def)
      with wire r ok_q show ?thesis by simp
    qed
  qed
  then show "link_ok legal_frames (ob_writer (w_outbound w'), e')" "frames_ok pb c h side (ms @ (if isl r then [] else [(i, og)])) e'"
    by simp_all
qed

lemma after_send_cases:
  fixes r :: "(protocol_error, unit) result" and og :: "'p outgoing"
  obtains (ok) "r = Ok ()" "after_send i og r = Refusing i og r" | (wire) err where "r = Err (Transport err)" "after_send i og r = Failing err"
  | (refused) err where "r = Err err" "after_send i og r = Refusing i og r"
proof (cases r)
  case (Inl err)
  then show thesis by (cases err) (auto intro: wire refused)
qed (auto intro: ok)

text \<open>What the transport does between the steps of the writer.\<close>

lemma run_ob_op_binding:
  assumes c: "cobs_codec c" and run: "run_ob_op c op (ob, e) = Some (r, ob', e')" and other: "op \<noteq> ObBind sealer"
    and "ob_binding ob \<noteq> Some sealer"
  shows "ob_binding ob' \<noteq> Some sealer"
proof (cases "\<exists>k. op = ObBind k")
  case True
  with run other show ?thesis by (auto simp: writer_bind_def)
next
  case False
  then have "keeps ob_kept (run_ob_op c op)"
    by (cases op) (auto intro: ob_kept_ops [OF c] ob_kept_basic ob_intros)
  from keepsD [OF this run] assms(4) show ?thesis by (auto simp: ob_kept_def)
qed

lemma sender_disconnect_effect:
  assumes run: "sender_disconnect sealer (w, e) = Some (r, w', e')" and ok: "link_ok legal_frames (ob_writer (w_outbound w), e)"
  shows "cut_off sealer w'" "link_ok legal_frames (ob_writer (w_outbound w'), e')" "prefix (segments (e_output e)) (segments (e_output e'))"
proof -
  have "cut_off sealer w' \<and> link_ok legal_frames (ob_writer (w_outbound w'), e') \<and> prefix (segments (e_output e)) (segments (e_output e'))"
  proof (cases "w_alive w \<and> w_sealers w sealer \<noteq> None")
    case False
    with run ok show ?thesis by (auto simp: sender_disconnect_def cut_off_def)
  next
    case True
    with run obtain ob where ob: "outbound_disconnect sealer (w_outbound w, e) = Some (r, ob, e')" "w' = w\<lparr>w_outbound := ob\<rparr>"
      by (auto simp: sender_disconnect_def on_outbound_def)
    have "wire_kept (w_outbound w, e) (ob, e')" by (rule keepsD [OF keeps_outbound(1) ob(1)])
    with disconnect_once [OF ob(1)] ok ob(2) show ?thesis by (auto simp: cut_off_def wire_kept_def)
  qed
  then show "cut_off sealer w'" "link_ok legal_frames (ob_writer (w_outbound w'), e')" "prefix (segments (e_output e)) (segments (e_output e'))"
    by simp_all
qed

lemma phase_ok_wire:
  "cut_off sealer w \<longrightarrow> cut_off sealer w' \<Longrightarrow> phase_ok sealer s w ph \<Longrightarrow> phase_ok sealer s w' ph"
  by (cases ph) auto

lemma phase_ok_session:
  "ok s s' \<Longrightarrow> s_writing s' = s_writing s \<Longrightarrow> phase_ok sealer s w ph \<Longrightarrow> phase_ok sealer s' w ph"
  by (cases ph) (auto simp: ok_def history_kept_def)


section \<open>Every step keeps the invariant\<close>

lemma record_write_calls:
  assumes "record_write k r s = Some s'"
  shows "calls_kept (length (d_promises s)) (s_state s) (s_state s')"
  using assms
  by (auto simp: record_write_def session_now_def bind_eq_Some_conv Let_def pending_keys_def defer_notes_def
      dest!: operation_fail_more result_send_more desk_more_fields split: state.splits prod.splits option.splits if_splits)

lemma forget_answerable:
  assumes old: "answerable s xs" and fresh: "is_request og \<longrightarrow> isl r \<longrightarrow> i \<notin> set (request_ids xs)"
  shows "answerable (forget_refused i (og_body og) r s) xs"
proof (cases "\<exists>q m. s_state s = StOpen q \<and> og_body og = OutRequest m \<and> isl r")
  case False
  then have "forget_refused i (og_body og) r s = s" by (auto simp: forget_refused_def split: state.splits outgoing_body.splits)
  with old show ?thesis by simp
next
  case True
  then obtain q m where q: "s_state s = StOpen q" "og_body og = OutRequest m" "isl r" by blast
  have s': "forget_refused i (og_body og) r s = set_queues (q\<lparr>q_outstanding := (q_outstanding q)(i := None)\<rparr>) s"
    using q by (simp add: forget_refused_def)
  show ?thesis unfolding answerable_def s'
  proof (intro ballI impI)
    fix m assume m: "m \<in> set xs" "is_request (snd m)"
    then have "fst m \<in> set (request_ids xs)" by (force simp: request_ids_def)
    with fresh q have "fst m \<noteq> i" by (auto simp: is_request_def)
    moreover have "leads_to s (fst m) (og_key (snd m))" using old m by (simp add: answerable_def)
    ultimately show "leads_to (set_queues (q\<lparr>q_outstanding := (q_outstanding q)(i := None)\<rparr>) s) (fst m) (og_key (snd m))"
      using q(1) by (simp add: leads_to_def)
  qed
qed

lemma forget_writing [simp]: "s_writing (forget_refused i b r s) = s_writing s"
  by (simp add: forget_refused_def split: state.splits outgoing_body.splits)

lemma order_ok_front: "order_ok s (xs @ ys) \<Longrightarrow> order_ok s xs"
  by (auto simp: order_ok_def sorted_wrt_append)

lemma carried_fresh:
  assumes "order_ok s (xs @ [(i, og)])" "is_request og"
  shows "i \<notin> set (request_ids xs)"
proof -
  have "\<forall>j \<in> set (request_ids xs). unat j < unat i"
    using assms by (simp add: order_ok_def request_ids_def sorted_wrt_append)
  then show ?thesis by blast
qed

lemma answerable_writing [simp]: "answerable (s\<lparr>s_writing := w\<rparr>) xs = answerable s xs"
  by (simp add: answerable_def leads_to_def)

text \<open>A step of the session under the writer: everything but the writer's own bookkeeping follows.\<close>

lemma session_part:
  assumes "ok s s'" "calls_kept (length (d_promises s)) (s_state s) (s_state s')" "order_ok s xs" "answerable s xs"
  shows "session_inv s'" "order_ok s' xs" "answerable s' xs" "s_side s' = s_side s"
proof -
  show "session_inv s'" by (rule ok_inv [OF assms(1)])
  show "order_ok s' xs" by (rule order_ok_ok [OF assms(1,3)])
  show "answerable s' xs" by (rule answerable_kept [OF assms(2) ok_promises [OF assms(1)] assms(4)])
  show "s_side s' = s_side s" using assms(1) by (simp add: ok_def history_kept_def)
qed

lemma writer_step_inv:
  assumes c: "cobs_codec c" and step: "writer_step pb c h sealer x y" and inv: "link_inv pb c h sealer x"
  shows "link_inv pb c h sealer y"
proof -
  let ?s = "l_session x" and ?w = "l_wire x" and ?e = "l_env x" and ?ph = "l_phase x" and ?sent = "l_sent x"
  have s: "session_inv ?s" and link: "link_ok legal_frames (ob_writer (w_outbound ?w), ?e)" and phase: "phase_ok sealer ?s ?w ?ph"
    and order: "order_ok ?s (?sent @ carried ?ph)" and ans: "answerable ?s (?sent @ carried ?ph)"
    and frames: "frames_ok pb c h (s_side ?s) ?sent ?e"
    using inv by (simp_all add: link_inv_def)
  note front = order_ok_front [OF order] ans [simplified, THEN conjunct1]
  from step show ?thesis
  proof (cases rule: writer_step.cases)
    case (look t s')
    have "order_ok ?s ?sent" "answerable ?s ?sent" using front by blast+
    note new = look_order [OF s look(3) this(1)] look_answerable [OF s look(3) this(2)]
    have "ok ?s s'" by (rule next_outgoing_kept [OF s look(3)])
    then have "session_inv s'" "s_side s' = s_side ?s" by (simp_all add: ok_def history_kept_def)
    moreover have "phase_ok sealer s' ?w (after_look t)" using look_phase [OF look(3)] phase look(2) by simp
    ultimately show ?thesis using look(1) link frames new by (simp add: link_inv_def)
  next
    case (send i og r w e)
    note wire = write_message_wire [OF c send(3) link frames]
    have "phase_ok sealer ?s w (after_send i og r) \<and> (?sent @ (if isl r then [] else [(i, og)])) @ carried (after_send i og r) =
        ?sent @ carried ?ph \<or> (\<exists>err. after_send i og r = Failing err \<and> isl r)"
      using phase send(2) by (cases r rule: after_send_cases [of _ i og]) auto
    then show ?thesis
    proof
      assume "phase_ok sealer ?s w (after_send i og r) \<and> (?sent @ (if isl r then [] else [(i, og)])) @ carried (after_send i og r) =
        ?sent @ carried ?ph"
      then show ?thesis using send(1) s wire order ans unfolding link_inv_def by (simp del: append_assoc answerable_append)
    next
      assume "\<exists>err. after_send i og r = Failing err \<and> isl r"
      then show ?thesis using send(1) s wire front unfolding link_inv_def by auto
    qed
  next
    case (fail err s')
    have "ok ?s s'" using session_close_ok [OF s, of "Transport err"] fail(3) closed_by_ok by (metis option.inject)
    then have ok: "ok ?s (s'\<lparr>s_writing := None\<rparr>)" by (rule idle_writer_ok)
    have "\<exists>e. s_state s' = StClosed e"
      using fail(3) by (auto simp: session_close_def bind_eq_Some_conv defer_notes_def dest!: close_calls split: prod.splits)
    then have "calls_kept (length (d_promises ?s)) (s_state ?s) (s_state (s'\<lparr>s_writing := None\<rparr>))"
      "phase_ok sealer (s'\<lparr>s_writing := None\<rparr>) ?w Leaving" by auto
    with session_part [OF ok this(1) front] show ?thesis using fail(1) link frames by (simp add: link_inv_def)
  next
    case (refuse i og r)
    let ?s' = "forget_refused i (og_body og) r ?s"
    have ok: "ok ?s ?s'" by (rule forget_refused_ok [OF s])
    have "is_request og \<longrightarrow> isl r \<longrightarrow> i \<notin> set (request_ids ?sent)"
      using carried_fresh [of ?s ?sent i og] order refuse(2) by (cases r) auto
    from forget_answerable [OF front(2) this] order_ok_ok [OF ok front(1)] show ?thesis
      using refuse(1,2) ok link frames phase by (simp add: link_inv_def ok_def history_kept_def)
  next
    case (report i og r s')
    have ok1: "ok ?s s'" using record_write_ok [OF s writing_unqueued [OF s], of i og r] report phase by auto
    have "calls_kept (length (d_promises ?s)) (s_state ?s) (s_state (s'\<lparr>s_writing := None\<rparr>))"
      using record_write_calls [OF report(3)] by simp
    from session_part [OF idle_writer_ok [OF ok1] this front] show ?thesis
      using report(1) link frames by (simp add: link_inv_def)
  next
    case (leave r w e)
    note gone = sender_disconnect_effect [OF leave(3) link]
    show ?thesis using leave(1,2) s front phase gone(1,2) frames_ok_more [OF frames gone(3)] by (simp add: link_inv_def)
  next
    case (thread s')
    have ok: "ok ?s s'" by (rule other_step_ok [OF thread(2) s])
    have calls: "calls_ok ?s s'" by (rule other_step_calls [OF thread(2) s])
    then have "calls_kept (length (d_promises ?s)) (s_state ?s) (s_state s')" "s_writing s' = s_writing ?s"
      by (simp_all add: calls_ok_def)
    with session_part [OF ok this(1) order ans] phase_ok_session [OF ok this(2) phase] show ?thesis
      using thread(1) link frames by (simp add: link_inv_def)
  next
    case (transport op r ob e)
    have "wire_kept (w_outbound ?w, ?e) (ob, e)" by (rule keepsD [OF keeps_run_ob_op [OF c] transport(2)])
    then have kept: "link_ok legal_frames (ob_writer ob, e)" "prefix (segments (e_output ?e)) (segments (e_output e))"
      using link by (simp_all add: wire_kept_def)
    have "cut_off sealer ?w \<longrightarrow> cut_off sealer (?w\<lparr>w_outbound := ob\<rparr>)"
      using run_ob_op_binding [OF c transport(2,3)] by (auto simp: cut_off_def)
    from phase_ok_wire [OF this phase] show ?thesis
      using transport(1) s order ans kept(1) frames_ok_more [OF frames kept(2)] by (simp add: link_inv_def)
  next
    case (contexts sealers)
    then have "cut_off sealer ?w \<longrightarrow> cut_off sealer (?w\<lparr>w_sealers := sealers\<rparr>)" by (auto simp: cut_off_def)
    from phase_ok_wire [OF this phase] show ?thesis
      using contexts(1) s order ans link frames by (simp add: link_inv_def)
  next
    case owner
    have "cut_off sealer ?w \<longrightarrow> cut_off sealer (?w\<lparr>w_alive := False\<rparr>)" by (auto simp: cut_off_def)
    from phase_ok_wire [OF this phase] show ?thesis
      using owner s order ans link frames by (simp add: link_inv_def)
  next
    case (reading e)
    then have "link_ok legal_frames (ob_writer (w_outbound ?w), e)" "frames_ok pb c h (s_side ?s) ?sent e"
      using link frames by (simp_all add: link_ok_def frames_ok_def)
    then show ?thesis using reading(1) s order ans phase by (simp add: link_inv_def)
  qed
qed


section \<open>Runs\<close>

text \<open>Seen on its session, a step of the writer thread is a step of the session machine, or two or none.\<close>

lemma writer_step_session:
  assumes step: "writer_step pb c h sealer x y" and phase: "phase_ok sealer (l_session x) (l_wire x) (l_phase x)"
  shows "session_run (l_session x) (l_session y)"
  using step
proof (cases rule: writer_step.cases)
  case (look t s)
  with phase show ?thesis by (auto intro!: r_into_rtranclp session_step.take_out)
next
  case (fail err s)
  have "session_step (l_session x) s" by (rule session_step.other [OF other_step.close [OF fail(3)]])
  moreover obtain err' where "s_state s = StClosed err'"
    using fail(3) by (auto simp: session_close_def bind_eq_Some_conv defer_notes_def dest!: close_calls split: prod.splits)
  then have "session_step s (s\<lparr>s_writing := None\<rparr>)" by (rule session_step.stop_writer)
  ultimately have "session_run (l_session x) (s\<lparr>s_writing := None\<rparr>)" by (meson converse_rtranclp_into_rtranclp r_into_rtranclp)
  with fail(1) show ?thesis by simp
next
  case (refuse i og r)
  with phase show ?thesis by (auto intro!: r_into_rtranclp session_step.refused)
next
  case (report i og r s)
  with phase show ?thesis by (auto intro!: r_into_rtranclp session_step.report)
next
  case (thread s)
  then show ?thesis by (auto intro!: r_into_rtranclp session_step.other)
qed simp_all

lemma started_inv:
  "link_ok legal_frames (ob_writer (w_outbound w), e) \<Longrightarrow> link_inv pb c h sealer (started side has_stream cl w e)"
  by (simp add: link_inv_def started_def session_new_inv order_ok_def request_ids_def frames_ok_def)
    (simp add: session_new_def)

interpretation writer_link: transition_system
  "\<lambda>x. cobs_codec c \<and> (\<exists>side has_stream cl w e. link_ok legal_frames (ob_writer (w_outbound w), e) \<and> x = started side has_stream cl w e)"
  "writer_step pb c h sealer" "\<lambda>x. cobs_codec c \<and> link_inv pb c h sealer x" for pb c h sealer
  by unfold_locales (auto intro: started_inv writer_step_inv)

lemma writer_run_inv:
  assumes "cobs_codec c" "link_ok legal_frames (ob_writer (w_outbound w), e)"
    "(writer_step pb c h sealer)\<^sup>*\<^sup>* (started side has_stream cl w e) x"
  shows "link_inv pb c h sealer x"
  using writer_link.inv_reachable [of c "started side has_stream cl w e" pb h sealer x] assms by blast

lemma writer_run_session:
  assumes "cobs_codec c" "link_ok legal_frames (ob_writer (w_outbound w), e)"
    "(writer_step pb c h sealer)\<^sup>*\<^sup>* (started side has_stream cl w e) x"
  shows "session_run (session_new side has_stream cl) (l_session x)"
  using assms(3)
proof (induction rule: rtranclp_induct)
  case base
  then show ?case by (simp add: started_def)
next
  case (step x y)
  have "phase_ok sealer (l_session x) (l_wire x) (l_phase x)"
    using writer_run_inv [OF assms(1,2) step(1)] by (simp add: link_inv_def)
  from rtranclp_trans [OF step(3) writer_step_session [OF step(2) this]] show ?case .
qed

lemma cut_off_send:
  assumes "cut_off sealer w" "sender_send c h sealer bs (w, e) = Some (r, w', e')"
  shows "isl r \<and> e' = e \<and> w_outbound w' = w_outbound w"
  using assms
  by (auto simp: sender_send_def cut_off_def refuse_oversized_def on_outbound_def writer_send_def
      split: if_splits option.splits sum.splits transport_error.splits)


section \<open>Properties of the writer thread\<close>

text \<open>C6: whatever the other threads and the transport do, the messages that a session's writer has got
  through are on the wire as whole frames, each the sealed envelope of its message under its identifier,
  in the order of writing, and the reader at the other end finds them there in this order. The requests among
  them carry identifiers of this side in increasing order, so none twice. The session goes through
  reachable states of the session machine only.\<close>

theorem written_in_order:
  assumes "cobs_codec c" and "link_ok legal_frames (ob_writer (w_outbound w), e)"
    and "(writer_step pb c h sealer)\<^sup>*\<^sup>* (started side has_stream cl w e) x"
  shows "session_run (session_new side has_stream cl) (l_session x) \<and>
    sorted_wrt (<) (map unat (request_ids (l_sent x))) \<and>
    (\<forall>i \<in> set (request_ids (l_sent x)). parity_of i = parity_from side) \<and>
    (\<exists>fs. list_all2 (frame_for pb c h side) (l_sent x) fs \<and> subseq (map FrameEv fs) (frame_events (e_output (l_env x))))"
proof -
  have inv: "link_inv pb c h sealer x" by (rule writer_run_inv [OF assms])
  have run: "session_run (session_new side has_stream cl) (l_session x)" by (rule writer_run_session [OF assms])
  then have side: "s_side (l_session x) = side" by (rule run_new_side)
  have "order_ok (l_session x) (l_sent x)" using inv order_ok_front by (auto simp: link_inv_def)
  then have order: "sorted_wrt (<) (map unat (request_ids (l_sent x)))" "\<forall>i \<in> set (request_ids (l_sent x)). parity_of i = parity_from side"
    using side by (simp_all add: order_ok_def)
  have events: "frame_events (e_output (l_env x)) = map FrameEv (segments (e_output (l_env x)))"
    using inv legal_events by (auto simp: link_inv_def)
  obtain fs where fs: "list_all2 (frame_for pb c h side) (l_sent x) fs" "subseq fs (segments (e_output (l_env x)))"
    using inv side by (auto simp: link_inv_def frames_ok_def)
  have "subseq (map FrameEv fs) (frame_events (e_output (l_env x)))"
    unfolding events by (rule subseq_map [OF fs(2)])
  with run order fs(1) show ?thesis by blast
qed

text \<open>An answer to a request that was written finds its promise: as long as the request is pending, its
  deadline has not passed and the bytes fit, handling the bytes of an answer under its identifier succeeds, and from
  then on, whatever else happens to the session, even its closing, waiting on the promise yields the message
  or the error that the peer's application answered with. Waiting for the payload of another variant
  than the message's is reported as such.\<close>

lemma answer_handled:
  assumes "cobs_codec c" and "link_ok legal_frames (ob_writer (w_outbound w), e)"
    and "(writer_step pb c h sealer)\<^sup>*\<^sup>* (started side has_stream cl w e) x"
    and written: "(i, og) \<in> set (l_sent x)" "og_body og = OutRequest m"
    and codec: "prost_codec pb" and limit: "limit < 2 ^ 64"
    and sent: "outgoing_bytes pb limit (peer side) i (OutReply i b) = Ok bs"
    and q: "s_state (l_session x) = StOpen q" and pending: "map_of (q_operations q) (og_key og) = Some po"
    and held: "p_holder (d_promises (l_session x) ! og_key og) = Held"
    and early: "fst (clock_now (s_clock (l_session x))) < po_deadline po"
    and room: "d_retained (l_session x) + length bs < 2 ^ 64" "d_retained (l_session x) + length bs \<le> q_max_bytes q"
  shows "\<exists>s'. handle_message pb bs (l_session x) = Some (Ok (), s') \<and> p_holder (d_promises s' ! og_key og) = Held \<and>
    (\<forall>u. session_run s' u \<longrightarrow> p_holder (d_promises u ! og_key og) = Held \<longrightarrow>
       (\<exists>u'. promise_wait pb v (og_key og) u =
          Some (Ready (case b of Ok m \<Rightarrow> payload_try_from v m | Err err \<Rightarrow> Err (Remote err)), u')))"
proof -
  have "answerable (l_session x) (l_sent x)" using writer_run_inv [OF assms(1-3)] by (simp add: link_inv_def)
  then have "leads_to (l_session x) i (og_key og)" using written by (force simp: answerable_def is_request_def)
  moreover have "og_key og \<in> pending_keys q" using pending by (force simp: pending_keys_def dest: map_of_SomeD)
  ultimately have "q_outstanding q i = Some (og_key og)" using q by (simp add: leads_to_def)
  from response_arrives [OF codec limit sent writer_run_session [OF assms(1-3)] q this pending held early room] show ?thesis .
qed

text \<open>C30: when the writer thread has finished, the session is closed, and nothing of it reaches the wire any more: every
  further send through its sender fails and leaves the stream and the transport as they are.\<close>

theorem writer_gone:
  assumes "cobs_codec c" and "link_ok legal_frames (ob_writer (w_outbound w), e)"
    and "(writer_step pb c h sealer)\<^sup>*\<^sup>* (started side has_stream cl w e) x" and "l_phase x = Gone"
  shows "(\<exists>err. s_state (l_session x) = StClosed err) \<and>
    (\<forall>bs r w' e'. sender_send c h sealer bs (l_wire x, l_env x) = Some (r, w', e') \<longrightarrow>
       isl r \<and> e' = l_env x \<and> w_outbound w' = w_outbound (l_wire x))"
proof -
  have "phase_ok sealer (l_session x) (l_wire x) Gone" using writer_run_inv [OF assms(1-3)] assms(4) by (simp add: link_inv_def)
  then have closed: "\<exists>err. s_state (l_session x) = StClosed err" and cut: "cut_off sealer (l_wire x)" by simp_all
  from closed cut_off_send [OF cut] show ?thesis by blast
qed

end
