(* ===== verification/Session_Server.thy ===== *)
theory Session_Server
  imports Session_Machine
begin

text \<open>
  The owner of a server stream: \<^verbatim>\<open>src/src/protocol/server.rs\<close>, with \<^verbatim>\<open>closer.rs\<close> and the readers of
  \<^verbatim>\<open>session.rs\<close> and \<^verbatim>\<open>server.rs\<close>, which feed a session from the transport.

  Sessions are entries of a list and the index of an entry is the reference to it. A weak reference
  that cannot be upgraded is to a session whose workers have ended, which is closed, and a closed
  session ignores everything that is done here to a session.
\<close>


section \<open>State\<close>

definition READ_RETRY_DELAY :: duration where
  "READ_RETRY_DELAY = 100 * 1000000"

record server_open =
  v_requests :: nat
  v_bytes :: nat
  v_autoreply :: duration
  v_session :: "nat option"
  v_ready :: "nat option"

datatype server_state = SvOpen server_open | SvClosed protocol_error "nat option"

text \<open>The reader thread between two events, and inside \<^verbatim>\<open>attach\<close>: with its new session before the first
  look at the state, closing the previous session, and dropping the new one.\<close>

datatype reader = Reading | Starting nat | Replacing nat "nat option" | Dropping nat | Stopped

text \<open>\<open>v_closing\<close>: the sessions that callers of \<^verbatim>\<open>close\<close>, or the drop of an owner, are about to close.\<close>

record 'p wire_server =
  v_state :: server_state
  v_sessions :: "'p session list"
  v_clock :: clock
  v_stream_closed :: bool
  v_current :: "nat option"
  v_reader :: reader
  v_closing :: "(nat \<times> protocol_error) list"

definition wire_server_new :: "clock \<Rightarrow> 'p wire_server" where
  "wire_server_new c = \<lparr>v_state = SvOpen \<lparr>v_requests = DEFAULT_MAX_INBOUND_REQUESTS, v_bytes = DEFAULT_MAX_INBOUND_BYTES,
     v_autoreply = DEFAULT_AUTOREPLY_TIMEOUT, v_session = None, v_ready = None\<rparr>, v_sessions = [], v_clock = c,
     v_stream_closed = False, v_current = None, v_reader = Reading, v_closing = []\<rparr>"

definition on_session :: "nat \<Rightarrow> ('p session \<Rightarrow> 'p session option) \<Rightarrow> 'p wire_server \<Rightarrow> 'p wire_server option" where
  "on_session j f v =
     (if j < length (v_sessions v)
      then do { s \<leftarrow> f (v_sessions v ! j); Some (v\<lparr>v_sessions := (v_sessions v)[j := s]\<rparr>) }
      else None)"

definition on_optional :: "nat option \<Rightarrow> ('p session \<Rightarrow> 'p session option) \<Rightarrow> 'p wire_server \<Rightarrow> 'p wire_server option" where
  "on_optional j f v = (case j of None \<Rightarrow> Some v | Some j \<Rightarrow> on_session j f v)"


section \<open>Policy and acceptance\<close>

definition server_set_autoreply_timeout :: "duration \<Rightarrow> 'p wire_server \<Rightarrow> 'p wire_server option" where
  "server_set_autoreply_timeout timeout v = (case v_state v of
      SvClosed _ _ \<Rightarrow> Some v
    | SvOpen w \<Rightarrow> on_optional (v_session w) (\<lambda>s. Some (set_autoreply_timeout timeout s))
        (v\<lparr>v_state := SvOpen (w\<lparr>v_autoreply := timeout\<rparr>)\<rparr>))"

definition server_set_inbound_limits :: "nat \<Rightarrow> nat \<Rightarrow> 'p wire_server \<Rightarrow> 'p wire_server option" where
  "server_set_inbound_limits requests limit v = (case v_state v of
      SvClosed _ _ \<Rightarrow> Some v
    | SvOpen w \<Rightarrow> on_optional (v_session w) (set_inbound_limits requests limit)
        (v\<lparr>v_state := SvOpen (w\<lparr>v_requests := requests, v_bytes := limit\<rparr>)\<rparr>))"

text \<open>One pass of \<^verbatim>\<open>accept\<close> under the lock.\<close>

definition accept_pass :: "'p wire_server \<Rightarrow> (protocol_error, nat) result waiting \<times> 'p wire_server" where
  "accept_pass v = (case v_state v of
      SvClosed reason _ \<Rightarrow> (Ready (Err reason), v)
    | SvOpen w \<Rightarrow> (case v_ready w of
        None \<Rightarrow> (Wait, v)
      | Some j \<Rightarrow> (Ready (Ok j), v\<lparr>v_state := SvOpen (w\<lparr>v_ready := None\<rparr>)\<rparr>)))"


section \<open>Closing\<close>

text \<open>The locked part of \<^verbatim>\<open>ServerInner::close\<close>: the session to close and why, and the session nobody
  accepted, which is dropped.\<close>

definition close_begin :: "protocol_error \<Rightarrow> 'p wire_server \<Rightarrow> (nat option \<times> protocol_error \<times> nat option) \<times> 'p wire_server" where
  "close_begin err v = (case v_state v of
      SvClosed reason j \<Rightarrow> ((j, reason, None), v)
    | SvOpen w \<Rightarrow> ((v_session w, err, v_ready w), v\<lparr>v_state := SvClosed err (v_session w)\<rparr>))"

definition server_close :: "protocol_error \<Rightarrow> 'p wire_server \<Rightarrow> 'p wire_server option" where
  "server_close err v =
     (let ((j, reason, ready), v1) = close_begin err v
      in do { v2 \<leftarrow> on_optional j (session_close reason) v1;
              v3 \<leftarrow> on_optional ready (session_close Closed) v2;
              Some (v3\<lparr>v_stream_closed := True\<rparr>) })"

text \<open>\<^verbatim>\<open>Closer::close\<close>, of a session or of the server.\<close>

datatype target = TSession nat | TServer

definition closer_close :: "target \<Rightarrow> 'p wire_server \<Rightarrow> 'p wire_server option" where
  "closer_close tgt v = (case tgt of TSession j \<Rightarrow> on_session j (session_close Closed) v | TServer \<Rightarrow> server_close Closed v)"


section \<open>Attaching\<close>

definition attach_look :: "'p wire_server \<Rightarrow> (protocol_error, nat option) result" where
  "attach_look v = (case v_state v of SvClosed reason _ \<Rightarrow> Err reason | SvOpen w \<Rightarrow> Ok (v_session w))"

text \<open>The second locked part; its result is the session that was waiting for acceptance.\<close>

definition attach_install :: "nat \<Rightarrow> 'p wire_server \<Rightarrow> ((protocol_error, nat option) result \<times> 'p wire_server) option" where
  "attach_install j v = (case v_state v of
      SvClosed reason _ \<Rightarrow> Some (Err reason, v)
    | SvOpen w \<Rightarrow>
        do { v1 \<leftarrow> on_session j (\<lambda>s. do { s1 \<leftarrow> set_inbound_limits (v_requests w) (v_bytes w) s;
                                           Some (set_autoreply_timeout (v_autoreply w) s1) }) v;
             Some (Ok (v_ready w), v1\<lparr>v_state := SvOpen (w\<lparr>v_session := Some j, v_ready := Some j\<rparr>)\<rparr>) })"

definition attach :: "nat \<Rightarrow> 'p wire_server \<Rightarrow> ((protocol_error, unit) result \<times> 'p wire_server) option" where
  "attach j v = (case attach_look v of
      Err reason \<Rightarrow> do { v1 \<leftarrow> on_session j (session_close Closed) v; Some (Err reason, v1) }
    | Ok previous \<Rightarrow>
        do { v1 \<leftarrow> on_optional previous (session_close (Transport SessionReset)) v;
             (r, v2) \<leftarrow> attach_install j v1;
             (case r of
                Err reason \<Rightarrow> do { v3 \<leftarrow> on_session j (session_close Closed) v2; Some (Err reason, v3) }
              | Ok replaced \<Rightarrow> do { v3 \<leftarrow> on_optional replaced (session_close Closed) v2; Some (Ok (), v3) }) })"


section \<open>The readers\<close>

text \<open>One iteration of the reader of a client session: what the transport returned, and whether the
  loop goes on.\<close>

definition client_reader_turn :: "'p prost \<Rightarrow> (transport_error, bytes) result \<Rightarrow> 'p session \<Rightarrow> (bool \<times> 'p session) option" where
  "client_reader_turn pb received s =
     do { (r, s1) \<leftarrow> (case received of Err err \<Rightarrow> Some (Err (Transport err), s) | Ok bs \<Rightarrow> handle_message pb bs s);
          (case r of
             Ok _ \<Rightarrow> Some (True, s1)
           | Err err \<Rightarrow> do { s2 \<leftarrow> session_close err s1; Some (False, s2) }) }"

text \<open>One pass of the loop of \<^verbatim>\<open>pause_reader\<close>, after a wait that timed out or not; the deadline is
  fixed first and overflows in a panic.\<close>

definition pause_deadline :: "instant \<Rightarrow> instant option" where
  "pause_deadline now = instant_checked_add now READ_RETRY_DELAY"

definition pause_pass :: "bool \<Rightarrow> 'p wire_server \<Rightarrow> bool waiting" where
  "pause_pass timed_out v = (case v_state v of
      SvClosed _ _ \<Rightarrow> Ready False
    | SvOpen _ \<Rightarrow> if timed_out then Ready True else Wait)"

datatype arrival = Connected | Disconnected | Received bytes

text \<open>One iteration of the server's reader. \<open>resume\<close> is the result of \<^verbatim>\<open>pause_reader\<close> after a failed
  read.\<close>

definition server_reader_turn :: "'p prost \<Rightarrow> bool \<Rightarrow> (transport_error, arrival) result \<Rightarrow> 'p wire_server \<Rightarrow> (bool \<times> 'p wire_server) option" where
  "server_reader_turn pb resume received v = (case received of
      Ok Connected \<Rightarrow>
        let j = length (v_sessions v);
            v1 = v\<lparr>v_sessions := v_sessions v @ [session_new Server False (v_clock v)], v_current := Some j\<rparr>
        in do { (r, v2) \<leftarrow> attach j v1; Some (\<not> isl r, v2) }
    | Ok Disconnected \<Rightarrow>
        do { v1 \<leftarrow> on_optional (v_current v) (session_close (Transport SessionReset)) v;
             Some (True, v1\<lparr>v_current := None\<rparr>) }
    | Ok (Received bs) \<Rightarrow>
        do { v1 \<leftarrow> on_optional (v_current v) (\<lambda>s. map_option snd (client_reader_turn pb (Ok bs) s)) v;
             Some (True, v1) }
    | Err (RecvFailed _) \<Rightarrow> Some (resume, v)
    | Err (SendFailed _) \<Rightarrow> Some (True, v)
    | Err err \<Rightarrow> do { v1 \<leftarrow> server_close (Transport err) v; Some (False, v1) })"


section \<open>The machine\<close>

text \<open>The application, the session workers, the reader and any number of closers interleave. \<open>session\<close> is
  any step of any session, so it covers what the reader does with messages and disconnections, what the
  workers do, and closing or dropping an accepted session.\<close>

definition doomed :: "nat option \<Rightarrow> protocol_error \<Rightarrow> (nat \<times> protocol_error) list" where
  "doomed j reason = (case j of None \<Rightarrow> [] | Some j \<Rightarrow> [(j, reason)])"

inductive server_step :: "'p wire_server \<Rightarrow> 'p wire_server \<Rightarrow> bool" where
  session: "j < length (v_sessions v) \<Longrightarrow> session_step (v_sessions v ! j) s \<Longrightarrow>
    server_step v (v\<lparr>v_sessions := (v_sessions v)[j := s]\<rparr>)"
| connected: "v_reader v = Reading \<Longrightarrow> j = length (v_sessions v) \<Longrightarrow>
    server_step v (v\<lparr>v_sessions := v_sessions v @ [session_new Server False (v_clock v)], v_current := Some j, v_reader := Starting j\<rparr>)"
| disconnected: "v_reader v = Reading \<Longrightarrow> server_step v (v\<lparr>v_current := None\<rparr>)"
| look: "v_reader v = Starting j \<Longrightarrow>
    server_step v (v\<lparr>v_reader := (case attach_look v of Inr previous \<Rightarrow> Replacing j previous | Inl _ \<Rightarrow> Dropping j)\<rparr>)"
| reset: "v_reader v = Replacing j (Some p) \<Longrightarrow> on_session p (session_close (Transport SessionReset)) v = Some v' \<Longrightarrow>
    server_step v (v'\<lparr>v_reader := Replacing j None\<rparr>)"
| install: "v_reader v = Replacing j None \<Longrightarrow> attach_install j v = Some (Ok replaced, v') \<Longrightarrow>
    server_step v (v'\<lparr>v_reader := Reading, v_closing := v_closing v @ doomed replaced Closed\<rparr>)"
| refused: "v_reader v = Replacing j None \<Longrightarrow> attach_install j v = Some (Err reason, v') \<Longrightarrow>
    server_step v (v'\<lparr>v_reader := Dropping j\<rparr>)"
| discard: "v_reader v = Dropping j \<Longrightarrow> on_session j (session_close Closed) v = Some v' \<Longrightarrow>
    server_step v (v'\<lparr>v_reader := Stopped\<rparr>)"
| stop: "v_reader v = Reading \<Longrightarrow> v_state v = SvClosed reason j \<Longrightarrow> server_step v (v\<lparr>v_reader := Stopped\<rparr>)"
| close: "close_begin err v = ((j, reason, ready), v') \<Longrightarrow>
    server_step v (v'\<lparr>v_closing := v_closing v @ doomed j reason @ doomed ready Closed\<rparr>)"
| finish: "(j, reason) \<in> set (v_closing v) \<Longrightarrow> on_session j (session_close reason) v = Some v' \<Longrightarrow>
    server_step v (v'\<lparr>v_closing := remove1 (j, reason) (v_closing v)\<rparr>)"
| shut_stream: "v_state v = SvClosed reason j \<Longrightarrow> server_step v (v\<lparr>v_stream_closed := True\<rparr>)"
| accept: "accept_pass v = (r, v') \<Longrightarrow> server_step v v'"
| autoreply: "server_set_autoreply_timeout timeout v = Some v' \<Longrightarrow> server_step v v'"
| limits: "server_set_inbound_limits requests limit v = Some v' \<Longrightarrow> server_step v v'"

definition is_open :: "'p session \<Rightarrow> bool" where
  "is_open s \<longleftrightarrow> (case s_state s of StOpen _ \<Rightarrow> True | StClosed _ \<Rightarrow> False)"

fun fresh :: "reader \<Rightarrow> nat option" where
  "fresh Reading = None"
| "fresh (Starting j) = Some j"
| "fresh (Replacing j _) = Some j"
| "fresh (Dropping j) = Some j"
| "fresh Stopped = None"

fun attached :: "server_state \<Rightarrow> nat option" where
  "attached (SvOpen w) = v_session w"
| "attached (SvClosed _ j) = j"

text \<open>A session that may be open: the new one of the reader, the attached one of an open server, or the
  attached one of a closed server that a closer is still about to close.\<close>

definition active :: "'p wire_server \<Rightarrow> nat \<Rightarrow> bool" where
  "active v j \<longleftrightarrow> fresh (v_reader v) = Some j \<or> attached (v_state v) = Some j \<and>
     (\<forall>reason a. v_state v = SvClosed reason a \<longrightarrow> j \<in> fst ` set (v_closing v))"

definition refs_inv :: "'p wire_server \<Rightarrow> bool" where
  "refs_inv v \<longleftrightarrow> (\<forall>j. attached (v_state v) = Some j \<longrightarrow> j < length (v_sessions v)) \<and>
     (\<forall>j. fresh (v_reader v) = Some j \<longrightarrow> Suc j = length (v_sessions v) \<and> attached (v_state v) \<noteq> Some j) \<and>
     (\<forall>j \<in> fst ` set (v_closing v). j < length (v_sessions v)) \<and>
     (\<forall>j p. v_reader v = Replacing j (Some p) \<longrightarrow> p < length (v_sessions v)) \<and>
     (\<forall>w. v_state v = SvOpen w \<longrightarrow> (\<forall>j. v_ready w = Some j \<longrightarrow> v_session w = Some j) \<and> v_reader v \<noteq> Stopped \<and>
        (\<forall>j. v_reader v \<noteq> Dropping j) \<and> (\<forall>j. v_reader v = Reading \<longrightarrow> v_session w = Some j \<longrightarrow> Suc j = length (v_sessions v)))"

definition replaced_inv :: "'p wire_server \<Rightarrow> bool" where
  "replaced_inv v \<longleftrightarrow> (\<forall>w j p a. v_state v = SvOpen w \<longrightarrow> v_reader v = Replacing j p \<longrightarrow> v_session w = Some a \<longrightarrow>
     p = Some a \<or> \<not> is_open (v_sessions v ! a))"

definition server_inv :: "'p wire_server \<Rightarrow> bool" where
  "server_inv v \<longleftrightarrow> (\<forall>s \<in> set (v_sessions v). session_inv s) \<and> refs_inv v \<and> replaced_inv v \<and>
     (\<forall>j < length (v_sessions v). is_open (v_sessions v ! j) \<longrightarrow> active v j)"

lemma server_inv_frames [simp]: "server_inv (v\<lparr>v_current := j\<rparr>) = server_inv v" "server_inv (v\<lparr>v_stream_closed := b\<rparr>) = server_inv v"
  by (simp_all add: server_inv_def refs_inv_def replaced_inv_def active_def)

text \<open>\<open>closer_to v v'\<close>: \<open>v'\<close> differs only in its sessions, of which none was reopened.\<close>

definition closer_to :: "'p wire_server \<Rightarrow> 'p wire_server \<Rightarrow> bool" where
  "closer_to v v' \<longleftrightarrow> v' = v\<lparr>v_sessions := v_sessions v'\<rparr> \<and> length (v_sessions v') = length (v_sessions v) \<and>
     (\<forall>s \<in> set (v_sessions v'). session_inv s) \<and>
     (\<forall>j < length (v_sessions v). is_open (v_sessions v' ! j) \<longrightarrow> is_open (v_sessions v ! j))"

lemma closer_toD:
  assumes "closer_to v v'"
  shows "v_state v' = v_state v" "v_reader v' = v_reader v" "v_closing v' = v_closing v" "length (v_sessions v') = length (v_sessions v)"
proof -
  have "v' = v\<lparr>v_sessions := v_sessions v'\<rparr>" using assms by (simp add: closer_to_def)
  then have "v_state v' = v_state (v\<lparr>v_sessions := v_sessions v'\<rparr>)" "v_reader v' = v_reader (v\<lparr>v_sessions := v_sessions v'\<rparr>)"
    "v_closing v' = v_closing (v\<lparr>v_sessions := v_sessions v'\<rparr>)" by metis+
  then show "v_state v' = v_state v" "v_reader v' = v_reader v" "v_closing v' = v_closing v" by simp_all
  show "length (v_sessions v') = length (v_sessions v)" using assms by (simp add: closer_to_def)
qed

lemma closer_to_inv:
  assumes inv: "server_inv v" and cl: "closer_to v v'"
  shows "server_inv v'"
proof -
  note same = closer_toD [OF cl]
  have "replaced_inv v'"
  proof -
    have "p = Some a \<or> \<not> is_open (v_sessions v' ! a)"
      if "v_state v' = SvOpen w" "v_reader v' = Replacing j p" "v_session w = Some a" for w j p a
    proof -
      have "p = Some a \<or> \<not> is_open (v_sessions v ! a)" "a < length (v_sessions v)"
        using inv that same by (auto simp: server_inv_def replaced_inv_def refs_inv_def)
      with cl show ?thesis by (auto simp: closer_to_def)
    qed
    then show ?thesis by (simp add: replaced_inv_def)
  qed
  moreover have "active v' j \<longleftrightarrow> active v j" for j by (simp add: active_def same)
  moreover have "refs_inv v'" using inv by (simp add: server_inv_def refs_inv_def same)
  ultimately show ?thesis using inv cl same(4) by (simp add: server_inv_def closer_to_def)
qed

lemma is_open_ok: "ok s s' \<Longrightarrow> is_open s' \<Longrightarrow> is_open s"
  by (auto simp: is_open_def ok_def history_kept_def split: state.splits)

lemma closer_to_update:
  assumes inv: "server_inv v" and j: "j < length (v_sessions v)" and ok: "ok (v_sessions v ! j) s"
  shows "closer_to v (v\<lparr>v_sessions := (v_sessions v)[j := s]\<rparr>)"
proof -
  have "is_open ((v_sessions v)[j := s] ! i) \<longrightarrow> is_open (v_sessions v ! i)" if "i < length (v_sessions v)" for i
    using that is_open_ok [OF ok] by (cases "i = j") simp_all
  moreover have "\<forall>s' \<in> set ((v_sessions v)[j := s]). session_inv s'"
    using inv ok_inv [OF ok] set_update_subset_insert [of "v_sessions v" j s] by (auto simp: server_inv_def)
  ultimately show ?thesis by (simp add: closer_to_def)
qed

lemma on_session_ok:
  assumes inv: "server_inv v" and j: "j < length (v_sessions v)"
    and f: "\<And>s. session_inv s \<Longrightarrow> \<exists>s'. f s = Some s' \<and> ok s s' \<and> P s'"
  shows "\<exists>v'. on_session j f v = Some v' \<and> closer_to v v' \<and> P (v_sessions v' ! j) \<and>
    (\<forall>i < length (v_sessions v). i \<noteq> j \<longrightarrow> v_sessions v' ! i = v_sessions v ! i)"
proof -
  have "session_inv (v_sessions v ! j)" using inv j by (simp add: server_inv_def)
  with f obtain s where s: "f (v_sessions v ! j) = Some s" "ok (v_sessions v ! j) s" "P s" by blast
  with closer_to_update [OF inv j s(2)] j show ?thesis by (simp add: on_session_def)
qed

text \<open>The closing of a session as a function on the server.\<close>

lemma close_session: "session_inv s \<Longrightarrow> \<exists>s'. session_close err s = Some s' \<and> ok s s' \<and> \<not> is_open s'"
  by (rule session_close_ok [of s err])
    (auto simp: closed_by_def is_open_def split: state.splits)

lemma on_session_close:
  assumes "server_inv v" "j < length (v_sessions v)"
  shows "\<exists>v'. on_session j (session_close err) v = Some v' \<and> closer_to v v' \<and> \<not> is_open (v_sessions v' ! j) \<and>
    (\<forall>i < length (v_sessions v). i \<noteq> j \<longrightarrow> v_sessions v' ! i = v_sessions v ! i)"
  by (rule on_session_ok [OF assms close_session])


lemma server_invI:
  assumes "server_inv v" "closer_to v v1"
    and "v_sessions v' = v_sessions v1" "refs_inv v'" "replaced_inv v'"
    and "\<And>j. j < length (v_sessions v') \<Longrightarrow> is_open (v_sessions v' ! j) \<Longrightarrow> active v1 j \<Longrightarrow> active v' j"
  shows "server_inv v'"
  using closer_to_inv [OF assms(1,2)] assms(3-6) by (simp add: server_inv_def)

lemma closer_to_refl: "server_inv v \<Longrightarrow> closer_to v v"
  by (simp add: closer_to_def server_inv_def)

lemma on_optional_ok:
  assumes inv: "server_inv v" and j: "\<And>i. j = Some i \<Longrightarrow> i < length (v_sessions v)"
    and f: "\<And>s. session_inv s \<Longrightarrow> \<exists>s'. f s = Some s' \<and> ok s s' \<and> P s'"
  shows "\<exists>v'. on_optional j f v = Some v' \<and> closer_to v v' \<and> (\<forall>i. j = Some i \<longrightarrow> P (v_sessions v' ! i)) \<and>
    (\<forall>i < length (v_sessions v). j \<noteq> Some i \<longrightarrow> v_sessions v' ! i = v_sessions v ! i)"
proof (cases j)
  case None
  with closer_to_refl [OF inv] show ?thesis by (simp add: on_optional_def)
next
  case (Some i)
  obtain v' where "on_session i f v = Some v'" "closer_to v v'" "P (v_sessions v' ! i)"
    "\<forall>k < length (v_sessions v). k \<noteq> i \<longrightarrow> v_sessions v' ! k = v_sessions v ! k"
    using on_session_ok [where f = f and P = P, OF inv j [OF Some] f] by blast
  with Some show ?thesis by (intro exI [of _ v']) (auto simp: on_optional_def)
qed

lemma policy_inv:
  assumes inv: "server_inv v" and w: "v_state v = SvOpen w" "v_session w' = v_session w" "v_ready w' = v_ready w"
  shows "server_inv (v\<lparr>v_state := SvOpen w'\<rparr>)"
  by (rule server_invI [OF inv closer_to_refl [OF inv]])
    (use inv w in \<open>auto simp: server_inv_def refs_inv_def replaced_inv_def active_def\<close>)

lemma policy_step_inv:
  assumes inv: "server_inv v" and w: "v_state v = SvOpen w" "v_session w' = v_session w" "v_ready w' = v_ready w"
    and f: "\<And>s. session_inv s \<Longrightarrow> \<exists>s'. f s = Some s' \<and> ok s s'"
    and v': "on_optional (v_session w) f (v\<lparr>v_state := SvOpen w'\<rparr>) = Some v'"
  shows "server_inv v'"
proof -
  have inv1: "server_inv (v\<lparr>v_state := SvOpen w'\<rparr>)" by (rule policy_inv [OF inv w])
  have ref: "i < length (v_sessions (v\<lparr>v_state := SvOpen w'\<rparr>))" if "v_session w = Some i" for i
    using inv w(1) that by (simp add: server_inv_def refs_inv_def)
  have "closer_to (v\<lparr>v_state := SvOpen w'\<rparr>) v'"
    using on_optional_ok [where f = f and P = "\<lambda>_. True" and j = "v_session w", OF inv1 ref] f v' by auto
  then show ?thesis by (rule closer_to_inv [OF inv1])
qed

lemma set_inbound_limits_returns: "session_inv s \<Longrightarrow> \<exists>s'. set_inbound_limits requests limit s = Some s' \<and> ok s s'"
  using set_inbound_limits_ok by (metis (full_types))

lemma install_policy:
  assumes "session_inv s"
  shows "\<exists>s'. do { s1 \<leftarrow> set_inbound_limits requests limit s; Some (set_autoreply_timeout timeout s1) } = Some s' \<and> ok s s' \<and>
    (\<forall>q. s_state s' = StOpen q \<longrightarrow> q_max_requests q = requests \<and> q_max_bytes q = limit \<and> q_autoreply q = timeout)"
proof -
  obtain s1 where s1: "set_inbound_limits requests limit s = Some s1" "ok s s1"
    and lim: "\<And>q'. s_state s1 = StOpen q' \<Longrightarrow> q_max_requests q' = requests \<and> q_max_bytes q' = limit"
    by (rule set_inbound_limits_ok [OF assms]) blast
  have "ok s1 (set_autoreply_timeout timeout s1)" by (rule set_autoreply_timeout_ok [OF ok_inv [OF s1(2)]])
  then have "ok s (set_autoreply_timeout timeout s1)" by (rule ok_trans [OF s1(2)])
  moreover have "q_max_requests q = requests \<and> q_max_bytes q = limit \<and> q_autoreply q = timeout"
    if "s_state (set_autoreply_timeout timeout s1) = StOpen q" for q
  proof (cases "s_state s1")
    case (StOpen q1)
    with that have "q = q1\<lparr>q_autoreply := timeout\<rparr>" by (simp add: set_autoreply_timeout_def)
    with lim [OF StOpen] show ?thesis by simp
  qed (use that in \<open>simp add: set_autoreply_timeout_def\<close>)
  ultimately show ?thesis using s1(1) by simp
qed

lemma attach_install_ok:
  assumes inv: "server_inv v" and j: "j < length (v_sessions v)" and w: "v_state v = SvOpen w"
  shows "\<exists>v1. attach_install j v = Some (Ok (v_ready w), v1\<lparr>v_state := SvOpen (w\<lparr>v_session := Some j, v_ready := Some j\<rparr>)\<rparr>) \<and>
    closer_to v v1 \<and> (\<forall>q. s_state (v_sessions v1 ! j) = StOpen q \<longrightarrow> q_max_requests q = v_requests w \<and>
      q_max_bytes q = v_bytes w \<and> q_autoreply q = v_autoreply w) \<and>
    (\<forall>i < length (v_sessions v). i \<noteq> j \<longrightarrow> v_sessions v1 ! i = v_sessions v ! i)"
proof -
  let ?P = "\<lambda>s. \<forall>q. s_state s = StOpen q \<longrightarrow> q_max_requests q = v_requests w \<and> q_max_bytes q = v_bytes w \<and> q_autoreply q = v_autoreply w"
  let ?f = "\<lambda>s. do { s1 \<leftarrow> set_inbound_limits (v_requests w) (v_bytes w) s; Some (set_autoreply_timeout (v_autoreply w) s1) }"
  obtain v1 where "on_session j ?f v = Some v1" "closer_to v v1" "?P (v_sessions v1 ! j)"
    "\<forall>i < length (v_sessions v). i \<noteq> j \<longrightarrow> v_sessions v1 ! i = v_sessions v ! i"
    using on_session_ok [where f = ?f and P = ?P, OF inv j install_policy] by auto
  with w show ?thesis by (intro exI [of _ v1]) (simp add: attach_install_def)
qed

lemma remove1_keys: "i \<in> fst ` set xs \<Longrightarrow> i \<noteq> fst x \<Longrightarrow> i \<in> fst ` set (remove1 x xs)"
  by (metis (no_types, lifting) image_iff in_set_remove1)

lemma server_step_inv:
  assumes "server_step v v'" "server_inv v"
  shows "server_inv v'"
  using assms
proof (cases rule: server_step.cases)
  case (session j s)
  have "session_inv (v_sessions v ! j)" using assms(2) session(2) by (simp add: server_inv_def)
  with session(3) have "ok (v_sessions v ! j) s" by (rule session_step_ok)
  from closer_to_inv [OF assms(2) closer_to_update [OF assms(2) session(2) this]] session(1) show ?thesis by simp
next
  case (connected j)
  have "active v' i" if "i < length (v_sessions v')" "is_open (v_sessions v' ! i)" for i
  proof (cases "i < length (v_sessions v)")
    case True
    then have "active v i" using assms(2) that connected by (simp add: server_inv_def nth_append)
    then show ?thesis using connected by (auto simp: active_def)
  next
    case False
    then show ?thesis using that connected by (simp add: active_def)
  qed
  moreover have "refs_inv v'" using assms(2) connected by (auto simp: server_inv_def refs_inv_def less_Suc_eq)
  moreover have "replaced_inv v'" using connected by (simp add: replaced_inv_def)
  ultimately show ?thesis using assms(2) connected session_new_inv by (auto simp: server_inv_def)
next
  case disconnected
  then show ?thesis using assms(2) by simp
next
  case (look j)
  show ?thesis
  proof (rule server_invI [OF assms(2) closer_to_refl [OF assms(2)]])
    have refs: "refs_inv v" using assms(2) by (simp add: server_inv_def)
    show "refs_inv v'"
      using refs look by (cases "v_state v") (auto simp: refs_inv_def attach_look_def)
    show "replaced_inv v'" using look by (cases "v_state v") (simp_all add: replaced_inv_def attach_look_def)
    show "active v' i" if "active v i" for i
      using that look by (cases "v_state v") (auto simp: active_def attach_look_def)
  qed (use look in simp)
next
  case (reset j p v1)
  have p: "p < length (v_sessions v)" using assms(2) reset(2) by (simp add: server_inv_def refs_inv_def)
  from on_session_close [OF assms(2) p, of "Transport SessionReset"] reset(3)
  have cl: "closer_to v v1" and closed: "\<not> is_open (v_sessions v1 ! p)" by auto
  note same = closer_toD [OF cl] and inv1 = closer_to_inv [OF assms(2) cl]
  show ?thesis
  proof (rule server_invI [OF assms(2) cl])
    show "refs_inv v'" using inv1 reset(1,2) same by (auto simp: server_inv_def refs_inv_def)
    show "replaced_inv v'" using inv1 reset(1,2) same closed by (fastforce simp: server_inv_def replaced_inv_def)
  qed (use reset(1,2) same in \<open>auto simp: active_def split: server_state.splits\<close>)
next
  case (install j replaced v2)
  obtain w where w: "v_state v = SvOpen w" using install(3) by (auto simp: attach_install_def split: server_state.splits)
  have j: "j < length (v_sessions v)" using assms(2) install(2) by (fastforce simp: server_inv_def refs_inv_def)
  from attach_install_ok [OF assms(2) j w] install(3) obtain v1 where cl: "closer_to v v1" and ready: "replaced = v_ready w"
    and v2: "v2 = v1\<lparr>v_state := SvOpen (w\<lparr>v_session := Some j, v_ready := Some j\<rparr>)\<rparr>" by auto
  note same = closer_toD [OF cl] and inv1 = closer_to_inv [OF assms(2) cl]
  show ?thesis
  proof (rule server_invI [OF assms(2) cl])
    have "Suc j = length (v_sessions v)" "\<forall>r. v_ready w = Some r \<longrightarrow> r < length (v_sessions v)"
      using assms(2) install(2) w by (auto simp: server_inv_def refs_inv_def)
    then show "refs_inv v'" using assms(2) install(1) v2 same ready
      by (auto simp: server_inv_def refs_inv_def doomed_def split: option.splits)
    show "replaced_inv v'" using install(1) v2 by (simp add: replaced_inv_def)
    fix i assume i: "i < length (v_sessions v')" "is_open (v_sessions v' ! i)" "active v1 i"
    have "i = j"
    proof (rule ccontr)
      assume "i \<noteq> j"
      with i(3) w same install(2) have "v_session w = Some i" by (auto simp: active_def)
      with inv1 w same install(2) have "\<not> is_open (v_sessions v1 ! i)" by (auto simp: server_inv_def replaced_inv_def)
      with i(2) install(1) v2 show False by simp
    qed
    then show "active v' i" using install(1) v2 by (simp add: active_def)
  qed (use install(1) v2 in simp)
next
  case (refused j reason v1)
  then obtain a where "v_state v = SvClosed reason a" "v1 = v" by (auto simp: attach_install_def bind_eq_Some_conv split: server_state.splits)
  then show ?thesis using assms(2) refused(1,2)
    by (intro server_invI [OF assms(2) closer_to_refl [OF assms(2)]]) (auto simp: server_inv_def refs_inv_def replaced_inv_def active_def)
next
  case (discard j v1)
  have j: "j < length (v_sessions v)" using assms(2) discard(2) by (fastforce simp: server_inv_def refs_inv_def)
  from on_session_close [OF assms(2) j, of Closed] discard(3)
  have cl: "closer_to v v1" and closed: "\<not> is_open (v_sessions v1 ! j)" by auto
  note same = closer_toD [OF cl] and inv1 = closer_to_inv [OF assms(2) cl]
  show ?thesis
  proof (rule server_invI [OF assms(2) cl])
    show "refs_inv v'" using inv1 discard(1,2) same by (auto simp: server_inv_def refs_inv_def)
    show "replaced_inv v'" using discard(1) by (simp add: replaced_inv_def)
    show "active v' i" if "is_open (v_sessions v' ! i)" "active v1 i" for i
      using that discard(1,2) same closed by (auto simp: active_def split: server_state.splits)
  qed (use discard(1) in simp)
next
  case (stop reason j)
  show ?thesis
  proof (rule server_invI [OF assms(2) closer_to_refl [OF assms(2)]])
    have "refs_inv v" using assms(2) by (simp add: server_inv_def)
    then show "refs_inv v'" using stop by (simp add: refs_inv_def)
  qed (use stop in \<open>simp_all add: replaced_inv_def active_def\<close>)
next
  case (close err j reason ready v1)
  show ?thesis
  proof (rule server_invI [OF assms(2) closer_to_refl [OF assms(2)]])
    show "v_sessions v' = v_sessions v" using close by (auto simp: close_begin_def split: server_state.splits)
    show "replaced_inv v'" using assms(2) close by (auto simp: server_inv_def replaced_inv_def close_begin_def split: server_state.splits)
    show "refs_inv v'" using assms(2) close
      by (auto simp: server_inv_def refs_inv_def close_begin_def doomed_def split: server_state.splits option.splits)
    show "active v' i" if "active v i" for i
      using that close by (auto simp: active_def close_begin_def doomed_def split: server_state.splits)
  qed
next
  case (finish j reason v1)
  have j: "j < length (v_sessions v)" using assms(2) finish(2) by (force simp: server_inv_def refs_inv_def)
  from on_session_close [OF assms(2) j, of reason] finish(3)
  have cl: "closer_to v v1" and closed: "\<not> is_open (v_sessions v1 ! j)" by auto
  note same = closer_toD [OF cl] and inv1 = closer_to_inv [OF assms(2) cl]
  show ?thesis
  proof (rule server_invI [OF assms(2) cl])
    show "refs_inv v'" using inv1 finish(1) same set_remove1_subset [of "(j, reason)" "v_closing v"]
      by (auto simp: server_inv_def refs_inv_def)
    show "replaced_inv v'" using inv1 finish(1) same by (simp add: server_inv_def replaced_inv_def)
    show "active v' i" if "is_open (v_sessions v' ! i)" "active v1 i" for i
    proof -
      have "i \<noteq> j" using that(1) closed finish(1) by auto
      with remove1_keys [of i "v_closing v" "(j, reason)"] that(2) finish(1) same show ?thesis
        by (auto simp: active_def split: server_state.splits)
    qed
  qed (use finish(1) in simp)
next
  case (shut_stream reason j)
  then show ?thesis using assms(2) by simp
next
  case (accept r)
  consider "v' = v" | w where "v_state v = SvOpen w" "v' = v\<lparr>v_state := SvOpen (w\<lparr>v_ready := None\<rparr>)\<rparr>"
    using accept by (auto simp: accept_pass_def split: server_state.splits option.splits)
  then show ?thesis
  proof cases
    case 2
    show ?thesis
    proof (rule server_invI [OF assms(2) closer_to_refl [OF assms(2)]])
      have "refs_inv v" "replaced_inv v" using assms(2) by (simp_all add: server_inv_def)
      then show "refs_inv v'" "replaced_inv v'" using 2 by (simp_all add: refs_inv_def replaced_inv_def)
    qed (use 2 in \<open>simp_all add: active_def\<close>)
  qed (use assms(2) in simp)
next
  case (autoreply timeout)
  show ?thesis
  proof (cases "v_state v")
    case (SvOpen w)
    show ?thesis
      by (rule policy_step_inv [OF assms(2) SvOpen, where w' = "w\<lparr>v_autoreply := timeout\<rparr>"])
        (use autoreply SvOpen set_autoreply_timeout_ok in \<open>auto simp: server_set_autoreply_timeout_def\<close>)
  qed (use autoreply assms(2) in \<open>simp add: server_set_autoreply_timeout_def\<close>)
next
  case (limits requests limit)
  show ?thesis
  proof (cases "v_state v")
    case (SvOpen w)
    show ?thesis
      by (rule policy_step_inv [OF assms(2) SvOpen, where w' = "w\<lparr>v_requests := requests, v_bytes := limit\<rparr>"])
        (use limits SvOpen set_inbound_limits_returns in \<open>auto simp: server_set_inbound_limits_def\<close>)
  qed (use limits assms(2) in \<open>simp add: server_set_inbound_limits_def\<close>)
qed

lemma wire_server_new_inv: "server_inv (wire_server_new c)"
  by (simp add: wire_server_new_def server_inv_def refs_inv_def replaced_inv_def)

interpretation wire_server: transition_system "\<lambda>v. \<exists>c. v = wire_server_new c" server_step server_inv
  by unfold_locales (auto simp: wire_server_new_inv intro: server_step_inv)



section \<open>Properties\<close>

abbreviation server_run :: "'p wire_server \<Rightarrow> 'p wire_server \<Rightarrow> bool" where
  "server_run \<equiv> server_step\<^sup>*\<^sup>*"

lemma server_run_inv: "server_run (wire_server_new c) v \<Longrightarrow> server_inv v"
  using wire_server.inv_reachable by blast

text \<open>A turn of a reader returns, and ends the loop only with the session closed.\<close>

lemma client_reader_turn_ok:
  assumes codec: "prost_codec pb" and inv: "session_inv s"
  shows "\<exists>on s'. client_reader_turn pb received s = Some (on, s') \<and> ok s s' \<and> (on \<or> \<not> is_open s')"
proof -
  obtain r s1 where r: "(case received of Inl err \<Rightarrow> Some (Err (Transport err), s) | Inr bs \<Rightarrow> handle_message pb bs s) = Some (r, s1)"
    and ok1: "ok s s1"
    using handle_message_ok [OF codec inv] ok_refl [OF inv] by (cases received) fastforce+
  show ?thesis
  proof (cases r)
    case (Inl err)
    obtain s2 where "session_close err s1 = Some s2" "ok s1 s2" "\<not> is_open s2" using close_session [OF ok_inv [OF ok1]] by blast
    with Inl r ok_trans [OF ok1] show ?thesis by (intro exI [of _ False] exI [of _ s2]) (simp add: client_reader_turn_def)
  next
    case (Inr u)
    with r ok1 show ?thesis by (intro exI [of _ True] exI [of _ s1]) (simp add: client_reader_turn_def)
  qed
qed

text \<open>Closing the session that a reference names, if it names one.\<close>

lemma close_optional:
  assumes inv: "\<forall>s \<in> set (v_sessions v). session_inv s" and ref: "\<And>i. j = Some i \<Longrightarrow> i < length (v_sessions v)"
  shows "\<exists>v'. on_optional j (session_close err) v = Some v' \<and> v_state v' = v_state v \<and>
    length (v_sessions v') = length (v_sessions v) \<and> (\<forall>s \<in> set (v_sessions v'). session_inv s) \<and>
    (\<forall>i. j = Some i \<longrightarrow> \<not> is_open (v_sessions v' ! i)) \<and> (\<forall>i. j \<noteq> Some i \<longrightarrow> v_sessions v' ! i = v_sessions v ! i)"
proof (cases j)
  case None
  with inv show ?thesis by (simp add: on_optional_def)
next
  case (Some i)
  have "session_inv (v_sessions v ! i)" using inv ref [OF Some] by simp
  then obtain s where s: "session_close err (v_sessions v ! i) = Some s" "ok (v_sessions v ! i) s" "\<not> is_open s" using close_session by blast
  have "\<forall>s' \<in> set ((v_sessions v)[i := s]). session_inv s'"
    using inv ok_inv [OF s(2)] set_update_subset_insert [of "v_sessions v" i s] by auto
  with s ref [OF Some] Some show ?thesis by (simp add: on_optional_def on_session_def)
qed

text \<open>C22: a server has one session at a time: of two open sessions one is the new one that the reader is
  about to attach. What accept returns is the attached session, and between two events of the reader it
  is the newest. Once a closed server has closed what it had to and its reader is through with
  attaching, no session is open.\<close>

theorem server_one_session:
  assumes "server_run (wire_server_new c) v"
  shows "(\<forall>i < length (v_sessions v). \<forall>j < length (v_sessions v). is_open (v_sessions v ! i) \<longrightarrow> is_open (v_sessions v ! j) \<longrightarrow>
      i = j \<or> fresh (v_reader v) \<in> {Some i, Some j}) \<and>
    (\<forall>k v'. accept_pass v = (Ready (Ok k), v') \<longrightarrow> attached (v_state v) = Some k \<and>
      (v_reader v = Reading \<longrightarrow> Suc k = length (v_sessions v))) \<and>
    (\<forall>reason a. v_state v = SvClosed reason a \<longrightarrow> v_closing v = [] \<longrightarrow> fresh (v_reader v) = None \<longrightarrow>
      (\<forall>s \<in> set (v_sessions v). \<not> is_open s))"
proof (intro conjI allI impI)
  have inv: "server_inv v" by (rule server_run_inv [OF assms])
  have act: "active v j" if "j < length (v_sessions v)" "is_open (v_sessions v ! j)" for j
    using inv that by (simp add: server_inv_def)
  show "i = j \<or> fresh (v_reader v) \<in> {Some i, Some j}" if "i < length (v_sessions v)" "j < length (v_sessions v)"
    "is_open (v_sessions v ! i)" "is_open (v_sessions v ! j)" for i j
    using act [OF that(1,3)] act [OF that(2,4)] by (auto simp: active_def)
  show "\<forall>s \<in> set (v_sessions v). \<not> is_open s" if "v_state v = SvClosed reason a" "v_closing v = []" "fresh (v_reader v) = None" for reason a
    using act that by (auto simp: active_def in_set_conv_nth)
  fix k v' assume "accept_pass v = (Ready (Ok k), v')"
  then obtain w where w: "v_state v = SvOpen w" "v_ready w = Some k" by (auto simp: accept_pass_def split: server_state.splits option.splits)
  have refs: "refs_inv v" using inv by (simp add: server_inv_def)
  from refs w show "attached (v_state v) = Some k" "v_reader v = Reading \<Longrightarrow> Suc k = length (v_sessions v)"
    by (auto simp: refs_inv_def)
qed

text \<open>Attaching a session that the reader has just created replaces the previous one: the previous
  session is closed, the new one has the server's limits and timeout, it is the attached one, and the
  next accept returns it, so that of several sessions only the newest is ever accepted.\<close>

theorem attach_replaces:
  assumes "server_run (wire_server_new c) v" and "v_reader v = Starting j" and "v_state v = SvOpen w"
  shows "\<exists>v'. attach j v = Some (Ok (), v') \<and> v_state v' = SvOpen (w\<lparr>v_session := Some j, v_ready := Some j\<rparr>) \<and>
    (\<forall>p. v_session w = Some p \<longrightarrow> p \<noteq> j \<and> \<not> is_open (v_sessions v' ! p)) \<and>
    (\<forall>q. s_state (v_sessions v' ! j) = StOpen q \<longrightarrow> q_max_requests q = v_requests w \<and> q_max_bytes q = v_bytes w \<and>
      q_autoreply q = v_autoreply w) \<and>
    fst (accept_pass v') = Ready (Ok j)"
proof -
  have inv: "server_inv v" by (rule server_run_inv [OF assms(1)])
  then have refs: "refs_inv v" by (simp add: server_inv_def)
  then have j: "j < length (v_sessions v)" and other: "v_session w \<noteq> Some j" and prev: "\<And>p. v_session w = Some p \<Longrightarrow> p < length (v_sessions v)"
    and ready: "\<And>p. v_ready w = Some p \<Longrightarrow> v_session w = Some p"
    using assms(2,3) by (auto simp: refs_inv_def)
  have closing: "\<exists>s'. session_close (Transport SessionReset) s = Some s' \<and> ok s s' \<and> \<not> is_open s'" if "session_inv s" for s
    using close_session that by blast
  obtain v1 where v1: "on_optional (v_session w) (session_close (Transport SessionReset)) v = Some v1" and cl1: "closer_to v v1"
    and closed: "\<forall>p. v_session w = Some p \<longrightarrow> \<not> is_open (v_sessions v1 ! p)"
    using on_optional_ok [where f = "session_close (Transport SessionReset)" and P = "\<lambda>s. \<not> is_open s" and j = "v_session w", OF inv prev closing] by blast
  note same1 = closer_toD [OF cl1] and inv1 = closer_to_inv [OF inv cl1]
  let ?w = "w\<lparr>v_session := Some j, v_ready := Some j\<rparr>"
  have j1: "j < length (v_sessions v1)" and w1: "v_state v1 = SvOpen w" using j same1 assms(3) by simp_all
  obtain v2 where v2: "attach_install j v1 = Some (Ok (v_ready w), v2\<lparr>v_state := SvOpen ?w\<rparr>)" and cl2: "closer_to v1 v2"
    and policy: "\<forall>q. s_state (v_sessions v2 ! j) = StOpen q \<longrightarrow> q_max_requests q = v_requests w \<and> q_max_bytes q = v_bytes w \<and> q_autoreply q = v_autoreply w"
    and rest2: "\<forall>i < length (v_sessions v1). i \<noteq> j \<longrightarrow> v_sessions v2 ! i = v_sessions v1 ! i"
    using attach_install_ok [OF inv1 j1 w1] by blast
  let ?v2 = "v2\<lparr>v_state := SvOpen ?w\<rparr>"
  have "\<forall>s \<in> set (v_sessions ?v2). session_inv s" using closer_to_inv [OF inv1 cl2] by (simp add: server_inv_def)
  moreover have "p < length (v_sessions ?v2)" if "v_ready w = Some p" for p
    using prev [OF ready [OF that]] same1 closer_toD [OF cl2] by simp
  ultimately obtain v3 where v3: "on_optional (v_ready w) (session_close Closed) ?v2 = Some v3" and state3: "v_state v3 = SvOpen ?w"
    and rest3: "\<forall>i. v_ready w \<noteq> Some i \<longrightarrow> v_sessions v3 ! i = v_sessions v2 ! i"
    and gone3: "\<forall>i. v_ready w = Some i \<longrightarrow> \<not> is_open (v_sessions v3 ! i)"
    using close_optional [of ?v2 "v_ready w" Closed] by auto
  have "attach j v = Some (Ok (), v3)" using v1 v2 v3 assms(3) by (simp add: attach_def attach_look_def)
  moreover have "p \<noteq> j \<and> \<not> is_open (v_sessions v3 ! p)" if p: "v_session w = Some p" for p
  proof -
    have "p \<noteq> j" using other p by auto
    with p closed rest2 rest3 gone3 prev [OF p] same1(4) show ?thesis by (cases "v_ready w = Some p") simp_all
  qed
  moreover have "v_sessions v3 ! j = v_sessions v2 ! j" using rest3 ready other by blast
  ultimately show ?thesis using state3 policy by (intro exI [of _ v3]) (simp add: accept_pass_def)
qed

text \<open>Closing a server is final and complete: it is closed for the first reason it ever got, its
  session is closed, nothing waits for acceptance, the stream is shut down, and from then on accept
  and attach return the reason.\<close>

theorem server_close_ends:
  assumes "server_run (wire_server_new c) v"
  shows "\<exists>v' reason. server_close err v = Some v' \<and> v_state v' = SvClosed reason (attached (v_state v)) \<and>
    reason = (case v_state v of SvOpen _ \<Rightarrow> err | SvClosed first _ \<Rightarrow> first) \<and> v_stream_closed v' \<and>
    (\<forall>j. attached (v_state v) = Some j \<longrightarrow> \<not> is_open (v_sessions v' ! j)) \<and>
    accept_pass v' = (Ready (Err reason), v') \<and> attach_look v' = Err reason"
proof -
  have inv: "server_inv v" by (rule server_run_inv [OF assms])
  then have refs: "refs_inv v" by (simp add: server_inv_def)
  obtain j reason ready v0 where start: "close_begin err v = ((j, reason, ready), v0)" by (metis prod.exhaust)
  have j: "j = attached (v_state v)" and v0: "v_sessions v0 = v_sessions v" "v_state v0 = SvClosed reason j"
    and reason: "reason = (case v_state v of SvOpen _ \<Rightarrow> err | SvClosed first _ \<Rightarrow> first)"
    using start by (auto simp: close_begin_def split: server_state.splits)
  have own: "\<forall>i. v_ready w = Some i \<longrightarrow> v_session w = Some i" if "v_state v = SvOpen w" for w
    using refs that by (simp add: refs_inv_def)
  have ready: "ready = None \<or> ready = j"
    using start own by (cases ready) (auto simp: close_begin_def split: server_state.splits)
  have bound: "i < length (v_sessions v)" if "j = Some i" for i using refs j that by (simp add: refs_inv_def)
  have "\<forall>s \<in> set (v_sessions v0). session_inv s" using inv v0 by (simp add: server_inv_def)
  then obtain v2 where v2: "on_optional j (session_close reason) v0 = Some v2" "v_state v2 = SvClosed reason j"
    "length (v_sessions v2) = length (v_sessions v)" "\<forall>s \<in> set (v_sessions v2). session_inv s"
    "\<forall>i. j = Some i \<longrightarrow> \<not> is_open (v_sessions v2 ! i)"
    using close_optional [of v0 j reason] bound v0 by auto
  have "i < length (v_sessions v2)" if "ready = Some i" for i using bound ready that v2(3) by simp
  then obtain v3 where v3: "on_optional ready (session_close Closed) v2 = Some v3" "v_state v3 = SvClosed reason j"
    and closed3: "\<forall>i. j = Some i \<longrightarrow> \<not> is_open (v_sessions v3 ! i)"
    using close_optional [of v2 ready Closed] v2(2,4,5) by metis
  have "server_close err v = Some (v3\<lparr>v_stream_closed := True\<rparr>)" using start v2 v3 by (simp add: server_close_def)
  with v3(2) closed3 j reason show ?thesis
    by (intro exI [of _ "v3\<lparr>v_stream_closed := True\<rparr>"] exI [of _ reason]) (simp add: accept_pass_def attach_look_def)
qed

end
