(* ===== verification/Worker_Threads.thy ===== *)
theory Worker_Threads
  imports Wire_Prelude
begin

text \<open>
  The worker threads of a session, \<^verbatim>\<open>src/src/protocol/worker.rs\<close>: starting a thread, the guard that aborts the
  process on a panic, and the counter that lets a caller wait until every worker has let go of its state. The work of
  the threads is in the theories of the session; here a worker is its stage and its name.
\<close>


section \<open>State\<close>

text \<open>A worker is counted before its thread exists; it runs; it has dropped what it captured; it has dropped its guard.\<close>

datatype stage = Counted | Running | Released | Exited

datatype waiter = NoWaiter | Checking | Asleep | Returned

record tracker =
  tk_active :: nat
  tk_workers :: "(string \<times> stage) list"
  tk_aborted :: bool
  tk_waiter :: waiter

definition tracker_default :: tracker where
  "tracker_default = \<lparr>tk_active = 0, tk_workers = [], tk_aborted = False, tk_waiter = NoWaiter\<rparr>"


section \<open>Operations\<close>

text \<open>\<^verbatim>\<open>spawn\<close>: the counter first, then the thread; a thread that cannot be started aborts.\<close>

definition spawn_count :: "string \<Rightarrow> tracker \<Rightarrow> tracker" where
  "spawn_count name t = t\<lparr>tk_active := tk_active t + 1, tk_workers := tk_workers t @ [(name, Counted)]\<rparr>"

definition set_stage :: "nat \<Rightarrow> stage \<Rightarrow> tracker \<Rightarrow> tracker" where
  "set_stage i st t = t\<lparr>tk_workers := (tk_workers t)[i := (fst (tk_workers t ! i), st)]\<rparr>"

definition spawn_thread :: "nat \<Rightarrow> bool \<Rightarrow> tracker \<Rightarrow> tracker" where
  "spawn_thread i started t = (if started then set_stage i Running t else t\<lparr>tk_aborted := True\<rparr>)"

text \<open>\<^verbatim>\<open>WorkerGuard::drop\<close>: abort while unwinding, otherwise count down and wake the waiters; counting below zero is a panic.\<close>

definition guard_drop :: "nat \<Rightarrow> bool \<Rightarrow> tracker \<Rightarrow> tracker option" where
  "guard_drop i panicking t =
     (if panicking then Some (t\<lparr>tk_aborted := True\<rparr>)
      else if tk_active t = 0 then None
      else Some ((set_stage i Exited t)\<lparr>tk_active := tk_active t - 1,
        tk_waiter := (if tk_waiter t = Asleep then Checking else tk_waiter t)\<rparr>))"

text \<open>One pass of the loop of \<^verbatim>\<open>Tracker::wait_stopped\<close> under the lock: it returns or sleeps.\<close>

definition wait_stopped :: "tracker \<Rightarrow> tracker" where
  "wait_stopped t = t\<lparr>tk_waiter := (if tk_active t = 0 then Returned else Asleep)\<rparr>"


section \<open>The machine\<close>

inductive tracker_step :: "tracker \<Rightarrow> tracker \<Rightarrow> bool" where
  spawn: "\<not> tk_aborted t \<Longrightarrow> tracker_step t (spawn_count name t)"
| thread: "\<not> tk_aborted t \<Longrightarrow> i < length (tk_workers t) \<Longrightarrow> snd (tk_workers t ! i) = Counted \<Longrightarrow>
    tracker_step t (spawn_thread i started t)"
| finish: "\<not> tk_aborted t \<Longrightarrow> i < length (tk_workers t) \<Longrightarrow> snd (tk_workers t ! i) = Running \<Longrightarrow>
    tracker_step t (set_stage i Released t)"
| panic: "\<not> tk_aborted t \<Longrightarrow> i < length (tk_workers t) \<Longrightarrow> snd (tk_workers t ! i) = Running \<Longrightarrow>
    guard_drop i True t = Some t' \<Longrightarrow> tracker_step t t'"
| exit: "\<not> tk_aborted t \<Longrightarrow> i < length (tk_workers t) \<Longrightarrow> snd (tk_workers t ! i) = Released \<Longrightarrow>
    guard_drop i False t = Some t' \<Longrightarrow> tracker_step t t'"
| wait: "\<not> tk_aborted t \<Longrightarrow> tk_waiter t = NoWaiter \<Longrightarrow> tracker_step t (t\<lparr>tk_waiter := Checking\<rparr>)"
| check: "\<not> tk_aborted t \<Longrightarrow> tk_waiter t = Checking \<Longrightarrow> tracker_step t (wait_stopped t)"
| spurious: "\<not> tk_aborted t \<Longrightarrow> tk_waiter t = Asleep \<Longrightarrow> tracker_step t (t\<lparr>tk_waiter := Checking\<rparr>)"

definition alive :: "(string \<times> stage) list \<Rightarrow> nat" where
  "alive ws = length (filter (\<lambda>w. snd w \<noteq> Exited) ws)"

definition tracker_inv :: "tracker \<Rightarrow> bool" where
  "tracker_inv t \<longleftrightarrow> tk_active t = alive (tk_workers t) \<and> (tk_waiter t = Asleep \<longrightarrow> tk_active t \<noteq> 0)"

lemma alive_update:
  assumes "i < length ws" "snd (ws ! i) \<noteq> Exited"
  shows "alive (ws[i := (n, st)]) = (if st = Exited then alive ws - 1 else alive ws)" "0 < alive ws"
proof -
  have split: "ws = take i ws @ ws ! i # drop (Suc i) ws" by (rule id_take_nth_drop [OF assms(1)])
  have "alive ws = alive (take i ws) + 1 + alive (drop (Suc i) ws)"
    by (subst split) (simp add: alive_def assms(2))
  moreover have "alive (ws[i := (n, st)]) = alive (take i ws) + (if st = Exited then 0 else 1) + alive (drop (Suc i) ws)"
    using assms(1) by (simp add: upd_conv_take_nth_drop alive_def)
  ultimately show "alive (ws[i := (n, st)]) = (if st = Exited then alive ws - 1 else alive ws)" "0 < alive ws" by auto
qed

lemma set_stage_inv:
  "tracker_inv t \<Longrightarrow> i < length (tk_workers t) \<Longrightarrow> snd (tk_workers t ! i) \<noteq> Exited \<Longrightarrow> st \<noteq> Exited \<Longrightarrow> tracker_inv (set_stage i st t)"
  by (simp add: tracker_inv_def set_stage_def alive_update)

lemma guard_drop_returns:
  assumes "tracker_inv t" "i < length (tk_workers t)" "snd (tk_workers t ! i) \<noteq> Exited"
  obtains t' where "guard_drop i panicking t = Some t'" "tracker_inv t'"
proof (cases panicking)
  case True
  with assms(1) show thesis by (intro that [of "t\<lparr>tk_aborted := True\<rparr>"]) (auto simp: guard_drop_def tracker_inv_def)
next
  case False
  have pos: "tk_active t \<noteq> 0" using alive_update(2) [OF assms(2,3)] assms(1) by (simp add: tracker_inv_def)
  let ?t = "(set_stage i Exited t)\<lparr>tk_active := tk_active t - 1, tk_waiter := (if tk_waiter t = Asleep then Checking else tk_waiter t)\<rparr>"
  have "tracker_inv ?t" using assms by (simp add: tracker_inv_def set_stage_def alive_update)
  with False pos show thesis by (intro that [of ?t]) (simp_all add: guard_drop_def)
qed

lemma tracker_step_inv:
  assumes "tracker_step t t'" "tracker_inv t"
  shows "tracker_inv t'"
  using assms
proof (induction rule: tracker_step.induct)
  case (panic t i t')
  with guard_drop_returns [of t i True] show ?case by auto
next
  case (exit t i t')
  with guard_drop_returns [of t i False] show ?case by auto
next
  case (thread t i started)
  then show ?case by (cases started) (simp_all add: spawn_thread_def set_stage_inv, auto simp: tracker_inv_def)
qed (auto simp: set_stage_inv, auto simp: tracker_inv_def spawn_count_def alive_def wait_stopped_def)

lemma tracker_default_inv: "tracker_inv tracker_default"
  by (simp add: tracker_default_def tracker_inv_def alive_def)

interpretation workers: transition_system "\<lambda>t. t = tracker_default" tracker_step tracker_inv
  by unfold_locales (auto simp: tracker_default_inv intro: tracker_step_inv)

lemma spawn_run:
  assumes "tracker_step\<^sup>*\<^sup>* tracker_default t" "\<not> tk_aborted t"
  shows "tracker_step\<^sup>*\<^sup>* tracker_default (spawn_count n t)" "\<not> tk_aborted (spawn_count n t)"
  using assms rtranclp.rtrancl_into_rtrancl [OF assms(1) tracker_step.spawn [OF assms(2)]] by (simp_all add: spawn_count_def)

lemma spawn_default: "\<not> tk_aborted tracker_default"
  by (simp add: tracker_default_def)

text \<open>Waiting for the workers is right: the call returns only when every worker that was ever started has let go of its
  state and dropped its guard, it never sleeps once that is so, and a guard never counts below zero.\<close>

theorem workers_stopped:
  assumes "tracker_step\<^sup>*\<^sup>* tracker_default t"
  shows "(tk_waiter (wait_stopped t) = Returned \<longleftrightarrow> (\<forall>w \<in> set (tk_workers t). snd w = Exited)) \<and>
    (tk_waiter t = Asleep \<longrightarrow> (\<exists>w \<in> set (tk_workers t). snd w \<noteq> Exited)) \<and>
    (\<forall>i < length (tk_workers t). snd (tk_workers t ! i) \<noteq> Exited \<longrightarrow> guard_drop i panicking t \<noteq> None)"
proof -
  have inv: "tracker_inv t" using workers.inv_reachable assms by blast
  then have "tk_active t = 0 \<longleftrightarrow> (\<forall>w \<in> set (tk_workers t). snd w = Exited)"
    by (auto simp: tracker_inv_def alive_def filter_empty_conv)
  with inv guard_drop_returns [OF inv] show ?thesis
    by (auto simp: wait_stopped_def tracker_inv_def)
qed

theorem workers_stopped_witness:
  "tk_waiter (wait_stopped tracker_default) = Returned \<and> tk_waiter (wait_stopped (spawn_count ''wire-writer'' tracker_default)) \<noteq> Returned"
proof -
  have run: "tracker_step\<^sup>*\<^sup>* tracker_default (spawn_count ''wire-writer'' tracker_default)"
    by (rule r_into_rtranclp) (rule tracker_step.spawn, simp add: tracker_default_def)
  show ?thesis
    using workers_stopped [OF run] workers_stopped [of tracker_default] by (simp add: spawn_count_def tracker_default_def)
qed

end
