(* ===== verification/Session_Connect.thy ===== *)
theory Session_Connect
  imports Session_Transport Transport_Client Worker_Threads
begin

text \<open>
  Setting up a client session: \<^verbatim>\<open>connect\<close> and \<^verbatim>\<open>Session::start\<close> of \<^verbatim>\<open>src/src/protocol/session.rs\<close>. The transport connects first; only
  then is there a session, with its writer thread over the sender that connecting returned, and the three workers.
\<close>


section \<open>Starting\<close>

text \<open>What the sender of a session sees of the client that returned it.\<close>

definition sender_wire :: "('k, 'x) endpoint_scheme \<Rightarrow> 'k wire" where
  "sender_wire ep = \<lparr>w_alive = True, w_outbound = ep_outbound ep, w_sealers = ep_sealers ep\<rparr>"

definition session_start :: "role \<Rightarrow> bool \<Rightarrow> clock \<Rightarrow> 'k wire \<Rightarrow> env \<Rightarrow> tracker \<Rightarrow> ('p, 'k) link \<times> tracker" where
  "session_start side has_stream cl w e workers =
     (started side has_stream cl w e, spawn_count ''wire-deadlines'' (spawn_count ''wire-writer'' workers))"

record ('p, 'k, 'i) connection =
  cn_link :: "('p, 'k) link"
  cn_sealer :: nat
  cn_info :: 'i
  cn_workers :: tracker

text \<open>A client that could not connect is dropped, which closes its stream.\<close>

definition protocol_connect ::
  "cobs \<Rightarrow> 'k crypto \<Rightarrow> (instant \<Rightarrow> int) \<Rightarrow> (bytes \<Rightarrow> int \<Rightarrow> (string, bytes \<times> 'i) result) \<Rightarrow>
   ('k endpoint \<times> env, protocol_error, ('p, 'k, 'i) connection) run" where
  "protocol_connect c cr wall verify = (\<lambda>(ep, e).
     attempt (client_connect c cr wall verify) (\<lambda>r. case r of
         Err err \<Rightarrow> bindr client_drop (\<lambda>_. fail (Transport err))
       | Ok (sealer, info) \<Rightarrow> (\<lambda>(ep1, e1).
           let (link, workers) = session_start Client True (e_clock e1) (sender_wire ep1) e1 tracker_default
           in ret \<lparr>cn_link = link, cn_sealer = sealer, cn_info = info,
                cn_workers = spawn_count ''wire-client-reader'' workers\<rparr> (ep1, e1))) (ep, e))"


section \<open>What connecting leaves on the wire\<close>

definition link_kept :: "('k, 'x) endpoint_scheme \<times> env \<Rightarrow> ('k, 'x) endpoint_scheme \<times> env \<Rightarrow> bool" where
  "link_kept s s' \<longleftrightarrow> (fr_inv (ep_reader (fst s)) \<and> link_ok legal_frames (ob_writer (ep_outbound (fst s)), snd s) \<longrightarrow>
     fr_inv (ep_reader (fst s')) \<and> link_ok legal_frames (ob_writer (ep_outbound (fst s')), snd s'))"

interpretation linked: frame_relation link_kept
  by unfold_locales (auto simp: link_kept_def)

lemma link_kept_writer: "keeps wire_kept m \<Longrightarrow> keeps link_kept (on_writer m)"
  by (fastforce simp: keeps_def on_writer_Some link_kept_def wire_kept_def)

lemma link_ok_output: "e_output e' = e_output e \<Longrightarrow> link_ok A (fw, e') = link_ok A (fw, e)"
  by (simp add: link_ok_def)

lemma link_kept_reader: "keeps link_kept (on_reader (next_packet decode deadline))"
  unfolding keeps_def
proof (intro allI impI)
  fix s s' :: "('a, 'b) endpoint_scheme \<times> env" and r
  assume "on_reader (next_packet decode deadline) s = Some (r, s')"
  moreover obtain ep e where s: "s = (ep, e)" by fastforce
  ultimately obtain fr e' where run: "next_packet decode deadline (ep_reader ep, e) = Some (r, fr, e')" and s': "s' = (ep\<lparr>ep_reader := fr\<rparr>, e')"
    by (auto simp: on_reader_Some)
  show "link_kept s s'" unfolding link_kept_def s s' using next_packet_inv [OF run] link_ok_output [of e' e] by auto
qed

lemma link_kept_clock:
  "keeps link_kept (on_clock (env_deadline_after d))" "keeps link_kept (wall_time wall)" "keeps link_kept (sign_time wall fixed)"
  "keeps link_kept (on_clock (\<lambda>e. map_option (\<lambda>t. (Ok t, e)) (f e)))"
  by (auto simp: keeps_def on_clock_Some link_kept_def link_ok_def wall_time_def sign_time_def split: option.splits)

lemma link_kept_basic:
  "keeps link_kept (fresh_secret cr :: (('k, 'x) endpoint_scheme \<times> env, 'e, bytes) run)"
  "keeps link_kept (or_failed what r)"
  "keeps link_kept (act (\<lambda>(ep, e). (ep_secrets ep, ep\<lparr>ep_secrets := ep_secrets ep + 1\<rparr>, e)) :: (('k, 'x) endpoint_scheme \<times> env, 'e, nat) run)"
  "keeps link_kept (act (\<lambda>(ep, e). ((), release_contexts ep, e)) :: (('k, 'x) endpoint_scheme \<times> env, 'e, unit) run)"
  "keeps link_kept (new_session sender receiver :: (('k, 'x) endpoint_scheme \<times> env, 'e, nat) run)"
  "keeps link_kept (end_session :: (('k, 'x) endpoint_scheme \<times> env, 'e, bool) run)"
  by (auto simp: keeps_def link_kept_def fresh_secret_def or_failed_def release_contexts_def new_session_def end_session_def
      bindr_Some_iff on_writer_Some writer_bind_def writer_end_def split: sum.splits option.splits if_splits)

lemmas linked_intros = linked.keeps_ret linked.keeps_fail linked.keeps_bindr linked.keeps_attempt keeps_branch keeps_case_prod
  link_kept_writer link_kept_reader link_kept_clock link_kept_basic

lemma link_kept_await_hello: "keeps link_kept (await_hello c cr recipient deadline)"
proof -
  have "link_kept s (snd y)" if "await_hello c cr recipient deadline s = Some y" for s y
  proof (rule await_hello.raw_induct [OF _ that])
    fix rec and c :: cobs and cr recipient deadline s y
    assume IH: "\<And>c cr recipient deadline s y. rec c cr recipient deadline s = Some y \<Longrightarrow> link_kept s (snd y)"
      and body: "(case on_reader (next_packet (cobs_decode c) (Some deadline)) s of
        None \<Rightarrow> None
      | Some (r, s') \<Rightarrow>
          (case skip_stale r of
             Err err \<Rightarrow> fail err s'
           | Ok packet \<Rightarrow>
               if cr_recipient cr packet = Ok recipient then ret packet s'
               else rec c cr recipient deadline s')) = Some y"
    then obtain q s1 where step: "on_reader (next_packet (cobs_decode c) (Some deadline)) s = Some (q, s1)"
      by (auto split: option.splits)
    have "link_kept s s1" using keepsD [OF link_kept_reader step] .
    moreover have "link_kept s1 (snd y)"
      using body step IH [of c cr recipient deadline s1 y] linked.R_refl [of s1]
      by (cases "skip_stale q") (auto simp: fail_def ret_def split: if_splits)
    ultimately show "link_kept s (snd y)" by (rule linked.R_trans)
  qed
  then show ?thesis by (fastforce simp: keeps_def)
qed

lemma link_kept_connect:
  assumes "cobs_codec c"
  shows "keeps link_kept (client_connect c cr wall verify)"
proof -
  have authenticate: "keeps link_kept (client_authenticate c cr wall verify signer_sk crypto_sk fixed deadline packet)"
    for signer_sk crypto_sk fixed deadline packet
    unfolding client_authenticate_def Let_def
    by (intro linked_intros keeps_outbound_send_packet assms)
  have handshake: "keeps link_kept (client_handshake c cr wall verify signer_sk crypto_sk fixed deadline)"
    for signer_sk crypto_sk fixed deadline
    unfolding client_handshake_def
    by (intro linked_intros link_kept_await_hello authenticate keeps_outbound_send_packet keeps_outbound assms)
  show ?thesis
    unfolding client_connect_def by (intro keeps_state linked_intros handshake)
qed



section \<open>The outcome\<close>

lemma tracker_run3:
  "tracker_step\<^sup>*\<^sup>* tracker_default (spawn_count n3 (spawn_count n2 (spawn_count n1 tracker_default)))"
  by (intro spawn_run rtranclp.rtrancl_refl spawn_default)

text \<open>What \<^verbatim>\<open>connect\<close> returns. An error leaves a closed stream and no session behind. A session is new and its writer stands at the
  beginning, on a stream with whole frames and a sender that is the bound one and has its context; the client is
  inside the same session, and three workers are counted.\<close>

definition connected :: "'k endpoint \<times> env \<Rightarrow> (protocol_error, ('p, 'k, 'i) connection) result \<Rightarrow> bool" where
  "connected s r \<longleftrightarrow> (case s of (ep, e) \<Rightarrow> (case r of
      Err err \<Rightarrow> (\<exists>cause. err = Transport cause) \<and> e_close e = Some 0 \<and> no_session (ep_next ep) ep
    | Ok cn \<Rightarrow> cn_link cn = started Client True (e_clock e) (sender_wire ep) e \<and>
        link_ok legal_frames (ob_writer (w_outbound (sender_wire ep)), e) \<and>
        ob_binding (ep_outbound ep) = Some (cn_sealer cn) \<and> ep_sealers ep (cn_sealer cn) \<noteq> None \<and>
        ep_sealer ep = Some (cn_sealer cn) \<and> ep_receiver ep \<noteq> None \<and>
        map fst (tk_workers (cn_workers cn)) = [''wire-writer'', ''wire-deadlines'', ''wire-client-reader''] \<and>
        tracker_step\<^sup>*\<^sup>* tracker_default (cn_workers cn)))"

lemma client_connect_context:
  assumes "client_connect c cr wall verify (ep, e) = Some (Ok (sealer, info), ep', e')"
  shows "ep_sealers ep' sealer \<noteq> None"
proof -
  from assms obtain sk1 sk2 deadline ep1 e1 where
    "client_handshake c cr wall verify sk1 sk2 None deadline (ep1, e1) = Some (Ok (sealer, info), ep', e')"
    by (auto simp: client_connect_def bindr_Some_iff on_clock_Some fresh_secret_def)
  then obtain sender receiver s3 where
    "new_session sender receiver s3 = Some (Ok sealer :: (transport_error, nat) result, ep', e')"
    unfolding client_handshake_def by (auto simp: bindr_Some_iff split: sum.splits)
  then show ?thesis by (cases s3) (auto simp: new_session_def bindr_Some_iff on_writer_Some writer_bind_def)
qed

text \<open>C21: connecting a client is all or nothing, as \<open>connected\<close> says.\<close>

theorem connect_starts_session:
  fixes cr :: "'k crypto"
  assumes "cobs_codec c" and "e_output e = []"
    and "protocol_connect c cr wall verify (endpoint_new ClientSide timeout, e) = Some (r, s')"
  shows "connected s' r"
proof -
  let ?ep = "endpoint_new ClientSide timeout :: 'k endpoint"
  let ?next = "\<lambda>q. case q of
         Err err \<Rightarrow> bindr client_drop (\<lambda>_. fail (Transport err))
       | Ok (sealer, info) \<Rightarrow> (\<lambda>(ep1, e1).
           let (link, workers) = session_start Client True (e_clock e1) (sender_wire ep1) e1 tracker_default
           in ret \<lparr>cn_link = link, cn_sealer = sealer, cn_info = info,
                cn_workers = spawn_count ''wire-client-reader'' workers\<rparr> (ep1, e1))"
  from assms(3) obtain q s1 where "client_connect c cr wall verify (?ep, e) = Some (q, s1)" "?next q s1 = Some (r, s')"
    unfolding protocol_connect_def prod.case attempt_Some_iff by blast
  then obtain ep1 e1 where connect: "client_connect c cr wall verify (?ep, e) = Some (q, ep1, e1)"
    and rest: "?next q (ep1, e1) = Some (r, s')" by (cases s1) auto
  have out: "connect_outcome (ep_next ?ep) q ep1" by (rule client_connect_outcome [OF assms(1) ep_inv_new connect])
  show ?thesis
  proof (cases q)
    case (Inl err)
    then have "no_session (ep_next ?ep) ep1" using out by (simp add: connect_outcome_def)
    then have inv: "ep_inv ep1" by (simp add: no_session_def)
    obtain x ep2 e2 where ended: "end_session (ep1, e1\<lparr>e_close := Some 0\<rparr>) = Some (x :: (protocol_error, bool) result, ep2, e2)"
      using end_session_returns [of "(ep1, e1\<lparr>e_close := Some 0\<rparr>)"] by (metis not_None_eq prod_cases3)
    note gone = end_session_effect [OF ended inv]
    then have "client_drop (ep1, e1) = Some (Ok () :: (protocol_error, unit) result, ep2, e2)"
      using ended by (simp add: client_drop_def bindr_def act_def ret_def)
    with rest Inl have "s' = (ep2, e2)" "r = Err (Transport err)" by (simp_all add: bindr_def fail_def)
    with gone show ?thesis by (simp add: connected_def no_session_def)
  next
    case (Inr x)
    obtain sealer info where x: "x = (sealer, info)" by fastforce
    have new: "ob_binding (ep_outbound ep1) = Some sealer" "ep_sealer ep1 = Some sealer" "ep_receiver ep1 \<noteq> None"
      using out Inr x by (auto simp: connect_outcome_def)
    have ctx: "ep_sealers ep1 sealer \<noteq> None" using client_connect_context [of c cr wall verify ?ep e sealer info ep1 e1] connect Inr x by simp
    have "fr_inv (ep_reader ?ep)" "link_ok legal_frames (ob_writer (ep_outbound ?ep), e)"
      using fr_inv_new fw_inv_new assms(2)
      by (auto simp: endpoint_new_def outbound_new_def link_ok_def legal_frames_def intro: exI [of _ "[]"])
    then have link: "link_ok legal_frames (ob_writer (ep_outbound ep1), e1)"
      using keepsD [OF link_kept_connect [OF assms(1)] connect] by (simp add: link_kept_def)
    have workers: "map fst (tk_workers (spawn_count n3 (spawn_count n2 (spawn_count n1 tracker_default)))) = [n1, n2, n3]" for n1 n2 n3
      by (simp add: spawn_count_def tracker_default_def)
    from rest Inr x show ?thesis
      using new ctx link tracker_run3 workers by (auto simp: session_start_def connected_def sender_wire_def)
  qed
qed


theorem connect_starts_session_witness:
  "\<exists>cn ep' e'. protocol_connect cobs_reference demo_crypto (\<lambda>_. 0) demo_verify (endpoint_new ClientSide 9, demo_env) =
     Some (Ok (cn :: (bytes, nat, unit) connection), ep', e') \<and> cn_sealer cn = 0 \<and> connected (ep', e') (Ok cn)"
proof -
  obtain ep' e' where "client_connect cobs_reference demo_crypto (\<lambda>_. 0) demo_verify (endpoint_new ClientSide 9, demo_env) =
      Some (Ok (0, ()), ep', e')" using demo_connect by blast
  then obtain cn where run: "protocol_connect cobs_reference demo_crypto (\<lambda>_. 0) demo_verify (endpoint_new ClientSide 9, demo_env) =
     Some (Ok (cn :: (bytes, nat, unit) connection), ep', e')" "cn_sealer cn = 0"
    by (auto simp: protocol_connect_def attempt_def session_start_def ret_def)
  moreover have "e_output demo_env = []" by (simp add: demo_env_def)
  from connect_starts_session [OF stuffing.cobs_codec_axioms this run(1)] have "connected (ep', e') (Ok cn)" .
  ultimately show ?thesis by blast
qed

end
