(* ===== verification/Session_Demo.thy ===== *)
theory Session_Demo
  imports Session_Properties Session_Queue Session_Pair Session_Server Session_Callbacks Protobuf_Reference
begin

text \<open>
  A client and a server session over the reference protobuf codec, on which the properties of the
  protocol layer are exercised: the client asks to unlock, the server answers with an error.
\<close>


section \<open>A request on its way\<close>

definition demo_clock :: clock where
  "demo_clock = \<lparr>now_at = 0, ticks = []\<rparr>"

definition demo_client :: "bytes session" where
  "demo_client = session_new Client True demo_clock"

definition demo_server :: "bytes session" where
  "demo_server = session_new Server False demo_clock"

definition demo_message :: "bytes message" where
  "demo_message = Message ''UnlockRequest'' [7]"

definition demo_out :: "bytes outgoing" where
  "demo_out = \<lparr>og_body = OutRequest demo_message, og_key = 0\<rparr>"

definition demo_asked :: "bytes session" where
  "demo_asked = snd (the (session_request demo_message 100 demo_client))"

definition demo_sending :: "bytes session" where
  "demo_sending = snd (the (next_outgoing demo_asked))"

lemma demo_now: "clock_now demo_clock = (0, demo_clock)"
  by (simp add: demo_clock_def clock_now_def)

lemma demo_asked_step: "session_request demo_message 100 demo_client = Some (Ok 0, demo_asked)"
  by (simp add: demo_asked_def demo_client_def session_new_def session_request_def enqueue_def session_now_def demo_now)

lemma demo_asked_eq: "demo_asked = \<lparr>d_promises = [promise_pair 100 True], d_taken = [], d_retained = 0, d_due = [], d_called = [],
      s_state = StOpen \<lparr>q_max_requests = DEFAULT_MAX_INBOUND_REQUESTS, q_max_bytes = DEFAULT_MAX_INBOUND_BYTES,
        q_autoreply = DEFAULT_AUTOREPLY_TIMEOUT, q_incoming = [], q_reserved = {}, q_outgoing = [demo_out],
        q_next_id = Some 1, q_outstanding = (\<lambda>_. None), q_operations = [(0, \<lparr>po_deadline = 100, po_response = True, po_log_id = None\<rparr>)]\<rparr>,
      s_side = Client, s_clock = demo_clock, s_has_stream = True, s_stream_closed = False, s_held = [], s_writing = None\<rparr>"
  by (simp add: demo_asked_def demo_client_def session_new_def session_request_def enqueue_def session_now_def demo_now demo_out_def)

lemma demo_sending_step: "next_outgoing demo_asked = Some (Took 1 demo_out, demo_sending)"
  by (simp add: demo_sending_def demo_asked_eq next_outgoing_def session_now_def demo_now state_expire_def demo_out_def)

lemma demo_sending_eq: "demo_sending = \<lparr>d_promises = [promise_pair 100 True], d_taken = [], d_retained = 0, d_due = [], d_called = [],
      s_state = StOpen \<lparr>q_max_requests = DEFAULT_MAX_INBOUND_REQUESTS, q_max_bytes = DEFAULT_MAX_INBOUND_BYTES,
        q_autoreply = DEFAULT_AUTOREPLY_TIMEOUT, q_incoming = [], q_reserved = {}, q_outgoing = [],
        q_next_id = Some 3, q_outstanding = (\<lambda>_. None)(1 \<mapsto> 0), q_operations = [(0, \<lparr>po_deadline = 100, po_response = True, po_log_id = Some 1\<rparr>)]\<rparr>,
      s_side = Client, s_clock = demo_clock, s_has_stream = True, s_stream_closed = False, s_held = [], s_writing = Some (1, demo_out)\<rparr>"
  by (simp add: demo_sending_def demo_asked_eq next_outgoing_def session_now_def demo_now state_expire_def demo_out_def id_checked_add2_def)

lemma demo_idle: "s_writing demo_asked = None"
  by (simp add: demo_asked_eq)

lemma demo_asked_run: "session_run demo_client demo_asked"
  by (rule r_into_rtranclp) (rule session_step.other [OF other_step.request [OF demo_asked_step]])

lemma demo_sending_run: "session_run demo_client demo_sending"
  by (rule rtranclp.rtrancl_into_rtrancl [OF demo_asked_run session_step.take_out [OF demo_idle demo_sending_step]])

lemmas demo_runs = demo_asked_run [unfolded demo_client_def] demo_sending_run [unfolded demo_client_def]


lemma demo_unlock_bytes: "outgoing_bytes protobuf 1000 Client 1 (og_body demo_out) = Ok unlock_bytes"
  by (simp add: outgoing_bytes_def demo_out_def demo_message_def unlock_encoded)

lemmas demo_limits = DEFAULT_MAX_INBOUND_REQUESTS_def DEFAULT_MAX_INBOUND_BYTES_def


section \<open>Its answer\<close>

definition demo_error :: schema_error where
  "demo_error = \<lparr>err_code = 1, err_msg = []\<rparr>"

definition demo_answer :: bytes where
  "demo_answer = [8, 1, 0x12, 2, 8, 1]"

lemma demo_answer_bytes: "outgoing_bytes protobuf 1000 (peer Client) 1 (OutReply 1 (Err demo_error)) = Ok demo_answer"
  by (simp add: outgoing_bytes_def envelope_encode_def envelope_parts_def protobuf_def reference_encode_def encode_fields_def
      envelope_fields_def uint_field_def error_fields_def varint_short demo_answer_def demo_error_def)


section \<open>Both sides with something in hand\<close>

definition demo_header :: "bool \<Rightarrow> header" where
  "demo_header failed = \<lparr>h_id = 1, h_failed = failed, h_payload = None, h_unknown = False\<rparr>"

definition demo_received :: "bytes session" where
  "demo_received = snd (the (route_message (demo_header False) unlock_bytes demo_server))"

definition demo_answered :: "bytes session" where
  "demo_answered = snd (the (route_message (demo_header True) demo_answer demo_sending))"

lemma demo_kinds: "kind_from_id 1 Even = Request" "kind_from_id 1 Odd = Response"
  by (simp_all add: kind_from_id_def parity_of_unat)

lemma demo_received_step: "route_message (demo_header False) unlock_bytes demo_server = Some (Ok None, demo_received)"
  by (simp add: demo_received_def route_message_def demo_header_def demo_server_def session_new_def demo_kinds admit_request_def
      charge_reserve_def unlock_bytes_def demo_limits)

lemma demo_received_eq: "d_retained demo_received = 6" "d_taken demo_received = []" "d_promises demo_received = []" "s_held demo_received = []"
  "s_side demo_received = Server"
  "s_state demo_received = StOpen \<lparr>q_max_requests = DEFAULT_MAX_INBOUND_REQUESTS, q_max_bytes = DEFAULT_MAX_INBOUND_BYTES,
        q_autoreply = DEFAULT_AUTOREPLY_TIMEOUT, q_incoming = [(1, \<lparr>in_bytes = unlock_bytes, in_header = demo_header False\<rparr>)],
        q_reserved = {1}, q_outgoing = [], q_next_id = Some 2, q_outstanding = (\<lambda>_. None), q_operations = []\<rparr>"
  by (simp_all add: demo_received_def route_message_def demo_header_def demo_server_def session_new_def demo_kinds admit_request_def
      charge_reserve_def unlock_bytes_def demo_limits)

lemma demo_answered_step: "route_message (demo_header True) demo_answer demo_sending = Some (Ok None, demo_answered)"
  by (simp add: demo_answered_def route_message_def demo_header_def demo_sending_eq demo_kinds admit_response_def session_now_def demo_now
      complete_response_def charge_reserve_def in_charge_def demo_answer_def demo_limits result_send_def promise_pair_def)

lemma demo_answered_eq: "d_promises demo_answered = [(promise_pair 100 True)
    \<lparr>p_result := Some (Ok (PResponse \<lparr>in_bytes = demo_answer, in_header = demo_header True\<rparr>))\<rparr>]"
  by (simp add: demo_answered_def route_message_def demo_header_def demo_sending_eq demo_kinds admit_response_def session_now_def demo_now
      complete_response_def charge_reserve_def in_charge_def demo_answer_def demo_limits result_send_def promise_pair_def)

lemma demo_received_run: "session_run (session_new Server False demo_clock) demo_received"
  by (rule r_into_rtranclp) (rule session_step.other [OF other_step.route [OF demo_received_step [unfolded demo_server_def]]])

lemma demo_answered_next: "session_run demo_sending demo_answered"
  by (rule r_into_rtranclp) (rule session_step.other [OF other_step.route [OF demo_answered_step]])

lemma demo_answered_run: "session_run (session_new Client True demo_clock) demo_answered"
  using demo_runs(2) demo_answered_next by (rule rtranclp_trans)

theorem session_accounting_witness:
  "d_retained demo_received = incoming_charge [(1, \<lparr>in_bytes = unlock_bytes, in_header = demo_header False\<rparr>)] \<and>
   incoming_charge [(1, \<lparr>in_bytes = unlock_bytes, in_header = demo_header False\<rparr>)] = 6 \<and>
   d_retained demo_received \<le> DEFAULT_MAX_INBOUND_BYTES"
  using session_accounting [OF demo_received_run] by (simp add: demo_received_eq)

theorem request_held_once_witness:
  "kind_from_id 1 (parity_from (s_side demo_received)) = Request \<and> s_held demo_received = []"
  using request_held_once [OF demo_received_run demo_received_eq(6)] by (simp add: demo_received_eq)

theorem requests_fifo_witness:
  "\<exists>i e q. s_state demo_received = StOpen q \<and> q_incoming q = [(i, e)]"
proof -
  obtain q where "s_state demo_server = StOpen q" "q_incoming q = []" by (simp add: demo_server_def session_new_def)
  from requests_fifo [OF session_step.other [OF other_step.route [OF demo_received_step]] this(1) demo_received_eq(6)] this(2) demo_received_eq(6)
  show ?thesis by simp
qed

theorem promise_never_lost_witness:
  "\<exists>q. s_state demo_sending = StOpen q \<and> (\<exists>!po. (0, po) \<in> set (q_operations q) \<and> po_deadline po = 100 \<and> po_response po)"
  using promise_never_lost [OF demo_runs(2), of 0] by (simp add: demo_sending_eq promise_pair_def)

text \<open>The first request is written and a second one is taken.\<close>

definition demo_again :: "bytes session" where
  "demo_again = snd (the (session_request demo_message 100
     (the (record_write 0 (Ok ()) demo_sending)\<lparr>s_writing := None\<rparr>)))"

lemma demo_again_run: "session_run demo_sending demo_again"
proof -
  obtain w where w: "record_write 0 (Ok ()) demo_sending = Some w"
    by (simp add: record_write_def demo_sending_eq session_now_def demo_now)
  have "session_step demo_sending (w\<lparr>s_writing := None\<rparr>)"
    using session_step.report [of demo_sending 1 demo_out "Ok ()" w] w by (simp add: demo_sending_eq demo_out_def)
  moreover have "session_request demo_message 100 (w\<lparr>s_writing := None\<rparr>) = Some (Ok 1, demo_again)"
    using w by (auto simp: demo_again_def record_write_def demo_sending_eq session_request_def enqueue_def
        session_now_def demo_now)
  ultimately show ?thesis
    by (meson other_step.request r_into_rtranclp rtranclp.rtrancl_into_rtrancl session_step.other)
qed

theorem promise_settled_once_witness:
  "promise_kept (d_promises demo_asked ! 0) (d_promises demo_again ! 0) \<and>
   fst (the (next_outgoing demo_again)) = Took 3 (demo_out\<lparr>og_key := 1\<rparr>) \<and> unat (1 :: id) < unat (3 :: id)"
proof -
  have run: "session_run demo_asked demo_again"
    using session_step.take_out [OF demo_idle demo_sending_step] demo_again_run
    by (rule converse_rtranclp_into_rtranclp)
  obtain t' where later: "next_outgoing demo_again = Some (Took 3 (demo_out\<lparr>og_key := 1\<rparr>), t')"
    by (simp add: demo_again_def record_write_def demo_sending_eq session_request_def enqueue_def
        session_now_def demo_now next_outgoing_def state_expire_def demo_out_def)
  show ?thesis
    using promise_settled_once [OF demo_runs(1) run, of 0] demo_sending_step demo_again_run later
    by (auto simp: demo_asked_eq demo_out_def)
qed

theorem promise_result_type_witness:
  "p_response (d_promises demo_answered ! 0)"
  using promise_result_type [OF demo_answered_run, of "d_promises demo_answered ! 0"] by (simp add: demo_answered_eq)

theorem session_no_panic_witness:
  "(\<exists>on s'. finish_write 1 demo_out (Ok ()) demo_sending = Some (on, s')) \<and>
   (\<exists>r s'. response_wait protobuf 0 demo_sending = Some (r, s')) \<and>
   (\<exists>r s'. handle_message protobuf demo_answer demo_sending = Some (r, s')) \<and>
   (\<exists>t s'. next_outgoing demo_sending = Some (t, s'))"
  using session_no_panic [OF reference.prost_codec_axioms demo_runs(2), where k = 0 and bs = demo_answer and r = "Ok ()"]
  by (simp add: demo_sending_eq promise_pair_def)

theorem response_routing_witness:
  "\<exists>r s'. route_message (demo_header True) demo_answer demo_sending = Some ((case r of Err err \<Rightarrow> Err err | Ok _ \<Rightarrow> Ok None), s') \<and>
     responded (demo_header True) demo_answer demo_sending r s'"
  using response_routing [OF demo_runs(2), of "demo_header True" demo_answer] by (simp add: demo_sending_eq demo_header_def demo_kinds)

theorem close_settles_all_witness:
  "\<exists>s'. session_close Closed demo_sending = Some s' \<and> s_state s' = StClosed Closed \<and>
     p_result (d_promises s' ! 0) = Some (Err Closed)"
proof -
  have "fst (clock_now (s_clock demo_sending)) = 0" by (simp add: demo_sending_eq demo_now)
  then show ?thesis
    using close_settles_all [OF demo_runs(2), of Closed] by (auto simp: demo_sending_eq promise_pair_def)
qed

definition demo_closed :: "bytes session" where
  "demo_closed = the (session_close Closed demo_client)"

lemma demo_closed_step: "session_close Closed demo_client = Some demo_closed"
  "s_state demo_closed = StClosed Closed" "s_writing demo_closed = None" "next_outgoing demo_closed = Some (Ended, demo_closed)"
  by (simp_all add: demo_closed_def session_close_def demo_client_def session_new_def session_now_def demo_now state_close_def
      finish_close_def incoming_charge_def release_def charge_drop_def defer_notes_def next_outgoing_def state_expire_def)

theorem closed_never_blocks_witness:
  "session_recv protobuf demo_closed = Some (Ready (Err Closed), demo_closed) \<and>
   session_request demo_message 100 demo_closed = Some (Err Closed, demo_closed)"
proof -
  have "session_run (session_new Client True demo_clock) demo_closed"
    using other_step.close [OF demo_closed_step(1) [unfolded demo_client_def]] by (blast intro: session_step.other r_into_rtranclp)
  from closed_never_blocks [OF this demo_closed_step(2) rtranclp.rtrancl_refl reference.prost_codec_axioms] show ?thesis by blast
qed

theorem writer_takes_witness:
  "\<exists>t s'. next_outgoing demo_asked = Some (t, s') \<and> taken demo_asked t s'"
  using writer_takes [OF demo_runs(1)] by (simp add: demo_asked_eq)

theorem write_reported_witness:
  "\<exists>s'. record_write 0 (Err (TooLarge 5)) demo_sending = Some s' \<and> p_result (d_promises s' ! 0) = Some (Err (TooLarge 5))"
  using write_reported [OF demo_runs(2), of 1 demo_out "Err (TooLarge 5)"]
  by (simp add: demo_sending_eq demo_out_def reported_def promise_pair_def demo_now)

definition demo_watched :: "bytes session" where
  "demo_watched = the (promise_notify 0 0 demo_answered)"

lemma demo_watched_step: "promise_notify 0 0 demo_answered = Some demo_watched"
  by (simp add: demo_watched_def promise_notify_def demo_answered_eq promise_pair_def)

lemma demo_watched_eq: "d_promises demo_watched = [(promise_pair 100 True)\<lparr>p_registered := True,
    p_result := Some (Ok (PResponse \<lparr>in_bytes = demo_answer, in_header = demo_header True\<rparr>))\<rparr>]"
  by (simp add: demo_watched_def promise_notify_def demo_answered_eq promise_pair_def defer_notes_def set_promise_def)

lemma demo_watched_run: "session_run (session_new Client True demo_clock) demo_watched"
proof -
  have "other_step demo_answered demo_watched"
    using other_step.notify [OF _ _ demo_watched_step] by (simp add: demo_answered_eq promise_pair_def)
  with demo_answered_run show ?thesis by (meson rtranclp.rtrancl_into_rtrancl session_step.other)
qed

lemma demo_ran_run: "session_run (session_new Client True demo_clock) (run_note 0 demo_watched)"
proof -
  have "0 \<in> set (d_due demo_watched)" by (simp add: demo_watched_def promise_notify_def demo_answered_eq promise_pair_def)
  from other_step.callback [OF this] demo_watched_run show ?thesis by (meson rtranclp.rtrancl_into_rtrancl session_step.other)
qed

theorem callback_once_witness:
  "0 \<in> set (d_called (run_note 0 demo_watched)) \<and> count_list (d_called (run_note 0 demo_watched)) 0 = 1"
proof -
  let ?s = "run_note 0 demo_watched"
  have "count_list (d_called ?s) 0 \<le> 1" using callback_once [OF demo_ran_run, of 0] by (simp add: demo_watched_eq)
  moreover have ran: "0 \<in> set (d_called ?s)" by (simp add: run_note_def)
  then have "count_list (d_called ?s) 0 \<noteq> 0" by (simp add: count_list_0_iff)
  ultimately show ?thesis using ran by linarith
qed

text \<open>The same request, with a clock whose second reading is after its deadline.\<close>

definition demo_late :: "bytes session" where
  "demo_late = snd (the (session_request demo_message 100 (session_new Client True \<lparr>now_at = 0, ticks = [0, 200]\<rparr>)))"

lemma demo_late_eq: "session_request demo_message 100 (session_new Client True \<lparr>now_at = 0, ticks = [0, 200]\<rparr>) = Some (Ok 0, demo_late)"
  "d_promises demo_late = [promise_pair 100 True]" "fst (clock_now (s_clock demo_late)) = 200"
  by (simp_all add: demo_late_def session_new_def session_request_def enqueue_def session_now_def clock_now_def)

lemma demo_late_run: "session_run (session_new Client True \<lparr>now_at = 0, ticks = [0, 200]\<rparr>) demo_late"
  by (rule r_into_rtranclp) (rule session_step.other [OF other_step.request [OF demo_late_eq(1)]])

theorem deadline_settles_witness:
  "(\<exists>r s'. response_wait protobuf 0 demo_late = Some (Ready r, s')) \<and>
   (\<exists>t s'. deadlines_pass demo_late = Some (t, s') \<and> p_result (d_promises s' ! 0) \<noteq> None)"
  using deadline_settles [OF demo_late_run, of 0 protobuf] by (auto simp: demo_late_eq promise_pair_def)


section \<open>A server with a new session\<close>

definition demo_starting :: "bytes wire_server" where
  "demo_starting = (wire_server_new demo_clock)\<lparr>v_sessions := [demo_server], v_current := Some 0, v_reader := Starting 0\<rparr>"

lemma demo_starting_run: "server_run (wire_server_new demo_clock) demo_starting"
proof (rule r_into_rtranclp)
  show "server_step (wire_server_new demo_clock) demo_starting"
    using server_step.connected [of "wire_server_new demo_clock :: bytes wire_server" 0]
    by (simp add: demo_starting_def demo_server_def wire_server_new_def)
qed

definition demo_attached :: "bytes wire_server" where
  "demo_attached = (snd (the (attach_install 0 (demo_starting\<lparr>v_reader := Replacing 0 None\<rparr>))))\<lparr>v_reader := Reading\<rparr>"

lemma demo_attached_run: "server_run (wire_server_new demo_clock) demo_attached"
proof -
  let ?v = "demo_starting\<lparr>v_reader := Replacing 0 None\<rparr>"
  have looked: "server_step demo_starting ?v"
    using server_step.look [of demo_starting 0] by (simp add: demo_starting_def wire_server_new_def attach_look_def)
  have "attach_install 0 ?v = Some (Ok None, snd (the (attach_install 0 ?v)))"
    by (simp add: attach_install_def demo_starting_def wire_server_new_def on_session_def demo_server_def session_new_def
        set_inbound_limits_def set_autoreply_timeout_def)
  from server_step.install [OF _ this] have "server_step ?v demo_attached"
    by (simp add: demo_attached_def doomed_def attach_install_def demo_starting_def wire_server_new_def on_session_def demo_server_def
        session_new_def set_inbound_limits_def set_autoreply_timeout_def)
  with looked demo_starting_run show ?thesis by (meson rtranclp.rtrancl_into_rtrancl)
qed

theorem server_one_session_witness:
  "attached (v_state demo_attached) = Some 0 \<and> length (v_sessions demo_attached) = 1"
proof -
  have "accept_pass demo_attached = (Ready (Ok 0), snd (accept_pass demo_attached))" "v_reader demo_attached = Reading"
    by (simp_all add: accept_pass_def demo_attached_def attach_install_def demo_starting_def wire_server_new_def on_session_def
        demo_server_def session_new_def set_inbound_limits_def set_autoreply_timeout_def)
  with server_one_session [OF demo_attached_run] show ?thesis by (metis One_nat_def)
qed

theorem attach_replaces_witness:
  "\<exists>v'. attach 0 demo_starting = Some (Ok (), v') \<and> fst (accept_pass v') = Ready (Ok 0)"
  using attach_replaces [OF demo_starting_run, of 0] by (auto simp: demo_starting_def wire_server_new_def)

theorem server_close_ends_witness:
  "\<exists>v'. server_close Closed demo_starting = Some v' \<and> v_stream_closed v' \<and> accept_pass v' = (Ready (Err Closed), v')"
  using server_close_ends [OF demo_starting_run, of Closed] by (auto simp: demo_starting_def wire_server_new_def)

end
