(* ===== verification/Session_Channel.thy ===== *)
theory Session_Channel
  imports Session_Transport Secure_Channel Session_Demo
begin

text \<open>
  The two layers composed: a request that a client session submits goes through its writer thread, is sealed
  and framed, crosses the stream, is read and opened by the server's transport, and reaches the server's
  application. With the properties of the writer thread, on a concrete client and server.
\<close>


section \<open>From application to application\<close>

lemma holding_own_id:
  assumes "link_inv pb c h sealer x" "l_phase x = Holding i og" "is_request og"
  shows "kind_from_id i (parity_from (side_of x)) = Response"
  using assms by (auto simp: link_inv_def order_ok_def request_ids_def kind_from_id_def)

lemma message_limit_small:
  assumes "MAX_MESSAGE_SIZE b = Some limit"
  shows "limit < 2 ^ 64"
proof -
  have "limit \<le> MAX_FRAME_SIZE" using message_limit_from_Some assms unfolding MAX_MESSAGE_SIZE_def by blast
  then show ?thesis by (simp add: MAX_FRAME_SIZE_def)
qed

lemma write_message_Ok:
  assumes "write_message pb c h sealer side i b (w, e) = Some (Ok (), w', e')" "MAX_MESSAGE_SIZE (cobs_encode_buffer c) = Some limit"
  obtains bs where "outgoing_bytes pb limit side i b = Ok bs" "sender_send c h sealer bs (w, e) = Some (Ok (), w', e')"
proof (cases "outgoing_bytes pb limit side i b")
  case (Inl err)
  with assms show thesis by (simp add: write_message_def)
next
  case (Inr bs)
  with assms obtain q where send: "sender_send c h sealer bs (w, e) = Some (q, w', e')"
    and q: "(case q of Err err \<Rightarrow> Err (Transport err) | Ok u \<Rightarrow> Ok u) = Ok ()" by (auto simp: write_message_def)
  from q have "q = Ok ()" by (cases q) simp_all
  with Inr send that show thesis by simp
qed

text \<open>What a writer wrote on a clean stream, the end with the paired context can read.\<close>

lemma written_readable:
  assumes cobs: "cobs_codec c" and hpke: "hpke_channel h paired"
    and sent: "write_message pb c h sealer side i b (w, e) = Some (Ok (), w', e')" "e_output e' = e_output e @ ys"
    and limit: "MAX_MESSAGE_SIZE (cobs_encode_buffer c) = Some limit"
    and sender: "clean (w_outbound w)" "w_sealers w sealer = Some s" "paired s r"
  obtains bs p f r' where "outgoing_bytes pb limit side i b = Ok bs" "cobs_encode c p MAX_FRAME_SIZE = Some f" "ys = f @ [0]"
    "open_packet h r p = Ok (bs, r')"
proof -
  obtain bs where enc: "outgoing_bytes pb limit side i b = Ok bs" and send: "sender_send c h sealer bs (w, e) = Some (Ok (), w', e')"
    using write_message_Ok [OF sent(1) limit] by blast
  obtain p s1 f where f: "seal c h s bs = Some (Ok (p, s1))" "cobs_encode c p MAX_FRAME_SIZE = Some f"
    "e_output e' = e_output e @ f @ [0]" using cobs send sender(1,2) by (rule sender_send_clean)
  obtain r' where "open_packet h r p = Ok (bs, r')" using hpke sender(3) f(1) by (rule hpke_channel.open_sealed)
  with that enc f(2,3) sent(2) show thesis by simp
qed

text \<open>C1: a request that a client's writer thread sends reaches the server's application: when the transport accepted the write
  on a stream at a frame boundary, the server, inside the session with the paired receive context and
  reading the very bytes written, receives one message; handling it in an open session with room succeeds and
  appends the request to the queue under the identifier the client gave it; and whenever it has
  come to the head of the queue, receiving yields the message the client submitted, with a responder
  for that identifier.\<close>

theorem request_delivered:
  assumes cobs: "cobs_codec c" and prost: "prost_codec pb" and hpke: "hpke_channel (cr_hpke cr) paired"
    and wire: "link_ok legal_frames (ob_writer (w_outbound w), e)"
    and run: "(writer_step pb c (cr_hpke cr) sealer)\<^sup>*\<^sup>* (started Client has_stream cl w e) x"
    and hold: "l_phase x = Holding i og" "og_body og = OutRequest m"
    and sent: "write_message pb c (cr_hpke cr) sealer Client i (og_body og) (l_wire x, l_env x) = Some (Ok (), w', e')"
      "e_output e' = e_output (l_env x) @ ys"
    and sender: "clean (w_outbound (l_wire x))" "w_sealers (l_wire x) sealer = Some s" "paired s r"
    and server: "in_session r sv" "sv_handshake_deadline sv = None" "facing (ys @ xs) (ep_reader sv, d)"
    and session: "session_run (session_new (peer Client) False cl') t" "s_state t = StOpen q"
    and room: "i \<notin> q_reserved q" "card (q_reserved q) < q_max_requests q"
      "MAX_MESSAGE_SIZE (cobs_encode_buffer c) = Some limit" "d_retained t + limit \<le> q_max_bytes q" "q_max_bytes q < 2 ^ 64"
  shows "\<exists>bs sv' d' t' q' en. server_recv c cr wall attest [] (sv, d) = Some (Ok (Message bs), sv', d') \<and>
    facing xs (ep_reader sv', d') \<and> handle_message pb bs t = Some (Ok (), t') \<and> s_state t' = StOpen q' \<and>
    q_incoming q' = q_incoming q @ [(i, en)] \<and> q_reserved q' = insert i (q_reserved q) \<and>
    (\<forall>u qu rest. session_run t' u \<longrightarrow> s_state u = StOpen qu \<longrightarrow> q_incoming qu = (i, en) # rest \<longrightarrow>
       (\<exists>u'. session_recv pb u = Some (Ready (Ok (m, i)), u') \<and> i \<in> set (s_held u')))"
proof -
  obtain bs p f r' where out: "outgoing_bytes pb limit Client i (og_body og) = Ok bs" and f: "cobs_encode c p MAX_FRAME_SIZE = Some f" "ys = f @ [0]"
    and opened: "open_packet (cr_hpke cr) r p = Ok (bs, r')" using cobs hpke sent room(3) sender by (rule written_readable)
  have enc: "envelope_encode pb limit Client i (Ok m) = Ok bs" using out hold(2) by (simp add: outgoing_bytes_def)
  have "length bs \<le> limit" using envelope_encode_length [OF prost] enc by blast
  then have fits: "d_retained t + length bs < 2 ^ 64" "d_retained t + length bs \<le> q_max_bytes q" using room(4,5) by linarith+
  have "facing (f @ 0 # xs) (ep_reader sv, d)" using server(3) f(2) by simp
  from cobs this f(1) server(1,2) opened obtain sv' d' where
    heard: "server_recv c cr wall attest [] (sv, d) = Some (Ok (Message bs), sv', d')" "facing xs (ep_reader sv', d')"
    by (rule server_recv_message)
  have "side_of x = Client" by (rule run_new_side [OF writer_run_session [OF cobs wire run]])
  moreover have "is_request og" using hold(2) by (simp add: is_request_def)
  ultimately have "kind_from_id i (parity_from Client) = Response"
    using holding_own_id [OF writer_run_inv [OF cobs wire run] hold(1)] by simp
  from request_handled [OF prost message_limit_small [OF room(3)] this enc session room(1,2) fits] heard show ?thesis by blast
qed

text \<open>C2: the answer to a request that was sent reaches the caller: when the server's writer wrote a reply to its identifier on a
  stream at a frame boundary, the client, inside the session with the paired receive context and reading these bytes,
  receives one message; as long as the request is pending, its deadline has not passed and there is room, handling it
  succeeds, and from then on, whatever else happens to the session, even its closing, waiting on the promise yields
  the message or the error that the peer's application answered with. Waiting for the payload of another
  variant than the message's is reported as such.\<close>

theorem answer_delivered:
  assumes cobs: "cobs_codec c" and prost: "prost_codec pb" and hpke: "hpke_channel (cr_hpke cr) paired"
    and wire: "link_ok legal_frames (ob_writer (w_outbound w), e)"
    and run: "(writer_step pb c (cr_hpke cr) sealer)\<^sup>*\<^sup>* (started Client has_stream cl w e) x"
    and asked: "(i, og) \<in> set (l_sent x)" "og_body og = OutRequest m"
    and answered: "write_message pb c (cr_hpke cr) replier (peer Client) i (OutReply i b) (ws, es) = Some (Ok (), ws', es')"
      "e_output es' = e_output es @ ys"
    and sender: "clean (w_outbound ws)" "w_sealers ws replier = Some s" "paired s r"
    and client: "in_session r ep" "facing (ys @ xs) (ep_reader ep, d)"
    and q: "s_state (l_session x) = StOpen q" and pending: "map_of (q_operations q) (og_key og) = Some po"
    and held: "p_holder (d_promises (l_session x) ! og_key og) = Held"
    and early: "fst (clock_now (s_clock (l_session x))) < po_deadline po"
    and room: "MAX_MESSAGE_SIZE (cobs_encode_buffer c) = Some limit" "d_retained (l_session x) + limit \<le> q_max_bytes q" "q_max_bytes q < 2 ^ 64"
  shows "\<exists>bs ep' d' s'. client_recv c cr [] (ep, d) = Some (Ok bs, ep', d') \<and> facing xs (ep_reader ep', d') \<and>
    handle_message pb bs (l_session x) = Some (Ok (), s') \<and> p_holder (d_promises s' ! og_key og) = Held \<and>
    (\<forall>u. session_run s' u \<longrightarrow> p_holder (d_promises u ! og_key og) = Held \<longrightarrow>
       (\<exists>u'. promise_wait pb v (og_key og) u =
          Some (Ready (case b of Ok m \<Rightarrow> payload_try_from v m | Err err \<Rightarrow> Err (Remote err)), u')))"
proof -
  obtain bs p f r' where out: "outgoing_bytes pb limit (peer Client) i (OutReply i b) = Ok bs" and f: "cobs_encode c p MAX_FRAME_SIZE = Some f" "ys = f @ [0]"
    and opened: "open_packet (cr_hpke cr) r p = Ok (bs, r')" using cobs hpke answered room(1) sender by (rule written_readable)
  have "length bs \<le> limit" using envelope_encode_length [OF prost] out by (simp add: outgoing_bytes_def)
  then have fits: "d_retained (l_session x) + length bs < 2 ^ 64" "d_retained (l_session x) + length bs \<le> q_max_bytes q"
    using room(2,3) by linarith+
  have "facing (f @ 0 # xs) (ep_reader ep, d)" using client(2) f(2) by simp
  from cobs this f(1) client(1) opened obtain ep' d' where
    heard: "client_recv c cr [] (ep, d) = Some (Ok bs, ep', d')" "facing xs (ep_reader ep', d')" by (rule client_recv_message)
  from answer_handled [OF cobs wire run asked prost message_limit_small [OF room(1)] out q pending held early fits] heard
  show ?thesis by blast
qed


section \<open>A client that asks\<close>

abbreviation demo_step :: "(bytes, nat) link \<Rightarrow> (bytes, nat) link \<Rightarrow> bool" where
  "demo_step \<equiv> writer_step protobuf cobs_reference sum_hpke 0"

definition demo_link :: "(bytes, nat) link" where
  "demo_link = started Client True demo_clock (easy_wire 5) (easy_env [] 3)"

definition demo_holding :: "(bytes, nat) link" where
  "demo_holding = demo_link\<lparr>l_session := demo_sending, l_phase := Holding 1 demo_out\<rparr>"

abbreviation demo_frame :: bytes where
  "demo_frame \<equiv> stuff (unlock_bytes @ replicate 16 (word_of_nat 5))"

lemma easy_wire_link: "link_ok legal_frames (ob_writer (w_outbound (easy_wire s)), easy_env [] n)"
  using easy_wire_clean [of s] by (auto simp: link_ok_def legal_frames_def clean_def easy_env_def intro: exI [of _ "[]"])

lemma demo_holding_run: "demo_step\<^sup>*\<^sup>* demo_link demo_holding"
proof -
  let ?asked = "demo_link\<lparr>l_session := demo_asked\<rparr>"
  have "other_step (l_session demo_link) demo_asked"
    using other_step.request [OF demo_asked_step] by (simp add: demo_link_def started_def demo_client_def)
  then have "demo_step demo_link ?asked" by (rule writer_step.thread)
  moreover have "demo_step ?asked demo_holding"
    using writer_step.look [of ?asked "Took 1 demo_out" demo_sending] demo_sending_step
    by (simp add: demo_holding_def demo_link_def started_def)
  ultimately show ?thesis by (meson converse_rtranclp_into_rtranclp r_into_rtranclp)
qed

lemma demo_written:
  "\<exists>w'. write_message protobuf cobs_reference sum_hpke 0 Client 1 (og_body demo_out) (easy_wire 5, easy_env [] 3) =
     Some (Ok (), w', easy_env (demo_frame @ [0]) 0)"
proof -
  obtain limit where limit: "MAX_MESSAGE_SIZE (cobs_encode_buffer cobs_reference) = Some limit" "1000 \<le> limit"
    using message_limit_reference by blast
  have "outgoing_bytes protobuf limit Client 1 (og_body demo_out) = Ok unlock_bytes"
    using envelope_encode_mono [OF unlock_encoded limit(2)] by (simp add: outgoing_bytes_def demo_out_def demo_message_def)
  with easy_sender [of unlock_bytes 5 "[]" 0] limit(1) show ?thesis by (auto simp: write_message_def unlock_bytes_def)
qed

definition demo_sent :: "'k wire \<Rightarrow> (bytes, 'k) link" where
  "demo_sent w = \<lparr>l_session = demo_sending, l_wire = w, l_env = easy_env (demo_frame @ [0]) 0,
     l_phase = Refusing 1 demo_out (Ok ()), l_sent = [(1, demo_out)]\<rparr>"

lemma demo_sent_run: "\<exists>w. demo_step\<^sup>*\<^sup>* demo_link (demo_sent w)"
proof -
  obtain w where w: "write_message protobuf cobs_reference sum_hpke 0 Client 1 (og_body demo_out) (easy_wire 5, easy_env [] 3) =
     Some (Ok (), w, easy_env (demo_frame @ [0]) 0)" using demo_written by blast
  have "demo_step demo_holding (demo_sent w)"
    using writer_step.send [of demo_holding 1 demo_out protobuf cobs_reference sum_hpke 0 "Ok ()" w] w
    by (simp add: demo_holding_def demo_link_def started_def demo_sent_def demo_sending_eq)
  with demo_holding_run show ?thesis by (meson rtranclp.rtrancl_into_rtrancl)
qed

lemmas demo_codecs = stuffing.cobs_codec_axioms reference.prost_codec_axioms

lemma demo_server_queues: "s_state Session_Demo.demo_server = StOpen \<lparr>q_max_requests = DEFAULT_MAX_INBOUND_REQUESTS,
    q_max_bytes = DEFAULT_MAX_INBOUND_BYTES, q_autoreply = DEFAULT_AUTOREPLY_TIMEOUT, q_incoming = [], q_reserved = {}, q_outgoing = [],
    q_next_id = Some 2, q_outstanding = (\<lambda>_. None), q_operations = []\<rparr>" "d_retained Session_Demo.demo_server = 0"
  by (simp_all add: Session_Demo.demo_server_def session_new_def)

theorem request_delivered_witness:
  "\<exists>bs sv' d' t'. server_recv cobs_reference demo_crypto (\<lambda>_. 0) (\<lambda>_. []) [] (easy_server 5, easy_reading (demo_frame @ [0])) =
       Some (Ok (Message bs), sv', d') \<and>
     handle_message protobuf bs Session_Demo.demo_server = Some (Ok (), t') \<and>
     (\<exists>u'. session_recv protobuf t' = Some (Ready (Ok (demo_message, 1)), u') \<and> 1 \<in> set (s_held u'))"
proof -
  have hpke: "cr_hpke demo_crypto = sum_hpke" by (simp add: demo_crypto_def)
  have channel: "hpke_channel (cr_hpke demo_crypto) (=)" using counted.hpke_channel_axioms by (simp add: hpke)
  obtain w where written: "write_message protobuf cobs_reference (cr_hpke demo_crypto) 0 Client 1 (og_body demo_out)
      (l_wire demo_holding, l_env demo_holding) = Some (Ok (), w, easy_env (demo_frame @ [0]) 0)"
    using demo_written by (auto simp: demo_holding_def demo_link_def started_def hpke)
  have held: "l_phase demo_holding = Holding 1 demo_out" "og_body demo_out = OutRequest demo_message"
    by (simp_all add: demo_holding_def demo_out_def)
  have sender: "clean (w_outbound (l_wire demo_holding))" "w_sealers (l_wire demo_holding) 0 = Some 5"
    using easy_wire_clean [of 5] by (simp_all add: demo_holding_def demo_link_def started_def) (simp add: easy_wire_def)
  have out: "e_output (easy_env (demo_frame @ [0]) 0) = e_output (l_env demo_holding) @ (demo_frame @ [0])"
    by (simp add: easy_env_def demo_holding_def demo_link_def started_def)
  have facing: "facing ((demo_frame @ [0]) @ []) (ep_reader (easy_server 5), easy_reading (demo_frame @ [0]))"
    using easy_endpoints(5) [of "demo_frame @ [0]" 5] by simp
  have session: "session_run (session_new (peer Client) False demo_clock) Session_Demo.demo_server"
    by (simp add: Session_Demo.demo_server_def peer_def)
  have run: "(writer_step protobuf cobs_reference (cr_hpke demo_crypto) 0)\<^sup>*\<^sup>*
      (started Client True demo_clock (easy_wire 5) (easy_env [] 3)) demo_holding"
    using demo_holding_run by (simp add: demo_link_def hpke)
  obtain limit where limit: "MAX_MESSAGE_SIZE (cobs_encode_buffer cobs_reference) = Some limit" by (metis message_limit_reference)
  have "limit \<le> MAX_FRAME_SIZE" using message_limit_from_Some limit unfolding MAX_MESSAGE_SIZE_def by blast
  then have room: "limit \<le> DEFAULT_MAX_INBOUND_BYTES" by (simp add: MAX_FRAME_SIZE_def demo_limits)
  obtain bs sv' d' t' q' en where got: "server_recv cobs_reference demo_crypto (\<lambda>_. 0) (\<lambda>_. []) [] (easy_server 5, easy_reading (demo_frame @ [0])) =
      Some (Ok (Message bs), sv', d')" "handle_message protobuf bs Session_Demo.demo_server = Some (Ok (), t')" "s_state t' = StOpen q'"
      "q_incoming q' = [(1, en)]"
    and later: "\<forall>u qu rest. session_run t' u \<longrightarrow> s_state u = StOpen qu \<longrightarrow> q_incoming qu = (1, en) # rest \<longrightarrow>
       (\<exists>u'. session_recv protobuf u = Some (Ready (Ok (demo_message, 1)), u') \<and> 1 \<in> set (s_held u'))"
    using request_delivered [OF demo_codecs channel easy_wire_link run held written out sender refl easy_endpoints(2,3) facing session
        demo_server_queues(1) _ _ limit, where wall = "\<lambda>_. 0" and attest = "\<lambda>_. []"] room
    by (auto simp: demo_server_queues demo_limits)
  from later [rule_format, of t' q' "[]"] got(3,4) have "\<exists>u'. session_recv protobuf t' = Some (Ready (Ok (demo_message, 1)), u') \<and> 1 \<in> set (s_held u')"
    by simp
  with got(1,2) show ?thesis by blast
qed


lemma demo_link_run:
  "demo_step\<^sup>*\<^sup>* demo_link x \<Longrightarrow>
     (writer_step protobuf cobs_reference sum_hpke 0)\<^sup>*\<^sup>* (started Client True demo_clock (easy_wire 5) (easy_env [] 3)) x"
  by (simp add: demo_link_def)

theorem written_in_order_witness:
  "\<exists>w fs. demo_step\<^sup>*\<^sup>* demo_link (demo_sent w) \<and> request_ids (l_sent (demo_sent w)) = [1] \<and>
     list_all2 (frame_for protobuf cobs_reference sum_hpke Client) (l_sent (demo_sent w)) fs \<and>
     subseq (map FrameEv fs) (frame_events (demo_frame @ [0]))"
proof -
  obtain w where run: "demo_step\<^sup>*\<^sup>* demo_link (demo_sent w)" using demo_sent_run by blast
  have ids: "request_ids (l_sent (demo_sent w)) = [1]" by (simp add: demo_sent_def request_ids_def is_request_def demo_out_def)
  have out: "e_output (l_env (demo_sent w)) = demo_frame @ [0]" by (simp add: demo_sent_def easy_env_def)
  from written_in_order [OF demo_codecs(1) easy_wire_link demo_link_run [OF run]] out run ids show ?thesis by auto
qed

lemma demo_replied:
  "\<exists>w'. write_message protobuf cobs_reference (cr_hpke demo_crypto) 0 (peer Client) 1 (OutReply 1 (Err demo_error)) (easy_wire 5, easy_env [] 3) =
     Some (Ok (), w', easy_env (stuff (demo_answer @ replicate 16 (word_of_nat 5)) @ [0]) 0)"
proof -
  obtain limit where limit: "MAX_MESSAGE_SIZE (cobs_encode_buffer cobs_reference) = Some limit" "1000 \<le> limit"
    using message_limit_reference by blast
  have "outgoing_bytes protobuf limit (peer Client) 1 (OutReply 1 (Err demo_error)) = Ok demo_answer"
    using envelope_encode_mono [OF _ limit(2)] demo_answer_bytes by (simp add: outgoing_bytes_def)
  with easy_sender [of demo_answer 5 "[]" 0] limit(1) show ?thesis by (auto simp: write_message_def demo_answer_def demo_crypto_def)
qed

theorem answer_delivered_witness:
  "\<exists>w bs ep' d' s' u'. demo_step\<^sup>*\<^sup>* demo_link (demo_sent w) \<and>
     client_recv cobs_reference demo_crypto [] (easy_client 5, easy_reading (stuff (demo_answer @ replicate 16 (word_of_nat 5)) @ [0])) =
       Some (Ok bs, ep', d') \<and> handle_message protobuf bs demo_sending = Some (Ok (), s') \<and>
     promise_wait protobuf ''UnlockResponse'' 0 s' = Some (Ready (Err (Remote demo_error)), u')"
proof -
  let ?ys = "stuff (demo_answer @ replicate 16 (word_of_nat 5)) @ [0]"
  obtain w where run: "demo_step\<^sup>*\<^sup>* demo_link (demo_sent w)" using demo_sent_run by blast
  let ?x = "demo_sent w"
  have hpke: "cr_hpke demo_crypto = sum_hpke" by (simp add: demo_crypto_def)
  have channel: "hpke_channel (cr_hpke demo_crypto) (=)" using counted.hpke_channel_axioms by (simp add: hpke)
  have run': "(writer_step protobuf cobs_reference (cr_hpke demo_crypto) 0)\<^sup>*\<^sup>* (started Client True demo_clock (easy_wire 5) (easy_env [] 3)) ?x"
    using demo_link_run [OF run] by (simp add: hpke)
  have x: "l_session ?x = demo_sending" "(1, demo_out) \<in> set (l_sent ?x)" by (simp_all add: demo_sent_def)
  have body: "og_body demo_out = OutRequest demo_message" "og_key demo_out = 0" by (simp_all add: demo_out_def)
  obtain w' where replied: "write_message protobuf cobs_reference (cr_hpke demo_crypto) 0 (peer Client) 1 (OutReply 1 (Err demo_error))
      (easy_wire 5, easy_env [] 3) = Some (Ok (), w', easy_env ?ys 0)" using demo_replied by blast
  have out: "e_output (easy_env ?ys 0) = e_output (easy_env [] 3) @ ?ys" by (simp add: easy_env_def)
  have ctx: "w_sealers (easy_wire 5) 0 = Some 5" by (simp add: easy_wire_def)
  have facing: "facing (?ys @ []) (ep_reader (easy_client 5), easy_reading ?ys)" using easy_endpoints(4) [of ?ys 5] by simp
  let ?q = "\<lparr>q_max_requests = DEFAULT_MAX_INBOUND_REQUESTS, q_max_bytes = DEFAULT_MAX_INBOUND_BYTES,
    q_autoreply = DEFAULT_AUTOREPLY_TIMEOUT, q_incoming = [], q_reserved = {}, q_outgoing = [],
    q_next_id = Some 3, q_outstanding = (\<lambda>_. None)(1 \<mapsto> 0),
    q_operations = [(0, \<lparr>po_deadline = 100, po_response = True, po_log_id = Some 1\<rparr>)]\<rparr> :: bytes queues"
  have q: "s_state (l_session ?x) = StOpen ?q" "d_retained (l_session ?x) = 0" by (simp_all add: x(1) demo_sending_eq)
  obtain limit where limit: "MAX_MESSAGE_SIZE (cobs_encode_buffer cobs_reference) = Some limit" by (metis message_limit_reference)
  have "limit \<le> MAX_FRAME_SIZE" using message_limit_from_Some limit unfolding MAX_MESSAGE_SIZE_def by blast
  then have room: "limit \<le> DEFAULT_MAX_INBOUND_BYTES" by (simp add: MAX_FRAME_SIZE_def demo_limits)
  obtain bs ep' d' s' where got: "client_recv cobs_reference demo_crypto [] (easy_client 5, easy_reading ?ys) = Some (Ok bs, ep', d')"
      "handle_message protobuf bs demo_sending = Some (Ok (), s')" "p_holder (d_promises s' ! 0) = Held"
    and later: "\<forall>u. session_run s' u \<longrightarrow> p_holder (d_promises u ! 0) = Held \<longrightarrow>
       (\<exists>u'. promise_wait protobuf ''UnlockResponse'' 0 u = Some (Ready (Err (Remote demo_error)), u'))"
    using answer_delivered [OF demo_codecs channel easy_wire_link run' x(2) body(1) replied out easy_wire_clean ctx refl easy_endpoints(1) facing q(1)
        _ _ _ limit, of _ "''UnlockResponse''"] room q(2)
    by (auto simp: x(1) body(2) demo_sending_eq promise_pair_def demo_now demo_limits)
  with run show ?thesis by blast
qed

lemma demo_gone_run: "\<exists>x. demo_step\<^sup>*\<^sup>* demo_link x \<and> l_phase x = Gone \<and> l_session x = demo_closed"
proof -
  let ?x1 = "demo_link\<lparr>l_session := demo_closed\<rparr>" and ?x2 = "demo_link\<lparr>l_session := demo_closed, l_phase := Leaving\<rparr>"
  have "other_step (l_session demo_link) demo_closed"
    using other_step.close [OF demo_closed_step(1)] by (simp add: demo_link_def started_def demo_client_def)
  then have 1: "demo_step demo_link ?x1" by (rule writer_step.thread)
  have 2: "demo_step ?x1 ?x2"
    using writer_step.look [of ?x1 Ended demo_closed] demo_closed_step(4) by (simp add: demo_link_def started_def)
  obtain w e where "sender_disconnect 0 (l_wire ?x2, l_env ?x2) = Some (Ok (), w, e)"
    by (simp add: demo_link_def started_def sender_disconnect_def easy_wire_def on_outbound_def outbound_disconnect_def bindr_def
        writer_end_def act_def outbound_new_def ret_def)
  from writer_step.leave [OF _ this] have 3: "demo_step ?x2 (?x2\<lparr>l_wire := w, l_env := e, l_phase := Gone\<rparr>)" by simp
  from 1 2 3 have "demo_step\<^sup>*\<^sup>* demo_link (?x2\<lparr>l_wire := w, l_env := e, l_phase := Gone\<rparr>)"
    by (meson converse_rtranclp_into_rtranclp r_into_rtranclp)
  then show ?thesis by (intro exI [of _ "?x2\<lparr>l_wire := w, l_env := e, l_phase := Gone\<rparr>"]) simp
qed

theorem writer_gone_witness:
  "\<exists>x. demo_step\<^sup>*\<^sup>* demo_link x \<and> l_phase x = Gone \<and> (\<exists>err. s_state (l_session x) = StClosed err)"
  using demo_gone_run writer_gone [OF demo_codecs(1) easy_wire_link demo_link_run] by blast

end
