(* ===== verification/Mock_Seeds.thy ===== *)
theory Mock_Seeds
  imports Wire_Prelude
begin

text \<open>
  Seeds of the fuzzers, \<^verbatim>\<open>src/src/transport/mock/seed.rs\<close> and \<^verbatim>\<open>src/src/protocol/mock/seed.rs\<close>: the scripts of the scenario tests,
  encoded in the format from which the fuzz targets decode their inputs. The decoders are derived by the crate
  \<^verbatim>\<open>arbitrary\<close> and are parameters here: the locale \<open>arbitrary_format\<close> states what the comments of \<^verbatim>\<open>Seed\<close> say of them, how they read
  numbers, flags and vectors, and how they choose a variant of an enum from its declaration. A reader of that
  format is an instance of the locale. Naming and writing the files is left out.
\<close>


section \<open>Primitive encodings\<close>

primrec to_le_bytes :: "nat \<Rightarrow> nat \<Rightarrow> bytes" where
  "to_le_bytes 0 n = []"
| "to_le_bytes (Suc k) n = word_of_nat (n mod 256) # to_le_bytes k (n div 256)"

text \<open>\<^verbatim>\<open>Seed::variant\<close>: \<^verbatim>\<open>(u64::from(index) << 32).div_ceil(u64::from(count)) as u32\<close>. The sum of a rounded-up division does not
  overflow in Rust, and neither does the shift of a 32-bit index.\<close>

definition put_variant :: "nat \<Rightarrow> nat \<Rightarrow> bytes" where
  "put_variant index count = to_le_bytes 4 ((index * 2 ^ 32 + count - 1) div count mod 2 ^ 32)"

definition put_byte :: "byte \<Rightarrow> bytes" where
  "put_byte b = [b]"

definition put_word :: "16 word \<Rightarrow> bytes" where
  "put_word w = to_le_bytes 2 (unat w)"

definition put_flag :: "bool \<Rightarrow> bytes" where
  "put_flag f = [if f then 1 else 0]"

fun put_bytes :: "bytes \<Rightarrow> bytes" where
  "put_bytes [] = put_flag False"
| "put_bytes (b # bs) = put_flag True @ put_byte b @ put_bytes bs"


section \<open>Scripts\<close>

datatype cut_point =
    CutStart | CutMiddle "16 word" | CutDelimiter | CutFlush

datatype duplex_scenario =
    ScFailedPrelude bool | ScHandshakeFailure bool bool bool | ScRepeatedAttempts byte
  | ScAbandonedHello | ScSilentHandshake bool | ScHandshakeNoise bool | ScReconnect bool
  | ScBacklog byte | ScServerTimeout bool | ScShutdown bool bool

datatype mock_client_step =
    ClReset | ClResetPair | ClHello | ClHelloReplay | ClHelloBadKey | ClAck | ClAckReplay
  | ClAckTampered | ClAckBadAuth | ClAckBadSigner | ClAckBadPayload | ClAckBadEncap | ClRequest byte
  | ClRequestReplay | ClRequestTampered | ClGarbage | ClJunk bytes | ClTruncated byte | ClPartial
  | ClOversized | ClRetain | ClSend byte | ClSendRetained byte | ClSendOversized | ClDisconnect
  | ClChunk byte | ClBatch byte | ClYield | ClInterrupt | ClReadTimeout | ClBreak | ClHeal
  | ClCut cut_point bool | ClTimeout cut_point

datatype mock_server_step =
    SvHandshake | SvSend byte | SvSendOversized | SvRecv | SvRetain | SvSendRetained byte | SvHello
  | SvHelloStale | SvHelloTampered | SvHelloBadAuth | SvHelloBadSigner | SvHelloBadPayload
  | SvHelloBadKey | SvHelloBadEncap | SvHelloBadAttest | SvReply byte | SvReplyReplay
  | SvReplyTampered | SvGarbage | SvDropped | SvJunk bytes | SvUndecodable | SvTruncated byte
  | SvPartial | SvOversized | SvChunk byte | SvBatch byte | SvYield | SvInterrupt | SvReadTimeout
  | SvBreak | SvHeal | SvCut cut_point bool | SvTimeout cut_point

datatype session_kind =
    KindOpen | KindInboundLimits | KindAutoreplyTimeout | KindRequest | KindReceive | KindIncomingBatch
  | KindReply | KindAbandon | KindOutgoing | KindWritten | KindAnswer | KindWait | KindDropPromise
  | KindAdvance | KindExpire | KindClose | KindDrop | KindCloseServer | KindDropSource | KindNotify

datatype connection_kind =
    ConnPipeline | ConnIncoming | ConnRefusal | ConnReplyRefusal | ConnResponseDuringFlush
  | ConnRequestTimeout | ConnReplyTimeout | ConnQueuedTimeout | ConnResponseBeforeFailure
  | ConnReuseDuringFlush | ConnDuplicate | ConnMalformed | ConnInboundFailure | ConnExhaust
  | ConnReplace | ConnDisconnect | ConnHandshakeFailure | ConnClose | ConnFault | ConnReadRecovery
  | ConnReadLoss | ConnReadFailures | ConnReadReconnect

record 'k action =
  a_kind :: 'k
  a_slot :: byte
  a_value :: byte
  a_budget :: byte

fun seed_cut_point :: "cut_point \<Rightarrow> bytes" where
  "seed_cut_point CutStart = put_variant 0 4"
| "seed_cut_point (CutMiddle x) = put_variant 1 4 @ put_word x"
| "seed_cut_point CutDelimiter = put_variant 2 4"
| "seed_cut_point CutFlush = put_variant 3 4"

fun seed_scenario :: "duplex_scenario \<Rightarrow> bytes" where
  "seed_scenario (ScFailedPrelude x) = put_variant 0 10 @ put_flag x"
| "seed_scenario (ScHandshakeFailure x y z) = put_variant 1 10 @ put_flag x @ put_flag y @ put_flag z"
| "seed_scenario (ScRepeatedAttempts x) = put_variant 2 10 @ put_byte x"
| "seed_scenario ScAbandonedHello = put_variant 3 10"
| "seed_scenario (ScSilentHandshake x) = put_variant 4 10 @ put_flag x"
| "seed_scenario (ScHandshakeNoise x) = put_variant 5 10 @ put_flag x"
| "seed_scenario (ScReconnect x) = put_variant 6 10 @ put_flag x"
| "seed_scenario (ScBacklog x) = put_variant 7 10 @ put_byte x"
| "seed_scenario (ScServerTimeout x) = put_variant 8 10 @ put_flag x"
| "seed_scenario (ScShutdown x y) = put_variant 9 10 @ put_flag x @ put_flag y"

fun seed_client_step :: "mock_client_step \<Rightarrow> bytes" where
  "seed_client_step ClReset = put_variant 0 34"
| "seed_client_step ClResetPair = put_variant 1 34"
| "seed_client_step ClHello = put_variant 2 34"
| "seed_client_step ClHelloReplay = put_variant 3 34"
| "seed_client_step ClHelloBadKey = put_variant 4 34"
| "seed_client_step ClAck = put_variant 5 34"
| "seed_client_step ClAckReplay = put_variant 6 34"
| "seed_client_step ClAckTampered = put_variant 7 34"
| "seed_client_step ClAckBadAuth = put_variant 8 34"
| "seed_client_step ClAckBadSigner = put_variant 9 34"
| "seed_client_step ClAckBadPayload = put_variant 10 34"
| "seed_client_step ClAckBadEncap = put_variant 11 34"
| "seed_client_step (ClRequest x) = put_variant 12 34 @ put_byte x"
| "seed_client_step ClRequestReplay = put_variant 13 34"
| "seed_client_step ClRequestTampered = put_variant 14 34"
| "seed_client_step ClGarbage = put_variant 15 34"
| "seed_client_step (ClJunk x) = put_variant 16 34 @ put_bytes x"
| "seed_client_step (ClTruncated x) = put_variant 17 34 @ put_byte x"
| "seed_client_step ClPartial = put_variant 18 34"
| "seed_client_step ClOversized = put_variant 19 34"
| "seed_client_step ClRetain = put_variant 20 34"
| "seed_client_step (ClSend x) = put_variant 21 34 @ put_byte x"
| "seed_client_step (ClSendRetained x) = put_variant 22 34 @ put_byte x"
| "seed_client_step ClSendOversized = put_variant 23 34"
| "seed_client_step ClDisconnect = put_variant 24 34"
| "seed_client_step (ClChunk x) = put_variant 25 34 @ put_byte x"
| "seed_client_step (ClBatch x) = put_variant 26 34 @ put_byte x"
| "seed_client_step ClYield = put_variant 27 34"
| "seed_client_step ClInterrupt = put_variant 28 34"
| "seed_client_step ClReadTimeout = put_variant 29 34"
| "seed_client_step ClBreak = put_variant 30 34"
| "seed_client_step ClHeal = put_variant 31 34"
| "seed_client_step (ClCut x y) = put_variant 32 34 @ seed_cut_point x @ put_flag y"
| "seed_client_step (ClTimeout x) = put_variant 33 34 @ seed_cut_point x"

fun seed_server_step :: "mock_server_step \<Rightarrow> bytes" where
  "seed_server_step SvHandshake = put_variant 0 34"
| "seed_server_step (SvSend x) = put_variant 1 34 @ put_byte x"
| "seed_server_step SvSendOversized = put_variant 2 34"
| "seed_server_step SvRecv = put_variant 3 34"
| "seed_server_step SvRetain = put_variant 4 34"
| "seed_server_step (SvSendRetained x) = put_variant 5 34 @ put_byte x"
| "seed_server_step SvHello = put_variant 6 34"
| "seed_server_step SvHelloStale = put_variant 7 34"
| "seed_server_step SvHelloTampered = put_variant 8 34"
| "seed_server_step SvHelloBadAuth = put_variant 9 34"
| "seed_server_step SvHelloBadSigner = put_variant 10 34"
| "seed_server_step SvHelloBadPayload = put_variant 11 34"
| "seed_server_step SvHelloBadKey = put_variant 12 34"
| "seed_server_step SvHelloBadEncap = put_variant 13 34"
| "seed_server_step SvHelloBadAttest = put_variant 14 34"
| "seed_server_step (SvReply x) = put_variant 15 34 @ put_byte x"
| "seed_server_step SvReplyReplay = put_variant 16 34"
| "seed_server_step SvReplyTampered = put_variant 17 34"
| "seed_server_step SvGarbage = put_variant 18 34"
| "seed_server_step SvDropped = put_variant 19 34"
| "seed_server_step (SvJunk x) = put_variant 20 34 @ put_bytes x"
| "seed_server_step SvUndecodable = put_variant 21 34"
| "seed_server_step (SvTruncated x) = put_variant 22 34 @ put_byte x"
| "seed_server_step SvPartial = put_variant 23 34"
| "seed_server_step SvOversized = put_variant 24 34"
| "seed_server_step (SvChunk x) = put_variant 25 34 @ put_byte x"
| "seed_server_step (SvBatch x) = put_variant 26 34 @ put_byte x"
| "seed_server_step SvYield = put_variant 27 34"
| "seed_server_step SvInterrupt = put_variant 28 34"
| "seed_server_step SvReadTimeout = put_variant 29 34"
| "seed_server_step SvBreak = put_variant 30 34"
| "seed_server_step SvHeal = put_variant 31 34"
| "seed_server_step (SvCut x y) = put_variant 32 34 @ seed_cut_point x @ put_flag y"
| "seed_server_step (SvTimeout x) = put_variant 33 34 @ seed_cut_point x"

text \<open>The kind of an action is encoded by its discriminant.\<close>

fun session_kind_index :: "session_kind \<Rightarrow> nat" where
  "session_kind_index KindOpen = 0"
| "session_kind_index KindInboundLimits = 1"
| "session_kind_index KindAutoreplyTimeout = 2"
| "session_kind_index KindRequest = 3"
| "session_kind_index KindReceive = 4"
| "session_kind_index KindIncomingBatch = 5"
| "session_kind_index KindReply = 6"
| "session_kind_index KindAbandon = 7"
| "session_kind_index KindOutgoing = 8"
| "session_kind_index KindWritten = 9"
| "session_kind_index KindAnswer = 10"
| "session_kind_index KindWait = 11"
| "session_kind_index KindDropPromise = 12"
| "session_kind_index KindAdvance = 13"
| "session_kind_index KindExpire = 14"
| "session_kind_index KindClose = 15"
| "session_kind_index KindDrop = 16"
| "session_kind_index KindCloseServer = 17"
| "session_kind_index KindDropSource = 18"
| "session_kind_index KindNotify = 19"

fun connection_kind_index :: "connection_kind \<Rightarrow> nat" where
  "connection_kind_index ConnPipeline = 0"
| "connection_kind_index ConnIncoming = 1"
| "connection_kind_index ConnRefusal = 2"
| "connection_kind_index ConnReplyRefusal = 3"
| "connection_kind_index ConnResponseDuringFlush = 4"
| "connection_kind_index ConnRequestTimeout = 5"
| "connection_kind_index ConnReplyTimeout = 6"
| "connection_kind_index ConnQueuedTimeout = 7"
| "connection_kind_index ConnResponseBeforeFailure = 8"
| "connection_kind_index ConnReuseDuringFlush = 9"
| "connection_kind_index ConnDuplicate = 10"
| "connection_kind_index ConnMalformed = 11"
| "connection_kind_index ConnInboundFailure = 12"
| "connection_kind_index ConnExhaust = 13"
| "connection_kind_index ConnReplace = 14"
| "connection_kind_index ConnDisconnect = 15"
| "connection_kind_index ConnHandshakeFailure = 16"
| "connection_kind_index ConnClose = 17"
| "connection_kind_index ConnFault = 18"
| "connection_kind_index ConnReadRecovery = 19"
| "connection_kind_index ConnReadLoss = 20"
| "connection_kind_index ConnReadFailures = 21"
| "connection_kind_index ConnReadReconnect = 22"

definition seed_action :: "('k \<Rightarrow> nat) \<Rightarrow> nat \<Rightarrow> 'k action \<Rightarrow> bytes" where
  "seed_action index count a = put_variant (index (a_kind a)) count @ put_byte (a_slot a) @ put_byte (a_value a) @ put_byte (a_budget a)"

definition seed_session_action :: "session_kind action \<Rightarrow> bytes" where
  "seed_session_action = seed_action session_kind_index 20"

definition seed_connection_action :: "connection_kind action \<Rightarrow> bytes" where
  "seed_connection_action = seed_action connection_kind_index 23"

text \<open>\<^verbatim>\<open>seed\<close>: the steps of a script, each after a continuation flag, and the check that the decoder gives the same script back, whose
  failure is \<open>None\<close>. The decoder is an argument.\<close>

fun seed_steps :: "('a \<Rightarrow> bytes) \<Rightarrow> 'a list \<Rightarrow> bytes" where
  "seed_steps put [] = put_flag False"
| "seed_steps put (x # xs) = put_flag True @ put x @ seed_steps put xs"

definition seed :: "('a \<Rightarrow> bytes) \<Rightarrow> (bytes \<Rightarrow> 'a list option) \<Rightarrow> 'a list \<Rightarrow> bytes option" where
  "seed put decode steps = (let bs = seed_steps put steps in if decode bs = Some steps then Some bs else None)"


section \<open>The decoders\<close>

type_synonym 'a seed_reader = "bytes \<Rightarrow> ('a \<times> bytes) option"

text \<open>Reading the fields of a value in turn.\<close>

definition just :: "'a \<Rightarrow> 'a seed_reader" where
  "just x bs = Some (x, bs)"

definition field1 :: "'a seed_reader \<Rightarrow> ('a \<Rightarrow> 'b) \<Rightarrow> 'b seed_reader" where
  "field1 g f bs = map_option (\<lambda>(x, r). (f x, r)) (g bs)"

definition field2 :: "'a seed_reader \<Rightarrow> 'b seed_reader \<Rightarrow> ('a \<Rightarrow> 'b \<Rightarrow> 'c) \<Rightarrow> 'c seed_reader" where
  "field2 g h f bs = (case g bs of None \<Rightarrow> None | Some (x, r) \<Rightarrow> field1 h (f x) r)"

definition field3 :: "'a seed_reader \<Rightarrow> 'b seed_reader \<Rightarrow> 'c seed_reader \<Rightarrow> ('a \<Rightarrow> 'b \<Rightarrow> 'c \<Rightarrow> 'd) \<Rightarrow> 'd seed_reader" where
  "field3 g h i f bs = (case g bs of None \<Rightarrow> None | Some (x, r) \<Rightarrow> field2 h i (f x) r)"

text \<open>The implementations of \<^verbatim>\<open>Arbitrary\<close> that the fuzz targets use: those of the primitive types and of byte vectors, those derived for
  the enums and structures of the scripts, and \<^verbatim>\<open>arbitrary_take_rest\<close> for the scripts themselves.\<close>

record arbitrary =
  ar_byte :: "byte seed_reader"
  ar_word :: "16 word seed_reader"
  ar_flag :: "bool seed_reader"
  ar_bytes :: "bytes seed_reader"
  ar_cut_point :: "cut_point seed_reader"
  ar_scenario :: "duplex_scenario seed_reader"
  ar_client_step :: "mock_client_step seed_reader"
  ar_server_step :: "mock_server_step seed_reader"
  ar_session_kind :: "session_kind seed_reader"
  ar_connection_kind :: "connection_kind seed_reader"
  ar_session_action :: "session_kind action seed_reader"
  ar_connection_action :: "connection_kind action seed_reader"
  ar_scenarios :: "bytes \<Rightarrow> duplex_scenario list option"
  ar_client_script :: "bytes \<Rightarrow> mock_client_step list option"
  ar_server_script :: "bytes \<Rightarrow> mock_server_step list option"
  ar_session_script :: "bytes \<Rightarrow> session_kind action list option"
  ar_connection_script :: "bytes \<Rightarrow> connection_kind action list option"

text \<open>An enum: a 32-bit number is scaled by the number of variants, and the upper 32 bits of the product select the variant
  in the order of the declaration. A vector: each element starts with a continuation flag.\<close>

definition chooses :: "'a seed_reader \<Rightarrow> 'a seed_reader list \<Rightarrow> bool" where
  "chooses get variants \<longleftrightarrow>
     (\<forall>n r. n < 2 ^ 32 \<longrightarrow> get (to_le_bytes 4 n @ r) = (variants ! (n * length variants div 2 ^ 32)) r)"

definition vector_of :: "bool seed_reader \<Rightarrow> 'a seed_reader \<Rightarrow> 'a list seed_reader \<Rightarrow> bool" where
  "vector_of flag elem vec \<longleftrightarrow>
     (\<forall>bs r. flag bs = Some (False, r) \<longrightarrow> vec bs = Some ([], r)) \<and>
     (\<forall>bs r. flag bs = Some (True, r) \<longrightarrow> vec bs = field2 elem vec (#) r)"

definition script_of :: "bool seed_reader \<Rightarrow> 'a seed_reader \<Rightarrow> (bytes \<Rightarrow> 'a list option) \<Rightarrow> bool" where
  "script_of flag elem whole \<longleftrightarrow>
     (\<forall>bs r. flag bs = Some (False, r) \<longrightarrow> whole bs = Some []) \<and>
     (\<forall>bs r. flag bs = Some (True, r) \<longrightarrow> whole bs =
        (case elem r of None \<Rightarrow> None | Some (x, r') \<Rightarrow> map_option (Cons x) (whole r')))"

text \<open>The variants of the enums with the fields they carry, in the order of their declarations.\<close>

definition cut_variants :: "arbitrary \<Rightarrow> cut_point seed_reader list" where
  "cut_variants A =
    [just CutStart, field1 (ar_word A) CutMiddle, just CutDelimiter, just CutFlush]"

definition scenario_variants :: "arbitrary \<Rightarrow> duplex_scenario seed_reader list" where
  "scenario_variants A =
    [field1 (ar_flag A) ScFailedPrelude, field3 (ar_flag A) (ar_flag A) (ar_flag A) ScHandshakeFailure,
     field1 (ar_byte A) ScRepeatedAttempts, just ScAbandonedHello, field1 (ar_flag A) ScSilentHandshake,
     field1 (ar_flag A) ScHandshakeNoise, field1 (ar_flag A) ScReconnect, field1 (ar_byte A) ScBacklog,
     field1 (ar_flag A) ScServerTimeout, field2 (ar_flag A) (ar_flag A) ScShutdown]"

definition client_variants :: "arbitrary \<Rightarrow> mock_client_step seed_reader list" where
  "client_variants A =
    [just ClReset, just ClResetPair, just ClHello, just ClHelloReplay, just ClHelloBadKey, just ClAck,
     just ClAckReplay, just ClAckTampered, just ClAckBadAuth, just ClAckBadSigner, just ClAckBadPayload,
     just ClAckBadEncap, field1 (ar_byte A) ClRequest, just ClRequestReplay, just ClRequestTampered, just ClGarbage,
     field1 (ar_bytes A) ClJunk, field1 (ar_byte A) ClTruncated, just ClPartial, just ClOversized, just ClRetain,
     field1 (ar_byte A) ClSend, field1 (ar_byte A) ClSendRetained, just ClSendOversized, just ClDisconnect,
     field1 (ar_byte A) ClChunk, field1 (ar_byte A) ClBatch, just ClYield, just ClInterrupt, just ClReadTimeout,
     just ClBreak, just ClHeal, field2 (ar_cut_point A) (ar_flag A) ClCut, field1 (ar_cut_point A) ClTimeout]"

definition server_variants :: "arbitrary \<Rightarrow> mock_server_step seed_reader list" where
  "server_variants A =
    [just SvHandshake, field1 (ar_byte A) SvSend, just SvSendOversized, just SvRecv, just SvRetain,
     field1 (ar_byte A) SvSendRetained, just SvHello, just SvHelloStale, just SvHelloTampered, just SvHelloBadAuth,
     just SvHelloBadSigner, just SvHelloBadPayload, just SvHelloBadKey, just SvHelloBadEncap,
     just SvHelloBadAttest, field1 (ar_byte A) SvReply, just SvReplyReplay, just SvReplyTampered, just SvGarbage,
     just SvDropped, field1 (ar_bytes A) SvJunk, just SvUndecodable, field1 (ar_byte A) SvTruncated, just SvPartial,
     just SvOversized, field1 (ar_byte A) SvChunk, field1 (ar_byte A) SvBatch, just SvYield, just SvInterrupt,
     just SvReadTimeout, just SvBreak, just SvHeal, field2 (ar_cut_point A) (ar_flag A) SvCut,
     field1 (ar_cut_point A) SvTimeout]"

definition session_kinds :: "session_kind list" where
  "session_kinds =
    [KindOpen, KindInboundLimits, KindAutoreplyTimeout, KindRequest, KindReceive, KindIncomingBatch, KindReply,
     KindAbandon, KindOutgoing, KindWritten, KindAnswer, KindWait, KindDropPromise, KindAdvance, KindExpire,
     KindClose, KindDrop, KindCloseServer, KindDropSource, KindNotify]"

definition connection_kinds :: "connection_kind list" where
  "connection_kinds =
    [ConnPipeline, ConnIncoming, ConnRefusal, ConnReplyRefusal, ConnResponseDuringFlush, ConnRequestTimeout,
     ConnReplyTimeout, ConnQueuedTimeout, ConnResponseBeforeFailure, ConnReuseDuringFlush, ConnDuplicate,
     ConnMalformed, ConnInboundFailure, ConnExhaust, ConnReplace, ConnDisconnect, ConnHandshakeFailure, ConnClose,
     ConnFault, ConnReadRecovery, ConnReadLoss, ConnReadFailures, ConnReadReconnect]"

definition action_fields :: "'k seed_reader \<Rightarrow> byte seed_reader \<Rightarrow> 'k action seed_reader" where
  "action_fields kind byte = field2 kind
     (field3 byte byte byte (\<lambda>s v b k. \<lparr>a_kind = k, a_slot = s, a_value = v, a_budget = b\<rparr>)) (\<lambda>k f. f k)"

locale arbitrary_format =
  fixes A :: arbitrary
  assumes byte_read: "ar_byte A (b # r) = Some (b, r)"
    and word_read: "n < 2 ^ 16 \<Longrightarrow> ar_word A (to_le_bytes 2 n @ r) = Some (word_of_nat n, r)"
    and flag_read: "ar_flag A (0 # r) = Some (False, r)" "ar_flag A (1 # r) = Some (True, r)"
    and bytes_read: "vector_of (ar_flag A) (ar_byte A) (ar_bytes A)"
    and cut_point_chooses: "chooses (ar_cut_point A) (cut_variants A)"
    and scenario_chooses: "chooses (ar_scenario A) (scenario_variants A)"
    and client_chooses: "chooses (ar_client_step A) (client_variants A)"
    and server_chooses: "chooses (ar_server_step A) (server_variants A)"
    and session_kind_chooses: "chooses (ar_session_kind A) (map just session_kinds)"
    and connection_kind_chooses: "chooses (ar_connection_kind A) (map just connection_kinds)"
    and session_action_fields: "ar_session_action A = action_fields (ar_session_kind A) (ar_byte A)"
    and connection_action_fields: "ar_connection_action A = action_fields (ar_connection_kind A) (ar_byte A)"
    and scripts_read: "script_of (ar_flag A) (ar_scenario A) (ar_scenarios A)"
      "script_of (ar_flag A) (ar_client_step A) (ar_client_script A)"
      "script_of (ar_flag A) (ar_server_step A) (ar_server_script A)"
      "script_of (ar_flag A) (ar_session_action A) (ar_session_script A)"
      "script_of (ar_flag A) (ar_connection_action A) (ar_connection_script A)"
begin

lemma put_flag_read: "ar_flag A (put_flag f @ r) = Some (f, r)"
  by (simp add: put_flag_def flag_read)

end


section \<open>What an encoding and its decoder promise\<close>

locale seedable =
  fixes put :: "'a \<Rightarrow> bytes" and get :: "'a seed_reader"
  assumes get_put: "get (put x @ r) = Some (x, r)"
begin

lemma vector_put:
  assumes "vector_of flag get vec" and "\<And>f r. flag (put_flag f @ r) = Some (f, r)"
  shows "vec (seed_steps put xs @ r) = Some (xs, r)"
  using assms by (induction xs) (simp_all add: vector_of_def field2_def field1_def get_put)

lemma script_put:
  assumes "script_of flag get whole" and "\<And>f r. flag (put_flag f @ r) = Some (f, r)"
  shows "whole (seed_steps put xs) = Some xs"
proof (induction xs)
  case Nil
  with assms(1) assms(2) [of False "[]"] show ?case by (simp add: script_of_def)
next
  case (Cons x xs)
  with assms(1) assms(2) [of True] show ?case by (simp add: script_of_def get_put)
qed

lemma seed_returns:
  assumes "script_of flag get whole" and "\<And>f r. flag (put_flag f @ r) = Some (f, r)"
  shows "seed put whole steps = Some (seed_steps put steps)"
  by (simp add: seed_def script_put [OF assms])

lemma seed_injective:
  assumes "script_of flag get whole" and "\<And>f r. flag (put_flag f @ r) = Some (f, r)"
  shows "inj (seed_steps put)"
  by (rule injI) (metis script_put [OF assms] option.inject)

end


section \<open>The encodings suit the decoders\<close>

text \<open>The index of a variant survives the scaling to 32 bits.\<close>

lemma variant_scaled:
  fixes index count :: nat
  assumes "index < count" "count \<le> 2 ^ 32"
  defines "n \<equiv> (index * 2 ^ 32 + count - 1) div count"
  shows "n < 2 ^ 32" "n * count div 2 ^ 32 = index"
proof -
  have pos: "0 < count" using assms(1) by simp
  have upper: "n * count \<le> index * 2 ^ 32 + count - 1" unfolding n_def by (simp add: div_times_less_eq_dividend)
  have lower: "index * 2 ^ 32 \<le> n * count"
  proof -
    have "index * 2 ^ 32 + count - 1 = n * count + (index * 2 ^ 32 + count - 1) mod count"
      unfolding n_def by (rule div_mult_mod_eq [symmetric])
    moreover have "(index * 2 ^ 32 + count - 1) mod count < count" using pos by (rule mod_less_divisor)
    ultimately show ?thesis using pos by linarith
  qed
  have "(index + 1) * 2 ^ 32 = index * 2 ^ 32 + 2 ^ 32" by simp
  with upper assms(2) pos have less: "n * count < (index + 1) * 2 ^ 32" by linarith
  show "n * count div 2 ^ 32 = index"
    by (rule div_nat_eqI) (use lower less in \<open>simp_all add: algebra_simps\<close>)
  have "(index + 1) * 2 ^ 32 \<le> count * 2 ^ 32" using assms(1) by (intro mult_right_mono) simp_all
  with less have "n * count < count * 2 ^ 32" by (rule less_le_trans)
  then show "n < 2 ^ 32" by (metis mult.commute mult_less_cancel1)
qed

lemma chooses_variant:
  assumes "chooses get rs" "i < length rs" "length rs \<le> 2 ^ 32" "n = length rs"
  shows "get (put_variant i n @ r) = (rs ! i) r"
  using assms(1,4) variant_scaled [OF assms(2,3)] by (simp only: chooses_def put_variant_def mod_less)

lemma put_bytes_steps: "put_bytes bs = seed_steps put_byte bs"
  by (induction bs) simp_all

sublocale arbitrary_format < byte_seed: seedable put_byte "ar_byte A"
  by unfold_locales (simp add: put_byte_def byte_read)

sublocale arbitrary_format < flag_seed: seedable put_flag "ar_flag A"
  by unfold_locales (rule put_flag_read)

sublocale arbitrary_format < word_seed: seedable put_word "ar_word A"
proof
  fix w :: "16 word" and r
  show "ar_word A (put_word w @ r) = Some (w, r)"
    using word_read [of "unat w" r] unsigned_less [of w] by (simp add: put_word_def)
qed

sublocale arbitrary_format < bytes_seed: seedable put_bytes "ar_bytes A"
  by unfold_locales (simp add: put_bytes_steps byte_seed.vector_put [OF bytes_read put_flag_read])

lemmas field_defs = just_def field1_def field2_def field3_def

sublocale arbitrary_format < cut_seed: seedable seed_cut_point "ar_cut_point A"
proof
  fix x r
  show "ar_cut_point A (seed_cut_point x @ r) = Some (x, r)"
    by (cases x) (simp_all add: chooses_variant [OF cut_point_chooses] cut_variants_def field_defs word_seed.get_put)
qed

sublocale arbitrary_format < scenario_seed: seedable seed_scenario "ar_scenario A"
proof
  fix x r
  show "ar_scenario A (seed_scenario x @ r) = Some (x, r)"
    by (cases x) (simp_all add: chooses_variant [OF scenario_chooses] scenario_variants_def field_defs
        byte_seed.get_put flag_seed.get_put)
qed

sublocale arbitrary_format < client_seed: seedable seed_client_step "ar_client_step A"
proof
  fix x r
  show "ar_client_step A (seed_client_step x @ r) = Some (x, r)"
    by (cases x) (simp_all add: chooses_variant [OF client_chooses] client_variants_def field_defs
        byte_seed.get_put flag_seed.get_put bytes_seed.get_put cut_seed.get_put)
qed

sublocale arbitrary_format < server_seed: seedable seed_server_step "ar_server_step A"
proof
  fix x r
  show "ar_server_step A (seed_server_step x @ r) = Some (x, r)"
    by (cases x) (simp_all add: chooses_variant [OF server_chooses] server_variants_def field_defs
        byte_seed.get_put flag_seed.get_put bytes_seed.get_put cut_seed.get_put)
qed

context arbitrary_format
begin

lemma action_put:
  assumes "chooses kind (map just kinds)" "index (a_kind a) < length kinds" "length kinds \<le> 2 ^ 32"
    "kinds ! index (a_kind a) = a_kind a" "count = length kinds"
  shows "action_fields kind (ar_byte A) (seed_action index count a @ r) = Some (a, r)"
  using assms chooses_variant [OF assms(1)]
  by (simp add: action_fields_def seed_action_def field_defs byte_seed.get_put)

end

sublocale arbitrary_format < session_seed: seedable seed_session_action "ar_session_action A"
proof
  fix a r
  show "ar_session_action A (seed_session_action a @ r) = Some (a, r)"
    unfolding session_action_fields seed_session_action_def
    by (rule action_put [OF session_kind_chooses]) (cases "a_kind a"; simp add: session_kinds_def)+
qed

sublocale arbitrary_format < connection_seed: seedable seed_connection_action "ar_connection_action A"
proof
  fix a r
  show "ar_connection_action A (seed_connection_action a @ r) = Some (a, r)"
    unfolding connection_action_fields seed_connection_action_def
    by (rule action_put [OF connection_kind_chooses]) (cases "a_kind a"; simp add: connection_kinds_def)+
qed

context arbitrary_format
begin

lemmas seeds_returned =
  scenario_seed.seed_returns [OF scripts_read(1) put_flag_read]
  client_seed.seed_returns [OF scripts_read(2) put_flag_read]
  server_seed.seed_returns [OF scripts_read(3) put_flag_read]
  session_seed.seed_returns [OF scripts_read(4) put_flag_read]
  connection_seed.seed_returns [OF scripts_read(5) put_flag_read]

lemmas seeds_injective =
  scenario_seed.seed_injective [OF scripts_read(1) put_flag_read]
  client_seed.seed_injective [OF scripts_read(2) put_flag_read]
  server_seed.seed_injective [OF scripts_read(3) put_flag_read]
  session_seed.seed_injective [OF scripts_read(4) put_flag_read]
  connection_seed.seed_injective [OF scripts_read(5) put_flag_read]

end


section \<open>A reader of the format\<close>

primrec from_le_bytes :: "nat \<Rightarrow> nat seed_reader" where
  "from_le_bytes 0 bs = Some (0, bs)"
| "from_le_bytes (Suc k) bs = (case bs of
      [] \<Rightarrow> None
    | b # bs \<Rightarrow> map_option (\<lambda>(n, r). (unat b + 256 * n, r)) (from_le_bytes k bs))"

lemma from_to_le_bytes: "from_le_bytes k (to_le_bytes k n @ r) = Some (n mod 256 ^ k, r)"
proof (induction k arbitrary: n)
  case (Suc k)
  have "n mod 256 + 256 * (n div 256 mod 256 ^ k) = n mod (256 * 256 ^ k)" by (simp add: mod_mult2_eq)
  then show ?case by (simp add: Suc unsigned_of_nat take_bit_eq_mod)
qed simp

definition pick :: "'a seed_reader list \<Rightarrow> 'a seed_reader" where
  "pick rs bs = (case from_le_bytes 4 bs of None \<Rightarrow> None | Some (n, r) \<Rightarrow> (rs ! (n * length rs div 2 ^ 32)) r)"

definition get_byte :: "byte seed_reader" where
  "get_byte bs = (case bs of [] \<Rightarrow> None | b # r \<Rightarrow> Some (b, r))"

definition get_flag :: "bool seed_reader" where
  "get_flag bs = (case bs of [] \<Rightarrow> None | b # r \<Rightarrow> Some (odd (unat b), r))"

partial_function (option) get_list :: "'a seed_reader \<Rightarrow> 'a list seed_reader" where
  "get_list g bs = (case get_flag bs of
      None \<Rightarrow> Some ([], bs)
    | Some (goes_on, r) \<Rightarrow>
        if \<not> goes_on then Some ([], r)
        else (case g r of
            None \<Rightarrow> None
          | Some (x, r') \<Rightarrow> Option.bind (get_list g r') (\<lambda>(xs, r''). Some (x # xs, r''))))"

lemma get_list_vector: "vector_of get_flag g (get_list g)"
proof -
  have "get_list g bs = field2 g (get_list g) (#) r" if "get_flag bs = Some (True, r)" for bs r
    using that by (subst get_list.simps)
      (auto simp: field2_def field1_def split: option.splits Option.bind_split)
  then show ?thesis unfolding vector_of_def by (simp add: get_list.simps)
qed

lemma get_list_script: "script_of get_flag g (\<lambda>bs. map_option fst (get_list g bs))"
proof -
  have "map_option fst (get_list g bs) =
      (case g r of None \<Rightarrow> None | Some (x, r') \<Rightarrow> map_option (Cons x) (map_option fst (get_list g r')))"
    if "get_flag bs = Some (True, r)" for bs r
    using that by (subst get_list.simps) (auto split: option.splits Option.bind_split)
  then show ?thesis unfolding script_of_def by (simp add: get_list.simps)
qed

lemma pick_chooses: "chooses (pick rs) rs"
proof -
  have "(256 :: nat) ^ 4 = 2 ^ 32" by simp
  then show ?thesis by (simp add: chooses_def pick_def from_to_le_bytes)
qed

text \<open>The readers of the primitive types first, then those of the types made of them.\<close>

definition primitive_readers :: arbitrary where
  "primitive_readers = \<lparr>ar_byte = get_byte, ar_word = field1 (from_le_bytes 2) word_of_nat, ar_flag = get_flag,
     ar_bytes = get_list get_byte, ar_cut_point = Map.empty, ar_scenario = Map.empty, ar_client_step = Map.empty,
     ar_server_step = Map.empty, ar_session_kind = pick (map just session_kinds),
     ar_connection_kind = pick (map just connection_kinds), ar_session_action = Map.empty, ar_connection_action = Map.empty,
     ar_scenarios = Map.empty, ar_client_script = Map.empty, ar_server_script = Map.empty, ar_session_script = Map.empty,
     ar_connection_script = Map.empty\<rparr>"

definition cut_readers :: arbitrary where
  "cut_readers = primitive_readers\<lparr>ar_cut_point := pick (cut_variants primitive_readers)\<rparr>"

definition step_readers :: arbitrary where
  "step_readers = cut_readers\<lparr>ar_scenario := pick (scenario_variants cut_readers),
     ar_client_step := pick (client_variants cut_readers), ar_server_step := pick (server_variants cut_readers),
     ar_session_action := action_fields (ar_session_kind cut_readers) get_byte,
     ar_connection_action := action_fields (ar_connection_kind cut_readers) get_byte\<rparr>"

definition format_readers :: arbitrary where
  "format_readers = step_readers\<lparr>ar_scenarios := (\<lambda>bs. map_option fst (get_list (ar_scenario step_readers) bs)),
     ar_client_script := (\<lambda>bs. map_option fst (get_list (ar_client_step step_readers) bs)),
     ar_server_script := (\<lambda>bs. map_option fst (get_list (ar_server_step step_readers) bs)),
     ar_session_script := (\<lambda>bs. map_option fst (get_list (ar_session_action step_readers) bs)),
     ar_connection_script := (\<lambda>bs. map_option fst (get_list (ar_connection_action step_readers) bs))\<rparr>"

lemma variant_readers [simp]:
  "cut_variants format_readers = cut_variants primitive_readers"
  "scenario_variants format_readers = scenario_variants cut_readers"
  "client_variants format_readers = client_variants cut_readers"
  "server_variants format_readers = server_variants cut_readers"
  by (simp_all add: cut_variants_def scenario_variants_def client_variants_def server_variants_def format_readers_def
      step_readers_def cut_readers_def)

lemma format_fields [simp]:
  "ar_byte format_readers = get_byte" "ar_flag format_readers = get_flag"
  "ar_word format_readers = field1 (from_le_bytes 2) word_of_nat" "ar_bytes format_readers = get_list get_byte"
  "ar_cut_point format_readers = pick (cut_variants primitive_readers)"
  "ar_scenario format_readers = pick (scenario_variants cut_readers)"
  "ar_client_step format_readers = pick (client_variants cut_readers)"
  "ar_server_step format_readers = pick (server_variants cut_readers)"
  "ar_session_kind format_readers = pick (map just session_kinds)"
  "ar_connection_kind format_readers = pick (map just connection_kinds)"
  "ar_session_action format_readers = action_fields (pick (map just session_kinds)) get_byte"
  "ar_connection_action format_readers = action_fields (pick (map just connection_kinds)) get_byte"
  by (simp_all add: format_readers_def step_readers_def cut_readers_def primitive_readers_def)

lemma format_scripts [simp]:
  "ar_scenarios format_readers = (\<lambda>bs. map_option fst (get_list (ar_scenario format_readers) bs))"
  "ar_client_script format_readers = (\<lambda>bs. map_option fst (get_list (ar_client_step format_readers) bs))"
  "ar_server_script format_readers = (\<lambda>bs. map_option fst (get_list (ar_server_step format_readers) bs))"
  "ar_session_script format_readers = (\<lambda>bs. map_option fst (get_list (ar_session_action format_readers) bs))"
  "ar_connection_script format_readers = (\<lambda>bs. map_option fst (get_list (ar_connection_action format_readers) bs))"
  by (simp_all add: format_readers_def)

interpretation format: arbitrary_format format_readers
  by unfold_locales
    (simp_all add: get_byte_def get_flag_def get_list_vector get_list_script pick_chooses field1_def from_to_le_bytes)


section \<open>Property\<close>

text \<open>C37: writing a seed never panics: whatever decoders of the documented format \<^verbatim>\<open>arbitrary\<close> derives, they read the scripts of
  every target back unchanged, so that the check of the round trip passes, and two different scripts never have the same seed.\<close>

theorem seeds_read_back:
  assumes "arbitrary_format A"
  shows "seed seed_scenario (ar_scenarios A) scs = Some (seed_steps seed_scenario scs) \<and>
   seed seed_client_step (ar_client_script A) cls = Some (seed_steps seed_client_step cls) \<and>
   seed seed_server_step (ar_server_script A) svs = Some (seed_steps seed_server_step svs) \<and>
   seed seed_session_action (ar_session_script A) sas = Some (seed_steps seed_session_action sas) \<and>
   seed seed_connection_action (ar_connection_script A) cas = Some (seed_steps seed_connection_action cas) \<and>
   inj (seed_steps seed_scenario) \<and> inj (seed_steps seed_client_step) \<and> inj (seed_steps seed_server_step) \<and>
   inj (seed_steps seed_session_action) \<and> inj (seed_steps seed_connection_action)"
  by (intro conjI arbitrary_format.seeds_returned [OF assms] arbitrary_format.seeds_injective [OF assms])

theorem seeds_read_back_witness:
  "seed seed_client_step (ar_client_script format_readers) [ClJunk [7], ClCut (CutMiddle 3) True] =
     Some (seed_steps seed_client_step [ClJunk [7], ClCut (CutMiddle 3) True])"
  using seeds_read_back [OF format.arbitrary_format_axioms] by blast

end
