(* ===== verification/Mock_Vectors.thy ===== *)
theory Mock_Vectors
  imports Wire_Prelude
begin

text \<open>
  Transcripts of scenario runs, \<^verbatim>\<open>src/src/transport/mock/vector.rs\<close>: the events of a run and their JSON form, which the test vectors for
  other client implementations are made of. The base64 encoding and the quoting of JSON strings are arguments \<open>b64\<close> and \<open>quote\<close>. Naming
  a scenario after its thread and writing the file are left out.
\<close>


section \<open>Events\<close>

datatype read_error = EvEof | EvFailed | EvInterrupted | EvTimedOut

datatype vector_event =
    EvHandshake bytes bytes
  | EvSend bytes
  | EvRetain
  | EvSendRetained bytes
  | EvRecv
  | EvOk "bytes option"
  | EvErr string
  | EvSession bool
  | EvRead bytes nat
  | EvReadFailed read_error
  | EvWrite bytes bool
  | EvFlushFailed
  | EvWriteTimedOut bytes
  | EvFlushTimedOut

fun read_error_name :: "read_error \<Rightarrow> string" where
  "read_error_name EvEof = ''eof''"
| "read_error_name EvFailed = ''failed''"
| "read_error_name EvInterrupted = ''interrupted''"
| "read_error_name EvTimedOut = ''timed_out''"

text \<open>An unknown name panics.\<close>

definition read_error_parse :: "string \<Rightarrow> read_error option" where
  "read_error_parse s =
     (if s = ''eof'' then Some EvEof
      else if s = ''failed'' then Some EvFailed
      else if s = ''interrupted'' then Some EvInterrupted
      else if s = ''timed_out'' then Some EvTimedOut
      else None)"

record vector =
  v_scenario :: string
  v_script :: "string list"
  v_write_failures :: bool
  v_identity :: bytes
  v_attestation :: bytes
  v_server_keys :: "bytes list"
  v_trace :: "vector_event list"

definition vector_open :: "('s \<Rightarrow> string) \<Rightarrow> string option \<Rightarrow> 's list \<Rightarrow> bool \<Rightarrow> bytes \<Rightarrow> bytes \<Rightarrow> vector option" where
  "vector_open debug scenario steps write_failures identity attestation =
     map_option (\<lambda>name. \<lparr>v_scenario = name, v_script = map debug steps, v_write_failures = write_failures, v_identity = identity,
       v_attestation = attestation, v_server_keys = [], v_trace = []\<rparr>) scenario"

definition vector_server_key :: "bytes \<Rightarrow> vector \<Rightarrow> vector" where
  "vector_server_key xhpke v = v\<lparr>v_server_keys := v_server_keys v @ [xhpke]\<rparr>"

definition vector_log :: "vector_event \<Rightarrow> vector \<Rightarrow> vector" where
  "vector_log ev v = v\<lparr>v_trace := v_trace v @ [ev]\<rparr>"


section \<open>JSON\<close>

fun show_nat :: "nat \<Rightarrow> string" where
  "show_nat n = (if n < 10 then [char_of (48 + n)] else show_nat (n div 10) @ [char_of (48 + n mod 10)])"

definition show_bool :: "bool \<Rightarrow> string" where
  "show_bool b = (if b then ''true'' else ''false'')"

fun join_with :: "string \<Rightarrow> string list \<Rightarrow> string" where
  "join_with sep [] = []"
| "join_with sep [x] = x"
| "join_with sep (x # y # zs) = x @ sep @ join_with sep (y # zs)"

text \<open>The runs of repeated bytes, collected from the left with the last run being extended.\<close>

definition push_run :: "(byte \<times> nat) list \<Rightarrow> byte \<Rightarrow> (byte \<times> nat) list" where
  "push_run runs b = (case rev runs of
      (l, n) # rs \<Rightarrow> if l = b then rev rs @ [(l, n + 1)] else runs @ [(b, 1)]
    | [] \<Rightarrow> [(b, 1)])"

definition runs_of :: "bytes \<Rightarrow> (byte \<times> nat) list" where
  "runs_of bs = foldl push_run [] bs"

definition payload_json :: "(bytes \<Rightarrow> string) \<Rightarrow> bytes \<Rightarrow> string" where
  "payload_json b64 bs =
     (let runs = runs_of bs
      in if length runs * 8 < length bs
         then ''\"runs\": ['' @ join_with '', '' (map (\<lambda>(b, n). ''['' @ show_nat (unat b) @ '', '' @ show_nat n @ '']'') runs) @ '']''
         else ''\"bytes\": \"'' @ b64 bs @ ''\"'')"

text \<open>\<open>limit\<close> is the transport's limit on messages.\<close>

fun event_fields :: "(bytes \<Rightarrow> string) \<Rightarrow> nat \<Rightarrow> vector_event \<Rightarrow> string" where
  "event_fields b64 limit (EvHandshake xdsa xhpke) =
     ''\"event\": \"handshake\", \"xdsa\": \"'' @ b64 xdsa @ ''\", \"xhpke\": \"'' @ b64 xhpke @ ''\"''"
| "event_fields b64 limit (EvSend m) =
     (if length m > limit then ''\"event\": \"send\", '' @ payload_json b64 m
      else ''\"event\": \"send\", \"message\": \"'' @ b64 m @ ''\"'')"
| "event_fields b64 limit EvRetain = ''\"event\": \"retain\"''"
| "event_fields b64 limit (EvSendRetained m) = ''\"event\": \"send_retained\", \"message\": \"'' @ b64 m @ ''\"''"
| "event_fields b64 limit EvRecv = ''\"event\": \"recv\"''"
| "event_fields b64 limit (EvOk None) = ''\"event\": \"ok\"''"
| "event_fields b64 limit (EvOk (Some m)) = ''\"event\": \"ok\", \"message\": \"'' @ b64 m @ ''\"''"
| "event_fields b64 limit (EvErr kind) = ''\"event\": \"error\", \"kind\": \"'' @ kind @ ''\"''"
| "event_fields b64 limit (EvSession established) = ''\"event\": \"session\", \"established\": '' @ show_bool established"
| "event_fields b64 limit (EvRead bs chunk) =
     (if chunk = 0 then ''\"event\": \"read\", '' @ payload_json b64 bs
      else ''\"event\": \"read\", '' @ payload_json b64 bs @ '', \"chunk\": '' @ show_nat chunk)"
| "event_fields b64 limit (EvReadFailed err) = ''\"event\": \"read\", \"error\": \"'' @ read_error_name err @ ''\"''"
| "event_fields b64 limit (EvWrite bs failed) =
     (if failed then ''\"event\": \"write\", '' @ payload_json b64 bs @ '', \"failed\": true''
      else ''\"event\": \"write\", '' @ payload_json b64 bs)"
| "event_fields b64 limit EvFlushFailed = ''\"event\": \"flush_failed\"''"
| "event_fields b64 limit (EvWriteTimedOut bs) = ''\"event\": \"write_timed_out\", '' @ payload_json b64 bs"
| "event_fields b64 limit EvFlushTimedOut = ''\"event\": \"flush_timed_out\"''"

definition event_json :: "(bytes \<Rightarrow> string) \<Rightarrow> nat \<Rightarrow> vector_event \<Rightarrow> string" where
  "event_json b64 limit ev = ''{'' @ event_fields b64 limit ev @ ''}''"

fun listed :: "string list \<Rightarrow> string list" where
  "listed [] = []"
| "listed [x] = [x]"
| "listed (x # y # zs) = (x @ '','') # listed (y # zs)"

definition vector_json :: "(bytes \<Rightarrow> string) \<Rightarrow> (string \<Rightarrow> string) \<Rightarrow> nat \<Rightarrow> vector \<Rightarrow> string" where
  "vector_json b64 quote limit v = join_with [CHR 0x0A]
     ([''{'',
       ''  \"scenario\": '' @ quote (v_scenario v) @ '','',
       ''  \"script\": ['' @ join_with '', '' (map quote (v_script v)) @ ''],'',
       ''  \"write_failures\": '' @ show_bool (v_write_failures v) @ '','',
       ''  \"server\": {'',
       ''    \"identity\": \"'' @ b64 (v_identity v) @ ''\",'',
       ''    \"attestation\": \"'' @ b64 (v_attestation v) @ ''\",'',
       ''    \"xhpke\": [''] @
      listed (map (\<lambda>key. ''      \"'' @ b64 key @ ''\"'') (v_server_keys v)) @
      [''    ]'', ''  },'', ''  \"trace\": [''] @
      listed (map (\<lambda>ev. ''    '' @ event_json b64 limit ev) (v_trace v)) @
      [''  ]'', ''}'', ''''])"


section \<open>What a transcript keeps\<close>

lemma read_error_roundtrip: "read_error_parse (read_error_name e) = Some e"
  by (cases e) (simp_all add: read_error_parse_def)

definition expand_runs :: "(byte \<times> nat) list \<Rightarrow> bytes" where
  "expand_runs runs = concat (map (\<lambda>(b, n). replicate n b) runs)"

lemma expand_push_run: "expand_runs (push_run runs b) = expand_runs runs @ [b]"
proof (cases runs rule: rev_cases)
  case (snoc rs r)
  then show ?thesis
    by (cases r) (auto simp: push_run_def expand_runs_def replicate_append_same)
qed (simp add: push_run_def expand_runs_def)

text \<open>The compact form loses nothing, and it is used only where it is shorter than one run per eight bytes.\<close>

lemma runs_expand: "expand_runs (runs_of bs) = bs"
proof -
  have "expand_runs (foldl push_run rs bs) = expand_runs rs @ bs" for rs
    by (induction bs arbitrary: rs) (simp_all add: expand_push_run)
  from this [of "[]"] show ?thesis by (simp add: runs_of_def expand_runs_def)
qed

lemma runs_shortest: "(\<forall>(b, n) \<in> set (runs_of bs). 0 < n) \<and> (\<forall>i. Suc i < length (runs_of bs) \<longrightarrow> fst (runs_of bs ! i) \<noteq> fst (runs_of bs ! Suc i))"
proof -
  let ?ok = "\<lambda>rs :: (byte \<times> nat) list. (\<forall>(b, n) \<in> set rs. 0 < n) \<and> successively (\<lambda>x y. fst x \<noteq> fst y) rs"
  have push: "?ok (push_run rs b)" if "?ok rs" for rs b
    using that by (cases rs rule: rev_cases) (auto simp: push_run_def successively_append_iff split: prod.splits)
  have "?ok (foldl push_run rs bs)" if "?ok rs" for rs
    using that
  proof (induction bs arbitrary: rs)
    case (Cons b bs)
    show ?case using Cons.IH [OF push [OF Cons.prems]] by simp
  qed simp
  from this [of "[]"] have ok: "?ok (runs_of bs)" by (simp add: runs_of_def)
  then show ?thesis by (auto simp: successively_conv_nth)
qed

lemma listed_length [simp]: "length (listed xs) = length xs"
  by (induction xs rule: listed.induct) simp_all

end
