(* ===== verification/Mock_Outbox.thy ===== *)
theory Mock_Outbox
  imports Mock_Seeds Mock_Vectors Frame_Writer
begin

text \<open>
  The scripted output adapter of the scenario tests, \<^verbatim>\<open>src/src/transport/mock/mod.rs\<close>: it captures what the peer under test writes,
  and injects failures at chosen points of a frame. The locks around its state are left out, since it has no other critical
  sections, and so are the certificates that the same file makes.
\<close>


section \<open>Frames\<close>

definition payload :: "64 word \<Rightarrow> bytes" where
  "payload tag = rev (to_le_bytes 8 (unat tag))"

definition frame :: "cobs \<Rightarrow> bytes \<Rightarrow> bytes option" where
  "frame c packet = map_option (\<lambda>f. f @ [0]) (cobs_encode c packet (cobs_encode_buffer c (length packet)))"

definition unframe :: "cobs \<Rightarrow> bytes \<Rightarrow> bytes option" where
  "unframe c f = (case cobs_decode c f of Err _ \<Rightarrow> None | Ok packet \<Rightarrow> Some packet)"

lemma frame_unframe:
  assumes "cobs_codec c"
  shows "\<exists>f. frame c packet = Some (f @ [0]) \<and> 0 \<notin> set f \<and> unframe c f = Some packet"
proof -
  obtain f where "cobs_encode c packet (cobs_encode_buffer c (length packet)) = Some f"
    using cobs_codec.encode_fits [OF assms] by blast
  with cobs_codec.encode_frame [OF assms] cobs_codec.decode_encode [OF assms] show ?thesis by (auto simp: frame_def unframe_def)
qed


section \<open>The adapter\<close>

record outbox =
  o_bytes :: bytes
  o_broken :: bool
  o_cut :: "cut_point option"
  o_timeout :: bool
  o_write_error :: "io_kind option"
  o_flush_error :: "io_kind option"
  o_recorder :: "vector option"

definition outbox_new :: outbox where
  "outbox_new = \<lparr>o_bytes = [], o_broken = False, o_cut = None, o_timeout = False, o_write_error = None, o_flush_error = None, o_recorder = None\<rparr>"

definition trace :: "vector_event \<Rightarrow> outbox \<Rightarrow> outbox" where
  "trace ev s = s\<lparr>o_recorder := map_option (vector_log ev) (o_recorder s)\<rparr>"

text \<open>\<^verbatim>\<open>slice::split\<close> on zero bytes, which yields at least one piece.\<close>

fun split_zero :: "bytes \<Rightarrow> bytes list" where
  "split_zero [] = [[]]"
| "split_zero (b # bs) = (if b = 0 then [] # split_zero bs else (b # hd (split_zero bs)) # tl (split_zero bs))"

definition take_frames :: "outbox \<Rightarrow> bytes list \<times> outbox" where
  "take_frames s = (let pieces = split_zero (o_bytes s) in (butlast pieces, s\<lparr>o_bytes := last pieces\<rparr>))"

definition has_tail :: "outbox \<Rightarrow> bool" where
  "has_tail s \<longleftrightarrow> o_bytes s \<noteq> []"

definition set_broken :: "bool \<Rightarrow> outbox \<Rightarrow> outbox" where
  "set_broken broken s = s\<lparr>o_broken := broken\<rparr>"

definition set_cut :: "cut_point \<Rightarrow> outbox \<Rightarrow> outbox" where
  "set_cut point s = s\<lparr>o_cut := Some point, o_timeout := False\<rparr>"

definition set_timeout :: "cut_point \<Rightarrow> outbox \<Rightarrow> outbox" where
  "set_timeout point s = s\<lparr>o_cut := Some point, o_timeout := True\<rparr>"

fun cut_at :: "cut_point \<Rightarrow> nat \<Rightarrow> nat option" where
  "cut_at CutStart len = Some 0"
| "cut_at (CutMiddle n) len = (if len > 2 then Some (1 + min (unat n) (len - 3)) else None)"
| "cut_at CutDelimiter len = (if len > 1 then Some (len - 1) else None)"
| "cut_at CutFlush len = (if len > 1 then Some len else None)"

definition accept_write :: "bytes \<Rightarrow> outbox \<Rightarrow> (nat \<times> io_kind option) \<times> outbox" where
  "accept_write buf s =
     (let uncut = (if o_broken s then ((0, Some BrokenPipe), s) else ((length buf, None), s))
      in case o_cut s of
           None \<Rightarrow> uncut
         | Some point \<Rightarrow> (case cut_at point (length buf) of
               None \<Rightarrow> uncut
             | Some accepted \<Rightarrow>
                 let error = (if o_timeout s then TimedOut else BrokenPipe);
                     s1 = s\<lparr>o_cut := None, o_timeout := False\<rparr>
                 in if point = CutFlush then ((accepted, None), s1\<lparr>o_flush_error := Some error\<rparr>)
                    else ((accepted, Some error), s1)))"

definition set_write_deadline :: "outbox \<Rightarrow> outbox" where
  "set_write_deadline s = s\<lparr>o_write_error := None, o_flush_error := None\<rparr>"

definition outbox_write :: "bytes \<Rightarrow> outbox \<Rightarrow> (io_kind, nat) result \<times> outbox" where
  "outbox_write buf s = (case o_write_error s of
      Some error \<Rightarrow> (Err error, s\<lparr>o_write_error := None\<rparr>)
    | None \<Rightarrow>
        let ((accepted, error), s1) = accept_write buf s;
            s2 = trace (if error = Some TimedOut then EvWriteTimedOut (take accepted buf) else EvWrite (take accepted buf) (error \<noteq> None))
              (s1\<lparr>o_bytes := o_bytes s1 @ take accepted buf\<rparr>)
        in case error of
             None \<Rightarrow> (Ok accepted, s2)
           | Some error \<Rightarrow> if accepted > 0 then (Ok accepted, s2\<lparr>o_write_error := Some error\<rparr>) else (Err error, s2))"

definition outbox_flush :: "outbox \<Rightarrow> (io_kind, unit) result \<times> outbox" where
  "outbox_flush s = (case o_write_error s of
      Some error \<Rightarrow> (Err error, s\<lparr>o_write_error := None\<rparr>)
    | None \<Rightarrow> (case o_flush_error s of
          None \<Rightarrow> (Ok (), s)
        | Some error \<Rightarrow> (Err error, trace (if error = TimedOut then EvFlushTimedOut else EvFlushFailed) (s\<lparr>o_flush_error := None\<rparr>))))"


section \<open>What the adapter guarantees\<close>

lemma accept_write_bound:
  assumes "accept_write buf s = ((accepted, error), s')"
  shows "accepted \<le> length buf" "error = None \<Longrightarrow> accepted = length buf" "o_bytes s' = o_bytes s" "o_recorder s' = o_recorder s"
    "o_write_error s' = o_write_error s"
proof -
  have cut: "n \<le> len" if "cut_at p len = Some n" for p len n
    using that by (cases p) (auto split: if_splits)
  from assms show "o_bytes s' = o_bytes s" "o_recorder s' = o_recorder s" "o_write_error s' = o_write_error s"
    by (auto simp: accept_write_def Let_def split: option.splits if_splits)
  from assms show "accepted \<le> length buf" using cut by (auto simp: accept_write_def Let_def split: option.splits if_splits)
  from assms show "error = None \<Longrightarrow> accepted = length buf"
    by (auto simp: accept_write_def Let_def split: option.splits if_splits elim!: cut_at.elims)
qed

text \<open>The contract of a write: a failed one accepts nothing, and a successful one accepts and records a prefix; when it is not
  all of it, the next write and the next flush fail and accept nothing, unless a new frame begins before.\<close>

lemma outbox_write_contract:
  assumes "outbox_write buf s = (r, s')"
  shows "case r of
      Err _ \<Rightarrow> o_bytes s' = o_bytes s
    | Ok n \<Rightarrow> n \<le> length buf \<and> o_bytes s' = o_bytes s @ take n buf \<and> (n < length buf \<longrightarrow>
        (\<exists>k. o_write_error s' = Some k \<and> (\<forall>b. outbox_write b s' = (Err k, s'\<lparr>o_write_error := None\<rparr>)) \<and>
           outbox_flush s' = (Err k, s'\<lparr>o_write_error := None\<rparr>)))"
proof (cases "o_write_error s")
  case (Some k)
  with assms show ?thesis by (auto simp: outbox_write_def)
next
  case None
  obtain n error s1 where acc: "accept_write buf s = ((n, error), s1)" by (metis surj_pair)
  note bound = accept_write_bound [OF acc]
  from assms None acc bound show ?thesis
    by (cases error) (auto simp: outbox_write_def outbox_flush_def trace_def Let_def split: if_splits)
qed

text \<open>Splitting and joining at the zero bytes.\<close>

definition join_frames :: "bytes list \<Rightarrow> bytes" where
  "join_frames fs = concat (map (\<lambda>f. f @ [0]) fs)"

lemma split_zero_nonempty [simp]: "split_zero bs \<noteq> []"
  by (cases bs) simp_all

lemma split_zero_join: "join_frames (butlast (split_zero bs)) @ last (split_zero bs) = bs"
proof (induction bs)
  case (Cons b bs)
  obtain p ps where "split_zero bs = p # ps" using split_zero_nonempty by (metis neq_Nil_conv)
  with Cons show ?case by (cases "b = 0") (auto simp: join_frames_def)
qed (simp add: join_frames_def)

lemma split_zero_pieces: "f \<in> set (split_zero bs) \<Longrightarrow> 0 \<notin> set f"
proof (induction bs arbitrary: f)
  case (Cons b bs)
  obtain p ps where "split_zero bs = p # ps" using split_zero_nonempty by (metis neq_Nil_conv)
  with Cons show ?case by (auto split: if_splits)
qed simp

text \<open>Any sequence of calls, with the frames that the mock took.\<close>

datatype outbox_op = DoWrite bytes | DoFlush | DoDeadline | DoBroken bool | DoCut cut_point | DoTimeout cut_point | DoTake

fun outbox_call :: "outbox_op \<Rightarrow> bytes list \<times> outbox \<Rightarrow> bytes list \<times> outbox" where
  "outbox_call (DoWrite buf) (fs, s) = (fs, snd (outbox_write buf s))"
| "outbox_call DoFlush (fs, s) = (fs, snd (outbox_flush s))"
| "outbox_call DoDeadline (fs, s) = (fs, set_write_deadline s)"
| "outbox_call (DoBroken b) (fs, s) = (fs, set_broken b s)"
| "outbox_call (DoCut p) (fs, s) = (fs, set_cut p s)"
| "outbox_call (DoTimeout p) (fs, s) = (fs, set_timeout p s)"
| "outbox_call DoTake (fs, s) = (let (gs, s') = take_frames s in (fs @ gs, s'))"

fun written_bytes :: "vector_event \<Rightarrow> bytes" where
  "written_bytes (EvWrite bs failed) = bs"
| "written_bytes (EvWriteTimedOut bs) = bs"
| "written_bytes _ = []"

definition transcript_inv :: "bytes list \<times> outbox \<Rightarrow> bool" where
  "transcript_inv = (\<lambda>(fs, s). (\<forall>f \<in> set fs. 0 \<notin> set f) \<and>
     (\<forall>v. o_recorder s = Some v \<longrightarrow> join_frames fs @ o_bytes s = concat (map written_bytes (v_trace v))))"

definition recorded :: "bytes \<Rightarrow> outbox \<Rightarrow> outbox \<Rightarrow> bool" where
  "recorded bs s s' \<longleftrightarrow> o_bytes s' = o_bytes s @ bs \<and> (\<forall>v'. o_recorder s' = Some v' \<longrightarrow> (\<exists>v. o_recorder s = Some v \<and>
     concat (map written_bytes (v_trace v')) = concat (map written_bytes (v_trace v)) @ bs))"

lemma recorded_inv: "recorded bs s s' \<Longrightarrow> transcript_inv (fs, s) \<Longrightarrow> transcript_inv (fs, s')"
  by (fastforce simp: recorded_def transcript_inv_def)

lemma recorded_write: "\<exists>bs. recorded bs s (snd (outbox_write buf s))"
proof (cases "o_write_error s")
  case (Some k)
  then show ?thesis by (intro exI [of _ "[]"]) (simp add: outbox_write_def recorded_def)
next
  case None
  obtain n error s1 where acc: "accept_write buf s = ((n, error), s1)" by (metis surj_pair)
  note bound = accept_write_bound [OF acc]
  show ?thesis
    by (rule exI [of _ "take n buf"], cases error)
      (use None acc bound in \<open>auto simp: outbox_write_def trace_def recorded_def vector_log_def Let_def\<close>)
qed

lemma recorded_flush: "recorded [] s (snd (outbox_flush s))"
  by (auto simp: outbox_flush_def recorded_def trace_def vector_log_def split: option.splits)

lemma transcript_step: "transcript_inv x \<Longrightarrow> transcript_inv (outbox_call a x)"
proof (cases x)
  case (Pair fs s)
  assume inv: "transcript_inv x"
  show ?thesis
  proof (cases a)
    case (DoWrite buf)
    then show ?thesis using recorded_inv inv recorded_write [of s buf] Pair by fastforce
  next
    case DoFlush
    then show ?thesis using recorded_inv [OF recorded_flush] inv Pair by simp
  next
    case DoTake
    with inv Pair split_zero_join [of "o_bytes s"] split_zero_pieces show ?thesis
      by (auto simp: transcript_inv_def take_frames_def Let_def join_frames_def dest: in_set_butlastD)
  qed (use inv Pair in \<open>auto simp: transcript_inv_def set_write_deadline_def set_broken_def set_cut_def set_timeout_def\<close>)
qed

text \<open>Whatever the script does, the bytes in the recorded writes are exactly those that the mock has read as frames or still holds,
  and no frame it took contains a delimiter.\<close>

lemma transcript_complete:
  assumes "fold outbox_call ops ([], outbox_new\<lparr>o_recorder := Some v\<rparr>) = (fs, s)" "v_trace v = []" "o_recorder s = Some w"
  shows "concat (map written_bytes (v_trace w)) = join_frames fs @ o_bytes s \<and> (\<forall>f \<in> set fs. 0 \<notin> set f)"
proof -
  have "transcript_inv (fold outbox_call ops x)" if "transcript_inv x" for x
    using that by (induction ops arbitrary: x) (simp_all add: transcript_step)
  moreover have "transcript_inv ([], outbox_new\<lparr>o_recorder := Some v\<rparr>)" using assms(2) by (simp add: transcript_inv_def outbox_new_def join_frames_def)
  ultimately show ?thesis using assms(1,3) unfolding transcript_inv_def by fastforce
qed

end
