(* ===== verification/Spec2Isabelle.thy ===== *)
theory Spec2Isabelle
  imports Wire_Prelude Transport_Base Frame_Reader Frame_Writer Cobs_Reference Frame_Link Stream_Shutdown Memory_Pipe Outbound_Sessions Send_Order
    Transport_Endpoint Transport_Demo Transport_Client Transport_Server Secure_Channel
    Protocol_Base Schema_Enums Message_Bodies Schema_Names Envelope_Routing Protobuf_Reference Schema_Structs Schema_Codec Schema_Generator Envelope_Fuzz
    Promise_Delivery Session_State Session_Invariant Session_Operations Session_Exchange Session_Writer Session_Machine
    Session_Properties Session_Queue Session_Calls Session_Callbacks Session_Pair Session_Transport Session_Server Worker_Threads
    Session_Connect Session_Demo Session_Channel
    Mock_Seeds Mock_Vectors Mock_Outbox
begin

text \<open>
  \<^bold>\<open>wire-rs\<close>: the encrypted protocol between a host and an Ark, as a crate of two layers.

  The \<^emph>\<open>transport\<close> (\<^verbatim>\<open>src/src/transport\<close>) cuts a byte stream into COBS frames, runs an attested
  handshake, and seals messages in a session that either side may end or replace. The \<^emph>\<open>protocol\<close>
  (\<^verbatim>\<open>src/src/protocol\<close>) sends protobuf envelopes through such a session: requests and answers that are
  matched by identifiers, promises with deadlines, limits on what a peer may make us hold, and the
  owner of a server stream. \<^verbatim>\<open>src/src/memory\<close> is an in-memory duplex stream to run both over.

  \<^bold>\<open>How the code is modelled.\<close> Functions become functions, structures records, errors values of a sum.
  What may panic, or would block for ever on its own, is \<open>None\<close>, and theorems that an operation returns say
  so. A method that threads share is one definition per critical section, and the threads interleave
  these sections in an \<open>inductive\<close> step relation; the invariants of the relations are proved once per
  step, through the locale \<open>transition_system\<close> of \<open>Wire_Prelude\<close>. Time is a clock whose readings are
  arbitrary and do not decrease. Adapters (\<^verbatim>\<open>Read\<close>, \<^verbatim>\<open>Write\<close>) are scripts of results in an environment. Four crates
  are parameters: the COBS codec, the cryptography with its certificates, prost with the code it derives, and the decoders that
  \<^verbatim>\<open>arbitrary\<close> derives for the fuzzers. What is relied on of them is stated by the locales \<open>cobs_codec\<close>, \<open>hpke_channel\<close>,
  \<open>prost_codec\<close>, \<open>prost_views\<close>, \<open>derived_codec\<close> and \<open>arbitrary_format\<close>. \<open>Cobs_Reference\<close>, \<open>Protobuf_Reference\<close>, \<open>Schema_Codec\<close> and
  \<open>Mock_Seeds\<close> interpret them with executable implementations, \<open>Secure_Channel\<close> the encryption with a counting one.

  \<^bold>\<open>Transport.\<close>
  \<^item> \<open>Transport_Base\<close>: errors, sizes (\<^verbatim>\<open>mod.rs\<close>), deadlines (\<^verbatim>\<open>io.rs\<close>), the adapters and the read and write
    halves of a stream (\<^verbatim>\<open>stream.rs\<close>).
  \<^item> \<open>Frame_Reader\<close>, \<open>Frame_Writer\<close>, \<open>Frame_Link\<close>: \<^verbatim>\<open>framing.rs\<close>. The buffer of the reader, with its four
    indices, refines the sequence of frames of the input for any chunking and any failures; the writer
    recovers from a write that failed inside a frame; together they transmit packets unchanged.
  \<^item> \<open>Stream_Shutdown\<close>: the coordinator of \<^verbatim>\<open>stream.rs\<close>, as a machine of closers and adapter calls: nothing runs
    in an adapter once a close returned, the callback runs once, and closing terminates.
  \<^item> \<open>Memory_Pipe\<close>: \<^verbatim>\<open>memory/mod.rs\<close>, bytes in order within the capacity, and no lost wake-up although a change and its
    notification are separate steps.
  \<^item> \<open>Outbound_Sessions\<close>, \<open>Send_Order\<close>: \<^verbatim>\<open>outbound.rs\<close>, \<^verbatim>\<open>sender.rs\<close>, \<^verbatim>\<open>sealing.rs\<close>: which sends reach the wire, what ends a
    session, and that the wire order of a session is its sealing order in every interleaving of senders.
  \<^item> \<open>Transport_Endpoint\<close>, \<open>Transport_Client\<close>, \<open>Transport_Server\<close>, \<open>Transport_Demo\<close>: \<^verbatim>\<open>handshake.rs\<close>, \<^verbatim>\<open>client.rs\<close>, \<^verbatim>\<open>server.rs\<close>: a
    session begins only after its authentication with the keys of that very attempt, messages arrive only inside a session, and ends are
    reported once; with a concrete provider for the witnesses.
  \<^item> \<open>Secure_Channel\<close>: sender and receivers together: within a session, what one end sends the other end returns,
    unchanged and in order.

  \<^bold>\<open>Protocol.\<close>
  \<^item> \<open>Protocol_Base\<close>, \<open>Message_Bodies\<close>, \<open>Schema_Names\<close>, \<open>Envelope_Routing\<close>: \<^verbatim>\<open>error.rs\<close>, \<^verbatim>\<open>message.rs\<close> with its generated tables, \<^verbatim>\<open>envelope.rs\<close>.
    Headers are read without a body and equal a loop-free specification; envelopes round-trip under their names.
  \<^item> \<open>Schema_Structs\<close>, \<open>Schema_Enums\<close>, \<open>Schema_Codec\<close>: \<^verbatim>\<open>generated/darkbio.wire.rs\<close>, the structures as tables of fields. The generated tables
    agree and have what a derived codec needs to read every value back, so every message arrives.
  \<^item> \<open>Schema_Generator\<close>: \<^verbatim>\<open>generator/src/main.rs\<close> on the envelopes of \<^verbatim>\<open>proto/wire.proto\<close>: its assertions hold, and its tables are the
    checked-in ones that the other theories use.
  \<^item> \<open>Envelope_Fuzz\<close>: the oracle of the envelope fuzzer, \<^verbatim>\<open>mock/envelope.rs\<close>, passes on every input; the envelopes with a broken body
    that it provides pass the reader of headers and fail later.
  \<^item> \<open>Promise_Delivery\<close>: \<^verbatim>\<open>promise.rs\<close>, \<^verbatim>\<open>operation.rs\<close>. Promises are entries of a list, and the index is promise, channel
    and operation key at once.
  \<^item> \<open>Session_State\<close>: \<^verbatim>\<open>session.rs\<close>, \<^verbatim>\<open>responder.rs\<close>, \<^verbatim>\<open>requester.rs\<close>. \<open>Session_Invariant\<close>, \<open>Session_Operations\<close>, \<open>Session_Exchange\<close>
    and \<open>Session_Writer\<close> prove for each operation that it returns, keeps the invariant and keeps history (\<open>ok\<close>),
    with what it does to its arguments. \<open>Session_Machine\<close> puts them into one step relation and
    \<open>Session_Properties\<close> reads the guarantees off it: accounting, ownership of requests, promises that are
    neither lost nor settled twice nor outlive their deadline, routing, closing, writing. \<open>Session_Calls\<close> follows a request
    that waits for its answer through every step, \<open>Session_Callbacks\<close> the callbacks: each runs once, and in time.
  \<^item> \<open>Session_Queue\<close>: every step, seen on the incoming requests, is a step of a first-in first-out queue.
  \<^item> \<open>Session_Pair\<close>: two sessions and the bytes between them: requests and answers are accepted by the other side.
  \<^item> \<open>Session_Transport\<close>: the writer thread with the transport under it, in one step relation with everything else that happens to the
    session and to the wire: frames in order, identifiers increasing, an orderly end, answers that arrive.
  \<^item> \<open>Session_Channel\<close>: both layers on both sides: the bytes the writer thread wrote for a request come out of the server's
    transport and of its session as that request.
  \<^item> \<open>Session_Connect\<close>, \<open>Worker_Threads\<close>: \<^verbatim>\<open>connect\<close> and \<^verbatim>\<open>Session::start\<close>, \<^verbatim>\<open>worker.rs\<close>: a session starts connected or not at all, with its workers counted.
  \<^item> \<open>Session_Server\<close>: \<^verbatim>\<open>server.rs\<close>, \<^verbatim>\<open>closer.rs\<close> and the readers: one session at a time, the newest accepted, closing complete.
  \<^item> \<open>Session_Demo\<close>: a client and a server session over the reference codec, for the witnesses.

  \<^bold>\<open>Test support.\<close>
  \<^item> \<open>Mock_Seeds\<close>: \<^verbatim>\<open>mock/seed.rs\<close> of both layers: the decoders of the fuzz targets read every script back from its seed.
  \<^item> \<open>Mock_Vectors\<close>, \<open>Mock_Outbox\<close>: \<^verbatim>\<open>mock/vector.rs\<close>, \<^verbatim>\<open>mock/mod.rs\<close>: transcripts and the scripted output adapter that records them: its writes keep
    the contract of a writer, and a transcript has every byte that was captured.

  \<^bold>\<open>Bounds.\<close> Loops over adapters run on scripts, whose length bounds them; the loops of the framing and of
  the header scan are \<open>partial_function\<close>s or recursion on a length and are proved to return. Identifiers are
  64-bit words, and a session that used them all up panics in its writer, as the code says; every
  theorem about the writer that needs one names it. Byte counters are numbers below \<open>2 ^ 64\<close> by the checked
  addition that guards them.

  The nesting of structures is bounded by the recursion limit of prost, far above what the schema has.

  \<^bold>\<open>Not modelled.\<close> Reference counts beyond what is said in \<open>Session_Server\<close>, the order in which a hash map is iterated, log lines and Debug
  output, the files and the layout of the text
  that the generator writes, and the drivers of the simulators and fuzzers and the tests. What an operation does after releasing the lock,
  running the callbacks it collected and, when it closed the session, dropping the queues and shutting the stream, are steps of
  their own, which other threads may precede; but the writer thread and the owner of a server stream close a session in one step.
\<close>


section \<open>From the protocol into a frame\<close>

text \<open>C40: what the protocol encodes, the transport can send: with the transport's own limit as the limit of
  the encoder, an envelope is never refused by sealing for its size, and once sealed it fits a frame,
  provided the AEAD adds no more than its overhead.\<close>

theorem envelope_fits_frame:
  assumes "cobs_codec c" and "prost_codec pb"
    and aead: "\<And>ctx m p ctx'. hpke_seal h ctx m = Ok (p, ctx') \<Longrightarrow> length p \<le> length m + OVERHEAD"
    and limit: "MAX_MESSAGE_SIZE (cobs_encode_buffer c) = Some limit" and sent: "outgoing_bytes pb limit r i b = Ok bs"
  shows "\<exists>res. seal c h ctx bs = Some res \<and> (\<forall>n. res \<noteq> Err (PacketTooLarge n)) \<and>
    (\<forall>packet ctx'. res = Ok (packet, ctx') \<longrightarrow> cobs_encode_buffer c (length packet) \<le> MAX_FRAME_SIZE)"
proof -
  have "length bs \<le> limit"
    using envelope_encode_length [OF assms(2)] sent by (auto simp: outgoing_bytes_def)
  then obtain res where res: "seal c h ctx bs = Some res" "\<forall>n. res \<noteq> Err (PacketTooLarge n)"
    using limit by (auto simp: seal_def split: sum.splits)
  have "cobs_encode_buffer c (length packet) \<le> MAX_FRAME_SIZE" if "res = Ok (packet, ctx')" for packet ctx'
  proof (rule sealed_fits [OF assms(1)])
    show "seal c h ctx bs = Some (Ok (packet, ctx'))" using res(1) that by simp
  qed (rule aead)
  with res show ?thesis by blast
qed

theorem envelope_fits_frame_witness:
  "\<exists>res. seal cobs_reference sum_hpke 5 unlock_bytes = Some res \<and> (\<forall>n. res \<noteq> Err (PacketTooLarge n)) \<and>
     (\<forall>packet ctx'. res = Ok (packet, ctx') \<longrightarrow> cobs_encode_buffer cobs_reference (length packet) \<le> MAX_FRAME_SIZE)"
proof -
  obtain limit where limit: "MAX_MESSAGE_SIZE (cobs_encode_buffer cobs_reference) = Some limit" "1000 \<le> limit"
    using message_limit_reference by blast
  have "outgoing_bytes protobuf limit Client 1 (OutRequest demo_message) = Ok unlock_bytes"
    using envelope_encode_mono [OF unlock_encoded limit(2)] by (simp add: outgoing_bytes_def demo_message_def)
  from envelope_fits_frame [OF stuffing.cobs_codec_axioms reference.prost_codec_axioms _ limit(1) this, where h = sum_hpke and ctx = 5]
  show ?thesis by (auto simp: sum_hpke_def OVERHEAD_def)
qed

end
